(* ===== verification/Prelude.thy ===== *)
theory Prelude
  imports
    Main
    "HOL-Library.AList"
    "HOL-Library.Char_ord"
    "HOL-Library.List_Lexorder"
    "HOL-Library.Product_Lexorder"
begin

text \<open>
  What every component shares: the points in time and the durations the code computes
  with, the JSON values it stores, the association lists that stand for its hash maps,
  the strictly sorted lists that stand for its ordered sets, and the collections of
  rewrite rules the component theories fill.
\<close>

named_theorems kv_laws \<open>what a key/value store promises, as rewrite rules\<close>
named_theorems prog_defs \<open>the programs over the key/value port\<close>
named_theorems conv_defs \<open>the operations of the conversation store\<close>

section \<open>Time\<close>

text \<open>
  \<open>time::OffsetDateTime\<close> is a point in time in nanoseconds since the UNIX epoch, in UTC;
  \<open>std::time::Duration\<close> an unsigned span in nanoseconds. The dates the type can hold reach
  from the year -9999 to the year 9999 (the documented range of the \<open>time\<close> crate without its
  \<open>large-dates\<close> feature); its checked arithmetic answers \<open>None\<close> outside it. A
  \<open>std::time::Duration\<close> of more than \<open>i64::MAX\<close> seconds is refused by
  \<open>time::Duration::try_from\<close>.
\<close>

type_synonym time = int
type_synonym duration = nat

definition datetime_min :: time where
  "datetime_min = -377705116800 * 1000000000"

definition datetime_max :: time where
  "datetime_max = 253402300799 * 1000000000 + 999999999"

definition in_range :: "time \<Rightarrow> bool" where
  "in_range t \<longleftrightarrow> datetime_min \<le> t \<and> t \<le> datetime_max"

definition time_checked_add :: "time \<Rightarrow> int \<Rightarrow> time option" where
  "time_checked_add t d = (if in_range (t + d) then Some (t + d) else None)"

definition signed_duration :: "duration \<Rightarrow> int option" where
  "signed_duration d = (if d div 1000000000 < 2 ^ 63 then Some (int d) else None)"

definition secs :: "nat \<Rightarrow> duration" where
  "secs n = n * 1000000000"

definition mins :: "nat \<Rightarrow> duration" where
  "mins n = secs (60 * n)"

definition hours :: "nat \<Rightarrow> duration" where
  "hours n = secs (3600 * n)"

lemma time_checked_add_Some:
  "time_checked_add t d = Some u \<longleftrightarrow> u = t + d \<and> in_range (t + d)"
  by (auto simp: time_checked_add_def)

section \<open>Milliseconds\<close>

definition I64_MAX :: int where "I64_MAX = 2 ^ 63 - 1"
definition I64_MIN :: int where "I64_MIN = - (2 ^ 63)"

text \<open>Rust's integer division truncates towards zero.\<close>

definition to_ms :: "time \<Rightarrow> int" where
  "to_ms t =
     (let ms = (if t \<ge> 0 then t div 1000000 else - ((- t) div 1000000))
      in if I64_MIN \<le> ms \<and> ms \<le> I64_MAX then ms else I64_MAX)"

definition from_ms :: "int \<Rightarrow> time" where
  "from_ms ms = (let ns = ms * 1000000 in if in_range ns then ns else 0)"

definition duration_ms :: "duration \<Rightarrow> int" where
  "duration_ms d =
     (let ms = int (d div 1000000) in if ms \<le> I64_MAX then ms else I64_MAX)"

definition i64_saturating_sub :: "int \<Rightarrow> int \<Rightarrow> int" where
  "i64_saturating_sub a b = max I64_MIN (min I64_MAX (a - b))"

section \<open>JSON values\<close>

text \<open>
  \<open>serde_json::Value\<close>: a number keeps its literal text, an object its members in order.
\<close>

datatype json =
  JNull
| JBool bool
| JNumber string
| JString string
| JArray "json list"
| JObject "(string \<times> json) list"

fun json_get :: "json \<Rightarrow> string \<Rightarrow> json option" where
  "json_get (JObject members) field = map_of members field"
| "json_get _ field = None"

fun json_as_str :: "json \<Rightarrow> string option" where
  "json_as_str (JString s) = Some s"
| "json_as_str _ = None"

text \<open>What a recursion into a value descends by.\<close>

lemma item_smaller: "v \<in> set items \<Longrightarrow> size v < size (JArray items)"
  using size_list_estimation'[of v items "size v" size] by simp

lemma member_smaller: "(k, v) \<in> set members \<Longrightarrow> size v < size (JObject members)"
  using size_list_estimation'[of "(k, v)" members "size v" "size_prod (\<lambda>_. 0) size"] by simp

section \<open>Hash maps\<close>

text \<open>
  A \<open>HashMap\<close> (or a \<open>BTreeMap\<close> whose order plays no part) is an association list with
  distinct keys: \<open>map_of\<close> looks a key up, \<open>AList.update\<close> inserts or replaces,
  \<open>AList.delete\<close> removes, \<open>filter\<close> retains.
\<close>

type_synonym ('k, 'v) hashmap = "('k \<times> 'v) list"

definition keys_distinct :: "('k, 'v) hashmap \<Rightarrow> bool" where
  "keys_distinct m \<longleftrightarrow> distinct (map fst m)"

lemma keys_distinct_Nil [simp, intro]: "keys_distinct []"
  by (simp add: keys_distinct_def)

lemma keys_distinct_update [simp, intro]:
  "keys_distinct m \<Longrightarrow> keys_distinct (AList.update k v m)"
  by (simp add: keys_distinct_def distinct_update)

lemma keys_distinct_delete [simp, intro]:
  "keys_distinct m \<Longrightarrow> keys_distinct (AList.delete k m)"
  by (simp add: keys_distinct_def distinct_delete)

lemma keys_distinct_filter [simp, intro]:
  "keys_distinct m \<Longrightarrow> keys_distinct (filter P m)"
  by (induction m) (auto simp: keys_distinct_def)

lemma map_of_al_update [simp]:
  "map_of (AList.update k v m) x = (if x = k then Some v else map_of m x)"
  by (simp add: update_conv')

lemma map_of_al_delete [simp]:
  "map_of (AList.delete k m) x = (if x = k then None else map_of m x)"
  by (simp add: delete_conv')

lemma map_of_al_filter:
  "keys_distinct m \<Longrightarrow>
     map_of (filter P m) x = (case map_of m x of None \<Rightarrow> None
                              | Some v \<Rightarrow> if P (x, v) then Some v else None)"
  by (induction m) (auto simp: keys_distinct_def map_of_eq_None_iff rev_image_eqI split: option.splits)

lemma map_of_mem:
  "keys_distinct m \<Longrightarrow> (x, v) \<in> set m \<longleftrightarrow> map_of m x = Some v"
  by (auto simp: keys_distinct_def dest: map_of_SomeD)

section \<open>Ordered sets\<close>

text \<open>
  A \<open>BTreeSet\<close> is a strictly sorted list: \<open>insort_insert\<close> inserts, \<open>removeAll\<close> removes.
\<close>

definition oset_ok :: "('a::linorder) list \<Rightarrow> bool" where
  "oset_ok xs \<longleftrightarrow> sorted xs \<and> distinct xs"

definition oset_insert :: "('a::linorder) \<Rightarrow> 'a list \<Rightarrow> 'a list" where
  "oset_insert x xs = insort_insert x xs"

definition oset_remove :: "'a \<Rightarrow> 'a list \<Rightarrow> 'a list" where
  "oset_remove x xs = removeAll x xs"

lemma oset_ok_Nil [simp, intro]: "oset_ok []"
  by (simp add: oset_ok_def)

lemma oset_ok_insert [simp, intro]: "oset_ok xs \<Longrightarrow> oset_ok (oset_insert x xs)"
  by (simp add: oset_ok_def oset_insert_def sorted_insort_insert distinct_insort_insert)

lemma set_oset_insert [simp]: "set (oset_insert x xs) = insert x (set xs)"
  by (simp add: oset_insert_def set_insort_insert)

lemma oset_ok_remove [simp, intro]: "oset_ok xs \<Longrightarrow> oset_ok (oset_remove x xs)"
  by (induction xs) (auto simp: oset_ok_def oset_remove_def)

lemma set_oset_remove [simp]: "set (oset_remove x xs) = set xs - {x}"
  by (auto simp: oset_remove_def)

lemma oset_remove_Nil_iff: "oset_remove x xs = [] \<longleftrightarrow> set xs \<subseteq> {x}"
  by (induction xs) (auto simp: oset_remove_def)

lemma oset_ok_filter [simp, intro]: "oset_ok xs \<Longrightarrow> oset_ok (filter P xs)"
  by (simp add: oset_ok_def sorted_wrt_filter)

lemma oset_eqI: "oset_ok xs \<Longrightarrow> oset_ok ys \<Longrightarrow> set xs = set ys \<Longrightarrow> xs = ys"
  by (simp add: oset_ok_def sorted_distinct_set_unique)

section \<open>Text\<close>

text \<open>
  A Rust \<open>str\<close> is its UTF-8 bytes. \<open>str::trim\<close> strips the characters with the Unicode property
  \<open>White_Space\<close>, given here by their encodings; \<open>strip_prefix\<close> is the library's.
\<close>

definition white_space :: "string list" where
  "white_space =
     [[CHR 0x09], [CHR 0x0A], [CHR 0x0B], [CHR 0x0C], [CHR 0x0D], [CHR 0x20],
      [CHR 0xC2, CHR 0x85], [CHR 0xC2, CHR 0xA0], [CHR 0xE1, CHR 0x9A, CHR 0x80],
      [CHR 0xE2, CHR 0x80, CHR 0x80], [CHR 0xE2, CHR 0x80, CHR 0x81],
      [CHR 0xE2, CHR 0x80, CHR 0x82], [CHR 0xE2, CHR 0x80, CHR 0x83],
      [CHR 0xE2, CHR 0x80, CHR 0x84], [CHR 0xE2, CHR 0x80, CHR 0x85],
      [CHR 0xE2, CHR 0x80, CHR 0x86], [CHR 0xE2, CHR 0x80, CHR 0x87],
      [CHR 0xE2, CHR 0x80, CHR 0x88], [CHR 0xE2, CHR 0x80, CHR 0x89],
      [CHR 0xE2, CHR 0x80, CHR 0x8A], [CHR 0xE2, CHR 0x80, CHR 0xA8],
      [CHR 0xE2, CHR 0x80, CHR 0xA9], [CHR 0xE2, CHR 0x80, CHR 0xAF],
      [CHR 0xE2, CHR 0x81, CHR 0x9F], [CHR 0xE3, CHR 0x80, CHR 0x80]]"

fun strip_while_in :: "string list \<Rightarrow> string \<Rightarrow> string" where
  "strip_while_in ws [] = []"
| "strip_while_in ws (c # cs) =
     (if [c] \<in> set ws then strip_while_in ws cs
      else if take 2 (c # cs) \<in> set ws then strip_while_in ws (drop 1 cs)
      else if take 3 (c # cs) \<in> set ws then strip_while_in ws (drop 2 cs)
      else c # cs)"

definition trim :: "string \<Rightarrow> string" where
  "trim s = rev (strip_while_in (map rev white_space) (rev (strip_while_in white_space s)))"

definition strip_prefix :: "string \<Rightarrow> string \<Rightarrow> string option" where
  "strip_prefix p s = (if take (length p) s = p then Some (drop (length p) s) else None)"

lemma strip_prefix_append [simp]: "strip_prefix p (p @ s) = Some s"
  by (simp add: strip_prefix_def)

lemma strip_prefix_Some: "strip_prefix p s = Some r \<longleftrightarrow> s = p @ r"
  by (auto simp: strip_prefix_def) (metis append_take_drop_id)

text \<open>A text whose ends are plain (no byte that white space is made of) is already trimmed.\<close>

definition plain_byte :: "char \<Rightarrow> bool" where
  "plain_byte c \<longleftrightarrow> c \<notin> set (concat white_space)"

lemma strip_while_in_plain:
  assumes "c \<notin> set (concat ws)" and "[] \<notin> set ws"
  shows "strip_while_in ws (c # cs) = c # cs"
proof -
  have "w \<notin> set ws" if "c \<in> set w" for w
    using assms(1) that by auto
  moreover have "c \<in> set (take 2 (c # cs))" "c \<in> set (take 3 (c # cs))"
    by (simp_all add: eval_nat_numeral)
  ultimately show ?thesis by simp
qed

lemma trim_plain:
  assumes "s \<noteq> []" "plain_byte (hd s)" "plain_byte (last s)"
  shows "trim s = s"
proof -
  have n: "[] \<notin> set white_space" "[] \<notin> set (map rev white_space)"
    by (auto simp: white_space_def)
  have "strip_while_in white_space s = s"
    using assms(1,2) n(1) strip_while_in_plain[of "hd s" white_space "tl s"]
    by (simp add: plain_byte_def)
  moreover have "strip_while_in (map rev white_space) (rev s) = rev s"
    using assms(1,3) n(2) strip_while_in_plain[of "last s" "map rev white_space" "tl (rev s)"]
    by (cases s rule: rev_cases) (auto simp: plain_byte_def)
  ultimately show ?thesis by (simp add: trim_def)
qed

text \<open>
  Base 16 (the \<open>hex\<close> crate: \<open>encode\<close> writes two lower-case digits per byte, \<open>decode\<close> accepts
  either case and refuses an odd length or another character).
\<close>

definition hex_digits :: string where
  "hex_digits = ''0123456789abcdef''"

definition hex_value :: "char \<Rightarrow> nat option" where
  "hex_value c =
     (let n = (of_char c :: nat)
      in if 48 \<le> n \<and> n \<le> 57 then Some (n - 48)
         else if 97 \<le> n \<and> n \<le> 102 then Some (n - 87)
         else if 65 \<le> n \<and> n \<le> 70 then Some (n - 55)
         else None)"

fun hex_encode :: "string \<Rightarrow> string" where
  "hex_encode [] = []"
| "hex_encode (c # cs) =
     hex_digits ! (of_char c div 16) # hex_digits ! (of_char c mod 16) # hex_encode cs"

fun hex_decode :: "string \<Rightarrow> string option" where
  "hex_decode [] = Some []"
| "hex_decode [_] = None"
| "hex_decode (a # b # cs) =
     (case (hex_value a, hex_value b, hex_decode cs) of
        (Some x, Some y, Some r) \<Rightarrow> Some (char_of (16 * x + y) # r)
      | _ \<Rightarrow> None)"

lemma length_hex_encode [simp]: "length (hex_encode s) = 2 * length s"
  by (induction s rule: hex_encode.induct) auto

lemma hex_value_digit: "n < 16 \<Longrightarrow> hex_value (hex_digits ! n) = Some n"
proof -
  assume "n < 16"
  then have "n \<in> set [0..<16]" by simp
  then show ?thesis by (auto simp: hex_digits_def hex_value_def upt_conv_Cons)
qed

lemma of_char_lt: "(of_char c :: nat) < 256"
  by (metis of_char_of mod_less_divisor char_of_nat zero_less_numeral of_char_mod_256)

lemma hex_roundtrip [simp]: "hex_decode (hex_encode s) = Some s"
  by (induction s rule: hex_encode.induct)
    (simp_all add: hex_value_digit less_mult_imp_div_less[of _ 16 16, simplified] of_char_lt)

lemma hex_encode_inj: "hex_encode a = hex_encode b \<Longrightarrow> a = b"
  by (metis hex_roundtrip option.inject)

lemma hex_encode_plain: "c \<in> set (hex_encode s) \<Longrightarrow> plain_byte c"
proof (induction s rule: hex_encode.induct)
  case (2 x xs)
  have "plain_byte d" if "d \<in> set hex_digits" for d
    using that by (auto simp: hex_digits_def plain_byte_def white_space_def)
  moreover have "hex_digits ! n \<in> set hex_digits" if "n < 16" for n
    using that by (intro nth_mem) (simp add: hex_digits_def)
  ultimately show ?case
    using 2 of_char_lt[of x] by (auto simp: less_mult_imp_div_less)
qed simp

text \<open>Decimal notation, as \<open>to_string\<close> writes an unsigned integer.\<close>

fun show_nat :: "nat \<Rightarrow> string" where
  "show_nat n = (if n < 10 then [char_of (48 + n)] else show_nat (n div 10) @ [char_of (48 + n mod 10)])"

declare show_nat.simps [simp del]

definition digit_char :: "char \<Rightarrow> bool" where
  "digit_char c \<longleftrightarrow> 48 \<le> (of_char c :: nat) \<and> (of_char c :: nat) \<le> 57"

lemma digit_char_of: "d < 10 \<Longrightarrow> digit_char (char_of (48 + d :: nat))"
  by (simp add: digit_char_def)

lemma show_nat_digits: "c \<in> set (show_nat n) \<Longrightarrow> digit_char c"
proof (induction n rule: show_nat.induct)
  case (1 n)
  show ?case
  proof (cases "n < 10")
    case True
    then have "show_nat n = [char_of (48 + n)]" by (subst show_nat.simps) simp
    then show ?thesis using 1(2) True digit_char_of by simp
  next
    case False
    then have "show_nat n = show_nat (n div 10) @ [char_of (48 + n mod 10)]"
      by (subst show_nat.simps) simp
    then show ?thesis using 1 False digit_char_of[of "n mod 10"] by auto
  qed
qed

lemma show_nat_nonempty [simp]: "show_nat n \<noteq> []"
  by (subst show_nat.simps) simp

fun read_nat :: "string \<Rightarrow> nat \<Rightarrow> nat" where
  "read_nat [] acc = acc"
| "read_nat (c # cs) acc = read_nat cs (10 * acc + (of_char c - 48))"

lemma read_nat_append: "read_nat (a @ b) acc = read_nat b (read_nat a acc)"
  by (induction a arbitrary: acc) auto

lemma read_nat_show: "read_nat (show_nat n) 0 = n"
proof (induction n rule: show_nat.induct)
  case (1 n)
  show ?case
  proof (cases "n < 10")
    case True
    then show ?thesis by (subst show_nat.simps) simp
  next
    case False
    then show ?thesis using 1 by (subst show_nat.simps) (simp add: read_nat_append)
  qed
qed

lemma show_nat_inj: "show_nat m = show_nat n \<Longrightarrow> m = n"
  by (metis read_nat_show)

lemma not_digit_char [simp]: "\<not> digit_char CHR '':''" "\<not> digit_char CHR ''|''"
  by (simp_all add: digit_char_def)

text \<open>A text up to its first \<open>sep\<close> is determined by the whole.\<close>

lemma split_at_sep:
  "a @ sep # x = b @ sep # y \<Longrightarrow> sep \<notin> set a \<Longrightarrow> sep \<notin> set b \<Longrightarrow> a = b \<and> x = y"
  by (induction a arbitrary: b) (case_tac b; auto)+

end
