(* ===== verification/Error_Tree.thy ===== *)
theory Error_Tree
  imports Prelude
begin

text \<open>
  The error tree of \<open>meta-whatsapp-core/src/error\<close>: the leaves (\<open>leaf.rs\<close>), Graph API
  errors and their classification (\<open>graph.rs\<close>), the credit line and conversion nodes
  (\<open>credit.rs\<close>, \<open>conversion.rs\<close>) and the root with its four questions (\<open>mod.rs\<close>): which
  kind an error is, whether to retry it, whether what failed may have been sent, and whether
  it may be sent again automatically. An opaque \<open>anyhow::Error\<close> or serde error is kept as its
  text. The lemmas say which codes are retryable, that wrapping an error in steps changes no
  answer but the automatic resend, and exactly which errors may be resent.
\<close>

section \<open>Leaves\<close>

type_synonym anyhow = string

datatype transport_error =
  Timeout | Connect anyhow | Build string | Backend anyhow | Integrity string

fun transport_is_retryable :: "transport_error \<Rightarrow> bool" where
  "transport_is_retryable Timeout = True"
| "transport_is_retryable (Connect _) = True"
| "transport_is_retryable (Integrity _) = True"
| "transport_is_retryable _ = False"

datatype storage_error =
  Corrupt string anyhow | Backend anyhow | Busy

definition storage_is_busy :: "storage_error \<Rightarrow> bool" where
  "storage_is_busy e \<longleftrightarrow> e = storage_error.Busy"

datatype sink_error =
  Closed | Full | Delivery anyhow | Permanent anyhow

fun sink_is_permanent :: "sink_error \<Rightarrow> bool" where
  "sink_is_permanent (Permanent _) = True"
| "sink_is_permanent _ = False"

record validation_error =
  ve_field :: string
  ve_reason :: string

definition validation_new :: "string \<Rightarrow> string \<Rightarrow> validation_error" where
  "validation_new field reason = \<lparr>ve_field = field, ve_reason = reason\<rparr>"

definition CUSTOMER_SERVICE_WINDOW :: string where
  "CUSTOMER_SERVICE_WINDOW = ''customer_service_window''"

definition THREAD_OWNER :: string where
  "THREAD_OWNER = ''thread_owner''"

definition customer_service_window_closed :: validation_error where
  "customer_service_window_closed =
     validation_new CUSTOMER_SERVICE_WINDOW
       ''more than 24 hours since the customer's last message; send a template''"

definition thread_owned_elsewhere :: validation_error where
  "thread_owned_elsewhere =
     validation_new THREAD_OWNER
       ''another app owns this thread under Conversation Routing; a template needs no ownership''"

definition is_customer_service_window_closed :: "validation_error \<Rightarrow> bool" where
  "is_customer_service_window_closed v \<longleftrightarrow> ve_field v = CUSTOMER_SERVICE_WINDOW"

definition is_thread_owned_elsewhere :: "validation_error \<Rightarrow> bool" where
  "is_thread_owned_elsewhere v \<longleftrightarrow> ve_field v = THREAD_OWNER"

datatype webhook_error =
  MissingSignature | MalformedSignature | SignatureMismatch
| InvalidVerificationRequest string | VerifyTokenMismatch | Parse anyhow
| ClaimInFlight | PayloadTooLarge nat nat

datatype crypto_error =
  InvalidKey string | Decrypt | Encrypt | Malformed string | Rng

datatype config_error = ConfigError string

section \<open>Graph API errors\<close>

record graph_api_error =
  ge_code :: int
  ge_message :: string
  ge_title :: "string option"
  ge_error_type :: "string option"
  ge_error_subcode :: "int option"
  ge_error_data :: "json option"
  ge_error_user_title :: "string option"
  ge_error_user_msg :: "string option"
  ge_is_transient :: "bool option"
  ge_fbtrace_id :: "string option"
  ge_href :: "string option"
  ge_http_status :: "nat option"

definition graph_new :: "int \<Rightarrow> string \<Rightarrow> graph_api_error" where
  "graph_new code message =
     \<lparr>ge_code = code, ge_message = message, ge_title = None, ge_error_type = None,
      ge_error_subcode = None, ge_error_data = None, ge_error_user_title = None,
      ge_error_user_msg = None, ge_is_transient = None, ge_fbtrace_id = None,
      ge_href = None, ge_http_status = None\<rparr>"

definition graph_summary :: "graph_api_error \<Rightarrow> string" where
  "graph_summary e =
     (if ge_message e = [] then (case ge_title e of None \<Rightarrow> [] | Some t \<Rightarrow> t) else ge_message e)"

definition graph_details :: "graph_api_error \<Rightarrow> string option" where
  "graph_details e =
     (case ge_error_data e of
        None \<Rightarrow> None
      | Some (JString s) \<Rightarrow> Some s
      | Some (JObject ms) \<Rightarrow> Option.bind (json_get (JObject ms) ''details'') json_as_str
      | Some _ \<Rightarrow> None)"

text \<open>
  \<open>ErrorKind\<close>, with its variants in the source's order, \<open>ErrorKind::ALL\<close>, \<open>as_str\<close> and
  \<open>from_code\<close>.
\<close>

datatype (plugins only: size) error_kind =
    Authentication | Permission | RateLimited | SpamRateLimited | PairRateLimited |
    ClassificationLimitReached | AccountRestricted | CountryRestricted | InvalidParameter |
    UnsupportedMessageType | CustomerServiceWindowClosed | ThreadOwnedElsewhere |
    EcosystemEngagementLimit | MarketingOptedOut | MarketingNotAllowed | Undeliverable |
    BlockedByBusiness | ExperimentHoldout | RecipientNotSupported | MediaDownloadFailed |
    MediaUploadFailed | TemplateParameterMismatch | TemplateNotFound | TemplateTextTooLong |
    TemplatePolicyViolation | TemplatePaused | TemplateDisabled | TemplateSyncing |
    TemplateUnavailable | TemplateLimitReached | TemplateRejected | SampleTemplateNotAllowed |
    FlowUnavailable | Registration | TwoStepVerification | SyncNotAllowed | DuplicateOnboarding
    | NotFound | FeatureNotAvailable | GroupPartiallyApplied | RecipientTermsNotAccepted |
    GroupSuspended | GroupRateLimited | GroupLimitReached | GroupCreationDisabled |
    GroupParticipantNotFound | JoinRequestNotFound | InvalidCursor | CallingNotEnabled |
    CallingTemporarilyDisabled | CallPermissionMissing | CallPermissionAlreadyGranted |
    CallAlreadyOngoing | CallLimitReached | CallConnectionFailed | CallMediaTimeout | Payment |
    ServiceUnavailable | Unknown

definition all_kinds :: "error_kind list" where
  "all_kinds = [Authentication, Permission, RateLimited, SpamRateLimited, PairRateLimited,
     ClassificationLimitReached, AccountRestricted, CountryRestricted, InvalidParameter,
     UnsupportedMessageType, CustomerServiceWindowClosed, ThreadOwnedElsewhere,
     EcosystemEngagementLimit, MarketingOptedOut, MarketingNotAllowed, Undeliverable,
     BlockedByBusiness, ExperimentHoldout, RecipientNotSupported, MediaDownloadFailed,
     MediaUploadFailed, TemplateParameterMismatch, TemplateNotFound, TemplateTextTooLong,
     TemplatePolicyViolation, TemplatePaused, TemplateDisabled, TemplateSyncing,
     TemplateUnavailable, TemplateLimitReached, TemplateRejected, SampleTemplateNotAllowed,
     FlowUnavailable, Registration, TwoStepVerification, SyncNotAllowed, DuplicateOnboarding,
     NotFound, FeatureNotAvailable, GroupPartiallyApplied, RecipientTermsNotAccepted,
     GroupSuspended, GroupRateLimited, GroupLimitReached, GroupCreationDisabled,
     GroupParticipantNotFound, JoinRequestNotFound, InvalidCursor, CallingNotEnabled,
     CallingTemporarilyDisabled, CallPermissionMissing, CallPermissionAlreadyGranted,
     CallAlreadyOngoing, CallLimitReached, CallConnectionFailed, CallMediaTimeout, Payment,
     ServiceUnavailable, Unknown]"

primrec kind_as_str :: "error_kind \<Rightarrow> string" where
  "kind_as_str Authentication = ''authentication''"
| "kind_as_str Permission = ''permission''"
| "kind_as_str RateLimited = ''rate_limited''"
| "kind_as_str SpamRateLimited = ''spam_rate_limited''"
| "kind_as_str PairRateLimited = ''pair_rate_limited''"
| "kind_as_str ClassificationLimitReached = ''classification_limit_reached''"
| "kind_as_str AccountRestricted = ''account_restricted''"
| "kind_as_str CountryRestricted = ''country_restricted''"
| "kind_as_str InvalidParameter = ''invalid_parameter''"
| "kind_as_str UnsupportedMessageType = ''unsupported_message_type''"
| "kind_as_str CustomerServiceWindowClosed = ''customer_service_window_closed''"
| "kind_as_str ThreadOwnedElsewhere = ''thread_owned_elsewhere''"
| "kind_as_str EcosystemEngagementLimit = ''ecosystem_engagement_limit''"
| "kind_as_str MarketingOptedOut = ''marketing_opted_out''"
| "kind_as_str MarketingNotAllowed = ''marketing_not_allowed''"
| "kind_as_str Undeliverable = ''undeliverable''"
| "kind_as_str BlockedByBusiness = ''blocked_by_business''"
| "kind_as_str ExperimentHoldout = ''experiment_holdout''"
| "kind_as_str RecipientNotSupported = ''recipient_not_supported''"
| "kind_as_str MediaDownloadFailed = ''media_download_failed''"
| "kind_as_str MediaUploadFailed = ''media_upload_failed''"
| "kind_as_str TemplateParameterMismatch = ''template_parameter_mismatch''"
| "kind_as_str TemplateNotFound = ''template_not_found''"
| "kind_as_str TemplateTextTooLong = ''template_text_too_long''"
| "kind_as_str TemplatePolicyViolation = ''template_policy_violation''"
| "kind_as_str TemplatePaused = ''template_paused''"
| "kind_as_str TemplateDisabled = ''template_disabled''"
| "kind_as_str TemplateSyncing = ''template_syncing''"
| "kind_as_str TemplateUnavailable = ''template_unavailable''"
| "kind_as_str TemplateLimitReached = ''template_limit_reached''"
| "kind_as_str TemplateRejected = ''template_rejected''"
| "kind_as_str SampleTemplateNotAllowed = ''sample_template_not_allowed''"
| "kind_as_str FlowUnavailable = ''flow_unavailable''"
| "kind_as_str Registration = ''registration''"
| "kind_as_str TwoStepVerification = ''two_step_verification''"
| "kind_as_str SyncNotAllowed = ''sync_not_allowed''"
| "kind_as_str DuplicateOnboarding = ''duplicate_onboarding''"
| "kind_as_str NotFound = ''not_found''"
| "kind_as_str FeatureNotAvailable = ''feature_not_available''"
| "kind_as_str GroupPartiallyApplied = ''group_partially_applied''"
| "kind_as_str RecipientTermsNotAccepted = ''recipient_terms_not_accepted''"
| "kind_as_str GroupSuspended = ''group_suspended''"
| "kind_as_str GroupRateLimited = ''group_rate_limited''"
| "kind_as_str GroupLimitReached = ''group_limit_reached''"
| "kind_as_str GroupCreationDisabled = ''group_creation_disabled''"
| "kind_as_str GroupParticipantNotFound = ''group_participant_not_found''"
| "kind_as_str JoinRequestNotFound = ''join_request_not_found''"
| "kind_as_str InvalidCursor = ''invalid_cursor''"
| "kind_as_str CallingNotEnabled = ''calling_not_enabled''"
| "kind_as_str CallingTemporarilyDisabled = ''calling_temporarily_disabled''"
| "kind_as_str CallPermissionMissing = ''call_permission_missing''"
| "kind_as_str CallPermissionAlreadyGranted = ''call_permission_already_granted''"
| "kind_as_str CallAlreadyOngoing = ''call_already_ongoing''"
| "kind_as_str CallLimitReached = ''call_limit_reached''"
| "kind_as_str CallConnectionFailed = ''call_connection_failed''"
| "kind_as_str CallMediaTimeout = ''call_media_timeout''"
| "kind_as_str Payment = ''payment''"
| "kind_as_str ServiceUnavailable = ''service_unavailable''"
| "kind_as_str Unknown = ''unknown''"

definition from_code :: "int \<Rightarrow> error_kind" where
  "from_code code =
    (if code \<in> {0, 190} then Authentication
     else if code \<in> {3, 10, 131005} \<or> (200 \<le> code \<and> code \<le> 299) then Permission
     else if code \<in> {4, 80007, 80008, 80009, 80014, 130429, 613} then RateLimited
     else if code = 131048 then SpamRateLimited
     else if code = 131056 then PairRateLimited
     else if code = 131064 then ClassificationLimitReached
     else if code \<in> {368, 131031} then AccountRestricted
     else if code = 130497 then CountryRestricted
     else if code \<in> {33, 100, 131008, 131009, 131021, 135000, 2494176, 2494177, 2494179, 131202, 131209, 131210} \<or> (2494166 \<le> code \<and> code \<le> 2494168) then InvalidParameter
     else if code = 131051 then UnsupportedMessageType
     else if code = 131047 then CustomerServiceWindowClosed
     else if code = 131070 then ThreadOwnedElsewhere
     else if code = 131049 then EcosystemEngagementLimit
     else if code = 131050 then MarketingOptedOut
     else if code \<in> {131055, 131063, 134100} then MarketingNotAllowed
     else if code \<in> {131020, 131026, 131030, 138001} then Undeliverable
     else if code = 130403 then BlockedByBusiness
     else if code = 130472 then ExperimentHoldout
     else if code = 131062 then RecipientNotSupported
     else if code = 131052 then MediaDownloadFailed
     else if code = 131053 then MediaUploadFailed
     else if code \<in> {132000, 132012, 132018} then TemplateParameterMismatch
     else if code = 132001 then TemplateNotFound
     else if code = 132005 then TemplateTextTooLong
     else if code = 132007 then TemplatePolicyViolation
     else if code = 132015 then TemplatePaused
     else if code = 132016 then TemplateDisabled
     else if code = 134101 then TemplateSyncing
     else if code = 134102 then TemplateUnavailable
     else if code = 2388019 then TemplateLimitReached
     else if code \<in> {2388039, 2388040, 2388047, 2388072, 2388073, 2388293, 2388299} then TemplateRejected
     else if code = 131058 then SampleTemplateNotAllowed
     else if code \<in> {132068, 132069} then FlowUnavailable
     else if code \<in> {131037, 131045, 133000, 133006, 133010, 133015, 133016, 136024} then Registration
     else if code \<in> {133005, 133008, 133009} then TwoStepVerification
     else if (2593107 \<le> code \<and> code \<le> 2593109) then SyncNotAllowed
     else if code = 1752041 then DuplicateOnboarding
     else if code \<in> {131041, 2494164} then NotFound
     else if code \<in> {2494165, 131215, 138013} then FeatureNotAvailable
     else if code = 131059 then InvalidCursor
     else if code = 131201 then GroupPartiallyApplied
     else if code = 131203 then RecipientTermsNotAccepted
     else if code \<in> {131204, 131211} then GroupLimitReached
     else if code = 131207 then GroupSuspended
     else if code = 131208 then GroupRateLimited
     else if code = 131212 then GroupParticipantNotFound
     else if code = 131213 then JoinRequestNotFound
     else if code = 131214 then GroupCreationDisabled
     else if code \<in> {138000, 138015, 138018} then CallingNotEnabled
     else if code = 138014 then CallingTemporarilyDisabled
     else if code = 138006 then CallPermissionMissing
     else if code = 138017 then CallPermissionAlreadyGranted
     else if code = 138003 then CallAlreadyOngoing
     else if code \<in> {138002, 138005, 138009, 138012} then CallLimitReached
     else if code \<in> {138004, 138007, 138019, 138020} then CallConnectionFailed
     else if (138021 \<le> code \<and> code \<le> 138023) then CallMediaTimeout
     else if code \<in> {131042, 131044, 134011} then Payment
     else if code \<in> {1, 2, 131000, 131016, 131057, 133004, 2494100} then ServiceUnavailable
     else Unknown)"

definition kind_is_retryable :: "error_kind \<Rightarrow> bool" where
  "kind_is_retryable k \<longleftrightarrow>
     k = RateLimited \<or> k = PairRateLimited \<or> k = ServiceUnavailable \<or> k = TemplateSyncing"

definition is_rejected_before_processing :: "error_kind \<Rightarrow> bool" where
  "is_rejected_before_processing k \<longleftrightarrow> k = RateLimited \<or> k = PairRateLimited"

definition graph_kind :: "graph_api_error \<Rightarrow> error_kind" where
  "graph_kind e = from_code (ge_code e)"

definition graph_is_retryable :: "graph_api_error \<Rightarrow> bool" where
  "graph_is_retryable e \<longleftrightarrow> ge_is_transient e = Some True \<or> kind_is_retryable (graph_kind e)"

definition MAINTENANCE_MODE :: int where
  "MAINTENANCE_MODE = 131057"

definition is_maintenance :: "graph_api_error \<Rightarrow> bool" where
  "is_maintenance e \<longleftrightarrow> ge_code e = MAINTENANCE_MODE"

definition BUSINESS_USE_CASE_LIMITS :: "int list" where
  "BUSINESS_USE_CASE_LIMITS = [80008, 80009, 80014]"

definition is_business_use_case_limit :: "graph_api_error \<Rightarrow> bool" where
  "is_business_use_case_limit e \<longleftrightarrow> ge_code e \<in> set BUSINESS_USE_CASE_LIMITS"

section \<open>Conversion errors\<close>

datatype conversion_error =
  BinaryMissing string | EncoderMissing string | Timeout duration
| InputRejected string | OutputInvalid string | Killed string

fun conversion_kind :: "conversion_error \<Rightarrow> error_kind" where
  "conversion_kind (BinaryMissing _) = FeatureNotAvailable"
| "conversion_kind (EncoderMissing _) = FeatureNotAvailable"
| "conversion_kind (conversion_error.Timeout _) = ServiceUnavailable"
| "conversion_kind (InputRejected _) = InvalidParameter"
| "conversion_kind (OutputInvalid _) = Unknown"
| "conversion_kind (Killed _) = Unknown"

fun conversion_is_retryable :: "conversion_error \<Rightarrow> bool" where
  "conversion_is_retryable (conversion_error.Timeout _) = True"
| "conversion_is_retryable _ = False"

definition conversion_may_have_been_sent :: "conversion_error \<Rightarrow> bool" where
  "conversion_may_have_been_sent e = False"

section \<open>The root and the credit line node\<close>

record credit_revocation =
  cr_business_id :: "string option"
  cr_revoked :: "string list"
  cr_already_revoked :: "string list"

definition credit_revocation_new :: "string option \<Rightarrow> credit_revocation" where
  "credit_revocation_new business =
     \<lparr>cr_business_id = business, cr_revoked = [], cr_already_revoked = []\<rparr>"

definition credit_revocation_all :: "credit_revocation \<Rightarrow> string list" where
  "credit_revocation_all r = cr_revoked r @ cr_already_revoked r"

text \<open>
  The credit line errors hold errors of the root, which holds them: \<open>'e\<close> is the root's type.
\<close>

datatype 'e revocation_incomplete =
  Incomplete
    (ri_report: credit_revocation)
    (ri_failed: "string list")
    (ri_unconfirmed: "string list")
    (ri_unattributed: "string list")
    (ri_share_pending: bool)
    (ri_deletes_sent: bool)
    (ri_ledger: "'e option")
    (ri_source: "'e option")

datatype 'e credit_error =
  Revoked "string option" string bool
| Busy string bool
| OwnerUnknown string
| StatusUnknown string string
| ApprovalRequired string
| Reconcile string
| AttachFailed string 'e
| RevocationIncomplete "'e revocation_incomplete"

datatype error =
  Api graph_api_error
| Http nat string
| Transport transport_error
| Decode string anyhow string
| Validation validation_error
| Webhook webhook_error
| Storage storage_error
| Sink sink_error
| Crypto crypto_error
| Config config_error
| Credit "error credit_error"
| Conversion conversion_error
| Step string error
| Other anyhow

definition revocation_incomplete_new :: "credit_revocation \<Rightarrow> error revocation_incomplete" where
  "revocation_incomplete_new report = Incomplete report [] [] [] False False None None"

definition ri_is_incomplete :: "error revocation_incomplete \<Rightarrow> bool" where
  "ri_is_incomplete r \<longleftrightarrow>
     ri_source r \<noteq> None \<or> ri_failed r \<noteq> [] \<or> ri_unconfirmed r \<noteq> [] \<or> ri_unattributed r \<noteq> []
     \<or> ri_share_pending r \<or> ri_ledger r \<noteq> None"

definition in_step :: "string \<Rightarrow> error \<Rightarrow> error" where
  "in_step step e = Step step e"

fun error_graph :: "error \<Rightarrow> graph_api_error option" where
  "error_graph (Api e) = Some e"
| "error_graph (Step _ source) = error_graph source"
| "error_graph _ = None"

fun error_credit :: "error \<Rightarrow> error credit_error option" where
  "error_credit (Credit e) = Some e"
| "error_credit (Step _ source) = error_credit source"
| "error_credit _ = None"

fun error_conversion :: "error \<Rightarrow> conversion_error option" where
  "error_conversion (Conversion e) = Some e"
| "error_conversion (Step _ source) = error_conversion source"
| "error_conversion _ = None"

fun credit_revocation_of :: "error credit_error \<Rightarrow> error revocation_incomplete option" where
  "credit_revocation_of (RevocationIncomplete r) = Some r"
| "credit_revocation_of _ = None"

text \<open>The questions below recurse from a node to the errors it holds.\<close>

abbreviation node_order ::
  "((error + error credit_error + error revocation_incomplete)
    \<times> (error + error credit_error + error revocation_incomplete)) set" where
  "node_order \<equiv>
     measure (case_sum size (case_sum (size_credit_error size) (size_revocation_incomplete size)))"

function (sequential) error_kind_of :: "error \<Rightarrow> error_kind"
and credit_kind :: "error credit_error \<Rightarrow> error_kind"
and ri_kind :: "error revocation_incomplete \<Rightarrow> error_kind" where
  "error_kind_of (Api e) = graph_kind e"
| "error_kind_of (Http status _) =
     (if status \<ge> 500 then ServiceUnavailable
      else if status = 429 then RateLimited
      else Unknown)"
| "error_kind_of (Transport _) = ServiceUnavailable"
| "error_kind_of (Validation v) =
     (if is_customer_service_window_closed v then CustomerServiceWindowClosed
      else if is_thread_owned_elsewhere v then ThreadOwnedElsewhere
      else InvalidParameter)"
| "error_kind_of (Credit e) = credit_kind e"
| "error_kind_of (Conversion e) = conversion_kind e"
| "error_kind_of (Step _ source) = error_kind_of source"
| "error_kind_of _ = Unknown"
| "credit_kind (credit_error.Busy _ _) = ServiceUnavailable"
| "credit_kind (Reconcile _) = Unknown"
| "credit_kind (RevocationIncomplete r) = ri_kind r"
| "credit_kind (AttachFailed _ source) = error_kind_of source"
| "credit_kind _ = InvalidParameter"
| "ri_kind (Incomplete _ _ _ unattributed _ _ _ source) =
     (case source of
        Some e \<Rightarrow> error_kind_of e
      | None \<Rightarrow> if unattributed \<noteq> [] then Unknown else ServiceUnavailable)"
  by pat_completeness auto

termination
  by (relation node_order) auto

function (sequential) is_retryable :: "error \<Rightarrow> bool"
and credit_is_retryable :: "error credit_error \<Rightarrow> bool"
and ri_is_retryable :: "error revocation_incomplete \<Rightarrow> bool" where
  "is_retryable (Api e) = graph_is_retryable e"
| "is_retryable (Http status _) = (status \<ge> 500 \<or> status = 429)"
| "is_retryable (Transport e) = transport_is_retryable e"
| "is_retryable (Storage e) = storage_is_busy e"
| "is_retryable (Credit e) = credit_is_retryable e"
| "is_retryable (Conversion e) = conversion_is_retryable e"
| "is_retryable (Step _ source) = is_retryable source"
| "is_retryable _ = False"
| "credit_is_retryable (credit_error.Busy _ _) = True"
| "credit_is_retryable (RevocationIncomplete r) = ri_is_retryable r"
| "credit_is_retryable (AttachFailed _ source) = is_retryable source"
| "credit_is_retryable _ = False"
| "ri_is_retryable (Incomplete _ _ _ unattributed _ _ _ source) =
     (unattributed = [] \<and> (case source of None \<Rightarrow> True | Some e \<Rightarrow> is_retryable e))"
  by pat_completeness auto

termination
  by (relation node_order) auto

text \<open>A status that is not a 4xx leaves open whether Meta acted.\<close>

definition is_4xx :: "nat \<Rightarrow> bool" where
  "is_4xx status \<longleftrightarrow> 400 \<le> status \<and> status < 500"

fun transport_may_have_been_sent :: "transport_error \<Rightarrow> bool" where
  "transport_may_have_been_sent (Connect _) = False"
| "transport_may_have_been_sent (Build _) = False"
| "transport_may_have_been_sent transport_error.Timeout = True"
| "transport_may_have_been_sent (transport_error.Backend _) = True"
| "transport_may_have_been_sent (Integrity _) = True"

function (sequential) may_have_been_sent :: "error \<Rightarrow> bool"
and credit_may_have_been_sent :: "error credit_error \<Rightarrow> bool"
and ri_may_have_been_sent :: "error revocation_incomplete \<Rightarrow> bool" where
  "may_have_been_sent (Api e) =
     ((case ge_http_status e of None \<Rightarrow> False | Some s \<Rightarrow> \<not> is_4xx s)
      \<and> \<not> is_rejected_before_processing (graph_kind e))"
| "may_have_been_sent (Http status _) = (\<not> is_4xx status)"
| "may_have_been_sent (Transport e) = transport_may_have_been_sent e"
| "may_have_been_sent (Decode _ _ _) = True"
| "may_have_been_sent (Other _) = True"
| "may_have_been_sent (Credit e) = credit_may_have_been_sent e"
| "may_have_been_sent (Conversion e) = conversion_may_have_been_sent e"
| "may_have_been_sent (Step _ source) = may_have_been_sent source"
| "may_have_been_sent (Validation _) = False"
| "may_have_been_sent (Config _) = False"
| "may_have_been_sent (Crypto _) = False"
| "may_have_been_sent (Storage _) = False"
| "may_have_been_sent (Sink _) = False"
| "may_have_been_sent (Webhook _) = False"
| "credit_may_have_been_sent (Revoked _ _ posted) = posted"
| "credit_may_have_been_sent (credit_error.Busy _ posted) = posted"
| "credit_may_have_been_sent (Reconcile _) = True"
| "credit_may_have_been_sent (AttachFailed _ _) = True"
| "credit_may_have_been_sent (RevocationIncomplete r) = ri_may_have_been_sent r"
| "credit_may_have_been_sent _ = False"
| "ri_may_have_been_sent (Incomplete _ _ _ _ _ deletes_sent _ source) =
     (deletes_sent \<or> (case source of None \<Rightarrow> False | Some e \<Rightarrow> may_have_been_sent e))"
  by pat_completeness auto

termination
  by (relation node_order) auto

definition refused_by_meta :: "error \<Rightarrow> bool" where
  "refused_by_meta e =
     (case e of
        Api g \<Rightarrow> is_rejected_before_processing (graph_kind g) \<and> \<not> is_business_use_case_limit g
                 \<or> is_maintenance g
      | Http status _ \<Rightarrow> status = 429
      | _ \<Rightarrow> False)"

definition may_resend :: "error \<Rightarrow> bool" where
  "may_resend e \<longleftrightarrow> refused_by_meta e \<and> is_retryable e \<and> \<not> may_have_been_sent e"

section \<open>The kinds\<close>

text \<open>
  \<open>ErrorKind::ALL\<close> makes the kinds a finite enumeration; the laws of the class are what the
  compile-time assertion beside the list checks.
\<close>

lemma all_kinds_distinct: "distinct all_kinds"
  by (simp add: all_kinds_def)

lemma all_kinds_complete: "k \<in> set all_kinds"
  by (cases k) (simp_all add: all_kinds_def)

instantiation error_kind :: enum
begin

definition "enum_error_kind = all_kinds"
definition "enum_all_error_kind P = list_all P all_kinds"
definition "enum_ex_error_kind P = list_ex P all_kinds"

instance
proof
  show "UNIV = set (enum_class.enum :: error_kind list)"
    using all_kinds_complete by (auto simp: enum_error_kind_def)
  show "distinct (enum_class.enum :: error_kind list)"
    by (simp add: enum_error_kind_def all_kinds_distinct)
qed (auto simp: enum_all_error_kind_def enum_ex_error_kind_def list_all_iff list_ex_iff
       all_kinds_complete)

end

section \<open>What the codes mean for a retry\<close>

lemma rejected_codes:
  "is_rejected_before_processing (from_code code) \<longleftrightarrow>
     code \<in> {4, 80007, 80008, 80009, 80014, 130429, 613, 131056}"
  unfolding from_code_def is_rejected_before_processing_def by simp

lemma maintenance_not_rejected:
  "is_maintenance g \<Longrightarrow> \<not> is_rejected_before_processing (graph_kind g)"
  by (simp add: is_maintenance_def MAINTENANCE_MODE_def graph_kind_def rejected_codes)

lemma maintenance_retryable: "is_maintenance g \<Longrightarrow> graph_is_retryable g"
  by (simp add: is_maintenance_def MAINTENANCE_MODE_def graph_is_retryable_def graph_kind_def
      from_code_def kind_is_retryable_def)

lemma rejected_retryable:
  "is_rejected_before_processing (graph_kind g) \<Longrightarrow> graph_is_retryable g"
  by (auto simp: graph_is_retryable_def is_rejected_before_processing_def kind_is_retryable_def)

section \<open>Properties\<close>

text \<open>
  C1. Which errors are sent again automatically. An error may be resent exactly when it is, at
  the root, a Graph error whose code is a throttling code other than a Business Use Case limit
  (on any status), or the maintenance code 131057 on a 4xx or without a status, or a bare
  HTTP 429. Nothing else is ever resent: no wrapped error, no transport error, nothing Meta
  marked transient.
\<close>

theorem may_resend_iff:
  "may_resend e \<longleftrightarrow>
     (\<exists>g. e = Api g \<and>
        (ge_code g \<in> {4, 80007, 130429, 613, 131056}
         \<or> ge_code g = 131057 \<and> (case ge_http_status g of None \<Rightarrow> True | Some s \<Rightarrow> is_4xx s)))
     \<or> (\<exists>body. e = Http 429 body)"
proof (cases e)
  case (Api g)
  show ?thesis
  proof (cases "is_maintenance g")
    case True
    then show ?thesis
      using Api maintenance_retryable[OF True] maintenance_not_rejected[OF True]
      by (simp add: may_resend_def refused_by_meta_def is_4xx_def is_maintenance_def
          MAINTENANCE_MODE_def split: option.splits)
  next
    case False
    have "refused_by_meta e \<longleftrightarrow> ge_code g \<in> {4, 80007, 130429, 613, 131056}"
      using Api False
      by (auto simp: refused_by_meta_def graph_kind_def rejected_codes
          is_business_use_case_limit_def BUSINESS_USE_CASE_LIMITS_def)
    moreover have "refused_by_meta e \<Longrightarrow> is_retryable e \<and> \<not> may_have_been_sent e"
      using Api False by (auto simp: refused_by_meta_def rejected_retryable)
    moreover have "ge_code g \<noteq> 131057"
      using False by (simp add: is_maintenance_def MAINTENANCE_MODE_def)
    ultimately show ?thesis
      using Api by (auto simp: may_resend_def)
  qed
next
  case (Http s b)
  then show ?thesis by (auto simp: may_resend_def refused_by_meta_def is_4xx_def)
qed (simp_all add: may_resend_def refused_by_meta_def)

text \<open>
  Wrapping an error in the steps of a flow changes none of its answers (the Graph, credit
  or conversion error it carries, its kind, whether it is retryable, whether it may have been
  sent), however deep the wrapping, but an error that failed inside a step is never resent
  automatically.
\<close>

theorem steps_are_transparent:
  "error_graph (foldr in_step steps e) = error_graph e
       \<and> error_credit (foldr in_step steps e) = error_credit e
       \<and> error_conversion (foldr in_step steps e) = error_conversion e
       \<and> error_kind_of (foldr in_step steps e) = error_kind_of e
       \<and> is_retryable (foldr in_step steps e) = is_retryable e
       \<and> may_have_been_sent (foldr in_step steps e) = may_have_been_sent e
       \<and> (may_resend (foldr in_step steps e) \<longleftrightarrow> steps = [] \<and> may_resend e)"
proof -
  have "\<not> may_resend (Step s e')" for s e'
    by (simp add: may_resend_def refused_by_meta_def)
  then show ?thesis
    by (induction steps) (auto simp: in_step_def)
qed

text \<open>
  The automatic retry of an idempotent request follows the codes Meta documents as
  throttling, unavailability or a template still syncing, and no other code; the codes that
  prove a request was refused before any side effect are exactly the throttling ones, and
  each of those is retryable.
\<close>

theorem retry_codes:
  "(kind_is_retryable (from_code code) \<longleftrightarrow>
      code \<in> {4, 80007, 80008, 80009, 80014, 130429, 613, 131056, 134101,
              1, 2, 131000, 131016, 131057, 133004, 2494100})
   \<and> (is_rejected_before_processing (from_code code) \<longleftrightarrow>
      code \<in> {4, 80007, 80008, 80009, 80014, 130429, 613, 131056})"
proof
  show "kind_is_retryable (from_code code) \<longleftrightarrow>
      code \<in> {4, 80007, 80008, 80009, 80014, 130429, 613, 131056, 134101,
              1, 2, 131000, 131016, 131057, 133004, 2494100}"
    unfolding from_code_def kind_is_retryable_def by simp
qed (rule rejected_codes)

text \<open>
  \<open>ErrorKind::ALL\<close> lists every kind exactly once, and no two kinds share a stable name,
  so a stored name determines its kind.
\<close>

theorem kinds_listed_once_named_apart:
  "distinct all_kinds \<and> set all_kinds = UNIV \<and> inj kind_as_str"
proof -
  have "distinct (map kind_as_str all_kinds)"
    by (simp add: all_kinds_def)
  then have "inj_on kind_as_str (set all_kinds)"
    by (simp add: distinct_map)
  moreover have "set all_kinds = UNIV"
    using all_kinds_complete by auto
  ultimately show ?thesis
    using all_kinds_distinct by simp
qed

end
