(* ===== verification/Signature.thy ===== *)
theory Signature
  imports Error_Tree
begin

text \<open>
  Who may talk to the webhook endpoint: the \<open>X-Hub-Signature-256\<close> check of a delivery
  (\<open>meta-whatsapp-webhooks/src/signature.rs\<close>) and the subscription handshake (\<open>verify.rs\<close>).
  HMAC-SHA256 and SHA-256 are parameters, from a key and a message to the bytes of the tag.
  The theorems: a delivery is accepted exactly when its header carries the tag of the body under
  a configured secret that is not blank, what \<open>sign\<close> writes is accepted, and the handshake
  echoes the challenge only to who sends the configured token.
\<close>

section \<open>Signatures\<close>

definition SIGNATURE_PREFIX :: string where
  "SIGNATURE_PREFIX = ''sha256=''"

record signature_verifier =
  sv_secrets :: "string list"

definition is_blank :: "string \<Rightarrow> bool" where
  "is_blank secret \<longleftrightarrow> trim secret = []"

definition verifier_new :: "string list \<Rightarrow> error + signature_verifier" where
  "verifier_new secrets =
     (if secrets = [] then
        Inl (Config (ConfigError ''SignatureVerifier needs at least one app secret''))
      else if list_ex is_blank secrets then
        Inl (Config (ConfigError ''SignatureVerifier: app secret must not be blank''))
      else Inr \<lparr>sv_secrets = secrets\<rparr>)"

definition parse_header :: "string option \<Rightarrow> webhook_error + string" where
  "parse_header header =
     (case header of
        None \<Rightarrow> Inl MissingSignature
      | Some h \<Rightarrow>
          (case strip_prefix SIGNATURE_PREFIX (trim h) of
             None \<Rightarrow> Inl MalformedSignature
           | Some hex \<Rightarrow>
               if length hex \<noteq> 64 then Inl MalformedSignature
               else (case hex_decode hex of
                       None \<Rightarrow> Inl MalformedSignature
                     | Some tag \<Rightarrow> Inr tag)))"

definition sig_tag :: "(string \<Rightarrow> string \<Rightarrow> string) \<Rightarrow> string \<Rightarrow> string \<Rightarrow> string option" where
  "sig_tag hmac secret body = (if is_blank secret then None else Some (hmac secret body))"

definition sig_verify ::
  "(string \<Rightarrow> string \<Rightarrow> string) \<Rightarrow> signature_verifier \<Rightarrow> string option \<Rightarrow> string
     \<Rightarrow> webhook_error + unit" where
  "sig_verify hmac v header body =
     (case parse_header header of
        Inl e \<Rightarrow> Inl e
      | Inr expected \<Rightarrow>
          (let matched = fold (\<lambda>secret acc. acc \<or>
                 (case sig_tag hmac secret body of None \<Rightarrow> False | Some t \<Rightarrow> t = expected))
               (sv_secrets v) False
           in if matched then Inr () else Inl SignatureMismatch))"

definition sign :: "(string \<Rightarrow> string \<Rightarrow> string) \<Rightarrow> string \<Rightarrow> string \<Rightarrow> string" where
  "sign hmac secret body = SIGNATURE_PREFIX @ hex_encode (hmac secret body)"

lemma fold_or: "fold (\<lambda>x acc. acc \<or> P x) xs b \<longleftrightarrow> b \<or> (\<exists>x\<in>set xs. P x)"
  by (induction xs arbitrary: b) auto

lemma parse_header_sign:
  assumes "length (hmac secret body) = 32"
  shows "parse_header (Some (sign hmac secret body)) = Inr (hmac secret body)"
proof -
  define hex where "hex = hex_encode (hmac secret body)"
  have hex: "length hex = 64" "hex \<noteq> []"
    using assms by (auto simp: hex_def dest: arg_cong[of _ _ length])
  then have "plain_byte (last hex)"
    unfolding hex_def using hex_encode_plain last_in_set by blast
  moreover have "plain_byte (hd (SIGNATURE_PREFIX @ hex))"
    by (simp add: SIGNATURE_PREFIX_def plain_byte_def white_space_def)
  ultimately have "trim (SIGNATURE_PREFIX @ hex) = SIGNATURE_PREFIX @ hex"
    using hex(2) by (intro trim_plain) auto
  then show ?thesis
    using hex by (simp add: parse_header_def sign_def hex_def)
qed

section \<open>The subscription handshake\<close>

record verification_query =
  vq_mode :: "string option"
  vq_verify_token :: "string option"
  vq_challenge :: "string option"

definition check_verify_token :: "string \<Rightarrow> config_error + unit" where
  "check_verify_token token =
     (if trim token = [] then
        Inl (ConfigError (''webhook verify token is blank (empty or whitespace); '' @
                          ''every verification request is refused''))
      else Inr ())"

definition tokens_match :: "(string \<Rightarrow> string) \<Rightarrow> string \<Rightarrow> string \<Rightarrow> bool" where
  "tokens_match sha given expected \<longleftrightarrow> sha given = sha expected"

definition verify_subscription ::
  "(string \<Rightarrow> string) \<Rightarrow> verification_query \<Rightarrow> string \<Rightarrow> error + string" where
  "verify_subscription sha query expected =
     (case check_verify_token expected of
        Inl e \<Rightarrow> Inl (Config e)
      | Inr _ \<Rightarrow>
          if vq_mode query \<noteq> Some ''subscribe'' then
            Inl (Webhook (InvalidVerificationRequest ''hub.mode must be `subscribe`''))
          else (case vq_verify_token query of
              None \<Rightarrow> Inl (Webhook (InvalidVerificationRequest ''missing hub.verify_token''))
            | Some token \<Rightarrow>
                (case vq_challenge query of
                   None \<Rightarrow> Inl (Webhook (InvalidVerificationRequest ''missing hub.challenge''))
                 | Some challenge \<Rightarrow>
                     if \<not> tokens_match sha token expected
                     then Inl (Webhook VerifyTokenMismatch)
                     else Inr challenge)))"

section \<open>Properties\<close>

text \<open>
  Hex digits in either case. \<open>ascii_lower\<close> is \<open>to_ascii_lowercase\<close>: a text decodes to a tag exactly
  when, in lower case, it is what the tag encodes to.
\<close>

definition ascii_lower :: "char \<Rightarrow> char" where
  "ascii_lower c = (if 65 \<le> (of_char c :: nat) \<and> (of_char c :: nat) \<le> 90
     then char_of (of_char c + 32 :: nat) else c)"

lemma of_char_digit: "n < 16 \<Longrightarrow> (of_char (hex_digits ! n) :: nat) = (if n < 10 then 48 + n else 87 + n)"
proof -
  assume "n < 16"
  then have "n \<in> set [0..<16]" by simp
  then show ?thesis by (auto simp: hex_digits_def upt_conv_Cons)
qed

lemma of_char_lower:
  "(of_char (ascii_lower c) :: nat) =
     (let k = of_char c in if 65 \<le> k \<and> k \<le> 90 then k + 32 else k)"
  by (simp add: ascii_lower_def Let_def)

lemma hex_value_Some: "hex_value c = Some n \<longleftrightarrow> n < 16 \<and> ascii_lower c = hex_digits ! n"
proof (cases "n < 16")
  case True
  define k where "k = (of_char c :: nat)"
  have "ascii_lower c = hex_digits ! n \<longleftrightarrow> (of_char (ascii_lower c) :: nat) = of_char (hex_digits ! n)"
    by (rule of_char_eq_iff[symmetric])
  also have "\<dots> \<longleftrightarrow> (if 65 \<le> k \<and> k \<le> 90 then k + 32 else k) = (if n < 10 then 48 + n else 87 + n)"
    unfolding of_char_digit[OF True] of_char_lower k_def Let_def by (rule HOL.refl)
  finally show ?thesis using True by (auto simp: hex_value_def k_def[symmetric] Let_def)
qed (auto simp: hex_value_def Let_def split: if_splits)

lemma hex_decode_Some: "hex_decode hex = Some tag \<longleftrightarrow> map ascii_lower hex = hex_encode tag"
proof (induction hex arbitrary: tag rule: hex_decode.induct)
  case 1
  then show ?case by (cases tag) auto
next
  case (2 a)
  then show ?case by (cases tag) auto
next
  case (3 a b hex)
  show ?case
  proof
    assume "hex_decode (a # b # hex) = Some tag"
    then obtain x y r where d: "hex_value a = Some x" "hex_value b = Some y" "hex_decode hex = Some r"
        "tag = char_of (16 * x + y) # r" by (auto split: option.splits)
    moreover have "x < 16" "y < 16" using d by (auto simp: hex_value_Some)
    ultimately show "map ascii_lower (a # b # hex) = hex_encode tag"
      using 3 by (simp add: hex_value_Some)
  next
    assume e: "map ascii_lower (a # b # hex) = hex_encode tag"
    then obtain c r where tag: "tag = c # r" by (cases tag) auto
    have "hex_value a = Some (of_char c div 16)" "hex_value b = Some (of_char c mod 16)"
      using e tag of_char_lt[of c] by (simp_all add: hex_value_Some less_mult_imp_div_less)
    moreover have "hex_decode hex = Some r" using e tag 3 by simp
    ultimately show "hex_decode (a # b # hex) = Some tag" using tag by simp
  qed
qed

lemma hex_decode_total:
  "even (length hex) \<Longrightarrow> hex_decode hex \<noteq> None \<longleftrightarrow> list_all (\<lambda>c. ascii_lower c \<in> set hex_digits) hex"
proof (induction hex rule: hex_decode.induct)
  case (3 a b hex)
  have "hex_value c \<noteq> None \<longleftrightarrow> ascii_lower c \<in> set hex_digits" for c
  proof -
    have "length hex_digits = 16" by (simp add: hex_digits_def)
    then show ?thesis using hex_value_Some[of c] by (auto simp: in_set_conv_nth)
  qed
  then have "(hex_value a \<noteq> None) = (ascii_lower a \<in> set hex_digits)"
    "(hex_value b \<noteq> None) = (ascii_lower b \<in> set hex_digits)" by auto
  then show ?case using 3 by (auto split: option.splits)
qed auto

text \<open>The header as it parses: the hex text of 32 bytes after the prefix, white space around it ignored.\<close>

lemma parse_header_Inr:
  "parse_header header = Inr tag \<longleftrightarrow>
     (\<exists>h hex. header = Some h \<and> trim h = ''sha256='' @ hex \<and> length tag = 32
        \<and> map ascii_lower hex = hex_encode tag)"
proof -
  have "length hex = 64 \<longleftrightarrow> length tag = 32" if "map ascii_lower hex = hex_encode tag" for hex
    using arg_cong[OF that, of length] by auto
  then have "parse_header header = Inr tag \<longleftrightarrow>
      (\<exists>h hex. header = Some h \<and> strip_prefix SIGNATURE_PREFIX (trim h) = Some hex
        \<and> length tag = 32 \<and> map ascii_lower hex = hex_encode tag)"
    by (auto simp: parse_header_def simp flip: hex_decode_Some split: option.splits)
  then show ?thesis by (simp only: strip_prefix_Some SIGNATURE_PREFIX_def)
qed

lemma parse_header_missing: "parse_header header = Inl MissingSignature \<longleftrightarrow> header = None"
  by (auto simp: parse_header_def split: option.splits)

lemma parse_header_malformed:
  "parse_header header = Inl MalformedSignature \<longleftrightarrow>
     (\<exists>h. header = Some h \<and> \<not> (\<exists>hex. trim h = ''sha256='' @ hex \<and> length hex = 64
        \<and> list_all (\<lambda>c. ascii_lower c \<in> set hex_digits) hex))"
proof -
  have "list_all (\<lambda>c. ascii_lower c \<in> set hex_digits) hex \<longleftrightarrow> hex_decode hex \<noteq> None"
    if "length hex = 64" for hex using hex_decode_total[of hex] that by simp
  then have "parse_header header = Inl MalformedSignature \<longleftrightarrow>
      (\<exists>h. header = Some h \<and> \<not> (\<exists>hex. strip_prefix SIGNATURE_PREFIX (trim h) = Some hex
         \<and> length hex = 64 \<and> list_all (\<lambda>c. ascii_lower c \<in> set hex_digits) hex))"
    by (auto simp: parse_header_def split: option.splits)
  then show ?thesis by (simp only: strip_prefix_Some SIGNATURE_PREFIX_def)
qed

lemma parse_header_errors: "parse_header header = Inl e \<Longrightarrow> e \<in> {MissingSignature, MalformedSignature}"
  by (auto simp: parse_header_def split: option.splits if_splits)

lemma sig_verify_parsed:
  "sig_verify hmac v header body = (case parse_header header of
     Inl e \<Rightarrow> Inl e
   | Inr tag \<Rightarrow> if \<exists>secret \<in> set (sv_secrets v). trim secret \<noteq> [] \<and> hmac secret body = tag
       then Inr () else Inl SignatureMismatch)"
  by (auto simp: sig_verify_def sig_tag_def is_blank_def fold_or split: sum.split option.splits)

text \<open>
  C4. What each delivery is answered by the signature check. It passes exactly when its header,
  white space around it apart, is \<open>sha256=\<close> and then, in hex of either case, the 32 bytes of the
  HMAC of the body under a configured secret that is not blank; a blank secret opens nothing.
  Otherwise no header is \<open>MissingSignature\<close>, a header that is not \<open>sha256=\<close> and 64 hex digits is
  \<open>MalformedSignature\<close>, and everything else is \<open>SignatureMismatch\<close>.
\<close>

theorem verify_iff:
  "(sig_verify hmac v header body = Inr () \<longleftrightarrow>
      (\<exists>h hex. header = Some h \<and> trim h = ''sha256='' @ hex
        \<and> (\<exists>secret \<in> set (sv_secrets v). trim secret \<noteq> [] \<and> length (hmac secret body) = 32
             \<and> map ascii_lower hex = hex_encode (hmac secret body))))
   \<and> (sig_verify hmac v header body = Inl MissingSignature \<longleftrightarrow> header = None)
   \<and> (sig_verify hmac v header body = Inl MalformedSignature \<longleftrightarrow>
        (\<exists>h. header = Some h \<and> \<not> (\<exists>hex. trim h = ''sha256='' @ hex \<and> length hex = 64
           \<and> list_all (\<lambda>c. ascii_lower c \<in> set ''0123456789abcdef'') hex)))
   \<and> sig_verify hmac v header body
       \<in> {Inr (), Inl MissingSignature, Inl MalformedSignature, Inl SignatureMismatch}"
proof (cases "parse_header header")
  case (Inl e)
  have "\<not> (\<exists>h hex tag. header = Some h \<and> trim h = ''sha256='' @ hex \<and> length tag = 32
      \<and> map ascii_lower hex = hex_encode tag)"
    using Inl parse_header_Inr[of header] by fastforce
  then show ?thesis
    using Inl parse_header_errors[OF Inl] parse_header_missing[of header] parse_header_malformed[of header]
    by (auto simp: sig_verify_parsed hex_digits_def)
next
  case (Inr tag)
  then obtain h hex where h: "header = Some h" "trim h = ''sha256='' @ hex" "length tag = 32"
      "map ascii_lower hex = hex_encode tag" using parse_header_Inr by blast
  have "map ascii_lower hex = hex_encode (hmac secret body) \<longleftrightarrow> hmac secret body = tag" for secret
    using h(4) hex_encode_inj by metis
  then show ?thesis
    using Inr h parse_header_missing[of header] parse_header_malformed[of header]
    by (auto simp: sig_verify_parsed hex_digits_def)
qed

text \<open>
  A verifier that could be built accepts what \<open>sign\<close> writes for a body under any of its
  secrets, given only that a tag has 32 bytes (as HMAC-SHA256's has).
\<close>

theorem signed_is_accepted:
  assumes "verifier_new secrets = Inr v" and "secret \<in> set secrets"
    and "length (hmac secret body) = 32"
  shows "sig_verify hmac v (Some (sign hmac secret body)) body = Inr ()"
proof -
  have "sv_secrets v = secrets" "trim secret \<noteq> []"
    using assms(1,2) by (auto simp: verifier_new_def list_ex_iff is_blank_def split: if_splits)
  then show ?thesis
    using assms(2) parse_header_sign[where hmac = hmac, OF assms(3)] by (auto simp: sig_verify_parsed)
qed

definition toy_hmac :: "string \<Rightarrow> string \<Rightarrow> string" where
  "toy_hmac key body = take 32 (key @ body @ replicate 32 CHR ''0'')"

theorem signed_is_accepted_witness:
  "sig_verify toy_hmac \<lparr>sv_secrets = [''old'', ''new'']\<rparr> (Some (sign toy_hmac ''new'' ''{}'')) ''{}''
     = Inr ()"
proof (rule signed_is_accepted)
  show "verifier_new [''old'', ''new''] = Inr \<lparr>sv_secrets = [''old'', ''new'']\<rparr>"
    by (simp add: verifier_new_def is_blank_def trim_def white_space_def)
  show "length (toy_hmac ''new'' ''{}'') = 32"
    by (simp add: toy_hmac_def)
qed simp

text \<open>
  The handshake echoes the challenge exactly when the configured token is not blank, the
  mode is \<open>subscribe\<close>, the token sent has the configured token's digest and a challenge came.
\<close>

theorem handshake_iff:
  "verify_subscription sha query expected = Inr challenge \<longleftrightarrow>
     trim expected \<noteq> [] \<and> vq_mode query = Some ''subscribe''
     \<and> (\<exists>token. vq_verify_token query = Some token \<and> sha token = sha expected)
     \<and> vq_challenge query = Some challenge"
  by (auto simp: verify_subscription_def check_verify_token_def tokens_match_def
      split: option.splits)

end
