(* ===== verification/Kv_Store.thy ===== *)
theory Kv_Store
  imports Prelude
begin

text \<open>
  The key/value port of \<open>meta-whatsapp-core/src/store/mod.rs\<close>: keys, versioned records,
  expiries, and the trait \<open>KvStore\<close> as a record of its five methods. The contract its rustdoc
  states is the locale \<open>kv_store\<close>: a reader sees a record until it expires, a write is read back,
  no write touches another key, and a version is never reused for a key. A method takes the
  instant it runs at (the clock the adapter reads) and the state; the \<open>Err\<close> case of its result
  belongs to the step semantics of \<open>Kv_Prog\<close>.

  A value is an arbitrary type, as a store never looks into it; versions are natural numbers
  (a \<open>u64\<close> in the code: 2 to the 64 writes to one key are out of reach).
\<close>

section \<open>Keys, records, expiries\<close>

record store_key =
  sk_namespace :: string
  sk_key :: string

definition store_key_new :: "string \<Rightarrow> string \<Rightarrow> store_key" where
  "store_key_new namespace key = \<lparr>sk_namespace = namespace, sk_key = key\<rparr>"

definition store_key_display :: "store_key \<Rightarrow> string" where
  "store_key_display k = sk_namespace k @ ''/'' @ sk_key k"

record 'v versioned =
  ver_value :: 'v
  ver_version :: nat
  ver_expires_at :: "time option"

datatype expiry = Never | After duration | At time | Keep

definition alive :: "time \<Rightarrow> time option \<Rightarrow> bool" where
  "alive now expires_at = (case expires_at of None \<Rightarrow> True | Some t \<Rightarrow> t > now)"

definition visible :: "time \<Rightarrow> 'v versioned option \<Rightarrow> 'v versioned option" where
  "visible now r =
     (case r of None \<Rightarrow> None | Some e \<Rightarrow> if alive now (ver_expires_at e) then Some e else None)"

text \<open>
  When a record written at \<open>now\<close> over \<open>existing\<close> expires: \<open>Keep\<close> keeps the existing record's
  expiry, and an expiry beyond the representable range is never.
\<close>

definition resolve_expiry :: "expiry \<Rightarrow> time \<Rightarrow> 'v versioned option \<Rightarrow> time option" where
  "resolve_expiry e now existing =
     (case e of
        Never \<Rightarrow> None
      | After d \<Rightarrow> Option.bind (signed_duration d) (time_checked_add now)
      | At t \<Rightarrow> Some t
      | Keep \<Rightarrow> Option.bind existing ver_expires_at)"

lemma visible_None [simp]: "visible now None = None"
  by (simp add: visible_def)

lemma visible_Some:
  "visible now r = Some e \<longleftrightarrow> r = Some e \<and> alive now (ver_expires_at e)"
  by (auto simp: visible_def split: option.splits)

lemma visible_idem [simp]: "visible now (visible now r) = visible now r"
  by (auto simp: visible_def split: option.splits)

lemma alive_mono: "alive t' x \<Longrightarrow> t \<le> t' \<Longrightarrow> alive t x"
  by (auto simp: alive_def split: option.splits)

section \<open>The port\<close>

record ('s, 'v) kv_port =
  kv_get :: "time \<Rightarrow> store_key \<Rightarrow> 's \<Rightarrow> 'v versioned option"
  kv_put :: "time \<Rightarrow> store_key \<Rightarrow> 'v \<Rightarrow> expiry \<Rightarrow> 's \<Rightarrow> nat \<times> 's"
  kv_put_if_absent :: "time \<Rightarrow> store_key \<Rightarrow> 'v \<Rightarrow> expiry \<Rightarrow> 's \<Rightarrow> nat option \<times> 's"
  kv_compare_and_swap ::
    "time \<Rightarrow> store_key \<Rightarrow> nat \<Rightarrow> 'v option \<Rightarrow> expiry \<Rightarrow> 's \<Rightarrow> nat option \<times> 's"
  kv_delete :: "time \<Rightarrow> store_key \<Rightarrow> 's \<Rightarrow> bool \<times> 's"

section \<open>Sequences of calls\<close>

datatype 'v kv_call =
  CGet store_key
| CPut store_key 'v expiry
| CPutIfAbsent store_key 'v expiry
| CCompareAndSwap store_key nat "'v option" expiry
| CDelete store_key

text \<open>One call at an instant: the key and version of the write it made, if it made one.\<close>

fun kv_apply ::
  "('s, 'v) kv_port \<Rightarrow> time \<Rightarrow> 'v kv_call \<Rightarrow> 's \<Rightarrow> (store_key \<times> nat) list \<times> 's" where
  "kv_apply port t (CGet k) s = ([], s)"
| "kv_apply port t (CPut k x e) s = (let (v, s') = kv_put port t k x e s in ([(k, v)], s'))"
| "kv_apply port t (CPutIfAbsent k x e) s =
     (case kv_put_if_absent port t k x e s of
        (None, s') \<Rightarrow> ([], s')
      | (Some v, s') \<Rightarrow> ([(k, v)], s'))"
| "kv_apply port t (CCompareAndSwap k v new e) s =
     (case kv_compare_and_swap port t k v new e s of
        (Some v', s') \<Rightarrow> (if new = None then ([], s') else ([(k, v')], s'))
      | (None, s') \<Rightarrow> ([], s'))"
| "kv_apply port t (CDelete k) s = ([], snd (kv_delete port t k s))"

fun kv_run ::
  "('s, 'v) kv_port \<Rightarrow> (time \<times> 'v kv_call) list \<Rightarrow> 's \<Rightarrow> (store_key \<times> nat) list \<times> 's" where
  "kv_run port [] s = ([], s)"
| "kv_run port ((t, c) # cs) s =
     (let (ws, s') = kv_apply port t c s; (ws', s'') = kv_run port cs s' in (ws @ ws', s''))"

definition versions_of :: "store_key \<Rightarrow> (store_key \<times> nat) list \<Rightarrow> nat list" where
  "versions_of k ws = map snd (filter (\<lambda>w. fst w = k) ws)"

text \<open>
  What the rustdoc of the trait promises, over the port's own reads. \<open>issued s k\<close> is the largest
  version handed out for \<open>k\<close> so far (0 before the first write): an adapter's proof provides it.
  The instants of later reads are not before the write's: a store may drop what has expired.
\<close>

locale kv_store =
  fixes port :: "('s, 'v) kv_port"
    and issued :: "'s \<Rightarrow> store_key \<Rightarrow> nat"
    and inv :: "'s \<Rightarrow> bool"
  assumes get_expires:
      "inv s \<Longrightarrow> t \<le> t' \<Longrightarrow> kv_get port t' k s = visible t' (kv_get port t k s)"
    and get_issued:
      "inv s \<Longrightarrow> kv_get port t k s = Some r \<Longrightarrow> ver_version r \<le> issued s k"
    and put_version:
      "inv s \<Longrightarrow> kv_put port t k x e s = (v, s') \<Longrightarrow>
         inv s' \<and> issued s k < v \<and> issued s' = (issued s)(k := v)"
    and put_get:
      "inv s \<Longrightarrow> kv_put port t k x e s = (v, s') \<Longrightarrow> t \<le> t' \<Longrightarrow>
         kv_get port t' k' s' =
           (if k' = k
            then visible t' (Some \<lparr>ver_value = x, ver_version = v,
                   ver_expires_at = resolve_expiry e t (kv_get port t k s)\<rparr>)
            else kv_get port t' k' s)"
    and put_if_absent_live:
      "inv s \<Longrightarrow> kv_get port t k s = Some r \<Longrightarrow> kv_put_if_absent port t k x e s = (None, s)"
    and put_if_absent_free:
      "inv s \<Longrightarrow> kv_get port t k s = None \<Longrightarrow>
         kv_put_if_absent port t k x e s = (case kv_put port t k x e s of (v, s') \<Rightarrow> (Some v, s'))"
    and cas_miss:
      "inv s \<Longrightarrow> (case kv_get port t k s of None \<Rightarrow> True | Some r \<Rightarrow> ver_version r \<noteq> v) \<Longrightarrow>
         kv_compare_and_swap port t k v new e s = (None, s)"
    and cas_replace:
      "inv s \<Longrightarrow> kv_get port t k s = Some r \<Longrightarrow> ver_version r = v \<Longrightarrow>
         kv_compare_and_swap port t k v (Some x) e s =
           (case kv_put port t k x e s of (v', s') \<Rightarrow> (Some v', s'))"
    and cas_delete:
      "inv s \<Longrightarrow> kv_get port t k s = Some r \<Longrightarrow> ver_version r = v \<Longrightarrow>
         kv_compare_and_swap port t k v None e s = (Some 0, snd (kv_delete port t k s))"
    and delete_result:
      "inv s \<Longrightarrow> fst (kv_delete port t k s) = (kv_get port t k s \<noteq> None)"
    and delete_state:
      "inv s \<Longrightarrow> inv (snd (kv_delete port t k s))
               \<and> issued (snd (kv_delete port t k s)) = issued s"
    and delete_get:
      "inv s \<Longrightarrow> t \<le> t' \<Longrightarrow>
         kv_get port t' k' (snd (kv_delete port t k s)) =
           (if k' = k then None else kv_get port t' k' s)"
begin

lemma put_get_same:
  assumes "inv s" "kv_put port t k x e s = (v, s')" "t \<le> t'"
  shows "kv_get port t' k s' =
    visible t' (Some \<lparr>ver_value = x, ver_version = v,
                 ver_expires_at = resolve_expiry e t (kv_get port t k s)\<rparr>)"
  using put_get[OF assms, of k] by simp

lemma put_get_other:
  "inv s \<Longrightarrow> kv_put port t k x e s = (v, s') \<Longrightarrow> t \<le> t' \<Longrightarrow> k' \<noteq> k \<Longrightarrow>
     kv_get port t' k' s' = kv_get port t' k' s"
  using put_get by simp

lemma get_visible: "inv s \<Longrightarrow> kv_get port t k s = visible t (kv_get port t k s)"
  using get_expires by blast

lemma get_alive: "inv s \<Longrightarrow> kv_get port t k s = Some r \<Longrightarrow> alive t (ver_expires_at r)"
  using get_visible visible_Some by metis

lemma get_later_None: "inv s \<Longrightarrow> kv_get port t k s = None \<Longrightarrow> t \<le> t' \<Longrightarrow> kv_get port t' k s = None"
  by (simp add: get_expires)

text \<open>Two successful writes to a key never share a version, whatever happens between them.\<close>

lemma put_inv: "inv s \<Longrightarrow> inv (snd (kv_put port t k x e s))"
  using put_version by (metis prod.collapse)

lemma put_if_absent_cases:
  assumes "inv s" "kv_put_if_absent port t k x e s = (res, s')"
  shows "(\<exists>r. kv_get port t k s = Some r \<and> res = None \<and> s' = s)
       \<or> (kv_get port t k s = None \<and>
          (\<exists>v. res = Some v \<and> kv_put port t k x e s = (v, s')))"
proof (cases "kv_get port t k s")
  case None
  then show ?thesis
    using assms put_if_absent_free[OF assms(1) None, of x e] by (auto split: prod.splits)
next
  case (Some r)
  then show ?thesis using assms put_if_absent_live[OF assms(1) Some, of x e] by simp
qed

lemma cas_cases:
  assumes "inv s" "kv_compare_and_swap port t k v new e s = (res, s')"
  shows "(res = None \<and> s' = s
          \<and> (case kv_get port t k s of None \<Rightarrow> True | Some r \<Rightarrow> ver_version r \<noteq> v))
       \<or> (\<exists>r. kv_get port t k s = Some r \<and> ver_version r = v \<and>
            (case new of
               None \<Rightarrow> res = Some 0 \<and> s' = snd (kv_delete port t k s)
             | Some x \<Rightarrow> (\<exists>v'. res = Some v' \<and> kv_put port t k x e s = (v', s'))))"
proof (cases "case kv_get port t k s of None \<Rightarrow> True | Some r \<Rightarrow> ver_version r \<noteq> v")
  case True
  then show ?thesis using assms cas_miss[OF assms(1) True, of new e] by simp
next
  case False
  then obtain r where r: "kv_get port t k s = Some r" "ver_version r = v"
    by (auto split: option.splits)
  then show ?thesis
    using assms cas_delete[OF assms(1) r, of e]
    by (cases new) (auto simp: cas_replace split: prod.splits)
qed

text \<open>A call writes at most once, above every version handed out for the key before.\<close>

lemma apply_writes:
  assumes "inv s" "kv_apply port t c s = (ws, s')"
  shows "inv s' \<and> (ws = [] \<and> issued s' = issued s
           \<or> (\<exists>k v. ws = [(k, v)] \<and> issued s k < v \<and> issued s' = (issued s)(k := v)))"
proof (cases c)
  case (CPut k x e)
  then show ?thesis using assms put_version[OF assms(1)] by (auto split: prod.splits)
next
  case (CPutIfAbsent k x e)
  obtain res s'' where r: "kv_put_if_absent port t k x e s = (res, s'')" by fastforce
  show ?thesis
    using assms CPutIfAbsent r put_if_absent_cases[OF assms(1) r]
    by (auto dest: put_version[OF assms(1)])
next
  case (CCompareAndSwap k v new e)
  obtain res s'' where r: "kv_compare_and_swap port t k v new e s = (res, s'')" by fastforce
  show ?thesis
    using assms CCompareAndSwap r cas_cases[OF assms(1) r] delete_state[OF assms(1), of t k]
    by (auto split: option.splits dest: put_version[OF assms(1)])
next
  case (CDelete k)
  then show ?thesis using assms delete_state[OF assms(1), of t k] by auto
qed (use assms in auto)

lemma run_versions:
  assumes "inv s" "kv_run port cs s = (ws, s')"
  shows "inv s' \<and> sorted_wrt (<) (issued s k # versions_of k ws)
         \<and> issued s' k = last (issued s k # versions_of k ws)"
  using assms
proof (induction cs arbitrary: s ws s')
  case Nil
  then show ?case by (simp add: versions_of_def)
next
  case (Cons tc cs)
  obtain t c where tc: "tc = (t, c)" by fastforce
  obtain ws1 s1 where a: "kv_apply port t c s = (ws1, s1)" by fastforce
  obtain ws2 s2 where b: "kv_run port cs s1 = (ws2, s2)" by fastforce
  have w: "ws = ws1 @ ws2" "s' = s2" using Cons.prems(2) tc a b by auto
  note step = apply_writes[OF Cons.prems(1) a]
  note ih = Cons.IH[OF _ b]
  from step show ?case
    using ih w by (auto simp: versions_of_def split: if_splits)
qed

text \<open>A version that is dead at an instant is never live again.\<close>

definition dead :: "store_key \<Rightarrow> nat \<Rightarrow> time \<Rightarrow> 's \<Rightarrow> bool" where
  "dead k v t s \<longleftrightarrow> inv s \<and> v \<le> issued s k
     \<and> (\<forall>t' r. t \<le> t' \<longrightarrow> kv_get port t' k s = Some r \<longrightarrow> ver_version r \<noteq> v)"

lemma deadD:
  "dead k v t s \<Longrightarrow> t \<le> t' \<Longrightarrow> kv_get port t' k s = Some r \<Longrightarrow> ver_version r \<noteq> v"
  by (simp add: dead_def)

lemma deadI:
  assumes "inv s" "v \<le> issued s k"
    and "\<And>t' r. t \<le> t' \<Longrightarrow> kv_get port t' k s = Some r \<Longrightarrow> ver_version r \<noteq> v"
  shows "dead k v t s"
  using assms by (auto simp: dead_def)

lemma dead_inv: "dead k v t s \<Longrightarrow> inv s \<and> v \<le> issued s k"
  by (simp add: dead_def)

lemma dead_put:
  assumes "dead k v t s" "kv_put port t' k' x e s = (v', s')" "t \<le> t'"
  shows "dead k v t' s'"
proof -
  have i: "inv s" using assms(1) by (simp add: dead_def)
  have ver: "inv s'" "issued s k' < v'" "issued s' = (issued s)(k' := v')"
    using put_version[OF i assms(2)] by auto
  have le: "v \<le> issued s k" using assms(1) by (simp add: dead_def)
  show ?thesis
  proof (rule deadI)
    show "inv s'" by (rule ver)
    show "v \<le> issued s' k" using le ver by auto
    fix t'' r assume t'': "t' \<le> t''" and r: "kv_get port t'' k s' = Some r"
    show "ver_version r \<noteq> v"
    proof (cases "k' = k")
      case True
      then have "ver_version r = v'"
        using put_get_same[OF i assms(2) t''] r by (simp add: visible_def split: if_splits)
      then show ?thesis using True ver(2) le by simp
    next
      case False
      then have "kv_get port t'' k s = Some r"
        using put_get_other[OF i assms(2) t'', of k] r by simp
      then show ?thesis using deadD[OF assms(1)] assms(3) t'' order_trans by blast
    qed
  qed
qed

lemma dead_later: "dead k v t s \<Longrightarrow> t \<le> t' \<Longrightarrow> dead k v t' s"
  by (rule deadI) (auto simp: dead_inv dest: deadD order_trans)

lemma dead_delete:
  assumes "dead k v t s" "t \<le> t'"
  shows "dead k v t' (snd (kv_delete port t' k' s))"
proof -
  have i: "inv s" "v \<le> issued s k" using dead_inv[OF assms(1)] by auto
  show ?thesis
  proof (rule deadI)
    fix t'' r
    assume t'': "t' \<le> t''" and r: "kv_get port t'' k (snd (kv_delete port t' k' s)) = Some r"
    then have "kv_get port t'' k s = Some r"
      using delete_get[OF i(1) t'', of k k'] by (simp split: if_splits)
    then show "ver_version r \<noteq> v" using deadD[OF assms(1)] assms(2) t'' order_trans by blast
  qed (use i delete_state[OF i(1), of t' k'] in auto)
qed

lemma dead_apply:
  assumes d: "dead k v t s" and a: "kv_apply port t' c s = (ws, s')" and t: "t \<le> t'"
  shows "dead k v t' s'"
proof -
  have i: "inv s" using d by (simp add: dead_def)
  show ?thesis
  proof (cases c)
    case (CGet k')
    then show ?thesis using d a t dead_later by auto
  next
    case (CPut k' x e)
    then show ?thesis using a dead_put[OF d _ t] by (auto split: prod.splits)
  next
    case (CPutIfAbsent k' x e)
    obtain res s'' where r: "kv_put_if_absent port t' k' x e s = (res, s'')" by fastforce
    show ?thesis
      using a CPutIfAbsent r put_if_absent_cases[OF i r] dead_put[OF d _ t] dead_later[OF d t]
      by auto
  next
    case (CCompareAndSwap k' v' new e)
    obtain res s'' where r: "kv_compare_and_swap port t' k' v' new e s = (res, s'')" by fastforce
    show ?thesis
      using a CCompareAndSwap r cas_cases[OF i r] dead_put[OF d _ t] dead_later[OF d t]
        dead_delete[OF d t]
      by (auto split: option.splits if_splits)
  next
    case (CDelete k')
    then show ?thesis using a dead_delete[OF d t, of k'] by auto
  qed
qed

lemma dead_run:
  "dead k v t s \<Longrightarrow> kv_run port cs s = (ws, s') \<Longrightarrow> sorted (t # map fst cs @ [t']) \<Longrightarrow>
     dead k v t' s'"
proof (induction cs arbitrary: t s ws)
  case Nil
  then show ?case by (auto intro: dead_later)
next
  case (Cons tc cs)
  obtain t1 c where tc: "tc = (t1, c)" by fastforce
  obtain ws1 s1 where a: "kv_apply port t1 c s = (ws1, s1)" by fastforce
  obtain ws2 where b: "kv_run port cs s1 = (ws2, s')"
    using Cons.prems(2) tc a by (auto split: prod.splits)
  have "dead k v t1 s1" using dead_apply[OF Cons.prems(1) a] Cons.prems(3) tc by simp
  then show ?case using Cons.IH[OF _ b] Cons.prems(3) tc by simp
qed

lemma cas_kills:
  assumes i: "inv s" and c: "kv_compare_and_swap port t k v new e s = (Some r, s')"
  shows "dead k v t s'"
proof -
  obtain rec where rec: "kv_get port t k s = Some rec" "ver_version rec = v"
    and out: "case new of
         None \<Rightarrow> Some r = Some 0 \<and> s' = snd (kv_delete port t k s)
       | Some x \<Rightarrow> (\<exists>v'. Some r = Some v' \<and> kv_put port t k x e s = (v', s'))"
    using cas_cases[OF i c] by auto
  have le: "v \<le> issued s k" using get_issued[OF i rec(1)] rec(2) by simp
  show ?thesis
  proof (cases new)
    case None
    then show ?thesis using out le i delete_state[OF i, of t k] delete_get[OF i, of t]
      by (auto simp: dead_def)
  next
    case (Some x)
    then have p: "kv_put port t k x e s = (r, s')" using out by simp
    show ?thesis
      using put_version[OF i p] put_get_same[OF i p] le by (auto simp: dead_def visible_Some)
  qed
qed

lemma dead_cas:
  assumes "dead k v t s"
  shows "kv_compare_and_swap port t k v new e s = (None, s)"
  using assms by (intro cas_miss) (auto simp: dead_def split: option.splits)

text \<open>A swap that succeeded at a version makes every later swap at that version fail.\<close>

lemma swapped_once:
  assumes "inv s" "kv_compare_and_swap port t k v new e s = (Some r, s1)"
    and "kv_run port cs s1 = (ws, s2)" "sorted (t # map fst cs @ [t'])"
  shows "kv_compare_and_swap port t' k v new' e' s2 = (None, s2)"
  using dead_cas[OF dead_run[OF cas_kills[OF assms(1,2)] assms(3,4)]] .

end

end
