(* ===== verification/Memory_Kv.thy ===== *)
theory Memory_Kv
  imports Kv_Store
begin

text \<open>
  The in-process adapter of \<open>meta-whatsapp-adapters/src/store/memory_kv.rs\<close>: a map from keys to
  entries, and the last version handed out per key, kept across deletes. Every operation runs
  under the store's lock, so each is one function from state to state. The interpretation at
  the end shows that the adapter keeps the port's contract.
\<close>

record 'v entry =
  en_value :: 'v
  en_version :: nat
  en_expires_at :: "time option"

record 'v kv_state =
  ks_entries :: "(store_key, 'v entry) hashmap"
  ks_versions :: "(store_key, nat) hashmap"

definition empty_state :: "'v kv_state" where
  "empty_state = \<lparr>ks_entries = [], ks_versions = []\<rparr>"

definition entry_alive :: "time \<Rightarrow> 'v entry \<Rightarrow> bool" where
  "entry_alive now e = (case en_expires_at e of None \<Rightarrow> True | Some t \<Rightarrow> t > now)"

text \<open>\<open>MemoryKvStore::purge_expired\<close>: the number of entries dropped, and the state after.\<close>

definition purge_expired :: "time \<Rightarrow> 'v kv_state \<Rightarrow> nat \<times> 'v kv_state" where
  "purge_expired now st =
     (let before = length (ks_entries st);
          kept = filter (\<lambda>(_, e). entry_alive now e) (ks_entries st)
      in (before - length kept, st\<lparr>ks_entries := kept\<rparr>))"

definition resolve :: "expiry \<Rightarrow> time \<Rightarrow> 'v entry option \<Rightarrow> time option" where
  "resolve e now existing =
     (case e of
        Never \<Rightarrow> None
      | After d \<Rightarrow> (case signed_duration d of None \<Rightarrow> None | Some d' \<Rightarrow> time_checked_add now d')
      | At t \<Rightarrow> Some t
      | Keep \<Rightarrow> (case existing of None \<Rightarrow> None | Some x \<Rightarrow> en_expires_at x))"

definition live :: "'v kv_state \<Rightarrow> store_key \<Rightarrow> time \<Rightarrow> 'v entry option" where
  "live st key now =
     (case map_of (ks_entries st) key of
        None \<Rightarrow> None
      | Some e \<Rightarrow> if entry_alive now e then Some e else None)"

definition last_version :: "'v kv_state \<Rightarrow> store_key \<Rightarrow> nat" where
  "last_version st key = (case map_of (ks_versions st) key of None \<Rightarrow> 0 | Some v \<Rightarrow> v)"

definition next_version :: "store_key \<Rightarrow> 'v kv_state \<Rightarrow> nat \<times> 'v kv_state" where
  "next_version key st =
     (let v = last_version st key + 1
      in (v, st\<lparr>ks_versions := AList.update key v (ks_versions st)\<rparr>))"

definition kv_write :: "store_key \<Rightarrow> 'v \<Rightarrow> time option \<Rightarrow> 'v kv_state \<Rightarrow> nat \<times> 'v kv_state" where
  "kv_write key x expires_at st =
     (let (version, st') = next_version key st
      in (version, st'\<lparr>ks_entries := AList.update key
            \<lparr>en_value = x, en_version = version, en_expires_at = expires_at\<rparr> (ks_entries st')\<rparr>))"

definition mem_get :: "time \<Rightarrow> store_key \<Rightarrow> 'v kv_state \<Rightarrow> 'v versioned option" where
  "mem_get now key st =
     map_option (\<lambda>e. \<lparr>ver_value = en_value e, ver_version = en_version e,
                      ver_expires_at = en_expires_at e\<rparr>) (live st key now)"

definition mem_put ::
  "time \<Rightarrow> store_key \<Rightarrow> 'v \<Rightarrow> expiry \<Rightarrow> 'v kv_state \<Rightarrow> nat \<times> 'v kv_state" where
  "mem_put now key x e st = kv_write key x (resolve e now (live st key now)) st"

definition mem_put_if_absent ::
  "time \<Rightarrow> store_key \<Rightarrow> 'v \<Rightarrow> expiry \<Rightarrow> 'v kv_state \<Rightarrow> nat option \<times> 'v kv_state" where
  "mem_put_if_absent now key x e st =
     (if live st key now \<noteq> None then (None, st)
      else let (v, st') = kv_write key x (resolve e now (None :: 'v entry option)) st in (Some v, st'))"

definition mem_compare_and_swap ::
  "time \<Rightarrow> store_key \<Rightarrow> nat \<Rightarrow> 'v option \<Rightarrow> expiry \<Rightarrow> 'v kv_state
     \<Rightarrow> nat option \<times> 'v kv_state" where
  "mem_compare_and_swap now key expected new e st =
     (case live st key now of
        None \<Rightarrow> (None, st)
      | Some current \<Rightarrow>
          if en_version current \<noteq> expected then (None, st)
          else case new of
                 Some x \<Rightarrow>
                   let (v, st') = kv_write key x (resolve e now (Some current)) st in (Some v, st')
               | None \<Rightarrow> (Some 0, st\<lparr>ks_entries := AList.delete key (ks_entries st)\<rparr>))"

definition mem_delete :: "time \<Rightarrow> store_key \<Rightarrow> 'v kv_state \<Rightarrow> bool \<times> 'v kv_state" where
  "mem_delete now key st =
     (live st key now \<noteq> None, st\<lparr>ks_entries := AList.delete key (ks_entries st)\<rparr>)"

definition memory_kv :: "('v kv_state, 'v) kv_port" where
  "memory_kv =
     \<lparr>kv_get = mem_get, kv_put = mem_put, kv_put_if_absent = mem_put_if_absent,
      kv_compare_and_swap = mem_compare_and_swap, kv_delete = mem_delete\<rparr>"

section \<open>The contract\<close>

text \<open>The state invariant: no entry carries a version above the last one handed out.\<close>

definition kv_ok :: "'v kv_state \<Rightarrow> bool" where
  "kv_ok st \<longleftrightarrow> keys_distinct (ks_entries st) \<and> keys_distinct (ks_versions st)
     \<and> (\<forall>k e. map_of (ks_entries st) k = Some e \<longrightarrow> en_version e \<le> last_version st k)"

lemma memory_kv_sel [simp]:
  "kv_get memory_kv = mem_get" "kv_put memory_kv = mem_put"
  "kv_put_if_absent memory_kv = mem_put_if_absent"
  "kv_compare_and_swap memory_kv = mem_compare_and_swap" "kv_delete memory_kv = mem_delete"
  by (simp_all add: memory_kv_def)

lemma kv_ok_empty [simp]: "kv_ok empty_state"
  by (simp add: kv_ok_def empty_state_def)

lemma resolve_expiry_live:
  "resolve_expiry e now (mem_get now key st) = resolve e now (live st key now)"
  by (auto simp: resolve_expiry_def resolve_def mem_get_def split: expiry.splits option.splits)

lemma resolve_expiry_None: "resolve_expiry e now None = resolve e now None"
  by (auto simp: resolve_expiry_def resolve_def split: expiry.splits option.splits)

lemma kv_write_ok:
  "kv_write key x t st = (v, st') \<Longrightarrow> kv_ok st \<Longrightarrow>
     kv_ok st' \<and> last_version st key < v \<and> last_version st' = (last_version st)(key := v)"
  by (auto simp: kv_write_def next_version_def Let_def kv_ok_def last_version_def fun_eq_iff)

lemma live_kv_write:
  "kv_write key x t st = (v, st') \<Longrightarrow>
     live st' k now = (if k = key
        then (if entry_alive now \<lparr>en_value = x, en_version = v, en_expires_at = t\<rparr>
              then Some \<lparr>en_value = x, en_version = v, en_expires_at = t\<rparr> else None)
        else live st k now)"
  by (auto simp: kv_write_def next_version_def Let_def live_def)

lemma entry_alive_iff: "entry_alive now e = alive now (en_expires_at e)"
  by (simp add: entry_alive_def alive_def)

lemma live_later: "t \<le> t' \<Longrightarrow>
   live st k t' = (case live st k t of None \<Rightarrow> None
                   | Some e \<Rightarrow> if entry_alive t' e then Some e else None)"
  by (auto simp: live_def entry_alive_iff dest: alive_mono split: option.splits)

interpretation mem: kv_store memory_kv last_version kv_ok
proof (unfold_locales, goal_cases)
  case (1 s t t' k)
  then show ?case
    by (auto simp: mem_get_def live_later[OF 1(2)] visible_def entry_alive_iff split: option.splits)
next
  case (2 s t k r)
  then show ?case by (auto simp: mem_get_def live_def kv_ok_def split: option.splits if_splits)
next
  case (3 s t k x e v s')
  then show ?case by (simp add: mem_put_def kv_write_ok)
next
  case (4 s t k x e v s' t' k')
  then show ?case
    by (auto simp: mem_put_def mem_get_def live_kv_write resolve_expiry_live[unfolded mem_get_def]
        visible_def entry_alive_iff)
next
  case (5 s t k r x e)
  then show ?case by (auto simp: mem_get_def mem_put_if_absent_def)
next
  case (6 s t k x e)
  then have "live s k t = None" by (simp add: mem_get_def)
  then show ?case by (simp add: mem_put_if_absent_def mem_put_def)
next
  case (7 s t k v new e)
  then show ?case by (auto simp: mem_get_def mem_compare_and_swap_def split: option.splits)
next
  case (8 s t k r v x e)
  then show ?case by (auto simp: mem_get_def mem_compare_and_swap_def mem_put_def)
next
  case (9 s t k r v e)
  then show ?case by (auto simp: mem_get_def mem_compare_and_swap_def mem_delete_def)
next
  case (10 s t k)
  then show ?case by (simp add: mem_get_def mem_delete_def)
next
  case (11 s t k)
  then show ?case by (auto simp: mem_delete_def kv_ok_def last_version_def)
next
  case (12 s t t' k k')
  then show ?case by (auto simp: mem_get_def mem_delete_def live_def)
qed

section \<open>Properties\<close>

text \<open>
  Versions are never reused. Over any sequence of calls on a new store, at any instants
  (deletes, expiries and swaps included), the versions handed out for a key strictly increase.
\<close>

theorem versions_strictly_increase:
  "sorted_wrt (<) (versions_of k (fst (kv_run memory_kv calls empty_state)))"
  using mem.run_versions[OF kv_ok_empty, of calls _ _ k] by (metis prod.collapse sorted_wrt.simps(2))

text \<open>
  C2. Compare-and-swap is a lock on a version: once one swap (or conditional delete) succeeded
  at a version of a key, every later swap at that version fails and changes nothing, whatever
  other calls ran in between.
\<close>

theorem swap_succeeds_once:
  assumes "kv_ok st"
    and "mem_compare_and_swap t k v new e st = (Some r, st1)"
    and "kv_run memory_kv calls st1 = (ws, st2)"
    and "sorted (t # map fst calls @ [t'])"
  shows "mem_compare_and_swap t' k v new' e' st2 = (None, st2)"
  using mem.swapped_once[of st t k v new e r st1 calls ws st2 t' new' e'] assms by simp

lemmas mem_defs = mem_get_def mem_put_def mem_put_if_absent_def mem_compare_and_swap_def
  mem_delete_def kv_write_def next_version_def last_version_def live_def entry_alive_def
  resolve_def empty_state_def

definition k0 :: store_key where "k0 = store_key_new ''t'' ''k''"

definition st0 :: "string kv_state" where "st0 = snd (mem_put 0 k0 ''a'' Never empty_state)"

definition st1 :: "string kv_state" where
  "st1 = snd (mem_compare_and_swap 1 k0 1 (Some ''b'') Never st0)"

lemma kv_ok_st0: "kv_ok st0"
  using mem.put_inv[of empty_state 0 k0 "''a''" Never] by (simp add: st0_def)

theorem swap_succeeds_once_witness:
  "mem_compare_and_swap 3 k0 1 (Some ''c'') Never
      (snd (kv_run memory_kv [(2, CPut k0 ''z'' Keep)] st1))
   = (None, snd (kv_run memory_kv [(2, CPut k0 ''z'' Keep)] st1))"
proof (rule swap_succeeds_once)
  show "mem_compare_and_swap 1 k0 1 (Some ''b'') Never st0 = (Some 2, st1)"
    by (simp add: st1_def st0_def mem_defs)
  show "kv_run memory_kv [(2, CPut k0 ''z'' Keep)] st1
      = (fst (kv_run memory_kv [(2, CPut k0 ''z'' Keep)] st1),
         snd (kv_run memory_kv [(2, CPut k0 ''z'' Keep)] st1))"
    by simp
qed (simp_all add: kv_ok_st0)

text \<open>
  A record written with a lifetime is visible exactly until the write's instant plus the
  lifetime, with the value and version written; from then on reads answer \<open>None\<close>,
  \<open>put_if_absent\<close> succeeds over it and a swap against it fails.
\<close>

lemma signed_duration_in_range:
  "in_range t \<Longrightarrow> in_range (t + int d) \<Longrightarrow> signed_duration d = Some (int d)"
  by (auto simp: signed_duration_def in_range_def datetime_min_def datetime_max_def)

theorem lifetime_is_exact:
  assumes "in_range t" and "in_range (t + int d)"
    and "mem_put t k x (After d) st = (v, st')"
  shows "mem_get t' k st' =
           (if t' < t + int d
            then Some \<lparr>ver_value = x, ver_version = v, ver_expires_at = Some (t + int d)\<rparr>
            else None)
       \<and> (fst (mem_put_if_absent t' k y e st') \<noteq> None \<longleftrightarrow> t + int d \<le> t')
       \<and> (fst (mem_compare_and_swap t' k v new e st') \<noteq> None \<longleftrightarrow> t' < t + int d)"
proof -
  have "resolve (After d) t (live st k t) = Some (t + int d)"
    using assms(1,2) by (simp add: resolve_def signed_duration_in_range time_checked_add_def)
  then have "live st' k now =
      (if now < t + int d
       then Some \<lparr>en_value = x, en_version = v, en_expires_at = Some (t + int d)\<rparr> else None)" for now
    using assms(3) live_kv_write[of k x _ st v st' k now]
    by (simp add: mem_put_def entry_alive_def)
  then show ?thesis
    by (auto simp: mem_get_def mem_put_if_absent_def mem_compare_and_swap_def split: prod.splits
        option.splits)
qed

theorem lifetime_is_exact_witness:
  "mem_get 4 k0 (snd (mem_put 0 k0 ''a'' (After 5) empty_state))
     = Some \<lparr>ver_value = ''a'', ver_version = 1, ver_expires_at = Some 5\<rparr>
   \<and> mem_get 5 k0 (snd (mem_put 0 k0 ''a'' (After 5) empty_state)) = None"
proof -
  have r: "in_range 0" "in_range (0 + int 5)"
    by (simp_all add: in_range_def datetime_min_def datetime_max_def)
  have w: "mem_put 0 k0 ''a'' (After 5) empty_state
      = (1, snd (mem_put 0 k0 ''a'' (After 5) empty_state))"
    by (simp add: mem_defs)
  show ?thesis
    using lifetime_is_exact[OF r w, of 4 "''b''" Never None]
      lifetime_is_exact[OF r w, of 5 "''b''" Never None]
    by simp
qed

section \<open>Replies, and a purge among them\<close>

text \<open>What each call answers; \<open>kv_replies\<close> are the answers of a run of calls at their instants.\<close>

datatype 'v kv_answer =
  RGet "'v versioned option"
| RPut nat
| RPutIfAbsent "nat option"
| RCompareAndSwap "nat option"
| RDelete bool

fun kv_reply ::
  "('s, 'v) kv_port \<Rightarrow> time \<Rightarrow> 'v kv_call \<Rightarrow> 's \<Rightarrow> 'v kv_answer \<times> 's" where
  "kv_reply port t (CGet k) s = (RGet (kv_get port t k s), s)"
| "kv_reply port t (CPut k x e) s = map_prod RPut id (kv_put port t k x e s)"
| "kv_reply port t (CPutIfAbsent k x e) s = map_prod RPutIfAbsent id (kv_put_if_absent port t k x e s)"
| "kv_reply port t (CCompareAndSwap k v new e) s =
     map_prod RCompareAndSwap id (kv_compare_and_swap port t k v new e s)"
| "kv_reply port t (CDelete k) s = map_prod RDelete id (kv_delete port t k s)"

fun kv_replies ::
  "('s, 'v) kv_port \<Rightarrow> (time \<times> 'v kv_call) list \<Rightarrow> 's \<Rightarrow> 'v kv_answer list" where
  "kv_replies port [] s = []"
| "kv_replies port ((t, c) # cs) s =
     (let (r, s') = kv_reply port t c s in r # kv_replies port cs s')"

text \<open>Two states a caller cannot tell apart from \<open>now\<close> on: the same versions, the same live entries.\<close>

definition same_view :: "time \<Rightarrow> 'v kv_state \<Rightarrow> 'v kv_state \<Rightarrow> bool" where
  "same_view now st st' \<longleftrightarrow>
     last_version st' = last_version st \<and> (\<forall>k t. now \<le> t \<longrightarrow> live st' k t = live st k t)"

lemma same_view_live: "same_view now st st' \<Longrightarrow> now \<le> t \<Longrightarrow> live st' k t = live st k t"
  by (simp add: same_view_def)

lemma same_view_write:
  assumes "same_view now st st'"
  obtains v s1 s1' where "kv_write key x e st = (v, s1)" "kv_write key x e st' = (v, s1')"
    "same_view now s1 s1'"
proof -
  obtain v s1 where w: "kv_write key x e st = (v, s1)" by fastforce
  obtain v' s1' where w': "kv_write key x e st' = (v', s1')" by fastforce
  have lv: "last_version st' = last_version st" using assms by (simp add: same_view_def)
  have v: "v' = v" using w w' lv by (auto simp: kv_write_def next_version_def Let_def)
  have "last_version s1 = (last_version st)(key := v)" "last_version s1' = (last_version st')(key := v')"
    using w w' by (auto simp: kv_write_def next_version_def Let_def last_version_def fun_eq_iff)
  then have "same_view now s1 s1'"
    using assms v lv by (simp add: same_view_def live_kv_write[OF w] live_kv_write[OF w'])
  then show ?thesis using that w w' v by blast
qed

lemma same_view_delete:
  "same_view now st st' \<Longrightarrow>
     same_view now (st\<lparr>ks_entries := AList.delete key (ks_entries st)\<rparr>)
       (st'\<lparr>ks_entries := AList.delete key (ks_entries st')\<rparr>)"
  by (auto simp: same_view_def live_def last_version_def fun_eq_iff delete_conv')

lemma same_view_reply:
  assumes v: "same_view now st st'" and t: "now \<le> t"
  shows "fst (kv_reply memory_kv t c st') = fst (kv_reply memory_kv t c st)
    \<and> same_view now (snd (kv_reply memory_kv t c st)) (snd (kv_reply memory_kv t c st'))"
proof -
  note look = same_view_live[OF v t]
  show ?thesis
  proof (cases c)
    case (CGet k)
    then show ?thesis using v look by (simp add: mem_get_def)
  next
    case (CPut k x e)
    show ?thesis
      by (rule same_view_write[OF v, of k x "resolve e t (live st k t)"])
        (use CPut look in \<open>simp add: mem_put_def\<close>)
  next
    case (CPutIfAbsent k x e)
    show ?thesis
      by (rule same_view_write[OF v, of k x "resolve e t (None :: 'a entry option)"])
        (use CPutIfAbsent look v in \<open>simp add: mem_put_if_absent_def\<close>)
  next
    case (CCompareAndSwap k ver new e)
    show ?thesis
    proof (cases new)
      case None
      then show ?thesis
        using CCompareAndSwap look v same_view_delete[OF v]
        by (simp add: mem_compare_and_swap_def split: option.split)
    next
      case (Some x)
      show ?thesis
        by (rule same_view_write[OF v, of k x "resolve e t (live st k t)"])
          (use CCompareAndSwap Some look v in \<open>cases "live st k t"; simp add: mem_compare_and_swap_def\<close>)
    qed
  next
    case (CDelete k)
    then show ?thesis using look same_view_delete[OF v] by (simp add: mem_delete_def)
  qed
qed

lemma same_view_replies:
  "same_view now st st' \<Longrightarrow> \<forall>(t, _) \<in> set calls. now \<le> t \<Longrightarrow>
     kv_replies memory_kv calls st' = kv_replies memory_kv calls st"
proof (induction calls arbitrary: st st')
  case (Cons tc calls)
  obtain t c where tc: "tc = (t, c)" by fastforce
  have "now \<le> t" using Cons.prems(2) tc by simp
  note r = same_view_reply[OF Cons.prems(1) this, of c]
  then show ?case using Cons.IH[OF conjunct2[OF r]] Cons.prems(2) tc by (simp add: split_def Let_def)
qed simp

lemma purge_same_view:
  assumes "kv_ok st" and "purge_expired now st = (n, st')"
  shows "same_view now st st'"
proof -
  have st': "st' = st\<lparr>ks_entries := filter (\<lambda>(_, e). entry_alive now e) (ks_entries st)\<rparr>"
    using assms(2) by (auto simp: purge_expired_def Let_def)
  have d: "keys_distinct (ks_entries st)" using assms(1) by (simp add: kv_ok_def)
  have "live st' k t = live st k t" if "now \<le> t" for k t
    using that by (auto simp: live_def st' map_of_al_filter[OF d] entry_alive_iff dest: alive_mono[of t _ now]
        split: option.splits)
  then show ?thesis by (simp add: same_view_def st' last_version_def fun_eq_iff)
qed

text \<open>
  C3. \<open>purge_expired\<close> is invisible: it returns how many entries had expired and keeps the contract's
  invariant, and from its instant on no call tells that it ran: whatever reads, writes,
  conditional writes, swaps and deletes follow, at any instants not before it, each is answered as
  it would have been without the purge (versions handed out included).
\<close>

theorem purge_is_invisible:
  assumes "kv_ok st" and "purge_expired now st = (n, st')"
    and "\<forall>(t, _) \<in> set calls. now \<le> t"
  shows "kv_ok st'
       \<and> n = length (filter (\<lambda>(_, e). \<not> entry_alive now e) (ks_entries st))
       \<and> last_version st' = last_version st
       \<and> (\<forall>k t. mem_get (max now t) k st' = mem_get (max now t) k st)
       \<and> kv_replies memory_kv calls st' = kv_replies memory_kv calls st"
proof -
  have st': "st' = st\<lparr>ks_entries := filter (\<lambda>(_, e). entry_alive now e) (ks_entries st)\<rparr>"
    using assms(2) by (auto simp: purge_expired_def Let_def)
  have d: "keys_distinct (ks_entries st)" using assms(1) by (simp add: kv_ok_def)
  note view = purge_same_view[OF assms(1,2)]
  have lv: "last_version st' = last_version st" using view by (simp add: same_view_def)
  have "kv_ok st'"
    using assms(1) lv by (auto simp: kv_ok_def st' map_of_al_filter[OF d] split: option.splits if_splits)
  moreover have "n = length (filter (\<lambda>(_, e). \<not> entry_alive now e) (ks_entries st))"
    using assms(2) sum_length_filter_compl[of "\<lambda>(_, e). entry_alive now e" "ks_entries st"]
    by (auto simp: purge_expired_def Let_def split_def)
  ultimately show ?thesis
    using lv same_view_replies[OF view assms(3)] same_view_live[OF view] by (simp add: mem_get_def)
qed

text \<open>An entry that lived until 5 is purged at 9; the key is then free and its versions go on.\<close>

definition st_lived :: "string kv_state" where "st_lived = snd (mem_put 0 k0 ''a'' (After 5) empty_state)"

lemma kv_ok_st_lived: "kv_ok st_lived"
  using mem.put_inv[of empty_state 0 k0 "''a''" "After 5"] by (simp add: st_lived_def)

theorem purge_is_invisible_witness:
  "fst (purge_expired 9 st_lived) = 1 \<and> ks_entries (snd (purge_expired 9 st_lived)) = []
   \<and> kv_replies memory_kv [(9, CGet k0), (10, CPutIfAbsent k0 ''b'' Never), (11, CDelete k0)]
       (snd (purge_expired 9 st_lived))
     = [RGet None, RPutIfAbsent (Some 2), RDelete True]"
proof -
  let ?calls = "[(9, CGet k0), (10, CPutIfAbsent k0 ''b'' Never), (11, CDelete k0)]"
  have st_lived: "st_lived = \<lparr>ks_entries = [(k0, \<lparr>en_value = ''a'', en_version = 1, en_expires_at = Some 5\<rparr>)],
      ks_versions = [(k0, 1)]\<rparr>"
    by (simp add: st_lived_def mem_defs signed_duration_def time_checked_add_def in_range_def
        datetime_min_def datetime_max_def)
  obtain n s where p: "purge_expired 9 st_lived = (n, s)" by fastforce
  have "kv_replies memory_kv ?calls s = kv_replies memory_kv ?calls st_lived"
    and "n = length (filter (\<lambda>(_, e). \<not> entry_alive 9 e) (ks_entries st_lived))"
    using purge_is_invisible[OF kv_ok_st_lived p, of ?calls] by simp_all
  moreover have "kv_replies memory_kv ?calls st_lived = [RGet None, RPutIfAbsent (Some 2), RDelete True]"
    by (simp add: st_lived mem_defs)
  moreover have "ks_entries s = []"
    using p by (auto simp: purge_expired_def st_lived entry_alive_def)
  ultimately show ?thesis using p by (simp add: st_lived entry_alive_def)
qed

end
