(* ===== verification/Kv_Prog.thy ===== *)
theory Kv_Prog
  imports Memory_Kv Error_Tree
begin

text \<open>
  Programs over the key/value port. An \<open>async\<close> method that awaits store operations, reads the
  clock and calls out (a send, a sink, the random number generator) is a tree: each node is one
  atomic operation with its continuation, so other callers may run between any two nodes. A store
  operation may fail with a \<open>StorageError\<close>, before or after it took effect. \<open>exec\<close> runs a
  program alone against a store that does not fail; \<open>pool_step\<close> runs any number of programs
  interleaved, with time passing and operations failing at will. \<open>JsonStore\<close>, the typed view of
  a namespace, is here too; its JSON codec (\<open>serde_json\<close>) is a parameter.
\<close>

section \<open>Programs\<close>

datatype ('v, 'x, 'y, 'a) prog =
  Ret 'a
| Get store_key "storage_error + 'v versioned option \<Rightarrow> ('v, 'x, 'y, 'a) prog"
| Put store_key 'v expiry "storage_error + nat \<Rightarrow> ('v, 'x, 'y, 'a) prog"
| PutIfAbsent store_key 'v expiry "storage_error + nat option \<Rightarrow> ('v, 'x, 'y, 'a) prog"
| CompareAndSwap store_key nat "'v option" expiry
    "storage_error + nat option \<Rightarrow> ('v, 'x, 'y, 'a) prog"
| Delete store_key "storage_error + bool \<Rightarrow> ('v, 'x, 'y, 'a) prog"
| Now "time \<Rightarrow> ('v, 'x, 'y, 'a) prog"
| Ext 'x "'y \<Rightarrow> ('v, 'x, 'y, 'a) prog"

primrec pbind ::
  "('v, 'x, 'y, 'a) prog \<Rightarrow> ('a \<Rightarrow> ('v, 'x, 'y, 'b) prog) \<Rightarrow> ('v, 'x, 'y, 'b) prog" where
  "pbind (Ret a) g = g a"
| "pbind (Get k f) g = Get k (\<lambda>r. pbind (f r) g)"
| "pbind (Put k x e f) g = Put k x e (\<lambda>r. pbind (f r) g)"
| "pbind (PutIfAbsent k x e f) g = PutIfAbsent k x e (\<lambda>r. pbind (f r) g)"
| "pbind (CompareAndSwap k v x e f) g = CompareAndSwap k v x e (\<lambda>r. pbind (f r) g)"
| "pbind (Delete k f) g = Delete k (\<lambda>r. pbind (f r) g)"
| "pbind (Now f) g = Now (\<lambda>r. pbind (f r) g)"
| "pbind (Ext x f) g = Ext x (\<lambda>r. pbind (f r) g)"

text \<open>The \<open>?\<close> operator: go on with the value, or return the error.\<close>

definition ptry ::
  "('v, 'x, 'y, 'e + 'a) prog \<Rightarrow> ('a \<Rightarrow> ('v, 'x, 'y, 'e + 'b) prog) \<Rightarrow> ('v, 'x, 'y, 'e + 'b) prog"
  where "ptry p g = pbind p (\<lambda>r. case r of Inl e \<Rightarrow> Ret (Inl e) | Inr a \<Rightarrow> g a)"

text \<open>The \<open>From\<close> conversion \<open>?\<close> applies to a storage error.\<close>

definition lift_storage :: "storage_error + 'a \<Rightarrow> error + 'a" where
  "lift_storage r = map_sum Storage id r"

text \<open>A store call whose error is returned at once.\<close>

definition pstore ::
  "('v, 'x, 'y, storage_error + 'a) prog \<Rightarrow> ('a \<Rightarrow> ('v, 'x, 'y, error + 'b) prog)
     \<Rightarrow> ('v, 'x, 'y, error + 'b) prog" where
  "pstore p g = pbind p (\<lambda>r. case r of Inl e \<Rightarrow> Ret (Inl (Storage e)) | Inr a \<Rightarrow> g a)"

section \<open>A program alone\<close>

text \<open>
  \<open>clk\<close> is what the clock shows in the outside world \<open>w\<close>, \<open>ext\<close> what an outside call answers and
  how it changes the world (time may pass in it).
\<close>

primrec exec ::
  "('s, 'v) kv_port \<Rightarrow> ('w \<Rightarrow> time) \<Rightarrow> ('x \<Rightarrow> 'w \<Rightarrow> 'y \<times> 'w)
     \<Rightarrow> ('v, 'x, 'y, 'a) prog \<Rightarrow> 's \<Rightarrow> 'w \<Rightarrow> 'a \<times> 's \<times> 'w" where
  "exec port clk ext (Ret a) s w = (a, s, w)"
| "exec port clk ext (Get k f) s w =
     exec port clk ext (f (Inr (kv_get port (clk w) k s))) s w"
| "exec port clk ext (Put k x e f) s w =
     (let r = kv_put port (clk w) k x e s
      in exec port clk ext (f (Inr (fst r))) (snd r) w)"
| "exec port clk ext (PutIfAbsent k x e f) s w =
     (let r = kv_put_if_absent port (clk w) k x e s
      in exec port clk ext (f (Inr (fst r))) (snd r) w)"
| "exec port clk ext (CompareAndSwap k v x e f) s w =
     (let r = kv_compare_and_swap port (clk w) k v x e s
      in exec port clk ext (f (Inr (fst r))) (snd r) w)"
| "exec port clk ext (Delete k f) s w =
     (let r = kv_delete port (clk w) k s
      in exec port clk ext (f (Inr (fst r))) (snd r) w)"
| "exec port clk ext (Now f) s w = exec port clk ext (f (clk w)) s w"
| "exec port clk ext (Ext x f) s w =
     (let r = ext x w in exec port clk ext (f (fst r)) s (snd r))"

lemma exec_pbind [simp]:
  "exec port clk ext (pbind p g) s w =
     (let (a, s', w') = exec port clk ext p s w in exec port clk ext (g a) s' w')"
  by (induction p arbitrary: s w) (simp_all add: Let_def split_def)

lemma exec_ptry [simp]:
  "exec port clk ext (ptry p g) s w =
     (let (r, s', w') = exec port clk ext p s w
      in case r of Inl e \<Rightarrow> (Inl e, s', w') | Inr a \<Rightarrow> exec port clk ext (g a) s' w')"
  by (simp add: ptry_def split_def Let_def split: sum.splits)

lemma exec_pstore [simp]:
  "exec port clk ext (pstore p g) s w =
     (let (r, s', w') = exec port clk ext p s w
      in case r of Inl e \<Rightarrow> (Inl (Storage e), s', w') | Inr a \<Rightarrow> exec port clk ext (g a) s' w')"
  by (simp add: pstore_def split_def Let_def split: sum.splits)

text \<open>Time does not go back in a program if no outside call turns it back.\<close>

lemma exec_clock:
  assumes "\<And>x w. clk w \<le> clk (snd (ext x w))"
  shows "exec port clk ext p s w = (r, s', w') \<Longrightarrow> clk w \<le> clk w'"
proof (induction p arbitrary: s w)
  case (Ext x f)
  have "clk (snd (ext x w)) \<le> clk w'"
    using Ext.IH[OF rangeI] Ext.prems by (simp add: Let_def)
  then show ?case using assms[of w x] by linarith
qed (simp_all add: Let_def, (metis rangeI)+)

context kv_store
begin

lemma exec_inv: "inv s \<Longrightarrow> exec port clk ext p s w = (r, s', w') \<Longrightarrow> inv s'"
proof (induction p arbitrary: s w)
  case (Put k x e f)
  then show ?case using put_inv[OF Put.prems(1)] by (simp add: Let_def) (metis rangeI)
next
  case (PutIfAbsent k x e f)
  obtain res s1 where p: "kv_put_if_absent port (clk w) k x e s = (res, s1)" by fastforce
  have "inv s1"
    using put_if_absent_cases[OF PutIfAbsent.prems(1) p] PutIfAbsent.prems(1)
      put_version[OF PutIfAbsent.prems(1)] by blast
  then show ?case using PutIfAbsent p by (simp add: Let_def) (metis rangeI)
next
  case (CompareAndSwap k v new e f)
  obtain res s1 where p: "kv_compare_and_swap port (clk w) k v new e s = (res, s1)" by fastforce
  have "inv s1"
    using cas_cases[OF CompareAndSwap.prems(1) p] CompareAndSwap.prems(1)
      put_version[OF CompareAndSwap.prems(1)] delete_state[OF CompareAndSwap.prems(1)]
    by (auto split: option.splits)
  then show ?case using CompareAndSwap p by (simp add: Let_def) (metis rangeI)
next
  case (Delete k f)
  then show ?case using delete_state[OF Delete.prems(1)] by (simp add: Let_def) (metis rangeI)
qed (simp_all add: Let_def, (metis rangeI)+)

end

section \<open>Programs interleaved\<close>

inductive proc_step ::
  "('s, 'v) kv_port \<Rightarrow> time \<Rightarrow> ('v, 'x, 'y, 'a) prog \<Rightarrow> 's \<Rightarrow> ('v, 'x, 'y, 'a) prog \<Rightarrow> 's \<Rightarrow> bool"
  for port :: "('s, 'v) kv_port" and t :: time where
  get: "proc_step port t (Get k f) s (f (Inr (kv_get port t k s))) s"
| get_fails: "proc_step port t (Get k f) s (f (Inl err)) s"
| put: "kv_put port t k x e s = (v, s') \<Longrightarrow> proc_step port t (Put k x e f) s (f (Inr v)) s'"
| put_refused: "proc_step port t (Put k x e f) s (f (Inl err)) s"
| put_lost: "kv_put port t k x e s = (v, s') \<Longrightarrow>
    proc_step port t (Put k x e f) s (f (Inl err)) s'"
| put_if_absent: "kv_put_if_absent port t k x e s = (v, s') \<Longrightarrow>
    proc_step port t (PutIfAbsent k x e f) s (f (Inr v)) s'"
| put_if_absent_refused: "proc_step port t (PutIfAbsent k x e f) s (f (Inl err)) s"
| put_if_absent_lost: "kv_put_if_absent port t k x e s = (v, s') \<Longrightarrow>
    proc_step port t (PutIfAbsent k x e f) s (f (Inl err)) s'"
| cas: "kv_compare_and_swap port t k v x e s = (r, s') \<Longrightarrow>
    proc_step port t (CompareAndSwap k v x e f) s (f (Inr r)) s'"
| cas_refused: "proc_step port t (CompareAndSwap k v x e f) s (f (Inl err)) s"
| cas_lost: "kv_compare_and_swap port t k v x e s = (r, s') \<Longrightarrow>
    proc_step port t (CompareAndSwap k v x e f) s (f (Inl err)) s'"
| delete: "kv_delete port t k s = (b, s') \<Longrightarrow> proc_step port t (Delete k f) s (f (Inr b)) s'"
| delete_refused: "proc_step port t (Delete k f) s (f (Inl err)) s"
| delete_lost: "kv_delete port t k s = (b, s') \<Longrightarrow>
    proc_step port t (Delete k f) s (f (Inl err)) s'"
| now: "proc_step port t (Now f) s (f t) s"
| ext: "proc_step port t (Ext x f) s (f y) s"

inductive_cases proc_step_RetE [elim!]: "proc_step port t (Ret a) s p' s'"
inductive_cases proc_step_GetE: "proc_step port t (Get k f) s p' s'"
inductive_cases proc_step_PutIfAbsentE: "proc_step port t (PutIfAbsent k x e f) s p' s'"
inductive_cases proc_step_CasE: "proc_step port t (CompareAndSwap k v x e f) s p' s'"
inductive_cases proc_step_NowE: "proc_step port t (Now f) s p' s'"
inductive_cases proc_step_ExtE: "proc_step port t (Ext x f) s p' s'"

text \<open>A pool: the store, the time (it never goes back) and the programs, run by any schedule.\<close>

record ('s, 'v, 'x, 'y, 'a) pool =
  pl_store :: 's
  pl_now :: time
  pl_procs :: "('v, 'x, 'y, 'a) prog list"

inductive pool_step ::
  "('s, 'v) kv_port \<Rightarrow> ('s, 'v, 'x, 'y, 'a) pool \<Rightarrow> ('s, 'v, 'x, 'y, 'a) pool \<Rightarrow> bool"
  for port :: "('s, 'v) kv_port" where
  tick: "pl_now P \<le> t \<Longrightarrow> pool_step port P (P\<lparr>pl_now := t\<rparr>)"
| move: "i < length (pl_procs P) \<Longrightarrow>
    proc_step port (pl_now P) (pl_procs P ! i) (pl_store P) p' s' \<Longrightarrow>
    pool_step port P (P\<lparr>pl_store := s', pl_procs := (pl_procs P)[i := p']\<rparr>)"

inductive pool_run ::
  "('s, 'v) kv_port \<Rightarrow> ('s, 'v, 'x, 'y, 'a) pool \<Rightarrow> ('s, 'v, 'x, 'y, 'a) pool \<Rightarrow> bool"
  for port :: "('s, 'v) kv_port" and P :: "('s, 'v, 'x, 'y, 'a) pool" where
  refl: "pool_run port P P"
| step: "pool_run port P Q \<Longrightarrow> pool_step port Q R \<Longrightarrow> pool_run port P R"

text \<open>An invariant of the pool holds after every run that starts in it.\<close>

lemma pool_run_invariant:
  assumes "pool_run port P Q" and "I P"
    and "\<And>Q R. I Q \<Longrightarrow> pool_step port Q R \<Longrightarrow> I R"
  shows "I Q"
  using assms(1,2) by (induction rule: pool_run.induct) (auto intro: assms(3))

section \<open>\<open>JsonStore\<close>\<close>

record ('v, 't) codec =
  enc :: "'t \<Rightarrow> anyhow + 'v"
  dec :: "'v \<Rightarrow> anyhow + 't"

text \<open>What the code relies on of \<open>serde_json\<close>: a value it encodes decodes to itself.\<close>

definition good_codec :: "('v, 't) codec \<Rightarrow> bool" where
  "good_codec c \<longleftrightarrow> (\<forall>x. \<exists>v. enc c x = Inr v \<and> dec c v = Inr x)"

definition js_encode :: "('v, 't) codec \<Rightarrow> 't \<Rightarrow> store_key \<Rightarrow> storage_error + 'v" where
  "js_encode c x key =
     (case enc c x of Inl source \<Rightarrow> Inl (Corrupt (store_key_display key) source)
                    | Inr bytes \<Rightarrow> Inr bytes)"

definition js_get :: "('v, 't) codec \<Rightarrow> string \<Rightarrow> string
    \<Rightarrow> ('v, 'x, 'y, storage_error + ('t \<times> nat \<times> time option) option) prog" where
  "js_get c namespace key =
     (let k = store_key_new namespace key
      in Get k (\<lambda>r. case r of
           Inl e \<Rightarrow> Ret (Inl e)
         | Inr None \<Rightarrow> Ret (Inr None)
         | Inr (Some v) \<Rightarrow>
             (case dec c (ver_value v) of
                Inl source \<Rightarrow> Ret (Inl (Corrupt (store_key_display k) source))
              | Inr x \<Rightarrow> Ret (Inr (Some (x, ver_version v, ver_expires_at v))))))"

definition js_put :: "('v, 't) codec \<Rightarrow> string \<Rightarrow> string \<Rightarrow> 't \<Rightarrow> expiry
    \<Rightarrow> ('v, 'x, 'y, storage_error + nat) prog" where
  "js_put c namespace key x e =
     (let k = store_key_new namespace key
      in case js_encode c x k of Inl err \<Rightarrow> Ret (Inl err) | Inr bytes \<Rightarrow> Put k bytes e Ret)"

definition js_put_if_absent :: "('v, 't) codec \<Rightarrow> string \<Rightarrow> string \<Rightarrow> 't \<Rightarrow> expiry
    \<Rightarrow> ('v, 'x, 'y, storage_error + nat option) prog" where
  "js_put_if_absent c namespace key x e =
     (let k = store_key_new namespace key
      in case js_encode c x k of Inl err \<Rightarrow> Ret (Inl err) | Inr bytes \<Rightarrow> PutIfAbsent k bytes e Ret)"

definition js_compare_and_swap :: "('v, 't) codec \<Rightarrow> string \<Rightarrow> string \<Rightarrow> nat \<Rightarrow> 't option \<Rightarrow> expiry
    \<Rightarrow> ('v, 'x, 'y, storage_error + nat option) prog" where
  "js_compare_and_swap c namespace key expected new e =
     (let k = store_key_new namespace key
      in case new of
           None \<Rightarrow> CompareAndSwap k expected None e Ret
         | Some x \<Rightarrow>
             (case js_encode c x k of
                Inl err \<Rightarrow> Ret (Inl err)
              | Inr bytes \<Rightarrow> CompareAndSwap k expected (Some bytes) e Ret))"

definition js_delete :: "string \<Rightarrow> string \<Rightarrow> ('v, 'x, 'y, storage_error + bool) prog" where
  "js_delete namespace key = Delete (store_key_new namespace key) Ret"

lemma good_codecD:
  assumes "good_codec c"
  obtains v where "enc c x = Inr v" "dec c v = Inr x"
  using assms by (auto simp: good_codec_def)

end
