(* ===== verification/Dedup.thy ===== *)
theory Dedup
  imports Kv_Prog
begin

text \<open>
  The webhook dedup guard of \<open>meta-whatsapp-webhooks/src/dedup.rs\<close>: a marker per event in the
  key/value store, \<open>pending\<close> under a lease while the event is handed over, \<open>done\<close> for the dedup
  lifetime after. SHA-256 (in hex) of the dedup key is the parameter \<open>sha\<close>; an event and its
  dedup key are parameters too. The lemmas compute what a claim, a completion and a release do
  to any store that keeps the port's contract; the theorems show that concurrent claims of one
  event are granted at most once within a lease, under any interleaving and any store failures.
\<close>

definition DEDUP_NAMESPACE :: string where
  "DEDUP_NAMESPACE = ''wa.webhook.dedup''"

definition DEFAULT_DEDUP_TTL :: duration where
  "DEFAULT_DEDUP_TTL = hours (7 * 24 + 1)"

definition DEFAULT_CLAIM_LEASE :: duration where
  "DEFAULT_CLAIM_LEASE = secs 60"

definition PENDING :: string where "PENDING = ''pending''"
definition DONE :: string where "DONE = ''done''"

lemma DONE_neq_PENDING [simp]: "DONE \<noteq> PENDING" "PENDING \<noteq> DONE"
  by (simp_all add: DONE_def PENDING_def)

definition dedup_store_key :: "(string \<Rightarrow> string) \<Rightarrow> string \<Rightarrow> store_key" where
  "dedup_store_key sha dedup_key = store_key_new DEDUP_NAMESPACE (sha dedup_key)"

record dedup_guard =
  dg_ttl :: duration
  dg_lease :: duration

definition dedup_guard_new :: dedup_guard where
  "dedup_guard_new = \<lparr>dg_ttl = DEFAULT_DEDUP_TTL, dg_lease = DEFAULT_CLAIM_LEASE\<rparr>"

definition with_ttl :: "duration \<Rightarrow> dedup_guard \<Rightarrow> dedup_guard" where
  "with_ttl ttl g = g\<lparr>dg_ttl := ttl\<rparr>"

definition with_lease :: "duration \<Rightarrow> dedup_guard \<Rightarrow> dedup_guard" where
  "with_lease lease g = g\<lparr>dg_lease := lease\<rparr>"

record claim_ticket =
  tk_key :: store_key
  tk_version :: nat

datatype claim = Acquired claim_ticket | Untracked | Duplicate | InFlight

text \<open>
  \<open>claim_key\<close>: two rounds, as the marker can expire between a failed \<open>put_if_absent\<close> and the
  \<open>get\<close> that asks what it was.
\<close>

primrec claim_rounds ::
  "nat \<Rightarrow> dedup_guard \<Rightarrow> store_key \<Rightarrow> (string, 'x, 'y, error + claim) prog" where
  "claim_rounds 0 g key = Ret (Inr InFlight)"
| "claim_rounds (Suc n) g key =
     PutIfAbsent key PENDING (After (dg_lease g)) (\<lambda>r. case r of
         Inl e \<Rightarrow> Ret (Inl (Storage e))
       | Inr (Some version) \<Rightarrow> Ret (Inr (Acquired \<lparr>tk_key = key, tk_version = version\<rparr>))
       | Inr None \<Rightarrow> Get key (\<lambda>r. case r of
             Inl e \<Rightarrow> Ret (Inl (Storage e))
           | Inr (Some marker) \<Rightarrow>
               if ver_value marker = PENDING then Ret (Inr InFlight) else Ret (Inr Duplicate)
           | Inr None \<Rightarrow> claim_rounds n g key))"

definition claim_key ::
  "(string \<Rightarrow> string) \<Rightarrow> dedup_guard \<Rightarrow> string \<Rightarrow> (string, 'x, 'y, error + claim) prog" where
  "claim_key sha g dedup_key = claim_rounds 2 g (dedup_store_key sha dedup_key)"

definition claim_event ::
  "(string \<Rightarrow> string) \<Rightarrow> ('e \<Rightarrow> string option) \<Rightarrow> dedup_guard \<Rightarrow> 'e
     \<Rightarrow> (string, 'x, 'y, error + claim) prog" where
  "claim_event sha dedup_key g event =
     (case dedup_key event of
        Some key \<Rightarrow> claim_key sha g key
      | None \<Rightarrow> Ret (Inr Untracked))"

definition complete ::
  "dedup_guard \<Rightarrow> claim_ticket \<Rightarrow> (string, 'x, 'y, error + bool) prog" where
  "complete g ticket =
     CompareAndSwap (tk_key ticket) (tk_version ticket) (Some DONE) (After (dg_ttl g)) (\<lambda>r.
       case r of
         Inl e \<Rightarrow> Ret (Inl (Storage e))
       | Inr (Some _) \<Rightarrow> Ret (Inr True)
       | Inr None \<Rightarrow> PutIfAbsent (tk_key ticket) DONE (After (dg_ttl g)) (\<lambda>r. case r of
             Inl e \<Rightarrow> Ret (Inl (Storage e))
           | Inr recorded \<Rightarrow> Ret (Inr (recorded \<noteq> None))))"

definition release :: "claim_ticket \<Rightarrow> (string, 'x, 'y, error + bool) prog" where
  "release ticket =
     CompareAndSwap (tk_key ticket) (tk_version ticket) None Keep (\<lambda>r. case r of
         Inl e \<Rightarrow> Ret (Inl (Storage e))
       | Inr removed \<Rightarrow> Ret (Inr (removed \<noteq> None)))"

section \<open>What the operations do to a store\<close>

text \<open>A lifetime reaches at least its length: beyond the representable range it is endless.\<close>

lemma alive_After: "t' < t + int d \<Longrightarrow> alive t' (resolve_expiry (After d) t ex)"
  by (auto simp: alive_def resolve_expiry_def time_checked_add_def signed_duration_def
      split: option.splits bind_splits)

locale dedup_store = kv_store port issued inv
  for port :: "('s, string) kv_port" and issued :: "'s \<Rightarrow> store_key \<Rightarrow> nat" and inv :: "'s \<Rightarrow> bool"
begin

text \<open>A key is free when nothing shows under it, done when a marker other than \<open>pending\<close> does.\<close>

definition free :: "'s \<Rightarrow> store_key \<Rightarrow> time \<Rightarrow> bool" where
  "free s k t \<longleftrightarrow> kv_get port t k s = None"

definition done_until :: "'s \<Rightarrow> store_key \<Rightarrow> time \<Rightarrow> time \<Rightarrow> bool" where
  "done_until s k t u \<longleftrightarrow>
     (\<forall>t'. t \<le> t' \<longrightarrow> t' < u \<longrightarrow> (\<exists>r. kv_get port t' k s = Some r \<and> ver_value r \<noteq> PENDING))"

text \<open>The marker a ticket stands for is still there, or has expired with nobody taking over.\<close>

definition held :: "'s \<Rightarrow> claim_ticket \<Rightarrow> time \<Rightarrow> bool" where
  "held s tk t \<longleftrightarrow> (case kv_get port t (tk_key tk) s of
      None \<Rightarrow> True | Some r \<Rightarrow> ver_version r = tk_version tk)"

text \<open>What one caller does to other keys: nothing a later reader could see.\<close>

definition same_but :: "store_key \<Rightarrow> time \<Rightarrow> 's \<Rightarrow> 's \<Rightarrow> bool" where
  "same_but k t s s' \<longleftrightarrow> inv s' \<and>
     (\<forall>t' k'. t \<le> t' \<longrightarrow> k' \<noteq> k \<longrightarrow> kv_get port t' k' s' = kv_get port t' k' s)"

lemma same_but_refl: "inv s \<Longrightarrow> same_but k t s s"
  by (simp add: same_but_def)

lemma same_but_put: "inv s \<Longrightarrow> kv_put port t k x e s = (v, s') \<Longrightarrow> same_but k t s s'"
  using put_get_other put_version by (auto simp: same_but_def)

lemma same_but_delete: "inv s \<Longrightarrow> same_but k t s (snd (kv_delete port t k s))"
  using delete_get delete_state by (auto simp: same_but_def)

lemma free_later: "inv s \<Longrightarrow> free s k t \<Longrightarrow> t \<le> t' \<Longrightarrow> free s k t'"
  by (simp add: free_def get_later_None)

lemma done_later: "done_until s k t u \<Longrightarrow> t \<le> t' \<Longrightarrow> done_until s k t' u"
  by (auto simp: done_until_def)

lemma done_sooner: "done_until s k t u \<Longrightarrow> u' \<le> u \<Longrightarrow> done_until s k t u'"
  by (auto simp: done_until_def)

lemma same_but_free:
  "same_but k t s s' \<Longrightarrow> k' \<noteq> k \<Longrightarrow> free s' k' t \<longleftrightarrow> free s k' t"
  by (auto simp: same_but_def free_def)

lemma same_but_done:
  "same_but k t s s' \<Longrightarrow> k' \<noteq> k \<Longrightarrow> done_until s' k' t u \<longleftrightarrow> done_until s k' t u"
  by (auto simp: same_but_def done_until_def)

lemma exec_round_free:
  assumes i: "inv s" and f: "free s k (clk w)"
    and p: "kv_put port (clk w) k PENDING (After (dg_lease g)) s = (v, s')"
  shows "exec port clk ext (claim_rounds (Suc n) g k) s w =
     (Inr (Acquired \<lparr>tk_key = k, tk_version = v\<rparr>), s', w)"
  using put_if_absent_free[OF i f[unfolded free_def]] p by simp

lemma exec_round_taken:
  assumes i: "inv s" and r: "kv_get port (clk w) k s = Some r"
  shows "exec port clk ext (claim_rounds (Suc n) g k) s w =
     (Inr (if ver_value r = PENDING then InFlight else Duplicate), s, w)"
  using put_if_absent_live[OF i r] r by simp

lemmas exec_claim_free = exec_round_free[where n = "Suc 0", folded numeral_2_eq_2]
lemmas exec_claim_taken = exec_round_taken[where n = "Suc 0", folded numeral_2_eq_2]

lemma exec_claim_done:
  assumes i: "inv s" and d: "done_until s k (clk w) u" and u: "clk w < u"
  shows "exec port clk ext (claim_rounds 2 g k) s w = (Inr Duplicate, s, w)"
proof -
  obtain r where r: "kv_get port (clk w) k s = Some r" "ver_value r \<noteq> PENDING"
    using d u by (auto simp: done_until_def)
  show ?thesis using exec_claim_taken[where clk = clk, OF i r(1)] r(2) by simp
qed

lemma claimed_held:
  assumes i: "inv s" and p: "kv_put port t k PENDING e s = (v, s')" and t: "t \<le> t'"
  shows "held s' \<lparr>tk_key = k, tk_version = v\<rparr> t'"
  using put_get_same[OF i p t] by (auto simp: held_def visible_def split: option.splits)

lemma put_done:
  assumes i: "inv s" and p: "kv_put port t k DONE (After d) s = (v, s')"
  shows "done_until s' k t (t + int d)"
  using put_get_same[OF i p] by (auto simp: done_until_def visible_def alive_After)

lemma exec_complete:
  assumes i: "inv s" and h: "held s tk (clk w)"
  shows "\<exists>s'. exec port clk ext (complete g tk) s w = (Inr True, s', w)
     \<and> same_but (tk_key tk) (clk w) s s'
     \<and> done_until s' (tk_key tk) (clk w) (clk w + int (dg_ttl g))"
proof -
  obtain v s' where p:
      "kv_put port (clk w) (tk_key tk) DONE (After (dg_ttl g)) s = (v, s')"
    by fastforce
  have *: "same_but (tk_key tk) (clk w) s s'"
    "done_until s' (tk_key tk) (clk w) (clk w + int (dg_ttl g))"
    using same_but_put[OF i p] put_done[OF i p] by auto
  show ?thesis
  proof (cases "kv_get port (clk w) (tk_key tk) s")
    case None
    then show ?thesis
      using * p cas_miss[OF i, where t = "clk w" and k = "tk_key tk"] put_if_absent_free[OF i None]
      by (simp add: complete_def)
  next
    case (Some r)
    then have "ver_version r = tk_version tk" using h by (simp add: held_def)
    then show ?thesis
      using * p cas_replace[OF i Some] by (simp add: complete_def)
  qed
qed

lemma exec_release:
  assumes i: "inv s" and h: "held s tk (clk w)"
  shows "\<exists>b s'. exec port clk ext (release tk) s w = (Inr b, s', w)
     \<and> same_but (tk_key tk) (clk w) s s' \<and> free s' (tk_key tk) (clk w)"
proof (cases "kv_get port (clk w) (tk_key tk) s")
  case None
  then show ?thesis
    using cas_miss[OF i, where t = "clk w" and k = "tk_key tk"] same_but_refl[OF i]
    by (intro exI[of _ False]) (simp add: release_def free_def)
next
  case (Some r)
  then have "ver_version r = tk_version tk" using h by (simp add: held_def)
  then show ?thesis
    using cas_delete[OF i Some] same_but_delete[OF i] delete_get[OF i]
    by (intro exI[of _ True]) (simp add: release_def free_def)
qed

text \<open>A stale ticket touches nobody else's claim.\<close>

lemma exec_stale:
  assumes i: "inv s" and r: "kv_get port (clk w) (tk_key tk) s = Some r"
    and v: "ver_version r \<noteq> tk_version tk"
  shows "exec port clk ext (complete g tk) s w = (Inr False, s, w)"
    and "exec port clk ext (release tk) s w = (Inr False, s, w)"
  using cas_miss[OF i, where t = "clk w" and k = "tk_key tk" and v = "tk_version tk"] put_if_absent_live[OF i r] r v
  by (simp_all add: complete_def release_def)

end

interpretation mem_dedup: dedup_store memory_kv last_version kv_ok
  by unfold_locales

section \<open>Concurrent claims\<close>

definition is_acquired :: "(string, 'x, 'y, error + claim) prog \<Rightarrow> bool" where
  "is_acquired p \<longleftrightarrow> (case p of Ret r \<Rightarrow> (case r of Inr (Acquired _) \<Rightarrow> True | _ \<Rightarrow> False) | _ \<Rightarrow> False)"

definition wrote :: "storage_error + nat option \<Rightarrow> bool" where
  "wrote r \<longleftrightarrow> (case r of Inr (Some _) \<Rightarrow> True | _ \<Rightarrow> False)"

text \<open>
  The trees a running claim of \<open>key\<close> can be: it writes nothing but the pending marker, with the
  guard's lease, and has not acquired before such a write succeeded.
\<close>

primrec claiming ::
  "dedup_guard \<Rightarrow> store_key \<Rightarrow> (string, 'x, 'y, error + claim) prog \<Rightarrow> bool" where
  "claiming g key (Ret r) = (case r of Inr (Acquired _) \<Rightarrow> False | _ \<Rightarrow> True)"
| "claiming g key (Get k f) = (k = key \<and> (\<forall>r. claiming g key (f r)))"
| "claiming g key (Put k x e f) = False"
| "claiming g key (PutIfAbsent k x e f) =
     (k = key \<and> x = PENDING \<and> e = After (dg_lease g)
      \<and> (\<forall>r. \<not> wrote r \<longrightarrow> claiming g key (f r))
      \<and> (\<forall>v. f (Inr (Some v)) = Ret (Inr (Acquired \<lparr>tk_key = key, tk_version = v\<rparr>))))"
| "claiming g key (CompareAndSwap k v x e f) = False"
| "claiming g key (Delete k f) = False"
| "claiming g key (Now f) = False"
| "claiming g key (Ext x f) = False"

lemma claiming_rounds: "claiming g key (claim_rounds n g key)"
  by (induction n) (auto simp: wrote_def split: sum.splits option.splits)

lemma claiming_not_acquired: "claiming g key p \<Longrightarrow> \<not> is_acquired p"
  by (cases p) (auto simp: is_acquired_def split: sum.splits claim.splits)

definition acquired_count :: "(string, 'x, 'y, error + claim) prog list \<Rightarrow> nat" where
  "acquired_count ps = length (filter is_acquired ps)"

lemma acquired_count_update:
  "i < length ps \<Longrightarrow> \<not> is_acquired (ps ! i) \<Longrightarrow>
     acquired_count (ps[i := p]) = acquired_count ps + (if is_acquired p then 1 else 0)"
  unfolding acquired_count_def
  by (induction ps arbitrary: i) (auto split: nat.splits simp: nth_Cons)

context dedup_store
begin

text \<open>
  The invariant within a lease from \<open>t0\<close>: at most one claim acquired, and once one did, a marker
  shows until the lease is over.
\<close>

definition claims_inv ::
  "dedup_guard \<Rightarrow> store_key \<Rightarrow> time \<Rightarrow> ('s, string, 'x, 'y, error + claim) pool \<Rightarrow> bool" where
  "claims_inv g key t0 P \<longleftrightarrow> inv (pl_store P) \<and> t0 \<le> pl_now P
     \<and> (\<forall>p \<in> set (pl_procs P). claiming g key p \<or> is_acquired p)
     \<and> acquired_count (pl_procs P) \<le> 1
     \<and> (acquired_count (pl_procs P) = 1 \<longrightarrow>
          (\<forall>t'. pl_now P \<le> t' \<longrightarrow> t' < t0 + int (dg_lease g) \<longrightarrow>
             kv_get port t' key (pl_store P) \<noteq> None))"

lemma pending_shows:
  assumes "inv s" "kv_put port t k PENDING (After d) s = (v, s')" "t0 \<le> t" "t \<le> t'"
    "t' < t0 + int d"
  shows "kv_get port t' k s' \<noteq> None"
  using put_get_same[OF assms(1,2,4)] assms(3,5) by (simp add: visible_def alive_After)

lemma claims_inv_move:
  assumes I: "claims_inv g key t0 P"
    and now: "pl_now P < t0 + int (dg_lease g)"
    and i: "i < length (pl_procs P)"
    and st: "proc_step port (pl_now P) (pl_procs P ! i) (pl_store P) p' s'"
  shows "claims_inv g key t0 (P\<lparr>pl_store := s', pl_procs := (pl_procs P)[i := p']\<rparr>)"
proof -
  let ?p = "pl_procs P ! i"
  have inv: "inv (pl_store P)" and t0: "t0 \<le> pl_now P" using I by (simp_all add: claims_inv_def)
  have p: "claiming g key ?p \<or> is_acquired ?p" using I i by (auto simp: claims_inv_def)
  have np: "claiming g key ?p"
    using p st by (cases ?p) (auto simp: is_acquired_def)
  note cnt = acquired_count_update[OF i claiming_not_acquired[OF np]]
  have mem: "p \<in> set ((pl_procs P)[i := p']) \<Longrightarrow> p = p' \<or> p \<in> set (pl_procs P)" for p
    using set_update_subset_insert by fastforce
  have keep: ?thesis if "s' = pl_store P" "claiming g key p'"
    using I that cnt[of p'] claiming_not_acquired[OF that(2)] mem by (auto simp: claims_inv_def)
  show ?thesis
  proof (cases ?p)
    case (Get k f)
    then show ?thesis using st np keep by (auto elim: proc_step_GetE)
  next
    case (PutIfAbsent k x e f)
    then have k: "k = key" "x = PENDING" "e = After (dg_lease g)" using np by simp_all
    have fails: "claiming g key (f (Inl err))" "claiming g key (f (Inr None))" for err
      using np PutIfAbsent by (auto simp: wrote_def)
    obtain res s'' where r: "kv_put_if_absent port (pl_now P) k x e (pl_store P) = (res, s'')"
      by fastforce
    from st PutIfAbsent r
    consider "s' = pl_store P" "\<exists>err. p' = f (Inl err)" | "s' = s''" "p' = f (Inr res)"
      | "s' = s''" "\<exists>err. p' = f (Inl err)"
      by (auto elim!: proc_step_PutIfAbsentE) blast+
    then show ?thesis
    proof cases
      case 1
      then show ?thesis using keep fails by auto
    next
      case 2
      from put_if_absent_cases[OF inv r] show ?thesis
      proof (elim disjE exE conjE)
        fix rec assume "res = None" "s'' = pl_store P"
        then show ?thesis using 2 keep fails by auto
      next
        fix v assume free: "kv_get port (pl_now P) k (pl_store P) = None"
          and v: "res = Some v" and put: "kv_put port (pl_now P) k x e (pl_store P) = (v, s'')"
        have none: "acquired_count (pl_procs P) = 0"
          using I free now k by (cases "acquired_count (pl_procs P) = 1") (auto simp: claims_inv_def)
        have acq: "is_acquired p'"
          using np PutIfAbsent 2 v by (simp add: is_acquired_def)
        show ?thesis
          using I cnt[of p'] acq none mem 2 t0 put_version[OF inv put]
            pending_shows[OF inv put[unfolded k] t0] k
          by (auto simp: claims_inv_def)
      qed
    next
      case 3
      then obtain err where p': "p' = f (Inl err)" by blast
      from put_if_absent_cases[OF inv r] show ?thesis
      proof (elim disjE exE conjE)
        fix rec assume "s'' = pl_store P"
        then show ?thesis using 3 keep fails by auto
      next
        fix v assume put: "kv_put port (pl_now P) k x e (pl_store P) = (v, s'')"
        show ?thesis
          using I cnt[of p'] claiming_not_acquired[OF fails(1), of err] fails(1)[of err] mem 3 p' t0
            put_version[OF inv put] pending_shows[OF inv put[unfolded k] t0] k
          by (auto simp: claims_inv_def)
      qed
    qed
  qed (use np st in auto)
qed

lemma claims_at_most_once:
  assumes i: "inv (pl_store P)" and run: "pool_run port P Q"
    and ps: "pl_procs P = replicate n (claim_rounds 2 g key)"
    and now: "pl_now Q < pl_now P + int (dg_lease g)"
  shows "acquired_count (pl_procs Q) \<le> 1"
proof -
  let ?I = "\<lambda>Q. pl_now Q < pl_now P + int (dg_lease g) \<longrightarrow> claims_inv g key (pl_now P) Q"
  have "acquired_count (pl_procs P) = 0"
    unfolding ps acquired_count_def
    by (simp add: filter_replicate claiming_not_acquired[OF claiming_rounds] del: claim_rounds.simps)
  then have "?I P"
    using i ps claiming_rounds[of g key 2] by (auto simp: claims_inv_def simp del: claim_rounds.simps)
  moreover have "?I R" if "?I Q'" "pool_step port Q' R" for Q' R
    using that(2)
  proof cases
    case (tick t)
    then show ?thesis using that(1) by (auto simp: claims_inv_def)
  next
    case (move i p' s')
    then show ?thesis using that(1) claims_inv_move by auto
  qed
  ultimately have "?I Q" by (rule pool_run_invariant[OF run])
  then show ?thesis using now by (simp add: claims_inv_def)
qed

text \<open>A claim nobody completes: in flight while its lease lasts, then free to be claimed again.\<close>

lemma abandoned_claim:
  assumes i: "inv s" and f: "free s k (clk w)"
    and c: "exec port clk ext (claim_rounds 2 g k) s w = (Inr (Acquired tk), s', w)"
    and r: "in_range (clk w)" "in_range (clk w + int (dg_lease g))" and t: "clk w \<le> clk w'"
  shows "fst (exec port clk ext (claim_rounds 2 g k) s' w') =
     (if clk w' < clk w + int (dg_lease g) then Inr InFlight
      else Inr (Acquired \<lparr>tk_key = k,
                  tk_version = fst (kv_put port (clk w') k PENDING (After (dg_lease g)) s')\<rparr>))"
proof -
  obtain v s1 where p: "kv_put port (clk w) k PENDING (After (dg_lease g)) s = (v, s1)"
    by fastforce
  have s1: "s' = s1" "inv s1"
    using exec_claim_free[where clk = clk and ext = ext, OF i f p] c put_version[OF i p] by auto
  have "signed_duration (dg_lease g) = Some (int (dg_lease g))"
    using r by (auto simp: signed_duration_def in_range_def datetime_min_def datetime_max_def)
  then have get: "kv_get port (clk w') k s1 =
      (if clk w' < clk w + int (dg_lease g)
       then Some \<lparr>ver_value = PENDING, ver_version = v,
                  ver_expires_at = Some (clk w + int (dg_lease g))\<rparr> else None)"
    using put_get_same[OF i p t] r(2)
    by (simp add: visible_def alive_def resolve_expiry_def time_checked_add_def)
  show ?thesis
  proof (cases "clk w' < clk w + int (dg_lease g)")
    case True
    with get have "\<exists>r. kv_get port (clk w') k s1 = Some r \<and> ver_value r = PENDING" by simp
    then show ?thesis using exec_claim_taken[where clk = clk and ext = ext, OF s1(2)] True s1 by auto
  next
    case False
    then have "free s1 k (clk w')" using get by (simp add: free_def)
    then show ?thesis
      using exec_claim_free[where clk = clk and ext = ext and w = w', OF s1(2)] False s1 by (metis fst_conv prod.collapse)
  qed
qed

end

section \<open>Properties\<close>

text \<open>
  C5. However many requests claim the same event at once, with their store calls interleaved in
  any order, time passing between them and any call failing before or after it took effect, at
  most one of them gets the claim before the lease that starts now is over.
\<close>

theorem concurrent_claims_granted_once:
  assumes "kv_ok (pl_store P)"
    and "pl_procs P = replicate n (claim_key sha g dedup_key)"
    and "pool_run memory_kv P Q"
    and "pl_now Q < pl_now P + int (dg_lease g)"
  shows "acquired_count (pl_procs Q) \<le> 1"
  using mem_dedup.claims_at_most_once[of P Q n g "dedup_store_key sha dedup_key"] assms
  by (simp add: claim_key_def)

lemma put_if_absent_some:
  "kv_put_if_absent port t k x e s = (Some v, s') \<Longrightarrow> p' = f (Inr (Some v)) \<Longrightarrow>
     proc_step port t (PutIfAbsent k x e f) s p' s'"
  by (auto intro: proc_step.intros)

definition race_start :: "(string kv_state, string, unit, unit, error + claim) pool" where
  "race_start = \<lparr>pl_store = empty_state, pl_now = 0,
     pl_procs = replicate 2 (claim_key (\<lambda>k. k) dedup_guard_new ''wamid.X'')\<rparr>"

theorem concurrent_claims_granted_once_witness:
  "\<exists>Q. pool_run memory_kv race_start Q \<and> acquired_count (pl_procs Q) = 1
     \<and> acquired_count (pl_procs Q) \<le> 1"
proof -
  let ?k = "dedup_store_key (\<lambda>k. k) ''wamid.X''"
  obtain v s where w: "mem_put_if_absent 0 ?k PENDING (After DEFAULT_CLAIM_LEASE) empty_state
      = (Some v, s)"
    by (simp add: mem_defs mem_put_if_absent_def)
  define Q where "Q = race_start\<lparr>pl_store := s, pl_procs := (pl_procs race_start)[0 :=
      Ret (Inr (Acquired \<lparr>tk_key = ?k, tk_version = v\<rparr>))]\<rparr>"
  have p: "pl_procs race_start ! 0 = claim_rounds (Suc (Suc 0)) dedup_guard_new ?k"
    by (simp add: race_start_def claim_key_def numeral_2_eq_2)
  have "proc_step memory_kv (pl_now race_start) (pl_procs race_start ! 0) (pl_store race_start)
      (Ret (Inr (Acquired \<lparr>tk_key = ?k, tk_version = v\<rparr>))) s"
    unfolding p claim_rounds.simps
    by (rule put_if_absent_some) (use w in \<open>simp_all add: race_start_def dedup_guard_new_def\<close>)
  then have run: "pool_run memory_kv race_start Q"
    unfolding Q_def
    by (intro pool_run.step[OF pool_run.refl] pool_step.move) (simp_all add: race_start_def)
  have acq: "is_acquired (Ret (Inr (Acquired tk)))" for tk by (simp add: is_acquired_def)
  have "\<not> is_acquired (claim_rounds (Suc (Suc 0)) dedup_guard_new ?k)"
    by (rule claiming_not_acquired[OF claiming_rounds])
  then have one: "acquired_count (pl_procs Q) = 1"
    by (simp add: Q_def race_start_def acquired_count_def acq numeral_2_eq_2
        claim_key_def del: claim_rounds.simps)
  have "pl_now Q < pl_now race_start + int (dg_lease dedup_guard_new)"
    by (simp add: Q_def race_start_def dedup_guard_new_def DEFAULT_CLAIM_LEASE_def secs_def)
  then have "acquired_count (pl_procs Q) \<le> 1"
    using concurrent_claims_granted_once[OF _ _ run, of 2 "\<lambda>k. k" dedup_guard_new "''wamid.X''"]
    by (simp add: race_start_def)
  then show ?thesis using run one by blast
qed

text \<open>
  A claim whose request died swallows nothing. If nobody completes or releases it, a retry
  within the lease is told the event is in flight (so it is not acknowledged), and a retry from
  the end of the lease on gets the claim.
\<close>

theorem abandoned_claim_expires:
  assumes "kv_ok s" and "mem_get (clk w) (dedup_store_key sha dedup_key) s = None"
    and "exec memory_kv clk ext (claim_key sha g dedup_key) s w = (Inr (Acquired tk), s', w)"
    and "in_range (clk w)" and "in_range (clk w + int (dg_lease g))"
    and "clk w \<le> clk w'"
  shows "fst (exec memory_kv clk ext (claim_key sha g dedup_key) s' w') =
     (if clk w' < clk w + int (dg_lease g) then Inr InFlight
      else Inr (Acquired \<lparr>tk_key = dedup_store_key sha dedup_key,
             tk_version = fst (mem_put (clk w') (dedup_store_key sha dedup_key) PENDING
                                 (After (dg_lease g)) s')\<rparr>))"
  using mem_dedup.abandoned_claim[of s "dedup_store_key sha dedup_key" clk w ext g tk s' w'] assms
  by (simp add: claim_key_def mem_dedup.free_def)

theorem abandoned_claim_expires_witness:
  "\<exists>s'. fst (exec memory_kv (\<lambda>w. w) (\<lambda>x w. (x :: unit, w))
           (claim_key (\<lambda>k. k) dedup_guard_new ''e'') s' 59)
       = Inr InFlight
     \<and> (\<exists>tk. fst (exec memory_kv (\<lambda>w. w) (\<lambda>x w. (x :: unit, w))
           (claim_key (\<lambda>k. k) dedup_guard_new ''e'') s' 60000000000) = Inr (Acquired tk))"
proof -
  let ?k = "dedup_store_key (\<lambda>k. k) ''e''" and ?ext = "\<lambda>x w. (x :: unit, w)"
  obtain v s' where p: "mem_put 0 ?k PENDING (After DEFAULT_CLAIM_LEASE) empty_state = (v, s')"
    by fastforce
  have f: "mem_get 0 ?k empty_state = None"
    by (simp add: mem_defs)
  have c: "exec memory_kv (\<lambda>w. w) ?ext (claim_key (\<lambda>k. k) dedup_guard_new ''e'') empty_state 0
      = (Inr (Acquired \<lparr>tk_key = ?k, tk_version = v\<rparr>), s', 0)"
    using mem_dedup.exec_claim_free[of empty_state ?k "\<lambda>w. w" 0 dedup_guard_new v s' ?ext] p f
    by (simp add: claim_key_def mem_dedup.free_def dedup_guard_new_def)
  have r: "in_range 0" "in_range (0 + int (dg_lease dedup_guard_new))"
    by (simp_all add: in_range_def datetime_min_def datetime_max_def dedup_guard_new_def
        DEFAULT_CLAIM_LEASE_def secs_def)
  show ?thesis
    using abandoned_claim_expires[where clk = "\<lambda>w. w", OF _ f c r, of 59]
      abandoned_claim_expires[where clk = "\<lambda>w. w", OF _ f c r, of 60000000000]
    by (intro exI[of _ s']) (simp add: dedup_guard_new_def DEFAULT_CLAIM_LEASE_def secs_def)
qed

end
