(* ===== verification/Webhook_Handler.thy ===== *)
theory Webhook_Handler
  imports Signature Dedup "HOL-Library.Sublist"
begin

text \<open>
  The webhook endpoint: \<open>meta-whatsapp-webhooks/src/handler.rs\<close> (size check, signature, parse,
  then per event claim, hand over, complete or release) and its HTTP mapping in \<open>server.rs\<close>.

  A handler is a program over the dedup store. The sink and the dead-letter store are outside:
  a request names the call, and the reply carries the answer of either (\<open>fst\<close> the sink's, \<open>snd\<close>
  the dead-letter store's). Parameters: the HMAC and the digest, \<open>parse\<close> for
  \<open>WebhookPayload::from_slice\<close> followed by \<open>into_events\<close>, \<open>raw_value\<close> for the lossy JSON reading of
  a body that is no payload, \<open>to_str\<close> for the \<open>http\<close> crate's reading of a header value, and
  \<open>dedup_key\<close> for the key of an event other than \<open>Unparsed\<close> (which has none). Logging is left out.
\<close>

section \<open>The handler\<close>

text \<open>\<open>Unparsed\<close> is the only event the handler builds itself.\<close>

datatype 'e webhook_event = Event 'e | Unparsed json anyhow

fun event_dedup_key :: "('e \<Rightarrow> string option) \<Rightarrow> 'e webhook_event \<Rightarrow> string option" where
  "event_dedup_key dedup_key (Event e) = dedup_key e"
| "event_dedup_key dedup_key (Unparsed raw err) = None"

definition DEFAULT_MAX_BODY_BYTES :: nat where
  "DEFAULT_MAX_BODY_BYTES = 3 * 1024 * 1024"

record delivery_report =
  dr_delivered :: nat
  dr_duplicates :: nat
  dr_unparsed :: nat
  dr_dead_lettered :: nat

definition report_default :: delivery_report where
  "report_default =
     \<lparr>dr_delivered = 0, dr_duplicates = 0, dr_unparsed = 0, dr_dead_lettered = 0\<rparr>"

text \<open>The sink and the dead-letter store are outside, so only whether there is one is kept.\<close>

record webhook_handler =
  wh_verifier :: signature_verifier
  wh_verify_token :: string
  wh_dedup :: "dedup_guard option"
  wh_dead_letters :: bool
  wh_max_body_bytes :: nat

definition handler_new :: "signature_verifier \<Rightarrow> string \<Rightarrow> webhook_handler" where
  "handler_new verifier verify_token =
     \<lparr>wh_verifier = verifier, wh_verify_token = verify_token, wh_dedup = None,
      wh_dead_letters = False, wh_max_body_bytes = DEFAULT_MAX_BODY_BYTES\<rparr>"

definition with_dedup :: "dedup_guard \<Rightarrow> webhook_handler \<Rightarrow> webhook_handler" where
  "with_dedup g h = h\<lparr>wh_dedup := Some g\<rparr>"

definition with_dead_letters :: "webhook_handler \<Rightarrow> webhook_handler" where
  "with_dead_letters h = h\<lparr>wh_dead_letters := True\<rparr>"

definition with_max_body_bytes :: "nat \<Rightarrow> webhook_handler \<Rightarrow> webhook_handler" where
  "with_max_body_bytes n h = h\<lparr>wh_max_body_bytes := n\<rparr>"

definition handler_check :: "webhook_handler \<Rightarrow> config_error + unit" where
  "handler_check h = check_verify_token (wh_verify_token h)"

definition handler_verify ::
  "(string \<Rightarrow> string) \<Rightarrow> webhook_handler \<Rightarrow> verification_query \<Rightarrow> error + string" where
  "handler_verify sha h query = verify_subscription sha query (wh_verify_token h)"

datatype 'e outside =
  SinkDeliver "'e webhook_event"
| RecordDeadLetter "'e webhook_event" sink_error

type_synonym reply = "(sink_error + unit) \<times> (error + unit)"
type_synonym ('e, 'a) handler_prog = "(string, 'e outside, reply, 'a) prog"

datatype handed = Delivered | DeadLettered
datatype hand_over_error = HandOverSink sink_error | HandOverOther error

fun hand_over_to_error :: "hand_over_error \<Rightarrow> error" where
  "hand_over_to_error (HandOverSink e) = Sink e"
| "hand_over_to_error (HandOverOther e) = e"

definition hand_over ::
  "webhook_handler \<Rightarrow> 'e webhook_event \<Rightarrow> ('e, hand_over_error + handed) handler_prog" where
  "hand_over h event =
     (if \<not> wh_dead_letters h then
        Ext (SinkDeliver event) (\<lambda>r. case fst r of
            Inl e \<Rightarrow> Ret (Inl (HandOverSink e))
          | Inr _ \<Rightarrow> Ret (Inr Delivered))
      else
        Ext (SinkDeliver event) (\<lambda>r. case fst r of
            Inr _ \<Rightarrow> Ret (Inr Delivered)
          | Inl err \<Rightarrow>
              if sink_is_permanent err then
                Ext (RecordDeadLetter event err) (\<lambda>r. case snd r of
                    Inr _ \<Rightarrow> Ret (Inr DeadLettered)
                  | Inl store_error \<Rightarrow> Ret (Inl (HandOverOther store_error)))
              else Ret (Inl (HandOverSink err))))"

definition release_ticket :: "claim_ticket option \<Rightarrow> ('e, unit) handler_prog" where
  "release_ticket ticket =
     (case ticket of
        None \<Rightarrow> Ret ()
      | Some t \<Rightarrow> pbind (release t) (\<lambda>_. Ret ()))"

definition count_handed :: "handed \<Rightarrow> delivery_report \<Rightarrow> delivery_report" where
  "count_handed handed report =
     (case handed of
        Delivered \<Rightarrow> report\<lparr>dr_delivered := dr_delivered report + 1\<rparr>
      | DeadLettered \<Rightarrow> report\<lparr>dr_dead_lettered := dr_dead_lettered report + 1\<rparr>)"

text \<open>
  One event once its claim is known: hand it over; on failure release and return the error; else
  complete (whatever that answers) and go on with \<open>rest\<close>.
\<close>

definition deliver_claimed ::
  "webhook_handler \<Rightarrow> 'e webhook_event \<Rightarrow> (dedup_guard \<times> claim_ticket) option
     \<Rightarrow> delivery_report \<Rightarrow> (delivery_report \<Rightarrow> ('e, error + delivery_report) handler_prog)
     \<Rightarrow> ('e, error + delivery_report) handler_prog" where
  "deliver_claimed h event ticket report rest =
     pbind (hand_over h event) (\<lambda>r. case r of
         Inl err \<Rightarrow>
           pbind (release_ticket (map_option snd ticket)) (\<lambda>_. Ret (Inl (hand_over_to_error err)))
       | Inr handed \<Rightarrow>
           (case ticket of
              None \<Rightarrow> rest (count_handed handed report)
            | Some (guard, t) \<Rightarrow>
                pbind (complete guard t) (\<lambda>_. rest (count_handed handed report))))"

primrec dispatch_from ::
  "(string \<Rightarrow> string) \<Rightarrow> ('e \<Rightarrow> string option) \<Rightarrow> webhook_handler \<Rightarrow> 'e webhook_event list
     \<Rightarrow> delivery_report \<Rightarrow> ('e, error + delivery_report) handler_prog" where
  "dispatch_from sha key h [] report = Ret (Inr report)"
| "dispatch_from sha key h (event # events) report =
     (case wh_dedup h of
        None \<Rightarrow> deliver_claimed h event None report (dispatch_from sha key h events)
      | Some guard \<Rightarrow>
          ptry (claim_event sha (event_dedup_key key) guard event) (\<lambda>c. case c of
              Acquired t \<Rightarrow>
                deliver_claimed h event (Some (guard, t)) report (dispatch_from sha key h events)
            | Duplicate \<Rightarrow>
                dispatch_from sha key h events (report\<lparr>dr_duplicates := dr_duplicates report + 1\<rparr>)
            | InFlight \<Rightarrow> Ret (Inl (Webhook ClaimInFlight))
            | Untracked \<Rightarrow>
                deliver_claimed h event None report (dispatch_from sha key h events)))"

definition dispatch ::
  "(string \<Rightarrow> string) \<Rightarrow> ('e \<Rightarrow> string option) \<Rightarrow> webhook_handler \<Rightarrow> 'e webhook_event list
     \<Rightarrow> ('e, error + delivery_report) handler_prog" where
  "dispatch sha key h events = dispatch_from sha key h events report_default"

definition deliver_unparsed ::
  "(string \<Rightarrow> json) \<Rightarrow> webhook_handler \<Rightarrow> string \<Rightarrow> anyhow
     \<Rightarrow> ('e, error + delivery_report) handler_prog" where
  "deliver_unparsed raw_value h body err =
     (let report = report_default\<lparr>dr_unparsed := 1\<rparr>
      in pbind (hand_over h (Unparsed (raw_value body) err)) (\<lambda>r. case r of
           Inl e \<Rightarrow> Ret (Inl (hand_over_to_error e))
         | Inr Delivered \<Rightarrow> Ret (Inr (report\<lparr>dr_delivered := 1\<rparr>))
         | Inr DeadLettered \<Rightarrow> Ret (Inr (report\<lparr>dr_dead_lettered := 1\<rparr>))))"

text \<open>What a handler needs of other crates and of the event type.\<close>

record 'e hooks =
  hk_hmac :: "string \<Rightarrow> string \<Rightarrow> string"
  hk_sha :: "string \<Rightarrow> string"
  hk_parse :: "string \<Rightarrow> anyhow + 'e list"
  hk_raw_value :: "string \<Rightarrow> json"
  hk_dedup_key :: "'e \<Rightarrow> string option"

definition deliver ::
  "'e hooks \<Rightarrow> webhook_handler \<Rightarrow> string option \<Rightarrow> string
     \<Rightarrow> ('e, error + delivery_report) handler_prog" where
  "deliver hk h signature_header body =
     (if length body > wh_max_body_bytes h then
        Ret (Inl (Webhook (PayloadTooLarge (length body) (wh_max_body_bytes h))))
      else (case sig_verify (hk_hmac hk) (wh_verifier h) signature_header body of
          Inl err \<Rightarrow> Ret (Inl (Webhook err))
        | Inr _ \<Rightarrow>
            (case hk_parse hk body of
               Inr events \<Rightarrow> dispatch (hk_sha hk) (hk_dedup_key hk) h (map Event events)
             | Inl err \<Rightarrow> deliver_unparsed (hk_raw_value hk) h body err)))"

section \<open>The HTTP mapping\<close>

fun status_for :: "error \<Rightarrow> nat" where
  "status_for (Webhook MissingSignature) = 401"
| "status_for (Webhook MalformedSignature) = 401"
| "status_for (Webhook SignatureMismatch) = 401"
| "status_for (Webhook (InvalidVerificationRequest _)) = 403"
| "status_for (Webhook VerifyTokenMismatch) = 403"
| "status_for (Webhook (PayloadTooLarge _ _)) = 413"
| "status_for (Webhook ClaimInFlight) = 503"
| "status_for _ = 500"

definition signature_header ::
  "(string \<Rightarrow> string option) \<Rightarrow> string option \<Rightarrow> webhook_error + string" where
  "signature_header to_str header =
     (case header of
        None \<Rightarrow> Inl MissingSignature
      | Some bytes \<Rightarrow>
          (case to_str bytes of
             None \<Rightarrow> Inl MalformedSignature
           | Some v \<Rightarrow>
               (case parse_header (Some v) of Inl e \<Rightarrow> Inl e | Inr _ \<Rightarrow> Inr v)))"

text \<open>
  A request: the signature header's bytes, and what reading the body under the router's limit
  gives (the bytes, or the status it is refused with).
\<close>

definition receive ::
  "'e hooks \<Rightarrow> (string \<Rightarrow> string option) \<Rightarrow> webhook_handler \<Rightarrow> string option \<Rightarrow> nat + string
     \<Rightarrow> ('e, nat) handler_prog" where
  "receive hk to_str h header request_body =
     (case signature_header to_str header of
        Inl _ \<Rightarrow> Ret 401
      | Inr signature \<Rightarrow>
          (case request_body of
             Inl rejection \<Rightarrow> Ret rejection
           | Inr body \<Rightarrow>
               pbind (deliver hk h (Some signature) body) (\<lambda>r. case r of
                   Inr _ \<Rightarrow> Ret 200
                 | Inl err \<Rightarrow> Ret (status_for err))))"

text \<open>The verification route: the status and, with a 200, the body.\<close>

definition verify_route ::
  "(string \<Rightarrow> string) \<Rightarrow> webhook_handler \<Rightarrow> verification_query option \<Rightarrow> nat \<times> string option" where
  "verify_route sha h query =
     (case query of
        None \<Rightarrow> (403, None)
      | Some q \<Rightarrow>
          (case handler_verify sha h q of
             Inr challenge \<Rightarrow> (200, Some challenge)
           | Inl _ \<Rightarrow> (403, None)))"

section \<open>Deliveries in a world\<close>

text \<open>
  The outside of a handler: its clock, the answers still to come from the sink and the dead-letter
  store with the time each takes (after those, both accept at once), and what either accepted.
\<close>

record 'e outside_world =
  ow_now :: time
  ow_script :: "(duration \<times> reply) list"
  ow_log :: "('e webhook_event \<times> handed) list"

definition accepted :: "'e outside \<Rightarrow> reply \<Rightarrow> ('e webhook_event \<times> handed) list" where
  "accepted x r =
     (case x of
        SinkDeliver e \<Rightarrow> if fst r = Inr () then [(e, Delivered)] else []
      | RecordDeadLetter e _ \<Rightarrow> if snd r = Inr () then [(e, DeadLettered)] else [])"

definition outside_call :: "'e outside \<Rightarrow> 'e outside_world \<Rightarrow> reply \<times> 'e outside_world" where
  "outside_call x w =
     (let (d, r) = (case ow_script w of [] \<Rightarrow> (0, (Inr (), Inr ())) | a # _ \<Rightarrow> a)
      in (r, \<lparr>ow_now = ow_now w + int d, ow_script = tl (ow_script w),
              ow_log = ow_log w @ accepted x r\<rparr>))"

text \<open>A sequence of posts: the wait before each, its signature header and its body.\<close>

fun serve ::
  "('s, string) kv_port \<Rightarrow> 'e hooks \<Rightarrow> (string \<Rightarrow> string option) \<Rightarrow> webhook_handler
     \<Rightarrow> (duration \<times> string option \<times> string) list \<Rightarrow> 's \<Rightarrow> 'e outside_world
     \<Rightarrow> nat list \<times> 's \<times> 'e outside_world" where
  "serve port hk to_str h [] s w = ([], s, w)"
| "serve port hk to_str h ((gap, header, body) # posts) s w =
     (let (status, s1, w1) = exec port ow_now outside_call (receive hk to_str h header (Inr body)) s
            (w\<lparr>ow_now := ow_now w + int gap\<rparr>);
          (statuses, s2, w2) = serve port hk to_str h posts s1 w1
      in (status # statuses, s2, w2))"

text \<open>The markers of events, in order, and of what the world accepted.\<close>

definition event_markers :: "'e hooks \<Rightarrow> 'e webhook_event list \<Rightarrow> store_key list" where
  "event_markers hk events =
     List.map_filter (\<lambda>e. map_option (dedup_store_key (hk_sha hk)) (event_dedup_key (hk_dedup_key hk) e))
       events"

definition handed_keys :: "'e hooks \<Rightarrow> 'e outside_world \<Rightarrow> store_key list" where
  "handed_keys hk w = event_markers hk (map fst (ow_log w))"

definition payload_markers :: "'e hooks \<Rightarrow> string \<Rightarrow> store_key list" where
  "payload_markers hk body =
     (case hk_parse hk body of Inl _ \<Rightarrow> [] | Inr events \<Rightarrow> event_markers hk (map Event events))"

lemma status_for_not_200 [simp]: "status_for e \<noteq> 200"
  by (cases e rule: status_for.cases) simp_all

lemma sig_verify_error:
  "sig_verify hmac v header body = Inl err \<Longrightarrow>
     err = MissingSignature \<or> err = MalformedSignature \<or> err = SignatureMismatch"
  by (auto simp: sig_verify_def parse_header_def Let_def split: option.splits sum.splits if_splits)

lemma deliver_refused:
  assumes "length body > wh_max_body_bytes h
    \<or> sig_verify (hk_hmac hk) (wh_verifier h) header body \<noteq> Inr ()"
  obtains err where "deliver hk h header body = Ret (Inl (Webhook err))"
    "status_for (Webhook err) = 401 \<or> status_for (Webhook err) = 413"
proof (cases "length body > wh_max_body_bytes h")
  case True
  then show ?thesis using that by (simp add: deliver_def)
next
  case False
  then obtain err where e: "sig_verify (hk_hmac hk) (wh_verifier h) header body = Inl err"
    using assms by (cases "sig_verify (hk_hmac hk) (wh_verifier h) header body") auto
  then show ?thesis using that[of err] False sig_verify_error[OF e] by (auto simp: deliver_def)
qed

lemma event_markers_simps [simp]:
  "event_markers hk [] = []"
  "event_markers hk (e # es) =
     (case event_dedup_key (hk_dedup_key hk) e of
        None \<Rightarrow> event_markers hk es
      | Some k \<Rightarrow> dedup_store_key (hk_sha hk) k # event_markers hk es)"
  "event_markers hk (es @ es') = event_markers hk es @ event_markers hk es'"
  by (simp_all add: event_markers_def List.map_filter_def split: option.splits)

lemma outside_call_now: "ow_now w \<le> ow_now (snd (outside_call x w))"
  by (simp add: outside_call_def split: prod.splits list.splits)

lemma outside_call_log: "ow_log (snd (outside_call x w)) = ow_log w @ accepted x (fst (outside_call x w))"
  by (simp add: outside_call_def split: prod.splits)

lemmas exec_now = exec_clock[where clk = ow_now and ext = outside_call, OF outside_call_now]

lemma exec_hand_over:
  assumes "exec port ow_now outside_call (hand_over h e) s w = (r, s', w')"
  shows "s' = s" and "ow_now w \<le> ow_now w'"
    and "case r of Inl _ \<Rightarrow> ow_log w' = ow_log w | Inr d \<Rightarrow> ow_log w' = ow_log w @ [(e, d)]"
proof -
  show "ow_now w \<le> ow_now w'" by (rule exec_now[OF assms])
  obtain a w1 where a: "outside_call (SinkDeliver e) w = (a, w1)" by fastforce
  have l1: "ow_log w1 = ow_log w @ accepted (SinkDeliver e) a"
    using outside_call_log[of "SinkDeliver e" w] a by simp
  have "s' = s \<and> (case r of Inl _ \<Rightarrow> ow_log w' = ow_log w | Inr d \<Rightarrow> ow_log w' = ow_log w @ [(e, d)])"
  proof (cases "fst a")
    case (Inr u)
    then show ?thesis
      using assms a l1 by (auto simp: hand_over_def accepted_def split: if_splits)
  next
    case (Inl err)
    then have l1: "ow_log w1 = ow_log w" using l1 by (simp add: accepted_def)
    obtain b w2 where b: "outside_call (RecordDeadLetter e err) w1 = (b, w2)" by fastforce
    have "ow_log w2 = ow_log w @ accepted (RecordDeadLetter e err) b"
      using outside_call_log[of "RecordDeadLetter e err" w1] b l1 by simp
    then show ?thesis
      using assms a b l1 Inl by (auto simp: hand_over_def accepted_def split: if_splits sum.splits)
  qed
  then show "s' = s" and "case r of Inl _ \<Rightarrow> ow_log w' = ow_log w | Inr d \<Rightarrow> ow_log w' = ow_log w @ [(e, d)]"
    by simp_all
qed

context dedup_store
begin

text \<open>
  Between deliveries, until \<open>U\<close>: no event was handed over twice, every marker handed over is
  done, and nothing else is claimed.
\<close>

definition marks_inv :: "'e hooks \<Rightarrow> time \<Rightarrow> 's \<Rightarrow> 'e outside_world \<Rightarrow> bool" where
  "marks_inv hk U s w \<longleftrightarrow> inv s \<and> distinct (handed_keys hk w)
     \<and> (\<forall>k. sk_namespace k = DEDUP_NAMESPACE \<longrightarrow>
          (if k \<in> set (handed_keys hk w) then done_until s k (ow_now w) U else free s k (ow_now w)))"

lemma marks_later:
  assumes "marks_inv hk U s w" "ow_now w \<le> ow_now w'" "handed_keys hk w' = handed_keys hk w"
  shows "marks_inv hk U s w'"
proof -
  have i: "inv s" using assms(1) by (simp add: marks_inv_def)
  have "if k \<in> set (handed_keys hk w) then done_until s k (ow_now w') U else free s k (ow_now w')"
    if "sk_namespace k = DEDUP_NAMESPACE" for k
    using assms(1) that free_later[OF i _ assms(2), of k] done_later[OF _ assms(2), of s k U]
    by (cases "k \<in> set (handed_keys hk w)") (simp_all add: marks_inv_def)
  then show ?thesis using assms(1,3) by (simp add: marks_inv_def)
qed

lemma same_but_trans:
  "same_but k t s s' \<Longrightarrow> same_but k t' s' s'' \<Longrightarrow> t \<le> t' \<Longrightarrow> same_but k t' s s''"
  by (auto simp: same_but_def)

lemma same_but_later: "same_but k t s s' \<Longrightarrow> t \<le> t' \<Longrightarrow> same_but k t' s s'"
  by (auto simp: same_but_def)

lemma marks_change:
  assumes I: "marks_inv hk U s w" and b: "same_but k (ow_now w') s s'" and t: "ow_now w \<le> ow_now w'"
    and k: "k \<notin> set (handed_keys hk w)"
    and new: "handed_keys hk w' = handed_keys hk w \<and> free s' k (ow_now w')
      \<or> handed_keys hk w' = handed_keys hk w @ [k] \<and> done_until s' k (ow_now w') U"
  shows "marks_inv hk U s' w'"
proof -
  have i: "inv s'" "inv s" using b I by (simp_all add: same_but_def marks_inv_def)
  have other: "(k' \<in> set (handed_keys hk w) \<longrightarrow> done_until s' k' (ow_now w') U)
      \<and> (k' \<notin> set (handed_keys hk w) \<longrightarrow> free s' k' (ow_now w'))"
    if "sk_namespace k' = DEDUP_NAMESPACE" "k' \<noteq> k" for k'
    using I that same_but_free[OF b that(2)] same_but_done[OF b that(2)] t
      free_later[OF i(2), of k' "ow_now w" "ow_now w'"] done_later[of s k' "ow_now w" U "ow_now w'"]
    by (auto simp: marks_inv_def split: if_splits)
  have d: "distinct (handed_keys hk w)" using I by (simp add: marks_inv_def)
  show ?thesis
    using new
  proof
    assume n: "handed_keys hk w' = handed_keys hk w \<and> free s' k (ow_now w')"
    have "if k' \<in> set (handed_keys hk w') then done_until s' k' (ow_now w') U else free s' k' (ow_now w')"
      if "sk_namespace k' = DEDUP_NAMESPACE" for k'
      using n k other[OF that] by (cases "k' = k") auto
    then show ?thesis using i d n by (simp add: marks_inv_def)
  next
    assume n: "handed_keys hk w' = handed_keys hk w @ [k] \<and> done_until s' k (ow_now w') U"
    have "if k' \<in> set (handed_keys hk w') then done_until s' k' (ow_now w') U else free s' k' (ow_now w')"
      if "sk_namespace k' = DEDUP_NAMESPACE" for k'
      using n other[OF that] by (cases "k' = k") auto
    then show ?thesis using i d k n by (simp add: marks_inv_def)
  qed
qed


lemma deliver_untracked:
  assumes I: "marks_inv hk U s w" and n: "event_dedup_key (hk_dedup_key hk) e = None"
    and x: "exec port ow_now outside_call (hand_over h e) s w = (r, s', w')"
  shows "marks_inv hk U s' w'" and "handed_keys hk w' = handed_keys hk w"
proof -
  show "handed_keys hk w' = handed_keys hk w"
    using exec_hand_over(3)[OF x] n by (simp add: handed_keys_def split: sum.splits)
  then show "marks_inv hk U s' w'"
    using marks_later[OF I] exec_hand_over(1,2)[OF x] by simp
qed

text \<open>One event with a key, from its claim to its completion or release.\<close>

lemma deliver_tracked:
  assumes I: "marks_inv hk U s w" and U: "U \<le> ow_now w + int (dg_ttl g)"
    and k: "k \<notin> set (handed_keys hk w)"
    and e: "map_option (dedup_store_key (hk_sha hk)) (event_dedup_key (hk_dedup_key hk) e) = Some k"
    and p: "kv_put port (ow_now w) k PENDING (After (dg_lease g)) s = (v, s1)"
    and x: "exec port ow_now outside_call (hand_over h e) s1 w = (r, s2, w2)"
    and t: "tk = \<lparr>tk_key = k, tk_version = v\<rparr>"
  shows "case r of
     Inl _ \<Rightarrow> \<exists>b s3. exec port ow_now outside_call (release tk) s2 w2 = (Inr b, s3, w2)
             \<and> marks_inv hk U s3 w2 \<and> handed_keys hk w2 = handed_keys hk w
   | Inr _ \<Rightarrow> \<exists>s3. exec port ow_now outside_call (complete g tk) s2 w2 = (Inr True, s3, w2)
             \<and> marks_inv hk U s3 w2 \<and> handed_keys hk w2 = handed_keys hk w @ [k]"
proof -
  have i: "inv s" using I by (simp add: marks_inv_def)
  have s2: "s2 = s1" and now: "ow_now w \<le> ow_now w2" using exec_hand_over(1,2)[OF x] by auto
  have i1: "inv s1" using put_version[OF i p] by simp
  have h: "held s1 tk (ow_now w2)" unfolding t by (rule claimed_held[OF i p now])
  have b1: "same_but k (ow_now w2) s s1" using same_but_later[OF same_but_put[OF i p] now] .
  show ?thesis
  proof (cases r)
    case (Inl err)
    obtain b s3 where rel: "exec port ow_now outside_call (release tk) s2 w2 = (Inr b, s3, w2)"
        "same_but k (ow_now w2) s1 s3" "free s3 k (ow_now w2)"
      using exec_release[where clk = ow_now and ext = outside_call and w = w2, OF i1 h]
      by (auto simp: s2 t)
    have "handed_keys hk w2 = handed_keys hk w"
      using exec_hand_over(3)[OF x] Inl by (simp add: handed_keys_def)
    then show ?thesis
      using rel Inl marks_change[OF I same_but_trans[OF b1 rel(2)] now k] by simp
  next
    case (Inr d)
    obtain s3 where com: "exec port ow_now outside_call (complete g tk) s2 w2 = (Inr True, s3, w2)"
        "same_but k (ow_now w2) s1 s3" "done_until s3 k (ow_now w2) (ow_now w2 + int (dg_ttl g))"
      using exec_complete[where clk = ow_now and ext = outside_call and w = w2 and g = g, OF i1 h]
      by (auto simp: s2 t)
    have "done_until s3 k (ow_now w2) U" using done_sooner[OF com(3)] U now by simp
    moreover have "handed_keys hk w2 = handed_keys hk w @ [k]"
      using exec_hand_over(3)[OF x] Inr e by (auto simp: handed_keys_def)
    ultimately show ?thesis
      using com Inr marks_change[OF I same_but_trans[OF b1 com(2)] now k] by simp
  qed
qed

lemma exec_dispatch:
  assumes g: "wh_dedup h = Some g"
  shows "marks_inv hk U s w \<Longrightarrow> U \<le> ow_now w + int (dg_ttl g) \<Longrightarrow>
     exec port ow_now outside_call
       (dispatch_from (hk_sha hk) (hk_dedup_key hk) h events report) s w = (r, s', w') \<Longrightarrow>
     ow_now w' < U \<Longrightarrow>
     marks_inv hk U s' w' \<and> set (handed_keys hk w) \<subseteq> set (handed_keys hk w')
     \<and> (\<forall>report'. r = Inr report' \<longrightarrow> set (event_markers hk events) \<subseteq> set (handed_keys hk w'))"
proof (induction events arbitrary: report s w)
  case Nil
  then show ?case by simp
next
  case (Cons e events)
  let ?ex = "exec port ow_now outside_call"
  note run = Cons.prems(3)
  have now: "ow_now w < U" using exec_now[OF run] Cons.prems(4) by simp
  show ?case
  proof (cases "event_dedup_key (hk_dedup_key hk) e")
    case None
    obtain hr s2 w2 where x: "?ex (hand_over h e) s w = (hr, s2, w2)" by (metis prod_cases3)
    note u = deliver_untracked[OF Cons.prems(1) None x]
    have t: "ow_now w \<le> ow_now w2" by (rule exec_hand_over(2)[OF x])
    show ?thesis
    proof (cases hr)
      case (Inl err)
      then show ?thesis
        using run u x None by (auto simp: g claim_event_def deliver_claimed_def release_ticket_def)
    next
      case (Inr d)
      then have "?ex (dispatch_from (hk_sha hk) (hk_dedup_key hk) h events (count_handed d report)) s2 w2
          = (r, s', w')"
        using run x None by (simp add: g claim_event_def deliver_claimed_def)
      from Cons.IH[OF u(1) _ this Cons.prems(4)] show ?thesis
        using u(2) None Cons.prems(2) t by simp
    qed
  next
    case (Some dk)
    define k where "k = dedup_store_key (hk_sha hk) dk"
    have ns: "sk_namespace k = DEDUP_NAMESPACE"
      by (simp add: k_def dedup_store_key_def store_key_new_def)
    have i: "inv s" using Cons.prems(1) by (simp add: marks_inv_def)
    show ?thesis
    proof (cases "k \<in> set (handed_keys hk w)")
      case True
      then have "done_until s k (ow_now w) U" using Cons.prems(1) ns by (simp add: marks_inv_def)
      from exec_claim_done[where clk = ow_now and ext = outside_call, OF i this now, of g]
      have "?ex (dispatch_from (hk_sha hk) (hk_dedup_key hk) h events
           (report\<lparr>dr_duplicates := dr_duplicates report + 1\<rparr>)) s w = (r, s', w')"
        using run Some by (simp add: g claim_event_def claim_key_def k_def del: claim_rounds.simps)
      from Cons.IH[OF Cons.prems(1,2) this Cons.prems(4)] show ?thesis
        using True Some by (auto simp: k_def)
    next
      case False
      then have f: "free s k (ow_now w)" using Cons.prems(1) ns by (simp add: marks_inv_def)
      obtain v s1 where p: "kv_put port (ow_now w) k PENDING (After (dg_lease g)) s = (v, s1)"
        by fastforce
      obtain hr s2 w2 where x: "?ex (hand_over h e) s1 w = (hr, s2, w2)" by (metis prod_cases3)
      define tk where "tk = \<lparr>tk_key = k, tk_version = v\<rparr>"
      have claim: "?ex (claim_event (hk_sha hk) (event_dedup_key (hk_dedup_key hk)) g e) s w
          = (Inr (Acquired tk), s1, w)"
        using exec_claim_free[where clk = ow_now and ext = outside_call, OF i f p] Some
        by (simp add: claim_event_def claim_key_def k_def tk_def del: claim_rounds.simps)
      have t: "ow_now w \<le> ow_now w2" by (rule exec_hand_over(2)[OF x])
      note step = deliver_tracked[OF Cons.prems(1,2) False _ p x tk_def, unfolded Some, simplified, folded k_def]
      show ?thesis
      proof (cases hr)
        case (Inl err)
        obtain b s3 where rel: "?ex (release tk) s2 w2 = (Inr b, s3, w2)"
            "marks_inv hk U s3 w2" "handed_keys hk w2 = handed_keys hk w"
          using step Inl by auto
        then show ?thesis
          using run x claim Inl by (auto simp: g deliver_claimed_def release_ticket_def)
      next
        case (Inr d)
        obtain s3 where com: "?ex (complete g tk) s2 w2 = (Inr True, s3, w2)"
            "marks_inv hk U s3 w2" "handed_keys hk w2 = handed_keys hk w @ [k]"
          using step Inr by auto
        have "?ex (dispatch_from (hk_sha hk) (hk_dedup_key hk) h events (count_handed d report)) s3 w2
            = (r, s', w')"
          using run x claim com(1) Inr by (simp add: g deliver_claimed_def)
        from Cons.IH[OF com(2) _ this Cons.prems(4)] show ?thesis
          using com(3) Some Cons.prems(2) t by (auto simp: k_def)
      qed
    qed
  qed
qed


lemma exec_receive:
  assumes g: "wh_dedup h = Some g" and I: "marks_inv hk U s w"
    and U: "U \<le> ow_now w + int (dg_ttl g)"
    and run: "exec port ow_now outside_call (receive hk to_str h header (Inr body)) s w = (st, s', w')"
    and now: "ow_now w' < U"
  shows "marks_inv hk U s' w' \<and> set (handed_keys hk w) \<subseteq> set (handed_keys hk w')
     \<and> (st = 200 \<longrightarrow> set (payload_markers hk body) \<subseteq> set (handed_keys hk w'))"
proof (cases "signature_header to_str header")
  case (Inl err)
  then show ?thesis using run I by (simp add: receive_def)
next
  case (Inr sig)
  show ?thesis
  proof (cases "length body > wh_max_body_bytes h \<or> sig_verify (hk_hmac hk) (wh_verifier h) (Some sig) body \<noteq> Inr ()")
    case True
    then obtain err where "deliver hk h (Some sig) body = Ret (Inl (Webhook err))"
        "status_for (Webhook err) = 401 \<or> status_for (Webhook err) = 413"
      by (rule deliver_refused)
    then show ?thesis using run I Inr by (auto simp: receive_def)
  next
    case False
    show ?thesis
    proof (cases "hk_parse hk body")
      case (Inl err)
      obtain hr s2 w2 where x: "exec port ow_now outside_call
          (hand_over h (Unparsed (hk_raw_value hk body) err)) s w = (hr, s2, w2)"
        by (metis prod_cases3)
      note u = deliver_untracked[OF I _ x, simplified]
      have "s' = s2" "w' = w2"
        using run x False Inr Inl
        by (auto simp: receive_def deliver_def deliver_unparsed_def Let_def
            split: sum.splits handed.splits)
      then show ?thesis using u Inl by (simp add: payload_markers_def)
    next
      case (Inr events)
      obtain r where r: "exec port ow_now outside_call
          (dispatch_from (hk_sha hk) (hk_dedup_key hk) h (map Event events) report_default) s w
          = (r, s', w')" "st = 200 \<longleftrightarrow> (\<exists>report. r = Inr report)"
        using run False \<open>signature_header to_str header = Inr sig\<close> Inr
        by (auto simp: receive_def deliver_def dispatch_def split: sum.splits prod.splits)
      show ?thesis using exec_dispatch[OF g I U r(1) now] r(2) Inr by (auto simp: payload_markers_def)
    qed
  qed
qed

lemma serve_now: "serve port hk to_str h posts s w = (sts, s', w') \<Longrightarrow> ow_now w \<le> ow_now w'"
proof (induction posts arbitrary: s w sts)
  case (Cons post posts)
  obtain gap header body where p: "post = (gap, header, body)" by (metis prod_cases3)
  obtain st s1 w1 where x: "exec port ow_now outside_call (receive hk to_str h header (Inr body)) s
      (w\<lparr>ow_now := ow_now w + int gap\<rparr>) = (st, s1, w1)" by (metis prod_cases3)
  show ?case
    using Cons.prems Cons.IH[of s1 w1] exec_now[OF x] x p by (auto split: prod.splits)
qed simp

lemma serve_marks:
  assumes g: "wh_dedup h = Some g"
  shows "marks_inv hk U s w \<Longrightarrow> U \<le> ow_now w + int (dg_ttl g) \<Longrightarrow>
     serve port hk to_str h posts s w = (sts, s', w') \<Longrightarrow> ow_now w' < U \<Longrightarrow>
     marks_inv hk U s' w' \<and> set (handed_keys hk w) \<subseteq> set (handed_keys hk w')
     \<and> list_all2 (\<lambda>p st. st = 200 \<longrightarrow>
           set (payload_markers hk (snd (snd p))) \<subseteq> set (handed_keys hk w')) posts sts"
proof (induction posts arbitrary: s w sts)
  case (Cons post posts)
  obtain gap header body where p: "post = (gap, header, body)" by (metis prod_cases3)
  let ?w = "w\<lparr>ow_now := ow_now w + int gap\<rparr>"
  obtain st s1 w1 where x: "exec port ow_now outside_call (receive hk to_str h header (Inr body)) s ?w
      = (st, s1, w1)" by (metis prod_cases3)
  obtain sts' where rest: "serve port hk to_str h posts s1 w1 = (sts', s', w')" "sts = st # sts'"
    using Cons.prems(3) x p by (auto split: prod.splits)
  have I: "marks_inv hk U s ?w"
    using Cons.prems(1) by (rule marks_later) (simp_all add: handed_keys_def)
  have U: "U \<le> ow_now ?w + int (dg_ttl g)" using Cons.prems(2) by simp
  have now: "ow_now w1 < U" using serve_now[OF rest(1)] Cons.prems(4) by simp
  note one = exec_receive[OF g I U x now]
  have "U \<le> ow_now w1 + int (dg_ttl g)" using U exec_now[OF x] by simp
  from Cons.IH[OF _ this rest(1) Cons.prems(4)] one show ?case
    using rest(2) p by (auto simp: handed_keys_def)
qed simp

text \<open>A world that accepts everything at once: the whole batch gets through.\<close>

lemma exec_hand_over_accepting:
  "ow_script w = [] \<Longrightarrow> exec port ow_now outside_call (hand_over h e) s w =
     (Inr Delivered, s, w\<lparr>ow_log := ow_log w @ [(e, Delivered)]\<rparr>)"
  by (simp add: hand_over_def outside_call_def accepted_def)

lemma exec_dispatch_accepting:
  assumes g: "wh_dedup h = Some g"
  shows "marks_inv hk U s w \<Longrightarrow> U \<le> ow_now w + int (dg_ttl g) \<Longrightarrow> ow_now w < U \<Longrightarrow>
     ow_script w = [] \<Longrightarrow>
     \<exists>report' s' w'. exec port ow_now outside_call
       (dispatch_from (hk_sha hk) (hk_dedup_key hk) h events report) s w = (Inr report', s', w')
       \<and> ow_now w' = ow_now w"
proof (induction events arbitrary: report s w)
  case (Cons e events)
  let ?ex = "exec port ow_now outside_call"
  let ?w = "w\<lparr>ow_log := ow_log w @ [(e, Delivered)]\<rparr>"
  note x = exec_hand_over_accepting[where h = h and e = e, OF Cons.prems(4)]
  show ?case
  proof (cases "event_dedup_key (hk_dedup_key hk) e")
    case None
    from Cons.IH[OF deliver_untracked(1)[OF Cons.prems(1) None x], of "count_handed Delivered report"]
    show ?thesis
      using Cons.prems None x[of s] by (simp add: g claim_event_def deliver_claimed_def)
  next
    case (Some dk)
    define k where "k = dedup_store_key (hk_sha hk) dk"
    have ns: "sk_namespace k = DEDUP_NAMESPACE"
      by (simp add: k_def dedup_store_key_def store_key_new_def)
    have i: "inv s" using Cons.prems(1) by (simp add: marks_inv_def)
    show ?thesis
    proof (cases "k \<in> set (handed_keys hk w)")
      case True
      then have "done_until s k (ow_now w) U" using Cons.prems(1) ns by (simp add: marks_inv_def)
      from exec_claim_done[where clk = ow_now and ext = outside_call, OF i this Cons.prems(3), of g]
      show ?thesis
        using Some Cons.IH[OF Cons.prems, of "report\<lparr>dr_duplicates := dr_duplicates report + 1\<rparr>"]
        by (simp add: g claim_event_def claim_key_def k_def del: claim_rounds.simps)
    next
      case False
      then have f: "free s k (ow_now w)" using Cons.prems(1) ns by (simp add: marks_inv_def)
      obtain v s1 where p: "kv_put port (ow_now w) k PENDING (After (dg_lease g)) s = (v, s1)"
        by fastforce
      define tk where "tk = \<lparr>tk_key = k, tk_version = v\<rparr>"
      have claim: "?ex (claim_event (hk_sha hk) (event_dedup_key (hk_dedup_key hk)) g e) s w
          = (Inr (Acquired tk), s1, w)"
        using exec_claim_free[where clk = ow_now and ext = outside_call, OF i f p] Some
        by (simp add: claim_event_def claim_key_def k_def tk_def del: claim_rounds.simps)
      obtain s3 where com: "?ex (complete g tk) s1 ?w = (Inr True, s3, ?w)" "marks_inv hk U s3 ?w"
        using deliver_tracked[OF Cons.prems(1,2) False _ p x tk_def] Some by (auto simp: k_def)
      show ?thesis
        using claim x[of s1] com(1) Cons.prems Cons.IH[OF com(2), of "count_handed Delivered report"]
        by (simp add: g deliver_claimed_def)
    qed
  qed
qed simp

end

section \<open>Reports\<close>

lemma claim_rounds_world: "exec port clk ext (claim_rounds n g k) s w = (r, s', w') \<Longrightarrow> w' = w"
  by (induction n arbitrary: s) (auto simp: Let_def split: option.splits if_splits)

lemma claim_event_world:
  "exec port clk ext (claim_event sha key g e) s w = (r, s', w') \<Longrightarrow> w' = w"
  using claim_rounds_world
  by (auto simp: claim_event_def claim_key_def simp del: claim_rounds.simps split: option.splits)

lemma complete_world: "exec port clk ext (complete g tk) s w = (r, s', w') \<Longrightarrow> w' = w"
  by (auto simp: complete_def Let_def split: option.splits)

lemma release_world: "exec port clk ext (release tk) s w = (r, s', w') \<Longrightarrow> w' = w"
  by (auto simp: release_def Let_def split: option.splits)

definition report_total :: "delivery_report \<Rightarrow> nat" where
  "report_total r = dr_delivered r + dr_dead_lettered r"

lemma report_total_simps [simp]:
  "report_total (count_handed d r) = Suc (report_total r)"
  "dr_duplicates (count_handed d r) = dr_duplicates r"
  "dr_unparsed (count_handed d r) = dr_unparsed r"
  "report_total (r\<lparr>dr_duplicates := n\<rparr>) = report_total r"
  "report_total report_default = 0"
  by (simp_all add: report_total_def count_handed_def report_default_def split: handed.splits)

text \<open>One event handed over: the rest goes on with it in the log, or the run ends without it.\<close>

lemma deliver_claimed_cases:
  assumes run: "exec port ow_now outside_call (deliver_claimed h e ticket report rest) s w = (r, s', w')"
  obtains (handed) d s2 w2 where
    "exec port ow_now outside_call (rest (count_handed d report)) s2 w2 = (r, s', w')"
    "ow_log w2 = ow_log w @ [(e, d)]"
  | (refused) err where "r = Inl err" "ow_log w' = ow_log w"
proof -
  obtain hr s1 w1 where x: "exec port ow_now outside_call (hand_over h e) s w = (hr, s1, w1)"
    by (metis prod_cases3)
  show ?thesis
  proof (cases hr)
    case (Inl err)
    have l: "ow_log w1 = ow_log w" using exec_hand_over(3)[OF x] Inl by simp
    obtain rr s2 w2 where rel: "exec port ow_now outside_call (release_ticket (map_option snd ticket)) s1 w1
        = (rr, s2, w2)" by (metis prod_cases3)
    have "w2 = w1"
      using rel by (cases ticket) (auto simp: release_ticket_def dest: release_world split: prod.splits)
    then show ?thesis
      using run x Inl l rel refused by (auto simp: deliver_claimed_def)
  next
    case (Inr d)
    have l: "ow_log w1 = ow_log w @ [(e, d)]" using exec_hand_over(3)[OF x] Inr by simp
    show ?thesis
    proof (cases ticket)
      case None
      then show ?thesis using run x Inr handed l by (auto simp: deliver_claimed_def)
    next
      case (Some gt)
      then obtain g t where gt: "ticket = Some (g, t)" by (cases gt) auto
      obtain cr s2 w2 where c: "exec port ow_now outside_call (complete g t) s1 w1 = (cr, s2, w2)"
        by (metis prod_cases3)
      then show ?thesis
        using run x Inr handed l gt complete_world[OF c] by (auto simp: deliver_claimed_def)
    qed
  qed
qed

lemma deliver_claimed_counts:
  assumes run: "exec port ow_now outside_call (deliver_claimed h e ticket report rest) s w
      = (Inr report', s', w')"
  obtains d s2 w2 where "exec port ow_now outside_call (rest (count_handed d report)) s2 w2
      = (Inr report', s', w')" "length (ow_log w2) = Suc (length (ow_log w))"
  using run by (rule deliver_claimed_cases) (auto intro: that)

lemma dispatch_counts:
  "exec port ow_now outside_call (dispatch_from sha key h events report) s w = (Inr report', s', w')
   \<Longrightarrow> report_total report' + dr_duplicates report'
         = report_total report + dr_duplicates report + length events
     \<and> length (ow_log w') + report_total report = length (ow_log w) + report_total report'
     \<and> dr_unparsed report' = dr_unparsed report"
proof (induction events arbitrary: report s w)
  case Nil
  then show ?case by simp
next
  case (Cons e events)
  have claimed: ?case if "exec port ow_now outside_call (deliver_claimed h e ticket report
      (dispatch_from sha key h events)) s1 w = (Inr report', s', w')" for ticket s1
  proof -
    from that obtain d s2 w2 where "exec port ow_now outside_call
        (dispatch_from sha key h events (count_handed d report)) s2 w2 = (Inr report', s', w')"
      "length (ow_log w2) = Suc (length (ow_log w))"
      by (rule deliver_claimed_counts)
    from Cons.IH[OF this(1)] this(2) show ?thesis by simp
  qed
  show ?case
  proof (cases "wh_dedup h")
    case None
    then show ?thesis using Cons.prems claimed by simp
  next
    case (Some g)
    obtain c s1 w1 where c: "exec port ow_now outside_call
        (claim_event sha (event_dedup_key key) g e) s w = (c, s1, w1)" by (metis prod_cases3)
    have w1: "w1 = w" by (rule claim_event_world[OF c])
    show ?thesis
    proof (cases c)
      case (Inl err)
      then show ?thesis using Cons.prems c Some by simp
    next
      case (Inr cl)
      show ?thesis
      proof (cases cl)
        case Duplicate
        then show ?thesis
          using Cons.prems c Some Inr w1
            Cons.IH[of "report\<lparr>dr_duplicates := dr_duplicates report + 1\<rparr>" s1 w] by simp
      qed (use Cons.prems c Some Inr w1 claimed in auto)
    qed
  qed
qed

text \<open>Events without a key (unparsed bodies among them): in a body, and as the world accepted them.\<close>

definition keyless :: "'e hooks \<Rightarrow> 'e webhook_event list \<Rightarrow> 'e webhook_event list" where
  "keyless hk events = filter (\<lambda>e. event_dedup_key (hk_dedup_key hk) e = None) events"

definition payload_keyless :: "'e hooks \<Rightarrow> string \<Rightarrow> 'e webhook_event list" where
  "payload_keyless hk body =
     (case hk_parse hk body of
        Inl err \<Rightarrow> [Unparsed (hk_raw_value hk body) err]
      | Inr events \<Rightarrow> keyless hk (map Event events))"

definition handed_keyless :: "'e hooks \<Rightarrow> 'e outside_world \<Rightarrow> 'e webhook_event list" where
  "handed_keyless hk w = keyless hk (map fst (ow_log w))"

lemma dispatch_keyless:
  "exec port ow_now outside_call (dispatch_from sha (hk_dedup_key hk) h events report) s w = (r, s', w')
   \<Longrightarrow> \<exists>ks. handed_keyless hk w' = handed_keyless hk w @ ks
       \<and> (\<forall>report'. r = Inr report' \<longrightarrow> ks = keyless hk events)"
proof (induction events arbitrary: report s w)
  case Nil
  then show ?case by (auto simp: keyless_def)
next
  case (Cons e events)
  have claimed: ?case if "exec port ow_now outside_call (deliver_claimed h e ticket report
      (dispatch_from sha (hk_dedup_key hk) h events)) s1 w = (r, s', w')" for ticket s1
    using that
  proof (cases rule: deliver_claimed_cases)
    case (handed d s2 w2)
    from Cons.IH[OF handed(1)] handed(2) show ?thesis by (auto simp: handed_keyless_def keyless_def)
  qed (auto simp: handed_keyless_def)
  show ?case
  proof (cases "wh_dedup h")
    case None
    then show ?thesis using Cons.prems claimed by simp
  next
    case (Some g)
    obtain c s1 w1 where c: "exec port ow_now outside_call
        (claim_event sha (event_dedup_key (hk_dedup_key hk)) g e) s w = (c, s1, w1)" by (metis prod_cases3)
    have w1: "w1 = w" by (rule claim_event_world[OF c])
    show ?thesis
    proof (cases c)
      case (Inl err)
      then show ?thesis using Cons.prems c Some w1 by auto
    next
      case (Inr cl)
      show ?thesis
      proof (cases cl)
        case Duplicate
        then obtain k where "event_dedup_key (hk_dedup_key hk) e = Some k"
          using c Inr by (cases "event_dedup_key (hk_dedup_key hk) e") (auto simp: claim_event_def)
        then show ?thesis
          using Cons.prems c Some Inr w1 Duplicate
            Cons.IH[of "report\<lparr>dr_duplicates := dr_duplicates report + 1\<rparr>" s1 w] by (simp add: keyless_def)
      qed (use Cons.prems c Some Inr w1 claimed in auto)
    qed
  qed
qed

lemma receive_keyless:
  assumes run: "exec port ow_now outside_call (receive hk to_str h header (Inr body)) s w = (st, s', w')"
  shows "\<exists>ks. handed_keyless hk w' = handed_keyless hk w @ ks \<and> (st = 200 \<longrightarrow> ks = payload_keyless hk body)"
proof (cases "signature_header to_str header")
  case (Inl err)
  then show ?thesis using run by (simp add: receive_def)
next
  case sig: (Inr sig)
  obtain r where r: "exec port ow_now outside_call (deliver hk h (Some sig) body) s w = (r, s', w')"
      "st = 200 \<longleftrightarrow> (\<exists>report. r = Inr report)"
    using run sig by (auto simp: receive_def split: sum.splits prod.splits)
  show ?thesis
  proof (cases "length body > wh_max_body_bytes h \<or> sig_verify (hk_hmac hk) (wh_verifier h) (Some sig) body \<noteq> Inr ()")
    case True
    then obtain err where "deliver hk h (Some sig) body = Ret (Inl (Webhook err))"
        "status_for (Webhook err) = 401 \<or> status_for (Webhook err) = 413"
      by (rule deliver_refused)
    then show ?thesis using r by auto
  next
    case False
    show ?thesis
    proof (cases "hk_parse hk body")
      case (Inl err)
      obtain hr s2 w2 where x: "exec port ow_now outside_call
          (hand_over h (Unparsed (hk_raw_value hk body) err)) s w = (hr, s2, w2)"
        by (metis prod_cases3)
      then have "w' = w2 \<and> ((\<exists>report. r = Inr report) \<longleftrightarrow> (\<exists>d. hr = Inr d))"
        using r False Inl
        by (auto simp: deliver_def deliver_unparsed_def Let_def split: sum.splits handed.splits)
      then show ?thesis
        using exec_hand_over(3)[OF x] r(2) Inl
        by (auto simp: payload_keyless_def handed_keyless_def keyless_def split: sum.splits)
    next
      case (Inr events)
      then have "exec port ow_now outside_call (dispatch_from (hk_sha hk) (hk_dedup_key hk) h
          (map Event events) report_default) s w = (r, s', w')"
        using r(1) False by (simp add: deliver_def dispatch_def)
      from dispatch_keyless[OF this] r(2) Inr show ?thesis by (auto simp: payload_keyless_def)
    qed
  qed
qed

lemma serve_keyless:
  "serve port hk to_str h posts s w = (sts, s', w') \<Longrightarrow>
     \<exists>ks. handed_keyless hk w' = handed_keyless hk w @ ks
       \<and> subseq (concat (map (\<lambda>(p, st). if st = 200 then payload_keyless hk (snd (snd p)) else [])
           (zip posts sts))) ks"
proof (induction posts arbitrary: s w sts)
  case (Cons post posts)
  obtain gap header body where p: "post = (gap, header, body)" by (metis prod_cases3)
  let ?w = "w\<lparr>ow_now := ow_now w + int gap\<rparr>"
  obtain st s1 w1 where x: "exec port ow_now outside_call (receive hk to_str h header (Inr body)) s ?w
      = (st, s1, w1)" by (metis prod_cases3)
  obtain sts' where rest: "serve port hk to_str h posts s1 w1 = (sts', s', w')" "sts = st # sts'"
    using Cons.prems x p by (auto split: prod.splits)
  obtain ks where ks: "handed_keyless hk w1 = handed_keyless hk w @ ks"
      "st = 200 \<longrightarrow> ks = payload_keyless hk body"
    using receive_keyless[OF x] by (auto simp: handed_keyless_def)
  obtain ks' where ks': "handed_keyless hk w' = handed_keyless hk w1 @ ks'"
      "subseq (concat (map (\<lambda>(p, st). if st = 200 then payload_keyless hk (snd (snd p)) else [])
         (zip posts sts'))) ks'"
    using Cons.IH[OF rest(1)] by auto
  show ?case
    by (rule exI[of _ "ks @ ks'"]) (use ks ks' p rest(2) in \<open>auto intro: list_emb_append_mono list_emb_append2\<close>)
qed simp

lemma receive_signed:
  assumes "secret \<in> set (sv_secrets (wh_verifier h))" "trim secret \<noteq> []"
    and "length (hk_hmac hk secret body) = 32" "length body \<le> wh_max_body_bytes h"
    and "to_str bytes = Some (sign (hk_hmac hk) secret body)" "hk_parse hk body = Inr events"
  shows "receive hk to_str h (Some bytes) (Inr body) =
     pbind (dispatch (hk_sha hk) (hk_dedup_key hk) h (map Event events))
       (\<lambda>r. case r of Inr _ \<Rightarrow> Ret 200 | Inl err \<Rightarrow> Ret (status_for err))"
proof -
  have p: "parse_header (Some (sign (hk_hmac hk) secret body)) = Inr (hk_hmac hk secret body)"
    by (rule parse_header_sign) (rule assms(3))
  then have "sig_verify (hk_hmac hk) (wh_verifier h) (Some (sign (hk_hmac hk) secret body)) body = Inr ()"
    using assms(1,2) by (auto simp: sig_verify_def sig_tag_def is_blank_def fold_or)
  then show ?thesis
    using p assms(4-6) by (simp add: receive_def signature_header_def deliver_def)
qed

section \<open>Properties\<close>

text \<open>
  C6. An event is acknowledged only once handed over, and one with a key handed over only once.
  Take any sequence of posts, with retries of bodies in any order, and any answers of the sink and
  the dead-letter store, all within the dedup lifetime. At the end no event with a dedup key was
  accepted twice, by the sink or the dead-letter store; every event with a key of every body
  answered 200 was accepted; and so was every event without one, a body that is no payload
  included, once for each time a body with it was answered 200 and in the order of the posts.
\<close>

theorem served_exactly_once:
  assumes "wh_dedup h = Some g" and "kv_ok s"
    and "\<forall>k. sk_namespace k = DEDUP_NAMESPACE \<longrightarrow> mem_get (ow_now w) k s = None"
    and "ow_log w = []"
    and "serve memory_kv hk to_str h posts s w = (statuses, s', w')"
    and "ow_now w' < ow_now w + int (dg_ttl g)"
  shows "distinct (handed_keys hk w')
     \<and> (\<forall>i < length posts. statuses ! i = 200 \<longrightarrow>
          set (payload_markers hk (snd (snd (posts ! i)))) \<subseteq> set (handed_keys hk w'))
     \<and> subseq (concat (map (\<lambda>(p, st). if st = 200 then payload_keyless hk (snd (snd p)) else [])
          (zip posts statuses))) (handed_keyless hk w')"
proof -
  have "mem_dedup.marks_inv hk (ow_now w + int (dg_ttl g)) s w"
    using assms(2-4) by (simp add: mem_dedup.marks_inv_def mem_dedup.free_def handed_keys_def)
  from mem_dedup.serve_marks[OF assms(1) this _ assms(5,6)] serve_keyless[OF assms(5)] assms(4)
  show ?thesis
    by (auto simp: mem_dedup.marks_inv_def list_all2_conv_all_nth handed_keyless_def keyless_def)
qed

definition demo_hooks :: "string hooks" where
  "demo_hooks = \<lparr>hk_hmac = toy_hmac, hk_sha = (\<lambda>k. k), hk_parse = (\<lambda>b. Inr (map (\<lambda>c. [c]) b)),
     hk_raw_value = (\<lambda>b. JString b), hk_dedup_key = Some\<rparr>"

definition demo_handler :: webhook_handler where
  "demo_handler = with_dedup dedup_guard_new (handler_new \<lparr>sv_secrets = [''secret'']\<rparr> ''token'')"

definition demo_post :: "duration \<times> string option \<times> string" where
  "demo_post = (1, Some (sign toy_hmac ''secret'' ''ab''), ''ab'')"

text \<open>The sink takes the first event, then refuses one.\<close>

definition demo_world :: "string outside_world" where
  "demo_world = \<lparr>ow_now = 0, ow_script = [(5, (Inr (), Inr ())), (5, (Inl Full, Inr ()))],
     ow_log = []\<rparr>"

lemma demo_receive:
  "receive demo_hooks Some demo_handler (Some (sign toy_hmac ''secret'' ''ab'')) (Inr ''ab'') =
     pbind (dispatch (\<lambda>k. k) Some demo_handler [Event ''a'', Event ''b''])
       (\<lambda>r. case r of Inr _ \<Rightarrow> Ret 200 | Inl err \<Rightarrow> Ret (status_for err))"
proof -
  have "trim ''secret'' \<noteq> []" by (simp add: trim_def white_space_def)
  moreover have "length (toy_hmac ''secret'' ''ab'') = 32" by (simp add: toy_hmac_def)
  ultimately show ?thesis
    using receive_signed[of "''secret''" demo_handler demo_hooks "''ab''" Some
        "sign toy_hmac ''secret'' ''ab''" "[''a'', ''b'']"]
    by (simp add: demo_handler_def handler_new_def with_dedup_def demo_hooks_def DEFAULT_MAX_BODY_BYTES_def)
qed

lemma claim_rounds_2: "claim_rounds 2 g k = claim_rounds (Suc (Suc 0)) g k"
  by (simp only: numeral_2_eq_2)

lemmas demo_defs = demo_world_def dispatch_def demo_handler_def
  handler_new_def with_dedup_def dedup_guard_new_def claim_event_def claim_key_def
  dedup_store_key_def store_key_new_def claim_rounds_2 deliver_claimed_def hand_over_def
  outside_call_def accepted_def complete_def release_def release_ticket_def mem_defs
  PENDING_def DONE_def Let_def
  handed_keys_def demo_hooks_def DEDUP_NAMESPACE_def DEFAULT_CLAIM_LEASE_def DEFAULT_DEDUP_TTL_def
  secs_def hours_def signed_duration_def time_checked_add_def in_range_def datetime_min_def
  datetime_max_def

definition "demo_result = serve memory_kv demo_hooks Some demo_handler [demo_post, demo_post] empty_state demo_world"

definition demo_s1 :: "string kv_state" where
  "demo_s1 =
     \<lparr>ks_entries = [(dedup_store_key (\<lambda>k. k) ''a'',
        \<lparr>en_value = DONE, en_version = Suc (Suc 0), en_expires_at = Some 608400000000006\<rparr>)],
      ks_versions = [(dedup_store_key (\<lambda>k. k) ''a'', Suc (Suc 0)),
        (dedup_store_key (\<lambda>k. k) ''b'', Suc 0)]\<rparr>"

definition demo_w1 :: "string outside_world" where
  "demo_w1 = \<lparr>ow_now = 11, ow_script = [], ow_log = [(Event ''a'', Delivered)]\<rparr>"

lemma demo_first:
  "exec memory_kv ow_now outside_call
     (receive demo_hooks Some demo_handler (Some (sign toy_hmac ''secret'' ''ab'')) (Inr ''ab''))
     empty_state (demo_world\<lparr>ow_now := ow_now demo_world + int 1\<rparr>) = (500, demo_s1, demo_w1)"
  unfolding demo_receive by (simp add: demo_defs demo_s1_def demo_w1_def)

lemma demo_second:
  "\<exists>s2. exec memory_kv ow_now outside_call
     (receive demo_hooks Some demo_handler (Some (sign toy_hmac ''secret'' ''ab'')) (Inr ''ab''))
     demo_s1 (demo_w1\<lparr>ow_now := ow_now demo_w1 + int 1\<rparr>)
     = (200, s2, \<lparr>ow_now = 12, ow_script = [],
          ow_log = [(Event ''a'', Delivered), (Event ''b'', Delivered)]\<rparr>)"
  unfolding demo_receive by (simp add: demo_defs demo_s1_def demo_w1_def)

lemma demo_run:
  "fst demo_result = [500, 200]
   \<and> handed_keys demo_hooks (snd (snd demo_result))
     = [dedup_store_key (\<lambda>k. k) ''a'', dedup_store_key (\<lambda>k. k) ''b'']
   \<and> ow_now (snd (snd demo_result)) = 12 \<and> ow_script (snd (snd demo_result)) = []"
  using demo_first demo_second
  by (auto simp: demo_result_def demo_post_def handed_keys_def demo_hooks_def)


lemma demo_start:
  "wh_dedup demo_handler = Some dedup_guard_new"
  "\<forall>k. sk_namespace k = DEDUP_NAMESPACE \<longrightarrow> mem_get (ow_now demo_world) k empty_state = None"
  "ow_log demo_world = []"
  by (simp_all add: demo_handler_def with_dedup_def demo_world_def mem_defs)

theorem served_exactly_once_witness:
  "distinct (handed_keys demo_hooks (snd (snd demo_result)))
   \<and> set (payload_markers demo_hooks ''ab'') \<subseteq> set (handed_keys demo_hooks (snd (snd demo_result)))"
proof -
  have run: "serve memory_kv demo_hooks Some demo_handler [demo_post, demo_post] empty_state demo_world
      = (fst demo_result, fst (snd demo_result), snd (snd demo_result))"
    by (simp add: demo_result_def)
  have "ow_now (snd (snd demo_result)) < ow_now demo_world + int (dg_ttl dedup_guard_new)"
    using demo_run by (simp add: demo_defs)
  note * = served_exactly_once[OF demo_start(1) kv_ok_empty demo_start(2,3) run this]
  show ?thesis
    using conjunct1[OF *] conjunct1[OF conjunct2[OF *], rule_format, of 1] demo_run by (simp add: demo_post_def)
qed

text \<open>
  C7. Nothing is swallowed. After any sequence of posts within the dedup lifetime, whatever the
  sink and the dead-letter store answered, a signed redelivery of a body to a sink that accepts
  again is answered 200, and every event of it that has a dedup key has been accepted then.
\<close>

theorem redelivery_gets_through:
  assumes "wh_dedup h = Some g" and "kv_ok s"
    and "\<forall>k. sk_namespace k = DEDUP_NAMESPACE \<longrightarrow> mem_get (ow_now w) k s = None"
    and "ow_log w = []"
    and "serve memory_kv hk to_str h posts s w = (statuses, s', w')"
    and "ow_now w' + int gap < ow_now w + int (dg_ttl g)" and "ow_script w' = []"
    and "secret \<in> set (sv_secrets (wh_verifier h))" and "trim secret \<noteq> []"
    and "length (hk_hmac hk secret body) = 32" and "length body \<le> wh_max_body_bytes h"
    and "to_str bytes = Some (sign (hk_hmac hk) secret body)" and "hk_parse hk body = Inr events"
  shows "\<exists>s'' w''. serve memory_kv hk to_str h [(gap, Some bytes, body)] s' w' = ([200], s'', w'')
     \<and> set (event_markers hk (map Event events)) \<subseteq> set (handed_keys hk w'')"
proof -
  let ?U = "ow_now w + int (dg_ttl g)" and ?w = "w'\<lparr>ow_now := ow_now w' + int gap\<rparr>"
  have "mem_dedup.marks_inv hk ?U s w"
    using assms(2-4) by (simp add: mem_dedup.marks_inv_def mem_dedup.free_def handed_keys_def)
  then have I: "mem_dedup.marks_inv hk ?U s' w'"
    using mem_dedup.serve_marks[OF assms(1) _ _ assms(5)] assms(6) by simp
  have I: "mem_dedup.marks_inv hk ?U s' ?w"
    using I by (rule mem_dedup.marks_later) (simp_all add: handed_keys_def)
  have U: "?U \<le> ow_now ?w + int (dg_ttl g)" using mem_dedup.serve_now[OF assms(5)] by simp
  obtain rep s'' w'' where x: "exec memory_kv ow_now outside_call
      (dispatch (hk_sha hk) (hk_dedup_key hk) h (map Event events)) s' ?w = (Inr rep, s'', w'')"
      "ow_now w'' = ow_now ?w"
    using mem_dedup.exec_dispatch_accepting[OF assms(1) I U, of "map Event events" report_default]
      assms(6,7) by (auto simp: dispatch_def)
  have run: "exec memory_kv ow_now outside_call (receive hk to_str h (Some bytes) (Inr body)) s' ?w
      = (200, s'', w'')"
    using x receive_signed[where to_str = to_str, OF assms(8-13)] by simp
  have "set (payload_markers hk body) \<subseteq> set (handed_keys hk w'')"
    using mem_dedup.exec_receive[OF assms(1) I U run] x(2) assms(6) by simp
  then show ?thesis using run assms(13) by (simp add: payload_markers_def)
qed

theorem redelivery_gets_through_witness:
  "\<exists>s'' w''. serve memory_kv demo_hooks Some demo_handler [demo_post]
       (fst (snd demo_result)) (snd (snd demo_result)) = ([200], s'', w'')
     \<and> dedup_store_key (\<lambda>k. k) ''b'' \<in> set (handed_keys demo_hooks w'')"
proof -
  have run: "serve memory_kv demo_hooks Some demo_handler [demo_post, demo_post] empty_state demo_world
      = (fst demo_result, fst (snd demo_result), snd (snd demo_result))"
    by (simp add: demo_result_def)
  have now: "ow_now (snd (snd demo_result)) + int 1 < ow_now demo_world + int (dg_ttl dedup_guard_new)"
    using demo_run by (simp add: demo_defs)
  have "trim ''secret'' \<noteq> []" by (simp add: trim_def white_space_def)
  moreover have "length (hk_hmac demo_hooks ''secret'' ''ab'') = 32"
    by (simp add: demo_hooks_def toy_hmac_def)
  moreover have "''secret'' \<in> set (sv_secrets (wh_verifier demo_handler))"
      "length ''ab'' \<le> wh_max_body_bytes demo_handler"
    by (simp_all add: demo_handler_def with_dedup_def handler_new_def DEFAULT_MAX_BODY_BYTES_def)
  moreover have "hk_parse demo_hooks ''ab'' = Inr [''a'', ''b'']" by (simp add: demo_hooks_def)
  moreover have "Some (sign toy_hmac ''secret'' ''ab'') = Some (sign (hk_hmac demo_hooks) ''secret'' ''ab'')"
    by (simp add: demo_hooks_def)
  ultimately have "\<exists>s'' w''. serve memory_kv demo_hooks Some demo_handler
        [(1, Some (sign toy_hmac ''secret'' ''ab''), ''ab'')]
        (fst (snd demo_result)) (snd (snd demo_result)) = ([200], s'', w'')
      \<and> set (event_markers demo_hooks (map Event [''a'', ''b''])) \<subseteq> set (handed_keys demo_hooks w'')"
    using redelivery_gets_through[OF demo_start(1) kv_ok_empty demo_start(2,3) run now,
        where secret = "''secret''" and body = "''ab''" and events = "[''a'', ''b'']"
          and bytes = "sign toy_hmac ''secret'' ''ab''"] demo_run
    by blast
  then show ?thesis by (auto simp: demo_post_def demo_hooks_def)
qed

text \<open>
  A body nobody signed has no effect: without the HMAC of the body under one of the non-blank
  secrets in the header, the request is answered 401 or 413, the store and the outside world
  stay as they are, and the sink is not called, whatever parsing the body would give.
\<close>

theorem unsigned_changes_nothing:
  assumes "\<forall>secret \<in> set (sv_secrets (wh_verifier h)). trim secret = []
      \<or> map_option (\<lambda>v. parse_header (Some v)) (Option.bind header to_str)
          \<noteq> Some (Inr (hk_hmac hk secret body))"
  shows "\<exists>status \<in> {401, 413}.
     exec port clk ext (receive hk to_str h header (Inr body)) s w = (status, s, w)"
proof (cases "signature_header to_str header")
  case (Inl err)
  then show ?thesis by (simp add: receive_def)
next
  case (Inr sig)
  then obtain bytes where b: "header = Some bytes" "to_str bytes = Some sig"
    by (auto simp: signature_header_def split: option.splits sum.splits)
  then have "sig_verify (hk_hmac hk) (wh_verifier h) (Some sig) body \<noteq> Inr ()"
    using assms by (auto simp: sig_verify_def sig_tag_def is_blank_def fold_or split: sum.splits)
  then obtain err where "deliver hk h (Some sig) body = Ret (Inl (Webhook err))"
      "status_for (Webhook err) = 401 \<or> status_for (Webhook err) = 413"
    using deliver_refused by blast
  then show ?thesis using Inr by (auto simp: receive_def)
qed

theorem unsigned_changes_nothing_witness:
  "\<exists>status \<in> {401, 413}. exec memory_kv ow_now outside_call
     (receive demo_hooks Some demo_handler None (Inr ''ab'')) empty_state demo_world
       = (status, empty_state, demo_world)"
  by (rule unsigned_changes_nothing) simp

text \<open>
  The report of an acknowledged batch adds up: every event was delivered, dead-lettered or a
  duplicate, and what the sink and the dead-letter store accepted is exactly what it counts.
\<close>

theorem report_adds_up:
  assumes "exec port ow_now outside_call (dispatch sha key h events) s w = (Inr report, s', w')"
  shows "dr_delivered report + dr_dead_lettered report + dr_duplicates report = length events
     \<and> length (ow_log w') = length (ow_log w) + dr_delivered report + dr_dead_lettered report
     \<and> dr_unparsed report = 0"
  using dispatch_counts[OF assms[unfolded dispatch_def]]
  by (simp add: report_total_def report_default_def)

theorem report_adds_up_witness:
  "\<exists>report s' w'. exec memory_kv ow_now outside_call (dispatch (\<lambda>k. k) Some demo_handler
       [Event ''a'', Event ''a'']) empty_state demo_world = (Inr report, s', w')
     \<and> dr_delivered report + dr_dead_lettered report + dr_duplicates report = 2
     \<and> dr_duplicates report = 1"
proof -
  have "\<exists>report. fst (exec memory_kv ow_now outside_call (dispatch (\<lambda>k. k) Some demo_handler
       [Event ''a'', Event ''a'']) empty_state demo_world) = Inr report \<and> dr_duplicates report = 1"
    by (simp add: demo_defs report_default_def count_handed_def)
  then obtain report s' w' where x: "exec memory_kv ow_now outside_call
       (dispatch (\<lambda>k. k) Some demo_handler [Event ''a'', Event ''a'']) empty_state demo_world
       = (Inr report, s', w')" "dr_duplicates report = 1"
    by (metis prod.collapse)
  then show ?thesis using report_adds_up[OF x(1)] by auto
qed

end
