(* ===== verification/Recipients.thy ===== *)
theory Recipients
  imports Prelude "HOL-Library.Sublist"
begin

text \<open>
  Who a message goes to: the addressee of \<open>meta-whatsapp-core/src/recipient.rs\<close>, the identities a
  broadcast knows a person by and the listings it drops (\<open>meta-whatsapp-bot/src/broadcast.rs\<close>), and
  the key a job's markers are kept under (\<open>meta-whatsapp-bot/src/jobs/mod.rs\<close>). A person listed
  twice keeps the first listing, and the listings kept share no identity and no key.
\<close>

datatype recipient = Phone string | User string | PhoneAndUser string string | Group string

section \<open>Identities\<close>

datatype identity = PhoneIdentity string | UserIdentity string | GroupIdentity string

text \<open>A number's digits, or the number as written when it has none.\<close>

definition number_digits :: "string \<Rightarrow> string" where
  "number_digits number =
     (let digits = filter digit_char number in if digits = [] then number else digits)"

fun recipient_identities :: "recipient \<Rightarrow> identity list" where
  "recipient_identities (Phone number) = [PhoneIdentity (number_digits number)]"
| "recipient_identities (User user) = [UserIdentity user]"
| "recipient_identities (PhoneAndUser number user) =
     [PhoneIdentity (number_digits number), UserIdentity user]"
| "recipient_identities (Group gid) = [GroupIdentity gid]"

definition first_listing :: "(identity, nat) hashmap \<Rightarrow> identity list \<Rightarrow> nat option" where
  "first_listing first keys =
     (case List.find (\<lambda>k. map_of first k \<noteq> None) keys of None \<Rightarrow> None | Some k \<Rightarrow> map_of first k)"

text \<open>\<open>entry(key).or_insert(owner)\<close> for each key.\<close>

definition own_keys :: "nat \<Rightarrow> identity list \<Rightarrow> (identity, nat) hashmap \<Rightarrow> (identity, nat) hashmap" where
  "own_keys owner keys first =
     fold (\<lambda>k m. if map_of m k = None then AList.update k owner m else m) keys first"

primrec duplicates_from ::
  "recipient list \<Rightarrow> nat \<Rightarrow> (identity, nat) hashmap \<Rightarrow> (nat \<times> nat) list" where
  "duplicates_from [] index first = []"
| "duplicates_from (r # rs) index first =
     (let keys = recipient_identities r;
          seen = first_listing first keys;
          owner = (case seen of Some i \<Rightarrow> i | None \<Rightarrow> index);
          rest = duplicates_from rs (index + 1) (own_keys owner keys first)
      in case seen of Some i \<Rightarrow> (index, i) # rest | None \<Rightarrow> rest)"

definition duplicates :: "recipient list \<Rightarrow> (nat \<times> nat) list" where
  "duplicates rs = duplicates_from rs 0 []"

section \<open>Keys\<close>

fun recipient_key :: "recipient \<Rightarrow> string option" where
  "recipient_key (User user) = Some (''user:'' @ user)"
| "recipient_key (PhoneAndUser _ user) = Some (''user:'' @ user)"
| "recipient_key (Phone number) =
     Some (''phone:'' @ (let digits = filter digit_char number
                         in if digits = [] then number else digits))"
| "recipient_key (Group gid) = Some (''group:'' @ gid)"

text \<open>Two addressees with one key share an identity.\<close>

lemma same_key_identity:
  assumes "recipient_key a = recipient_key b"
  shows "set (recipient_identities a) \<inter> set (recipient_identities b) \<noteq> {}"
  using assms by (cases a; cases b) (auto simp: number_digits_def Let_def)

section \<open>What is kept\<close>

definition kept_listings :: "recipient list \<Rightarrow> recipient list" where
  "kept_listings rs =
     map snd (filter (\<lambda>(i, _). i \<notin> set (map fst (duplicates rs))) (enumerate 0 rs))"

text \<open>The same by recursion: an addressee is kept when none of its identities was met.\<close>

primrec keep_new :: "recipient list \<Rightarrow> identity set \<Rightarrow> recipient list" where
  "keep_new [] met = []"
| "keep_new (r # rs) met =
     (let met' = met \<union> set (recipient_identities r)
      in if set (recipient_identities r) \<inter> met = {} then r # keep_new rs met' else keep_new rs met')"

lemma dom_own_keys: "dom (map_of (own_keys o' keys m)) = dom (map_of m) \<union> set keys"
proof (induction keys arbitrary: m)
  case (Cons k keys)
  show ?case
    using Cons[of "if map_of m k = None then AList.update k o' m else m"]
    by (auto simp: own_keys_def dom_def)
qed (simp add: own_keys_def)

lemma first_listing_None: "first_listing m keys = None \<longleftrightarrow> set keys \<inter> dom (map_of m) = {}"
  by (induction keys) (auto simp: first_listing_def)

lemma duplicates_above: "(i, j) \<in> set (duplicates_from rs n m) \<Longrightarrow> n \<le> i"
  by (induction rs arbitrary: n m) (fastforce simp: Let_def split: option.splits)+

lemma kept_from:
  "map snd (filter (\<lambda>(i, _). i \<notin> set (map fst (duplicates_from rs n m))) (enumerate n rs))
    = keep_new rs (dom (map_of m))"
proof (induction rs arbitrary: n m)
  case (Cons r rs)
  let ?keys = "recipient_identities r"
  let ?m = "\<lambda>o'. own_keys o' ?keys m"
  have later: "n \<notin> set (map fst (duplicates_from rs (Suc n) m'))" for m'
    using duplicates_above[of n _ rs "Suc n" m'] by force
  have skip: "filter (\<lambda>(i, _). i \<noteq> n \<and> P i) (enumerate (Suc n) rs)
      = filter (\<lambda>(i, _). P i) (enumerate (Suc n) rs)" for P
    by (rule filter_cong) (auto simp: in_set_enumerate_eq)
  show ?case
  proof (cases "first_listing m ?keys")
    case None
    then have "set ?keys \<inter> dom (map_of m) = {}" using first_listing_None[of m ?keys] by simp
    then show ?thesis
      using Cons[of "Suc n" "?m n"] later by (simp add: None Let_def dom_own_keys Un_commute)
  next
    case (Some i)
    then have "set ?keys \<inter> dom (map_of m) \<noteq> {}" using first_listing_None[of m ?keys] by simp
    then show ?thesis
      using Cons[of "Suc n" "?m i"] skip by (simp add: Some Let_def dom_own_keys Un_commute)
  qed
qed simp

lemma kept_listings_alt: "kept_listings rs = keep_new rs {}"
  using kept_from[of rs 0 "[]"] by (simp add: kept_listings_def duplicates_def)

lemma keep_new_apart:
  "(\<forall>r\<in>set (keep_new rs met). set (recipient_identities r) \<inter> met = {})
    \<and> sorted_wrt (\<lambda>a b. set (recipient_identities a) \<inter> set (recipient_identities b) = {}) (keep_new rs met)"
proof (induction rs arbitrary: met)
  case (Cons r rs)
  note IH = Cons[of "met \<union> set (recipient_identities r)"]
  have "set (recipient_identities x) \<inter> met = {} \<and> set (recipient_identities r) \<inter> set (recipient_identities x) = {}"
    if "x \<in> set (keep_new rs (met \<union> set (recipient_identities r)))" for x
    using IH that by blast
  then show ?case using IH by (auto simp: Let_def)
qed simp

lemma distinct_sorted_wrt: "sorted_wrt (\<noteq>) xs \<Longrightarrow> distinct xs"
  by (induction xs) auto

lemma keep_new_keys: "distinct (map recipient_key (keep_new rs met))"
proof -
  have "sorted_wrt (\<lambda>a b. recipient_key a \<noteq> recipient_key b) (keep_new rs met)"
    by (rule sorted_wrt_mono_rel[OF _ conjunct2[OF keep_new_apart]]) (use same_key_identity in blast)
  then have "sorted_wrt (\<noteq>) (map recipient_key (keep_new rs met))" by (simp add: sorted_wrt_map)
  then show ?thesis by (rule distinct_sorted_wrt)
qed

lemma keep_new_nonempty: "rs \<noteq> [] \<Longrightarrow> keep_new rs {} \<noteq> []"
  by (cases rs) (simp_all add: Let_def)

lemma kept_subset: "set (keep_new rs met) \<subseteq> set rs"
proof (induction rs arbitrary: met)
  case (Cons r rs)
  then show ?case using Cons[of "met \<union> set (recipient_identities r)"] by (auto simp: Let_def)
qed simp

lemma keep_new_subseq: "subseq (keep_new rs met) rs"
  by (induction rs arbitrary: met) (auto simp: Let_def)

lemma left_out:
  assumes "i < length rs" and "rs ! i \<notin> set (keep_new rs met)"
  shows "set (recipient_identities (rs ! i)) \<inter> met \<noteq> {}
    \<or> (\<exists>i'<i. set (recipient_identities (rs ! i')) \<inter> set (recipient_identities (rs ! i)) \<noteq> {})"
  using assms
proof (induction rs arbitrary: i met)
  case (Cons r rs)
  show ?case
  proof (cases i)
    case 0 then show ?thesis using Cons.prems by (auto simp: Let_def split: if_splits)
  next
    case (Suc i')
    then have "rs ! i' \<notin> set (keep_new rs (met \<union> set (recipient_identities r)))" "i' < length rs"
      using Cons.prems by (auto simp: Let_def split: if_splits)
    from Cons.IH[OF this(2,1)] consider "set (recipient_identities (rs ! i')) \<inter> met \<noteq> {}"
      | "set (recipient_identities r) \<inter> set (recipient_identities (rs ! i')) \<noteq> {}"
      | l where "l < i'" "set (recipient_identities (rs ! l)) \<inter> set (recipient_identities (rs ! i')) \<noteq> {}"
      by blast
    then show ?thesis
    proof cases
      case 2 then show ?thesis unfolding Suc by (intro disjI2 exI[of _ 0]) simp
    next
      case (3 l) then show ?thesis unfolding Suc by (intro disjI2 exI[of _ "Suc l"]) simp
    qed (simp add: Suc)
  qed
qed simp

end
