(* ===== verification/Otp.thy ===== *)
theory Otp
  imports Memory_Kv Kv_Prog Recipients
begin

text \<open>
  The one-time passcode service of \<open>meta-whatsapp-client/src/authentication/otp.rs\<close>: settings and
  their checks, the phone number a code is bound to, the HMAC inputs, code generation, and the
  service's operations as programs over the key/value store. Parameters, in \<open>otp_env\<close>: HMAC-SHA256
  (it takes a key of any length, so it cannot fail), the JSON codecs of the two records, and
  whether a text has a control or format character (\<open>unicode_properties\<close>). The random number
  generator and the Graph API client are outside: a reply carries the bytes drawn (\<open>None\<close>: the
  generator failed) and the ids in the send response, or the error. Counters the code keeps in
  \<open>u32\<close> are naturals (an attempt is only added below \<open>max_attempts\<close>, which is a \<open>u32\<close>).
\<close>

section \<open>Settings\<close>

definition OTP_NAMESPACE :: string where "OTP_NAMESPACE = ''wa.otp''"
definition ISSUE_LOG_NAMESPACE :: string where "ISSUE_LOG_NAMESPACE = ''wa.otp.rate''"
definition KEY_DOMAIN :: string where "KEY_DOMAIN = ''wa.otp.key''"
definition CODE_DOMAIN :: string where "CODE_DOMAIN = ''wa.otp.code''"
definition MIN_PEPPER_BYTES :: nat where "MIN_PEPPER_BYTES = 32"
definition E164_MAX_DIGITS :: nat where "E164_MAX_DIGITS = 15"

definition pepper_from_secret :: "string \<Rightarrow> error + string" where
  "pepper_from_secret secret =
     (if length secret < MIN_PEPPER_BYTES
      then Inl (Config (ConfigError ''OTP pepper must be at least 32 bytes''))
      else Inr secret)"

record otp_template =
  ot_name :: string
  ot_language :: string

record issue_limit =
  il_max_issues :: nat
  il_window :: duration

definition issue_limit_default :: issue_limit where
  "issue_limit_default = \<lparr>il_max_issues = 5, il_window = hours 1\<rparr>"

record otp_config =
  oc_code_length :: nat
  oc_ttl :: duration
  oc_max_attempts :: nat
  oc_resend_cooldown :: duration
  oc_issue_limit :: "issue_limit option"
  oc_namespace :: string

definition otp_config_new :: "string \<Rightarrow> otp_config" where
  "otp_config_new namespace =
     \<lparr>oc_code_length = 6, oc_ttl = mins 10, oc_max_attempts = 5, oc_resend_cooldown = secs 30,
      oc_issue_limit = Some issue_limit_default, oc_namespace = namespace\<rparr>"

text \<open>\<open>odd_chars s\<close>: \<open>s\<close> has a control (\<open>Cc\<close>) or format (\<open>Cf\<close>) character.\<close>

definition otp_validate :: "(string \<Rightarrow> bool) \<Rightarrow> otp_config \<Rightarrow> validation_error + unit" where
  "otp_validate odd_chars c =
     (let bad = (\<lambda>field reason. Inl (validation_new field reason)) in
      if \<not> (4 \<le> oc_code_length c \<and> oc_code_length c \<le> 8) then
        bad ''code_length'' ''must be 4 to 8''
      else if oc_ttl c = 0 \<or> oc_ttl c > mins 90 then
        bad ''ttl'' ''must be between 1 second and 90 minutes''
      else if oc_max_attempts c = 0 then
        bad ''max_attempts'' ''must be at least 1''
      else if (case oc_issue_limit c of
                 Some limit \<Rightarrow> il_max_issues limit = 0 \<or> il_window limit = 0 | None \<Rightarrow> False) then
        bad ''issue_limit'' ''needs max_issues >= 1 and a non-zero window''
      else if trim (oc_namespace c) = [] then
        bad ''namespace''
          ''must not be blank: name the tenant (or app) the service issues codes for''
      else if trim (oc_namespace c) \<noteq> oc_namespace c \<or> odd_chars (oc_namespace c) then
        bad ''namespace''
          (''must not have leading or trailing whitespace, control characters or '' @
           ''format characters (U+200B, U+FEFF, bidi controls, '' @
           [CHR 0xE2, CHR 0x80, CHR 0xA6] @ '')'')
      else Inr ())"

record otp_challenge =
  ch_id :: string
  ch_expires_at :: time
  ch_message_id :: string

datatype issue_outcome = Sent otp_challenge | CoolingDown duration | RateLimited duration

datatype verify_outcome = Verified | Invalid nat | Expired | TooManyAttempts | NotFound

record stored_challenge =
  sc_id :: string
  sc_mac :: string
  sc_attempts :: nat
  sc_expires_at :: int
  sc_sent_at :: int

record issue_log =
  lg_issued_at :: "int list"

section \<open>Instants\<close>

definition plus_time :: "time \<Rightarrow> duration \<Rightarrow> time" where
  "plus_time t d =
     (case (case signed_duration d of None \<Rightarrow> None | Some d' \<Rightarrow> time_checked_add t d') of
        Some u \<Rightarrow> u
      | None \<Rightarrow> datetime_max)"

definition until_time :: "time \<Rightarrow> time \<Rightarrow> duration" where
  "until_time later now = nat (later - now)"

section \<open>Codes\<close>

record otp_message =
  om_to :: string
  om_template :: otp_template
  om_code :: string
  om_messaging_account :: "string option"

datatype otp_request = RandomBytes nat | SendMessage otp_message

type_synonym otp_reply = "string option \<times> (error + string list)"
type_synonym ('v, 'a) otp_prog = "('v, otp_request, otp_reply, 'a) prog"

definition random_bytes :: "nat \<Rightarrow> ('v, error + string) otp_prog" where
  "random_bytes n =
     Ext (RandomBytes n) (\<lambda>r. case fst r of None \<Rightarrow> Ret (Inl (Crypto Rng)) | Some b \<Rightarrow> Ret (Inr b))"

fun push_digits :: "string \<Rightarrow> nat \<Rightarrow> string \<Rightarrow> string" where
  "push_digits code len [] = code"
| "push_digits code len (b # bytes) =
     (if length code \<ge> len then code
      else if (of_char b :: nat) < 250
        then push_digits (code @ [char_of (48 + (of_char b :: nat) mod 10)]) len bytes
      else push_digits code len bytes)"

text \<open>
  The loop draws until the code is full; each round is a unit of fuel, and \<open>None\<close> is a loop that
  has not ended within it.
\<close>

primrec random_code :: "nat \<Rightarrow> nat \<Rightarrow> string \<Rightarrow> ('v, (error + string) option) otp_prog" where
  "random_code 0 len code = Ret (if length code < len then None else Some (Inr code))"
| "random_code (Suc fuel) len code =
     (if length code < len then
        pbind (random_bytes 32) (\<lambda>r. case r of
            Inl e \<Rightarrow> Ret (Some (Inl e))
          | Inr buf \<Rightarrow> random_code fuel len (push_digits code len buf))
      else Ret (Some (Inr code)))"

definition contention :: "string \<Rightarrow> error" where
  "contention what = Storage (storage_error.Backend
     (''OTP '' @ what @ '': the record kept changing under concurrent writers''))"

text \<open>The digits after the \<open>+\<close>, without the separators; \<open>None\<close> at any other character.\<close>

fun phone_digits :: "string \<Rightarrow> string option" where
  "phone_digits [] = Some []"
| "phone_digits (c # rest) =
     (if digit_char c then map_option ((#) c) (phone_digits rest)
      else if c \<in> set '' -()'' then phone_digits rest
      else None)"

definition refuse_recipient :: "string \<Rightarrow> error + 'a" where
  "refuse_recipient reason = Inl (Validation (validation_new ''recipient'' reason))"

text \<open>\<open>Phone::of\<close>: the digits that decide where a code goes.\<close>

definition phone_of :: "recipient \<Rightarrow> error + string" where
  "phone_of recipient =
     (case (case recipient of Phone raw \<Rightarrow> Some raw | PhoneAndUser raw _ \<Rightarrow> Some raw | _ \<Rightarrow> None) of
        None \<Rightarrow> refuse_recipient
          (''OTP codes need a phone number: authentication templates cannot be sent to a '' @
           ''BSUID alone or a group (Graph error 131062)'')
      | Some raw \<Rightarrow>
          (case strip_prefix ''+'' (trim raw) of
             None \<Rightarrow> refuse_recipient
               (''phone number must be E.164 with its leading `+`: without it Meta prepends '' @
                ''the sending number's country code'')
           | Some rest \<Rightarrow>
               (case phone_digits rest of
                  None \<Rightarrow> refuse_recipient
                    (''phone number may only contain digits, spaces, hyphens and '' @
                     ''parentheses after the `+`'')
                | Some digits \<Rightarrow>
                    if digits = [] \<or> hd digits = CHR ''0'' \<or> length digits > E164_MAX_DIGITS
                    then refuse_recipient
                      ''phone number must be a country code (not 0) and at most 15 digits''
                    else Inr digits)))"

definition e164 :: "string \<Rightarrow> string" where
  "e164 digits = ''+'' @ digits"

section \<open>HMAC inputs\<close>

definition netstring :: "string \<Rightarrow> string" where
  "netstring bytes = show_nat (length bytes) @ '':'' @ bytes @ '',''"

definition otp_scope :: "string \<Rightarrow> string \<Rightarrow> string" where
  "otp_scope phone_number_id namespace = netstring phone_number_id @ netstring namespace"

definition mac_input :: "string \<Rightarrow> string list \<Rightarrow> string" where
  "mac_input domain parts = domain @ concat (map (\<lambda>part. ''|'' @ part) parts)"

record ('v) otp_env =
  oe_hmac :: "string \<Rightarrow> string \<Rightarrow> string"
  oe_challenge_codec :: "('v, stored_challenge) codec"
  oe_log_codec :: "('v, issue_log) codec"

record otp_service =
  os_phone_number_id :: string
  os_scope :: string
  os_template :: otp_template
  os_pepper :: string
  os_config :: otp_config
  os_messaging_account_id :: "string option"

definition otp_mac :: "'v otp_env \<Rightarrow> otp_service \<Rightarrow> string \<Rightarrow> string list \<Rightarrow> string" where
  "otp_mac env svc domain parts = oe_hmac env (os_pepper svc) (mac_input domain parts)"

definition code_mac :: "'v otp_env \<Rightarrow> otp_service \<Rightarrow> string \<Rightarrow> string \<Rightarrow> string \<Rightarrow> string" where
  "code_mac env svc key cid code = otp_mac env svc CODE_DOMAIN [key, cid, code]"

definition otp_key ::
  "'v otp_env \<Rightarrow> otp_service \<Rightarrow> string \<Rightarrow> string \<Rightarrow> error + string" where
  "otp_key env svc digits purpose =
     (if purpose = [] then Inl (Validation (validation_new ''purpose'' ''must not be empty''))
      else Inr (hex_encode (otp_mac env svc KEY_DOMAIN [os_scope svc, digits, purpose])))"

section \<open>The service\<close>

text \<open>
  \<open>OtpService::new\<close>: \<open>refuse_segment\<close> is the client's reason to refuse an id as a path segment;
  a name's length is counted in characters, so bytes that continue one are not counted.
\<close>

definition utf8_chars :: "string \<Rightarrow> nat" where
  "utf8_chars s = length (filter (\<lambda>c. (of_char c :: nat) div 64 \<noteq> 2) s)"

definition template_name_check :: "string \<Rightarrow> string \<Rightarrow> validation_error + unit" where
  "template_name_check value field =
     (if value = [] then Inl (validation_new field ''must not be empty'')
      else if utf8_chars value > 512 then
        Inl (validation_new field ''must be at most 512 characters'')
      else if \<not> list_all (\<lambda>b. CHR ''a'' \<le> b \<and> b \<le> CHR ''z'' \<or> digit_char b \<or> b = CHR ''_'') value
      then Inl (validation_new field ''may only contain lowercase letters, digits and underscores'')
      else Inr ())"

definition template_not_empty :: "string \<Rightarrow> string \<Rightarrow> validation_error + unit" where
  "template_not_empty value field =
     (if trim value = [] then Inl (validation_new field ''must not be empty'') else Inr ())"

definition validation_display :: "validation_error \<Rightarrow> string" where
  "validation_display e = ''invalid `'' @ ve_field e @ ''`: '' @ ve_reason e"

definition otp_service_new ::
  "(string \<Rightarrow> bool) \<Rightarrow> (string \<Rightarrow> string option) \<Rightarrow> string \<Rightarrow> otp_template \<Rightarrow> string \<Rightarrow> otp_config
     \<Rightarrow> error + otp_service" where
  "otp_service_new odd_chars refuse_segment phone_number_id template pepper c =
     (case otp_validate odd_chars c of
        Inl e \<Rightarrow> Inl (Config (ConfigError (''OtpConfig: '' @ validation_display e)))
      | Inr _ \<Rightarrow>
     (case refuse_segment phone_number_id of
        Some reason \<Rightarrow> Inl (Config (ConfigError (''OTP phone_number_id: '' @ reason)))
      | None \<Rightarrow>
     (case template_name_check (ot_name template) ''template.name'' of
        Inl e \<Rightarrow> Inl (Validation e)
      | Inr _ \<Rightarrow>
     (case template_not_empty (ot_language template) ''template.language'' of
        Inl e \<Rightarrow> Inl (Validation e)
      | Inr _ \<Rightarrow>
        Inr \<lparr>os_phone_number_id = phone_number_id,
             os_scope = otp_scope phone_number_id (oc_namespace c), os_template = template,
             os_pepper = pepper, os_config = c, os_messaging_account_id = None\<rparr>))))"

definition with_messaging_account_id :: "string \<Rightarrow> otp_service \<Rightarrow> otp_service" where
  "with_messaging_account_id account svc = svc\<lparr>os_messaging_account_id := Some account\<rparr>"

definition cas_budget :: "otp_service \<Rightarrow> nat" where
  "cas_budget svc = oc_max_attempts (os_config svc) + 64"

type_synonym found = "(stored_challenge \<times> nat \<times> time option) option"

definition cooling_down :: "otp_service \<Rightarrow> found \<Rightarrow> time \<Rightarrow> duration option" where
  "cooling_down svc existing now =
     (case existing of
        None \<Rightarrow> None
      | Some (record, _, _) \<Rightarrow>
          (let ready_at = plus_time (from_ms (sc_sent_at record)) (oc_resend_cooldown (os_config svc))
           in if now < ready_at then Some (until_time ready_at now) else None))"

text \<open>\<open>reserve_issue\<close>: a slot in the issue log, or how long to wait for one.\<close>

primrec reserve_rounds ::
  "nat \<Rightarrow> 'v otp_env \<Rightarrow> string \<Rightarrow> issue_limit \<Rightarrow> time
     \<Rightarrow> ('v, error + duration option) otp_prog" where
  "reserve_rounds 0 env key limit now = Ret (Inl (contention ''issue limit''))"
| "reserve_rounds (Suc n) env key limit now =
     (let horizon = i64_saturating_sub (to_ms now) (duration_ms (il_window limit)) in
      pstore (js_get (oe_log_codec env) ISSUE_LOG_NAMESPACE key) (\<lambda>current.
        let issued = sort (filter (\<lambda>t. t > horizon)
              (case current of Some (log, _, _) \<Rightarrow> lg_issued_at log | None \<Rightarrow> []))
        in if length issued \<ge> il_max_issues limit then
             let blocking = issued ! (length issued - il_max_issues limit)
             in Ret (Inr (Some (until_time (plus_time (from_ms blocking) (il_window limit)) now)))
           else
             let log = \<lparr>lg_issued_at = issued @ [to_ms now]\<rparr>;
                 expiry = At (plus_time now (il_window limit))
             in pstore (case current of
                    Some (_, version, _) \<Rightarrow>
                      js_compare_and_swap (oe_log_codec env) ISSUE_LOG_NAMESPACE key version
                        (Some log) expiry
                  | None \<Rightarrow>
                      js_put_if_absent (oe_log_codec env) ISSUE_LOG_NAMESPACE key log expiry)
                (\<lambda>written. if written \<noteq> None then Ret (Inr None)
                            else reserve_rounds n env key limit now)))"

definition reserve_issue ::
  "'v otp_env \<Rightarrow> otp_service \<Rightarrow> string \<Rightarrow> issue_limit \<Rightarrow> time
     \<Rightarrow> ('v, error + duration option) otp_prog" where
  "reserve_issue env svc key limit now = reserve_rounds (cas_budget svc) env key limit now"

primrec remove_rounds ::
  "nat \<Rightarrow> 'v otp_env \<Rightarrow> string \<Rightarrow> string \<Rightarrow> ('v, error + bool) otp_prog" where
  "remove_rounds 0 env key cid = Ret (Inl (contention ''removal''))"
| "remove_rounds (Suc n) env key cid =
     pstore (js_get (oe_challenge_codec env) OTP_NAMESPACE key) (\<lambda>found. case found of
         None \<Rightarrow> Ret (Inr False)
       | Some (record, version, _) \<Rightarrow>
           if sc_id record \<noteq> cid then Ret (Inr False)
           else pstore (js_compare_and_swap (oe_challenge_codec env) OTP_NAMESPACE key version None Keep)
                  (\<lambda>swapped. if swapped \<noteq> None then Ret (Inr True)
                              else remove_rounds n env key cid))"

definition remove_challenge ::
  "'v otp_env \<Rightarrow> otp_service \<Rightarrow> string \<Rightarrow> string \<Rightarrow> ('v, error + bool) otp_prog" where
  "remove_challenge env svc key cid = remove_rounds (cas_budget svc) env key cid"

text \<open>\<open>send\<close>: the code to exactly \<open>+digits\<close>; the id of the first message in the response.\<close>

definition send_code ::
  "otp_service \<Rightarrow> string \<Rightarrow> string \<Rightarrow> ('v, error + string) otp_prog" where
  "send_code svc digits code =
     Ext (SendMessage \<lparr>om_to = e164 digits, om_template = os_template svc, om_code = code,
                       om_messaging_account = os_messaging_account_id svc\<rparr>)
       (\<lambda>r. case snd r of
            Inl e \<Rightarrow> Ret (Inl e)
          | Inr (mid # _) \<Rightarrow> Ret (Inr mid)
          | Inr [] \<Rightarrow> Ret (Inl (Decode ''send message response''
              ''no `messages[0].id` in the response''
              ''(withheld: the response names the recipient)'')))"

text \<open>
  The write of a new challenge: \<open>Inr None\<close> once stored, \<open>Inr (Some wait)\<close> when a concurrent issue
  came first.
\<close>

primrec store_rounds ::
  "nat \<Rightarrow> 'v otp_env \<Rightarrow> otp_service \<Rightarrow> string \<Rightarrow> stored_challenge \<Rightarrow> time \<Rightarrow> time \<Rightarrow> found
     \<Rightarrow> ('v, error + duration option) otp_prog" where
  "store_rounds 0 env svc key record keep_until now existing = Ret (Inl (contention ''issue''))"
| "store_rounds (Suc n) env svc key record keep_until now existing =
     pstore (case existing of
         Some (_, version, _) \<Rightarrow>
           js_compare_and_swap (oe_challenge_codec env) OTP_NAMESPACE key version (Some record)
             (At keep_until)
       | None \<Rightarrow>
           js_put_if_absent (oe_challenge_codec env) OTP_NAMESPACE key record (At keep_until))
       (\<lambda>written. if written \<noteq> None then Ret (Inr None)
          else pstore (js_get (oe_challenge_codec env) OTP_NAMESPACE key) (\<lambda>existing.
            case cooling_down svc existing now of
              Some wait \<Rightarrow> Ret (Inr (Some wait))
            | None \<Rightarrow> store_rounds n env svc key record keep_until now existing))"

text \<open>\<open>issue\<close> from the moment the id and the code are drawn.\<close>

definition issue_drawn ::
  "'v otp_env \<Rightarrow> otp_service \<Rightarrow> string \<Rightarrow> string \<Rightarrow> time \<Rightarrow> found \<Rightarrow> string \<Rightarrow> string
     \<Rightarrow> ('v, error + issue_outcome) otp_prog" where
  "issue_drawn env svc digits key now existing cid code =
     (let expires_at = plus_time now (oc_ttl (os_config svc));
          record = \<lparr>sc_id = cid, sc_mac = hex_encode (code_mac env svc key cid code),
                    sc_attempts = 0, sc_expires_at = to_ms expires_at, sc_sent_at = to_ms now\<rparr>;
          keep_until = max (plus_time expires_at (oc_ttl (os_config svc)))
                           (plus_time now (oc_resend_cooldown (os_config svc)))
      in ptry (store_rounds (cas_budget svc) env svc key record keep_until now existing) (\<lambda>r.
         case r of
           Some wait \<Rightarrow> Ret (Inr (CoolingDown wait))
         | None \<Rightarrow>
             pbind (send_code svc digits code) (\<lambda>sent. case sent of
                 Inr message_id \<Rightarrow>
                   Ret (Inr (Sent \<lparr>ch_id = cid, ch_expires_at = from_ms (sc_expires_at record),
                                   ch_message_id = message_id\<rparr>))
               | Inl err \<Rightarrow>
                   if \<not> may_have_been_sent err
                   then pbind (remove_challenge env svc key cid) (\<lambda>_. Ret (Inl err))
                   else Ret (Inl err))))"

text \<open>\<open>issue\<close>; the result is \<open>None\<close> when the code is not full within the fuel of its loop.\<close>

definition otp_issue ::
  "nat \<Rightarrow> 'v otp_env \<Rightarrow> otp_service \<Rightarrow> recipient \<Rightarrow> string
     \<Rightarrow> ('v, (error + issue_outcome) option) otp_prog" where
  "otp_issue fuel env svc recipient purpose =
     (case phone_of recipient of
        Inl e \<Rightarrow> Ret (Some (Inl e))
      | Inr digits \<Rightarrow>
     (case otp_key env svc digits purpose of
        Inl e \<Rightarrow> Ret (Some (Inl e))
      | Inr key \<Rightarrow>
        Now (\<lambda>now.
        pbind (js_get (oe_challenge_codec env) OTP_NAMESPACE key) (\<lambda>r. case r of
            Inl e \<Rightarrow> Ret (Some (Inl (Storage e)))
          | Inr existing \<Rightarrow>
        (case cooling_down svc existing now of
            Some wait \<Rightarrow> Ret (Some (Inr (CoolingDown wait)))
          | None \<Rightarrow>
        pbind (case oc_issue_limit (os_config svc) of
                 None \<Rightarrow> Ret (Inr None)
               | Some limit \<Rightarrow> reserve_issue env svc key limit now) (\<lambda>r. case r of
            Inl e \<Rightarrow> Ret (Some (Inl e))
          | Inr (Some retry_after) \<Rightarrow> Ret (Some (Inr (RateLimited retry_after)))
          | Inr None \<Rightarrow>
        pbind (random_bytes 16) (\<lambda>r. case r of
            Inl e \<Rightarrow> Ret (Some (Inl e))
          | Inr idb \<Rightarrow>
        pbind (random_code fuel (oc_code_length (os_config svc)) []) (\<lambda>r. case r of
            None \<Rightarrow> Ret None
          | Some (Inl e) \<Rightarrow> Ret (Some (Inl e))
          | Some (Inr code) \<Rightarrow>
        pbind (issue_drawn env svc digits key now existing (hex_encode idb) code)
          (\<lambda>r. Ret (Some r))))))))))"

text \<open>\<open>consume\<close>: the deletion of a verified challenge.\<close>

primrec consume_rounds ::
  "nat \<Rightarrow> 'v otp_env \<Rightarrow> string \<Rightarrow> string \<Rightarrow> nat \<Rightarrow> ('v, error + verify_outcome) otp_prog" where
  "consume_rounds 0 env key cid version = Ret (Inl (contention ''consumption''))"
| "consume_rounds (Suc n) env key cid version =
     pstore (js_compare_and_swap (oe_challenge_codec env) OTP_NAMESPACE key version None Keep)
       (\<lambda>swapped. if swapped \<noteq> None then Ret (Inr Verified)
          else pstore (js_get (oe_challenge_codec env) OTP_NAMESPACE key) (\<lambda>found. case found of
              Some (record, current, _) \<Rightarrow>
                if sc_id record = cid then consume_rounds n env key cid current
                else Ret (Inr NotFound)
            | None \<Rightarrow> Ret (Inr NotFound)))"

definition malformed_hash :: "string \<Rightarrow> error" where
  "malformed_hash key =
     Storage (storage_error.Backend (''OTP record `wa.otp/'' @ key @ ''` has a malformed hash''))"

primrec verify_rounds ::
  "nat \<Rightarrow> 'v otp_env \<Rightarrow> otp_service \<Rightarrow> string \<Rightarrow> string
     \<Rightarrow> ('v, error + verify_outcome) otp_prog" where
  "verify_rounds 0 env svc key code = Ret (Inl (contention ''verification''))"
| "verify_rounds (Suc n) env svc key code =
     pstore (js_get (oe_challenge_codec env) OTP_NAMESPACE key) (\<lambda>found. case found of
         None \<Rightarrow> Ret (Inr NotFound)
       | Some (record, version, _) \<Rightarrow>
           Now (\<lambda>now.
             if now \<ge> from_ms (sc_expires_at record) then Ret (Inr Expired)
             else if sc_attempts record \<ge> oc_max_attempts (os_config svc)
               then Ret (Inr TooManyAttempts)
             else
               let record = record\<lparr>sc_attempts := sc_attempts record + 1\<rparr> in
               pstore (js_compare_and_swap (oe_challenge_codec env) OTP_NAMESPACE key version
                        (Some record) Keep) (\<lambda>swapped. case swapped of
                   None \<Rightarrow> verify_rounds n env svc key code
                 | Some counted \<Rightarrow>
                     (case hex_decode (sc_mac record) of
                        None \<Rightarrow> Ret (Inl (malformed_hash key))
                      | Some expected \<Rightarrow>
                          if code_mac env svc key (sc_id record) code = expected
                          then consume_rounds (cas_budget svc) env key (sc_id record) counted
                          else Ret (Inr (Invalid
                                 (oc_max_attempts (os_config svc) - sc_attempts record)))))))"

definition otp_verify ::
  "'v otp_env \<Rightarrow> otp_service \<Rightarrow> recipient \<Rightarrow> string \<Rightarrow> string
     \<Rightarrow> ('v, error + verify_outcome) otp_prog" where
  "otp_verify env svc recipient purpose code =
     (case phone_of recipient of
        Inl e \<Rightarrow> Ret (Inl e)
      | Inr digits \<Rightarrow>
          (case otp_key env svc digits purpose of
             Inl e \<Rightarrow> Ret (Inl e)
           | Inr key \<Rightarrow> verify_rounds (cas_budget svc) env svc key code))"

section \<open>Numbers, inputs and codes\<close>

lemma phone_digits_Some:
  "phone_digits rest = Some digits \<longleftrightarrow>
     (\<forall>c \<in> set rest. digit_char c \<or> c \<in> set '' -()'') \<and> digits = filter digit_char rest"
  by (induction rest arbitrary: digits) auto

lemma refuse_recipient_Inl [simp]: "refuse_recipient a \<noteq> Inr b"
  by (simp add: refuse_recipient_def)

lemma phone_number_Inr:
  "(case strip_prefix p t of None \<Rightarrow> refuse_recipient a
    | Some rest \<Rightarrow> (case phone_digits rest of None \<Rightarrow> refuse_recipient b
        | Some d \<Rightarrow> if P d then refuse_recipient c else Inr d)) = Inr digits
   \<longleftrightarrow> (\<exists>rest. t = p @ rest \<and> phone_digits rest = Some digits \<and> \<not> P digits)"
  by (auto simp: strip_prefix_Some split: option.splits)

lemma phone_of_digits:
  assumes "phone_of r = Inr digits"
  shows "digits \<noteq> []" and "hd digits \<noteq> CHR ''0''" and "length digits \<le> 15"
    and "\<forall>c \<in> set digits. digit_char c"
  using assms
  by (auto simp: phone_of_def refuse_recipient_def E164_MAX_DIGITS_def phone_digits_Some
      split: option.splits if_splits)

lemma netstring_prefix_free:
  assumes "netstring a @ x = netstring b @ y"
  shows "a = b \<and> x = y"
proof -
  have colon: "CHR '':'' \<notin> set (show_nat n)" for n
    using show_nat_digits not_digit_char(1) by blast
  have "show_nat (length a) = show_nat (length b)" and rest: "a @ '','' @ x = b @ '','' @ y"
    using assms split_at_sep[OF _ colon colon, of "length a" "a @ '','' @ x" "length b" "b @ '','' @ y"]
    by (simp_all add: netstring_def)
  then have "length a = length b" using show_nat_inj by blast
  then show ?thesis using rest by simp
qed

lemma otp_scope_prefix_free:
  "otp_scope p n @ x = otp_scope p' n' @ y \<Longrightarrow> p = p' \<and> n = n' \<and> x = y"
  unfolding otp_scope_def using netstring_prefix_free by (metis append.assoc)

lemma no_bar_in_digits: "\<forall>c \<in> set digits. digit_char c \<Longrightarrow> CHR ''|'' \<notin> set digits"
  using not_digit_char(2) by blast

lemma push_digits_prefix: "\<exists>ds. push_digits code len bytes = code @ ds \<and> (\<forall>d \<in> set ds. digit_char d)"
proof (induction bytes arbitrary: code)
  case (Cons b bytes)
  have "digit_char (char_of (48 + (of_char b :: nat) mod 10))" by (rule digit_char_of) simp
  then show ?case
    using Cons.IH[of code] Cons.IH[of "code @ [char_of (48 + (of_char b :: nat) mod 10)]"] by auto
qed simp

lemma push_digits_length: "length code \<le> len \<Longrightarrow> length (push_digits code len bytes) \<le> len"
  by (induction bytes arbitrary: code) auto

lemma push_digits_grows:
  "length code < len \<Longrightarrow> \<exists>b \<in> set bytes. (of_char b :: nat) < 250
     \<Longrightarrow> length code < length (push_digits code len bytes)"
proof (induction bytes arbitrary: code)
  case (Cons b bytes)
  show ?case
  proof (cases "(of_char b :: nat) < 250")
    case True
    obtain ds where "push_digits (code @ [char_of (48 + (of_char b :: nat) mod 10)]) len bytes
        = (code @ [char_of (48 + (of_char b :: nat) mod 10)]) @ ds"
      using push_digits_prefix by blast
    then show ?thesis using True Cons.prems by simp
  next
    case False
    then show ?thesis using Cons by auto
  qed
qed simp

lemma random_code_shape:
  "exec port clk ext (random_code fuel len code) s w = (Some (Inr code'), s', w') \<Longrightarrow>
     length code \<le> len \<Longrightarrow> length code' = len \<and> (\<exists>ds. code' = code @ ds \<and> (\<forall>d \<in> set ds. digit_char d))"
proof (induction fuel arbitrary: code s w)
  case (Suc fuel)
  show ?case
  proof (cases "length code < len")
    case True
    then obtain buf s1 w1 where r: "exec port clk ext (random_code fuel len (push_digits code len buf)) s1 w1
        = (Some (Inr code'), s', w')"
      using Suc.prems(1) by (auto simp: random_bytes_def Let_def split: option.splits)
    show ?thesis
      using Suc.IH[OF r] push_digits_length[OF Suc.prems(2), of buf] push_digits_prefix[of code len buf]
      by auto
  qed (use Suc.prems in auto)
qed (auto split: if_splits)

text \<open>Bytes, by the digit they give.\<close>

lemma card_bytes:
  assumes "P \<subseteq> {..<256 :: nat}"
  shows "card {b. (of_char b :: nat) \<in> P} = card P"
proof -
  have "{b. (of_char b :: nat) \<in> P} = char_of ` P"
    using assms by (auto simp: image_iff intro!: bexI[of _ "of_char _"])
  moreover have "inj_on (char_of :: nat \<Rightarrow> char) P"
    using assms by (intro inj_onI) (metis lessThan_iff mod_less of_char_of subset_iff)
  ultimately show ?thesis by (simp add: card_image)
qed

lemma push_one:
  "length code < len \<Longrightarrow> push_digits code len [b] =
     (if (of_char b :: nat) < 250 then code @ [char_of (48 + (of_char b :: nat) mod 10)] else code)"
  by simp

lemma digit_char_inj:
  assumes "a < 10" "b < 10" "char_of (48 + a :: nat) = char_of (48 + b :: nat)"
  shows "a = b"
  using assms(1,2) arg_cong[OF assms(3), of "of_char :: char \<Rightarrow> nat"] by simp

lemma residue_count:
  assumes "d < (10 :: nat)"
  shows "card {n \<in> {..<250 :: nat}. n mod 10 = d} = 25"
proof -
  have "{n \<in> {..<250 :: nat}. n mod 10 = d} = (\<lambda>q. 10 * q + d) ` {..<25}"
  proof (intro equalityI subsetI)
    fix n assume "n \<in> {n \<in> {..<250 :: nat}. n mod 10 = d}"
    then have "n = 10 * (n div 10) + d" "n div 10 < 25" by auto
    then show "n \<in> (\<lambda>q. 10 * q + d) ` {..<25}" by blast
  qed (use assms in auto)
  moreover have "inj_on (\<lambda>q :: nat. 10 * q + d) {..<25}" by (intro inj_onI) simp
  ultimately show ?thesis by (simp add: card_image)
qed

section \<open>Properties\<close>

text \<open>
  C8. No two HMAC inputs of the service coincide where the design separates them: the input of a
  store key determines the sending number, the namespace, the recipient's digits and the purpose;
  the input of a code's hash determines the store key it is bound to; and no input of the one kind
  is an input of the other. So a code of one tenant, number, recipient or purpose is no code of
  another, whatever text the caller put in the purpose, the challenge id or the code.
\<close>

theorem otp_inputs_never_collide:
  assumes "phone_of r = Inr digits" and "phone_of r' = Inr digits'"
    and "length h = 32" and "length h' = 32"
  shows "(mac_input KEY_DOMAIN [otp_scope pid ns, digits, purpose]
        = mac_input KEY_DOMAIN [otp_scope pid' ns', digits', purpose']
        \<longleftrightarrow> pid = pid' \<and> ns = ns' \<and> digits = digits' \<and> purpose = purpose')
    \<and> (mac_input CODE_DOMAIN [hex_encode h, cid, code]
        = mac_input CODE_DOMAIN [hex_encode h', cid', code']
        \<longleftrightarrow> h = h' \<and> cid @ ''|'' @ code = cid' @ ''|'' @ code')
    \<and> mac_input KEY_DOMAIN xs \<noteq> mac_input CODE_DOMAIN ys"
proof (intro conjI)
  have sep: "CHR ''|'' \<notin> set digits" "CHR ''|'' \<notin> set digits'"
    using phone_of_digits(4) assms(1,2) no_bar_in_digits by blast+
  show "mac_input KEY_DOMAIN [otp_scope pid ns, digits, purpose]
       = mac_input KEY_DOMAIN [otp_scope pid' ns', digits', purpose']
       \<longleftrightarrow> pid = pid' \<and> ns = ns' \<and> digits = digits' \<and> purpose = purpose'"
    using otp_scope_prefix_free[of pid ns "''|'' @ digits @ ''|'' @ purpose" pid' ns'
        "''|'' @ digits' @ ''|'' @ purpose'"] split_at_sep[OF _ sep, of purpose purpose']
    by (auto simp: mac_input_def)
  have "length (hex_encode h) = length (hex_encode h')" using assms(3,4) by simp
  then show "mac_input CODE_DOMAIN [hex_encode h, cid, code]
        = mac_input CODE_DOMAIN [hex_encode h', cid', code']
        \<longleftrightarrow> h = h' \<and> cid @ ''|'' @ code = cid' @ ''|'' @ code'"
    using hex_encode_inj[of h h'] by (auto simp: mac_input_def)
  show "mac_input KEY_DOMAIN xs \<noteq> mac_input CODE_DOMAIN ys"
    by (simp add: mac_input_def KEY_DOMAIN_def CODE_DOMAIN_def)
qed

text \<open>
  A code goes to exactly the recipients with a phone number in E.164 form: a leading \<open>+\<close>
  after trimming, then digits and the separators Meta accepts, not starting with 0 and at most
  15 digits; the digits without the separators are what the code is bound to and sent to.
\<close>

theorem phone_of_iff:
  "phone_of r = Inr digits \<longleftrightarrow>
     (\<exists>raw rest. (r = Phone raw \<or> (\<exists>user. r = PhoneAndUser raw user)) \<and> trim raw = ''+'' @ rest
        \<and> {c. c \<in> set rest \<and> \<not> digit_char c} \<subseteq> set '' -()''
        \<and> digits = filter digit_char rest
        \<and> digits \<noteq> [] \<and> hd digits \<noteq> CHR ''0'' \<and> length digits \<le> 15)"
  by (cases r) (auto simp: phone_of_def phone_number_Inr E164_MAX_DIGITS_def phone_digits_Some)

text \<open>
  Codes have no bias: of the 256 values of a random byte, each decimal digit is appended by
  exactly 25, and the remaining 6 append nothing.
\<close>

theorem code_digits_uniform:
  assumes "length code < len" and "d < (10 :: nat)"
  shows "card {b. push_digits code len [b] = code @ [char_of (48 + d)]} = 25
    \<and> card {b. push_digits code len [b] = code} = 6"
proof
  have "{b. push_digits code len [b] = code @ [char_of (48 + d)]}
      = {b. (of_char b :: nat) \<in> {n \<in> {..<250 :: nat}. n mod 10 = d}}"
    using digit_char_inj[OF _ assms(2)] by (auto simp: push_one[OF assms(1)] simp del: push_digits.simps)
  moreover have "{n \<in> {..<250 :: nat}. n mod 10 = d} \<subseteq> {..<256}" by auto
  ultimately show "card {b. push_digits code len [b] = code @ [char_of (48 + d)]} = 25"
    using residue_count[OF assms(2)] card_bytes[of "{n \<in> {..<250 :: nat}. n mod 10 = d}"]
    by (simp del: push_digits.simps)
  have "{b. push_digits code len [b] = code} = {b. (of_char b :: nat) \<in> {250..<256}}"
    using of_char_lt by (auto simp: push_one[OF assms(1)] not_less simp del: push_digits.simps)
  moreover have "{250..<256} \<subseteq> {..<256 :: nat}" by auto
  ultimately show "card {b. push_digits code len [b] = code} = 6"
    using card_bytes[of "{250..<256}"] by (simp del: push_digits.simps)
qed

theorem code_digits_uniform_witness:
  "card {b. push_digits ''12'' 6 [b] = ''12'' @ [char_of (48 + 7 :: nat)]} = 25
   \<and> card {b. push_digits ''12'' 6 [b] = ''12''} = 6"
  by (rule code_digits_uniform) simp_all

theorem otp_inputs_never_collide_witness:
  "mac_input KEY_DOMAIN [otp_scope ''1'' ''2'', ''491'', ''login'']
     \<noteq> mac_input KEY_DOMAIN [otp_scope ''1'' ''23'', ''491'', ''login'']"
proof -
  have p: "phone_of (Phone ''+49 1'') = Inr ''491''"
    unfolding phone_of_iff
    by (intro exI[of _ "''+49 1''"] exI[of _ "''49 1''"])
      (auto simp: digit_char_def trim_def white_space_def)
  show ?thesis
    using otp_inputs_never_collide[OF p p, of "replicate 32 CHR ''x''" "replicate 32 CHR ''x''"
        "''1''" "''2''" "''login''" "''1''" "''23''" "''login''"] by simp
qed

text \<open>
  Drawing a code ends, and ends well: with a generator whose buffers each hold at least one
  usable byte, as many rounds as the code has digits are enough, and the code has exactly the
  configured number of decimal digits.
\<close>

theorem random_code_returns:
  assumes "\<forall>w. \<exists>bytes. fst (fst (ext (RandomBytes 32) w)) = Some bytes
      \<and> {b \<in> set bytes. (of_char b :: nat) < 250} \<noteq> {}"
    and "len \<le> fuel"
  shows "\<exists>code s' w'. exec port clk ext (random_code fuel len []) s w = (Some (Inr code), s', w')
     \<and> length code = len \<and> set code \<subseteq> {c. digit_char c}"
proof -
  have "\<exists>code' s' w'. exec port clk ext (random_code fuel len code) s w = (Some (Inr code'), s', w')"
    if "len \<le> length code + fuel" for code s w
    using that
  proof (induction fuel arbitrary: code s w)
    case (Suc fuel)
    obtain bytes where b: "fst (fst (ext (RandomBytes 32) w)) = Some bytes"
        "\<exists>b \<in> set bytes. (of_char b :: nat) < 250"
      using assms(1) by blast
    show ?case
    proof (cases "length code < len")
      case True
      have "len \<le> length (push_digits code len bytes) + fuel"
        using push_digits_grows[OF True b(2)] Suc.prems by simp
      from Suc.IH[OF this] show ?thesis using True b(1) by (simp add: random_bytes_def Let_def)
    qed simp
  qed simp
  then obtain code s' w' where x:
      "exec port clk ext (random_code fuel len []) s w = (Some (Inr code), s', w')"
    using assms(2) by (metis add_0 list.size(3))
  show ?thesis using x random_code_shape[OF x] by auto
qed

definition demo_ext :: "otp_request \<Rightarrow> time \<times> otp_message list \<Rightarrow> otp_reply \<times> (time \<times> otp_message list)" where
  "demo_ext x w = (case x of
       RandomBytes n \<Rightarrow> ((Some (replicate n CHR 0x07), Inr []), w)
     | SendMessage m \<Rightarrow> ((None, Inr [''wamid.1'']), (fst w, m # snd w)))"

theorem random_code_returns_witness:
  "\<exists>code s' w'. exec memory_kv fst demo_ext (random_code 6 6 []) (empty_state :: string kv_state) (0, [])
       = (Some (Inr code), s', w') \<and> length code = 6 \<and> set code \<subseteq> {c. digit_char c}"
  by (rule random_code_returns) (auto simp: demo_ext_def)

text \<open>
  The settings accepted: codes of 4 to 8 digits, a lifetime that is not zero and at most 90
  minutes, at least one attempt, a limit (if any) that allows at least one code in a window that
  is not zero, and a namespace that is not blank, not padded and without control or format
  characters.
\<close>

theorem otp_config_accepted_iff:
  "otp_validate odd_chars c = Inr () \<longleftrightarrow>
     oc_code_length c \<in> {4..8} \<and> oc_ttl c \<in> {1..mins 90} \<and> oc_max_attempts c \<ge> 1
     \<and> oc_issue_limit c \<notin> Some ` {l. il_max_issues l = 0 \<or> il_window l = 0}
     \<and> oc_namespace c \<noteq> [] \<and> trim (oc_namespace c) = oc_namespace c
     \<and> \<not> odd_chars (oc_namespace c)"
  by (cases "oc_issue_limit c") (auto simp: otp_validate_def Let_def)

end
