(* ===== verification/Otp_Verify.thy ===== *)
theory Otp_Verify
  imports Otp
begin

text \<open>
  What issuing and verifying do to a store when nothing else runs: every outcome of a
  verification, that the code sent verifies once and only once, and what a failed send leaves.
\<close>

text \<open>The record of a new challenge, and how long the store keeps it.\<close>

definition new_challenge ::
  "'v otp_env \<Rightarrow> otp_service \<Rightarrow> string \<Rightarrow> time \<Rightarrow> string \<Rightarrow> string \<Rightarrow> stored_challenge" where
  "new_challenge env svc key now cid code =
     \<lparr>sc_id = cid, sc_mac = hex_encode (code_mac env svc key cid code), sc_attempts = 0,
      sc_expires_at = to_ms (plus_time now (oc_ttl (os_config svc))), sc_sent_at = to_ms now\<rparr>"

definition keep_challenge :: "otp_service \<Rightarrow> time \<Rightarrow> time" where
  "keep_challenge svc now =
     max (plus_time (plus_time now (oc_ttl (os_config svc))) (oc_ttl (os_config svc)))
         (plus_time now (oc_resend_cooldown (os_config svc)))"

context kv_store
begin

text \<open>The stored challenge under a key, as a reader at \<open>t\<close> decodes it.\<close>

definition challenge_at ::
  "('v, stored_challenge) codec \<Rightarrow> time \<Rightarrow> string \<Rightarrow> 's \<Rightarrow> stored_challenge \<Rightarrow> nat \<Rightarrow> time option \<Rightarrow> bool" where
  "challenge_at c t key s record version expires \<longleftrightarrow>
     (\<exists>x. kv_get port t (store_key_new OTP_NAMESPACE key) s
            = Some \<lparr>ver_value = x, ver_version = version, ver_expires_at = expires\<rparr>
        \<and> dec c x = Inr record)"

lemma exec_get_challenge:
  "challenge_at c (clk w) key s record version expires \<Longrightarrow>
     exec port clk ext (js_get c OTP_NAMESPACE key) s w = (Inr (Some (record, version, expires)), s, w)"
  by (auto simp: challenge_at_def js_get_def Let_def)

lemma exec_js_get_state: "snd (exec port clk ext (js_get c ns key) s w) = (s, w)"
  by (simp add: js_get_def Let_def split: option.splits sum.splits)

lemma exec_get_none:
  "kv_get port (clk w) (store_key_new ns key) s = None \<Longrightarrow>
     exec port clk ext (js_get c ns key) s w = (Inr None, s, w)"
  by (simp add: js_get_def Let_def)

lemma put_challenge:
  assumes i: "inv s" and e: "enc c record = Inr y" "dec c y = Inr record"
    and p: "kv_put port t (store_key_new OTP_NAMESPACE key) y ex s = (v, s')" and t: "t \<le> t'"
    and a: "alive t' (resolve_expiry ex t (kv_get port t (store_key_new OTP_NAMESPACE key) s))"
  shows "challenge_at c t' key s' record v
    (resolve_expiry ex t (kv_get port t (store_key_new OTP_NAMESPACE key) s))"
  using put_get_same[OF i p t] e(2) a by (auto simp: challenge_at_def visible_def)

text \<open>From an instant on, every key but one reads as before.\<close>

definition others_kept :: "time \<Rightarrow> store_key \<Rightarrow> 's \<Rightarrow> 's \<Rightarrow> bool" where
  "others_kept t K s s' \<longleftrightarrow> (\<forall>k t'. k \<noteq> K \<longrightarrow> t \<le> t' \<longrightarrow> kv_get port t' k s' = kv_get port t' k s)"

lemma others_kept_refl [simp]: "others_kept t K s s"
  by (simp add: others_kept_def)

lemma others_kept_trans: "others_kept t K s s' \<Longrightarrow> others_kept t K s' s'' \<Longrightarrow> others_kept t K s s''"
  by (simp add: others_kept_def)

lemma others_kept_put: "inv s \<Longrightarrow> kv_put port t K x e s = (v, s') \<Longrightarrow> others_kept t K s s'"
  by (simp add: others_kept_def put_get_other)

lemma others_kept_delete: "inv s \<Longrightarrow> others_kept t K s (snd (kv_delete port t K s))"
  by (simp add: others_kept_def delete_get)

text \<open>The successful swap of a challenge, and of its deletion.\<close>

lemma exec_swap_challenge:
  assumes i: "inv s" and g: "good_codec c"
    and at: "challenge_at c (clk w) key s record version expires"
  shows "\<exists>v s'. exec port clk ext (js_compare_and_swap c OTP_NAMESPACE key version (Some record') Keep) s w
      = (Inr (Some v), s', w) \<and> inv s' \<and> challenge_at c (clk w) key s' record' v expires
      \<and> others_kept (clk w) (store_key_new OTP_NAMESPACE key) s s'"
proof -
  let ?K = "store_key_new OTP_NAMESPACE key"
  obtain x where x: "kv_get port (clk w) ?K s
      = Some \<lparr>ver_value = x, ver_version = version, ver_expires_at = expires\<rparr>"
    using at by (auto simp: challenge_at_def)
  obtain y where y: "enc c record' = Inr y" "dec c y = Inr record'" using g by (rule good_codecD)
  obtain v s' where p: "kv_put port (clk w) ?K y Keep s = (v, s')" by fastforce
  have al: "alive (clk w) (resolve_expiry Keep (clk w) (kv_get port (clk w) ?K s))"
    using get_alive[OF i x] x by (simp add: resolve_expiry_def)
  have "challenge_at c (clk w) key s' record' v expires"
    using put_challenge[OF i y p order_refl al] x by (simp add: resolve_expiry_def)
  then show ?thesis
    using y p x cas_replace[OF i x] put_version[OF i p] others_kept_put[OF i p]
    by (auto simp: js_compare_and_swap_def js_encode_def Let_def)
qed

lemma exec_drop_challenge:
  assumes i: "inv s" and at: "challenge_at c (clk w) key s record version expires"
  shows "\<exists>s'. exec port clk ext (js_compare_and_swap c OTP_NAMESPACE key version None Keep) s w
      = (Inr (Some 0), s', w) \<and> inv s'
      \<and> (\<forall>t \<ge> clk w. kv_get port t (store_key_new OTP_NAMESPACE key) s' = None)
      \<and> others_kept (clk w) (store_key_new OTP_NAMESPACE key) s s'"
proof -
  let ?K = "store_key_new OTP_NAMESPACE key"
  obtain x where x: "kv_get port (clk w) ?K s
      = Some \<lparr>ver_value = x, ver_version = version, ver_expires_at = expires\<rparr>"
    using at by (auto simp: challenge_at_def)
  then show ?thesis
    using cas_delete[OF i x] delete_state[OF i] delete_get[OF i] others_kept_delete[OF i]
    by (auto simp: js_compare_and_swap_def Let_def)
qed

text \<open>A verification of a stored challenge, nothing else running.\<close>

lemma verify_rounds_alone:
  assumes i: "inv s" and g: "good_codec (oe_challenge_codec env)"
    and at: "challenge_at (oe_challenge_codec env) (clk w) key s record version expires"
  shows "\<exists>out s'. exec port clk ext (verify_rounds (Suc n) env svc key code) s w = (out, s', w) \<and> inv s'
    \<and> others_kept (clk w) (store_key_new OTP_NAMESPACE key) s s' \<and>
    (if clk w \<ge> from_ms (sc_expires_at record) then out = Inr Expired \<and> s' = s
     else if sc_attempts record \<ge> oc_max_attempts (os_config svc)
       then out = Inr TooManyAttempts \<and> s' = s
     else case hex_decode (sc_mac record) of
            None \<Rightarrow> out = Inl (malformed_hash key)
                \<and> (\<exists>v. challenge_at (oe_challenge_codec env) (clk w) key s'
                     (record\<lparr>sc_attempts := sc_attempts record + 1\<rparr>) v expires)
          | Some expected \<Rightarrow>
              if code_mac env svc key (sc_id record) code = expected
              then out = Inr Verified
                \<and> (\<forall>t \<ge> clk w. kv_get port t (store_key_new OTP_NAMESPACE key) s' = None)
              else out = Inr (Invalid (oc_max_attempts (os_config svc) - (sc_attempts record + 1)))
                \<and> (\<exists>v. challenge_at (oe_challenge_codec env) (clk w) key s'
                     (record\<lparr>sc_attempts := sc_attempts record + 1\<rparr>) v expires))"
proof -
  let ?c = "oe_challenge_codec env"
  let ?r = "record\<lparr>sc_attempts := sc_attempts record + 1\<rparr>"
  have get: "exec port clk ext (js_get ?c OTP_NAMESPACE key) s w = (Inr (Some (record, version, expires)), s, w)"
    by (rule exec_get_challenge[where clk = clk, OF at])
  show ?thesis
  proof (cases "clk w \<ge> from_ms (sc_expires_at record) \<or> sc_attempts record \<ge> oc_max_attempts (os_config svc)")
    case True
    then show ?thesis using get i by auto
  next
    case False
    obtain v s1 where swap: "exec port clk ext
        (js_compare_and_swap ?c OTP_NAMESPACE key version (Some ?r) Keep) s w = (Inr (Some v), s1, w)"
      and s1: "inv s1" "challenge_at ?c (clk w) key s1 ?r v expires"
        "others_kept (clk w) (store_key_new OTP_NAMESPACE key) s s1"
      using exec_swap_challenge[where clk = clk and ext = ext, OF i g at] by blast
    obtain s2 where drop: "exec port clk ext
        (js_compare_and_swap ?c OTP_NAMESPACE key v None Keep) s1 w = (Inr (Some 0), s2, w)"
      and s2: "inv s2" "\<forall>t \<ge> clk w. kv_get port t (store_key_new OTP_NAMESPACE key) s2 = None"
        "others_kept (clk w) (store_key_new OTP_NAMESPACE key) s1 s2"
      using exec_drop_challenge[where clk = clk and ext = ext, OF s1(1,2)] by blast
    note others = s1(3) others_kept_trans[OF s1(3) s2(3)]
    obtain m where m: "cas_budget svc = Suc m"
      by (metis cas_budget_def add_gr_0 gr0_implies_Suc zero_less_numeral)
    have con: "exec port clk ext (consume_rounds (cas_budget svc) env key (sc_id record) v) s1 w
        = (Inr Verified, s2, w)"
      unfolding m using drop by simp
    show ?thesis
    proof (cases "hex_decode (sc_mac record)")
      case None
      then show ?thesis using False get swap s1 by (simp add: Let_def) blast
    next
      case (Some expected)
      then show ?thesis
        using False get swap con s1 s2(1,2) others
        by (cases "code_mac env svc key (sc_id record) code = expected") (simp_all add: Let_def, blast+)
    qed
  qed
qed


lemma verify_rounds_none:
  "kv_get port (clk w) (store_key_new OTP_NAMESPACE key) s = None \<Longrightarrow>
     exec port clk ext (verify_rounds (Suc n) env svc key code) s w = (Inr NotFound, s, w)"
  by (simp add: exec_get_none)

lemma verify_budget_none:
  "kv_get port (clk w) (store_key_new OTP_NAMESPACE key) s = None \<Longrightarrow>
     exec port clk ext (verify_rounds (cas_budget svc) env svc key code) s w = (Inr NotFound, s, w)"
  using verify_rounds_none by (metis cas_budget_def add_gr_0 gr0_implies_Suc zero_less_numeral)

text \<open>A record that does not decode ends the verification at once.\<close>

lemma verify_budget_corrupt:
  assumes "kv_get port (clk w) (store_key_new OTP_NAMESPACE key) s = Some x"
    and "dec (oe_challenge_codec env) (ver_value x) = Inl source"
  shows "exec port clk ext (verify_rounds (cas_budget svc) env svc key code) s w
    = (Inl (Storage (Corrupt (store_key_display (store_key_new OTP_NAMESPACE key)) source)), s, w)"
proof -
  obtain n where n: "cas_budget svc = Suc n"
    by (metis cas_budget_def add_gr_0 gr0_implies_Suc zero_less_numeral)
  have "exec port clk ext (js_get (oe_challenge_codec env) OTP_NAMESPACE key) s w
      = (Inl (Corrupt (store_key_display (store_key_new OTP_NAMESPACE key)) source), s, w)"
    using assms by (simp add: js_get_def Let_def)
  then show ?thesis unfolding n by simp
qed

lemma remove_rounds_alone:
  assumes i: "inv s" and at: "challenge_at (oe_challenge_codec env) (clk w) key s record version expires"
  shows "\<exists>s'. exec port clk ext (remove_rounds (Suc n) env key (sc_id record)) s w = (Inr True, s', w)
     \<and> inv s' \<and> (\<forall>t \<ge> clk w. kv_get port t (store_key_new OTP_NAMESPACE key) s' = None)"
proof -
  obtain s1 where drop: "exec port clk ext
      (js_compare_and_swap (oe_challenge_codec env) OTP_NAMESPACE key version None Keep) s w
      = (Inr (Some 0), s1, w)"
    and s1: "inv s1" "\<forall>t \<ge> clk w. kv_get port t (store_key_new OTP_NAMESPACE key) s1 = None"
    using exec_drop_challenge[where clk = clk and ext = ext, OF i at] by blast
  then show ?thesis using exec_get_challenge[where clk = clk and ext = ext, OF at] by simp
qed

text \<open>A new challenge, once written, is what a reader finds until the record's lifetime is over.\<close>

definition stored_until ::
  "('v, stored_challenge) codec \<Rightarrow> string \<Rightarrow> stored_challenge \<Rightarrow> time \<Rightarrow> time \<Rightarrow> 's \<Rightarrow> bool" where
  "stored_until c key record t0 keep s \<longleftrightarrow>
     (\<forall>t. t0 \<le> t \<longrightarrow> t < keep \<longrightarrow> (\<exists>v. challenge_at c t key s record v (Some keep)))"

lemma put_stored:
  assumes i: "inv s" and e: "enc c record = Inr y" "dec c y = Inr record"
    and p: "kv_put port t (store_key_new OTP_NAMESPACE key) y (At keep) s = (v, s')"
  shows "inv s' \<and> stored_until c key record t keep s'"
proof -
  have "challenge_at c t' key s' record v (Some keep)" if "t \<le> t'" "t' < keep" for t'
    using put_challenge[OF i e p that(1)] that(2) by (simp add: resolve_expiry_def alive_def)
  then show ?thesis using put_version[OF i p] by (auto simp: stored_until_def)
qed

lemma store_rounds_stored:
  assumes g: "good_codec (oe_challenge_codec env)"
  shows "inv s \<Longrightarrow> exec port clk ext (store_rounds n env svc key record keep now existing) s w
      = (Inr None, s', w') \<Longrightarrow>
     w' = w \<and> inv s' \<and> stored_until (oe_challenge_codec env) key record (clk w) keep s'"
proof (induction n arbitrary: s existing)
  case (Suc n)
  let ?c = "oe_challenge_codec env" and ?K = "store_key_new OTP_NAMESPACE key"
  let ?ex = "exec port clk ext"
  obtain y where y: "enc ?c record = Inr y" "dec ?c y = Inr record" using g by (rule good_codecD)
  define wr :: "('v, storage_error + nat option) otp_prog" where "wr = (case existing of
         Some (_, version, _) \<Rightarrow> js_compare_and_swap ?c OTP_NAMESPACE key version (Some record) (At keep)
       | None \<Rightarrow> js_put_if_absent ?c OTP_NAMESPACE key record (At keep))"
  obtain r s1 where w1: "?ex wr s w = (Inr r, s1, w)"
      and c1: "r = None \<and> s1 = s \<or> (\<exists>v. r = Some v \<and> kv_put port (clk w) ?K y (At keep) s = (v, s1))"
  proof (cases existing)
    case None
    obtain r s1 where p: "kv_put_if_absent port (clk w) ?K y (At keep) s = (r, s1)" by fastforce
    show ?thesis
      using that[of r s1] put_if_absent_cases[OF Suc.prems(1) p] p None y
      by (auto simp: wr_def js_put_if_absent_def js_encode_def Let_def)
  next
    case (Some f)
    obtain rec ver ex where f: "f = (rec, ver, ex)" by (metis prod_cases3)
    obtain r s1 where p: "kv_compare_and_swap port (clk w) ?K ver (Some y) (At keep) s = (r, s1)"
      by fastforce
    show ?thesis
      using that[of r s1] cas_cases[OF Suc.prems(1) p] p Some f y
      by (auto simp: wr_def js_compare_and_swap_def js_encode_def Let_def)
  qed
  show ?case
  proof (cases r)
    case None
    then have s1: "s1 = s" using c1 by simp
    obtain gr where get: "?ex (js_get ?c OTP_NAMESPACE key) s w = (gr, s, w)"
      using exec_js_get_state[where clk = clk and ext = ext and w = w] by (metis prod.collapse)
    from Suc.prems(2) w1 None s1 get obtain existing' where
        "?ex (store_rounds n env svc key record keep now existing') s w = (Inr None, s', w')"
      by (auto simp: wr_def[symmetric] split: sum.splits option.splits)
    from Suc.IH[OF Suc.prems(1) this] show ?thesis .
  next
    case (Some v)
    then have "s' = s1" "w' = w" using Suc.prems(2) w1 by (simp_all add: wr_def[symmetric])
    then show ?thesis using c1 Some put_stored[OF Suc.prems(1) y] by auto
  qed
qed simp


lemma store_rounds_free:
  assumes i: "inv s" and g: "good_codec (oe_challenge_codec env)"
    and free: "kv_get port (clk w) (store_key_new OTP_NAMESPACE key) s = None"
  obtains s1 where "inv s1" "stored_until (oe_challenge_codec env) key record (clk w) keep s1"
    "exec port clk ext (store_rounds (cas_budget svc) env svc key record keep now None) s w
       = (Inr None, s1, w)"
proof -
  let ?c = "oe_challenge_codec env" and ?K = "store_key_new OTP_NAMESPACE key"
  obtain y where y: "enc ?c record = Inr y" "dec ?c y = Inr record" using g by (rule good_codecD)
  obtain v s1 where p: "kv_put port (clk w) ?K y (At keep) s = (v, s1)" by fastforce
  have s1: "inv s1 \<and> stored_until ?c key record (clk w) keep s1" by (rule put_stored[OF i y p])
  obtain m where m: "cas_budget svc = Suc m"
    by (metis cas_budget_def add_gr_0 gr0_implies_Suc zero_less_numeral)
  have "exec port clk ext (store_rounds (cas_budget svc) env svc key record keep now None) s w
      = (Inr None, s1, w)"
    unfolding m using p y put_if_absent_free[OF i free, of y "At keep"]
    by (simp add: js_put_if_absent_def js_encode_def Let_def)
  then show ?thesis using s1 that by blast
qed

lemma issue_accepted:
  assumes i: "inv s" and g: "good_codec (oe_challenge_codec env)"
    and free: "kv_get port (clk w) (store_key_new OTP_NAMESPACE key) s = None"
    and ok: "ext (SendMessage \<lparr>om_to = e164 digits, om_template = os_template svc,
        om_code = code, om_messaging_account = os_messaging_account_id svc\<rparr>) w
        = ((drawn, Inr (mid # mids)), w1)"
  shows "\<exists>s1. exec port clk ext (issue_drawn env svc digits key now None cid code) s w =
    (Inr (Sent \<lparr>ch_id = cid, ch_expires_at = from_ms (to_ms (plus_time now (oc_ttl (os_config svc)))),
            ch_message_id = mid\<rparr>), s1, w1)"
proof -
  obtain s1 where "exec port clk ext (store_rounds (cas_budget svc) env svc key
      (new_challenge env svc key now cid code) (keep_challenge svc now) now None) s w = (Inr None, s1, w)"
    using store_rounds_free[where clk = clk and ext = ext, OF i g free] by blast
  then show ?thesis
    using ok by (simp add: issue_drawn_def new_challenge_def keep_challenge_def send_code_def Let_def)
qed

text \<open>What is left of an issue once its id and code are drawn and its send is refused.\<close>

lemma issue_refused:
  assumes i: "inv s" and g: "good_codec (oe_challenge_codec env)"
    and free: "kv_get port (clk w) (store_key_new OTP_NAMESPACE key) s = None"
    and refused: "snd (fst (ext (SendMessage \<lparr>om_to = e164 digits, om_template = os_template svc,
        om_code = code, om_messaging_account = os_messaging_account_id svc\<rparr>) w)) = Inl err"
    and w1: "w1 = snd (ext (SendMessage \<lparr>om_to = e164 digits, om_template = os_template svc,
        om_code = code, om_messaging_account = os_messaging_account_id svc\<rparr>) w)"
    and t: "clk w \<le> clk w1"
  obtains s1 v where "inv s1"
    "stored_until (oe_challenge_codec env) key (new_challenge env svc key now cid code) (clk w)
       (keep_challenge svc now) s1"
    "exec port clk ext (issue_drawn env svc digits key now None cid code) s w =
       (if may_have_been_sent err then (Inl err, s1, w1)
        else let r = exec port clk ext (remove_challenge env svc key cid) s1 w1
             in (Inl err, fst (snd r), snd (snd r)))"
proof -
  obtain s1 where s1: "inv s1"
      "stored_until (oe_challenge_codec env) key (new_challenge env svc key now cid code) (clk w)
         (keep_challenge svc now) s1"
      "exec port clk ext (store_rounds (cas_budget svc) env svc key
         (new_challenge env svc key now cid code) (keep_challenge svc now) now None) s w = (Inr None, s1, w)"
    using store_rounds_free[where clk = clk and ext = ext, OF i g free] by blast
  show ?thesis
    using that[of s1] s1 refused
    by (simp add: issue_drawn_def new_challenge_def keep_challenge_def send_code_def w1 Let_def split_def)
qed


lemma issue_sent:
  assumes i: "inv s" and mono: "\<And>x w. clk w \<le> clk (snd (ext x w))"
    and x: "exec port clk ext (otp_issue fuel env svc recipient purpose) s w
        = (Some (Inr (Sent ch)), s1, w1)"
  obtains digits key existing cid code s0 w0 where
    "phone_of recipient = Inr digits" "otp_key env svc digits purpose = Inr key"
    "length code = oc_code_length (os_config svc)" "set code \<subseteq> {c. digit_char c}"
    "inv s0" "clk w \<le> clk w0"
    "exec port clk ext (issue_drawn env svc digits key (clk w) existing cid code) s0 w0
       = (Inr (Sent ch), s1, w1)"
proof -
  let ?ex = "exec port clk ext"
  obtain digits where ph: "phone_of recipient = Inr digits"
    using x by (cases "phone_of recipient") (auto simp: otp_issue_def)
  obtain key where key: "otp_key env svc digits purpose = Inr key"
    using x ph by (cases "otp_key env svc digits purpose") (auto simp: otp_issue_def)
  obtain gr where get: "exec port clk ext (js_get (oe_challenge_codec env) OTP_NAMESPACE key) s w = (gr, s, w)"
    using exec_js_get_state[where clk = clk and ext = ext and w = w] by (metis prod.collapse)
  obtain existing where gr: "gr = Inr existing"
    using x ph key get by (cases gr) (auto simp: otp_issue_def)
  have cool: "cooling_down svc existing (clk w) = None"
    using x ph key get gr by (cases "cooling_down svc existing (clk w)") (auto simp: otp_issue_def)
  define lim :: "('v, error + duration option) otp_prog" where
    "lim = (case oc_issue_limit (os_config svc) of None \<Rightarrow> Ret (Inr None)
       | Some limit \<Rightarrow> reserve_issue env svc key limit (clk w))"
  obtain lr sa wa where l: "?ex lim s w = (lr, sa, wa)" by (metis prod_cases3)
  note x' = x[unfolded otp_issue_def ph sum.case key, simplified, unfolded get gr, simplified,
      unfolded cool, simplified, folded lim_def, unfolded l, simplified]
  have lr: "lr = Inr None"
    using x' by (cases lr) (auto split: option.splits)
  obtain ir sb wb where ir: "?ex (random_bytes 16) sa wa = (ir, sb, wb)" by (metis prod_cases3)
  obtain idb where idb: "ir = Inr idb" using x' lr ir by (cases ir) auto
  obtain cr sc wc where cr: "?ex (random_code fuel (oc_code_length (os_config svc)) []) sb wb = (cr, sc, wc)"
    by (metis prod_cases3)
  obtain code where code: "cr = Some (Inr code)"
    using x' lr ir idb cr by (cases cr) (auto split: sum.splits)
  have d: "?ex (issue_drawn env svc digits key (clk w) existing (hex_encode idb) code) sc wc
      = (Inr (Sent ch), s1, w1)"
    using x' lr ir idb cr code by (auto split: prod.splits)
  have "inv sc" using exec_inv[OF exec_inv[OF exec_inv[OF i l] ir] cr] .
  moreover have "clk w \<le> clk wc"
    using exec_clock[where clk = clk and ext = ext, OF mono l] exec_clock[where clk = clk and ext = ext, OF mono ir]
      exec_clock[where clk = clk and ext = ext, OF mono cr] by linarith
  ultimately show ?thesis
    using that[OF ph key _ _ _ _ d] random_code_shape[OF cr[unfolded code]] by auto
qed

lemma drawn_sent:
  assumes i: "inv s" and g: "good_codec (oe_challenge_codec env)"
    and mono: "\<And>x w. clk w \<le> clk (snd (ext x w))"
    and d: "exec port clk ext (issue_drawn env svc digits key now existing cid code) s w
        = (Inr (Sent ch), s1, w1)"
  shows "inv s1 \<and> clk w \<le> clk w1
    \<and> stored_until (oe_challenge_codec env) key (new_challenge env svc key now cid code) (clk w)
        (keep_challenge svc now) s1
    \<and> ch_expires_at ch = from_ms (to_ms (plus_time now (oc_ttl (os_config svc))))
    \<and> w1 = snd (ext (SendMessage \<lparr>om_to = e164 digits, om_template = os_template svc,
        om_code = code, om_messaging_account = os_messaging_account_id svc\<rparr>) w)"
proof -
  let ?st = "store_rounds (cas_budget svc) env svc key (new_challenge env svc key now cid code)
      (keep_challenge svc now) now existing"
  obtain r sa wa where st: "exec port clk ext ?st s w = (r, sa, wa)" by (metis prod_cases3)
  note d' = d[unfolded issue_drawn_def Let_def, folded new_challenge_def keep_challenge_def, simplified,
      unfolded st, simplified]
  have r: "r = Inr None"
    using d' by (cases r) (auto split: option.splits)
  note sa = store_rounds_stored[OF g i st[unfolded r]]
  have "sa = s1 \<and> ch_expires_at ch = from_ms (to_ms (plus_time now (oc_ttl (os_config svc))))
    \<and> w1 = snd (ext (SendMessage \<lparr>om_to = e164 digits, om_template = os_template svc,
        om_code = code, om_messaging_account = os_messaging_account_id svc\<rparr>) w)"
    using d' r sa
    by (auto simp: send_code_def new_challenge_def Let_def split: sum.splits list.splits if_splits prod.splits)
  then show ?thesis using sa mono by auto
qed

end

section \<open>Expiry arithmetic\<close>

lemma plus_time_in_range: "in_range t \<Longrightarrow> in_range (plus_time t d) \<and> t \<le> plus_time t d"
  by (auto simp: plus_time_def time_checked_add_def signed_duration_def in_range_def
      datetime_min_def datetime_max_def split: option.splits if_splits)

lemma from_ms_to_ms: "0 \<le> t \<Longrightarrow> in_range t \<Longrightarrow> from_ms (to_ms t) \<le> t \<and> t - 1000000 < from_ms (to_ms t)"
proof -
  assume t: "0 \<le> t" "in_range t"
  then have b: "t div 1000000 \<le> I64_MAX"
    using zdiv_mono1[of t datetime_max 1000000] by (simp add: I64_MAX_def in_range_def datetime_max_def)
  have m: "(t div 1000000) * 1000000 = t - t mod 1000000"
    by (simp add: minus_mod_eq_div_mult)
  have "0 \<le> t mod 1000000" "t mod 1000000 < 1000000" by simp_all
  then have "in_range ((t div 1000000) * 1000000)"
    using t m by (auto simp: in_range_def datetime_min_def)
  moreover have "I64_MIN \<le> t div 1000000" using t(1) by (simp add: I64_MIN_def pos_imp_zdiv_nonneg_iff order_trans[of _ 0])
  ultimately show "from_ms (to_ms t) \<le> t \<and> t - 1000000 < from_ms (to_ms t)"
    using t(1) b m \<open>0 \<le> t mod 1000000\<close> \<open>t mod 1000000 < 1000000\<close>
    by (simp add: from_ms_def to_ms_def Let_def)
qed

lemma expires_before_keep:
  assumes "0 \<le> now" "in_range now"
  shows "from_ms (to_ms (plus_time now (oc_ttl (os_config svc)))) \<le> keep_challenge svc now"
proof -
  let ?e = "plus_time now (oc_ttl (os_config svc))"
  have e: "in_range ?e" "now \<le> ?e" using plus_time_in_range[OF assms(2)] by auto
  then have "from_ms (to_ms ?e) \<le> ?e" using from_ms_to_ms assms(1) by simp
  moreover have "?e \<le> plus_time ?e (oc_ttl (os_config svc))" using plus_time_in_range[OF e(1)] by simp
  ultimately show ?thesis by (simp add: keep_challenge_def)
qed

context kv_store
begin

text \<open>A stored new challenge verifies with its code, and is gone after.\<close>

lemma new_challenge_verifies:
  assumes i: "inv s" and g: "good_codec (oe_challenge_codec env)"
    and st: "stored_until (oe_challenge_codec env) key (new_challenge env svc key now cid code) t0
        (keep_challenge svc now) s"
    and t: "t0 \<le> clk w" "0 \<le> now" "in_range now"
      "clk w < from_ms (to_ms (plus_time now (oc_ttl (os_config svc))))"
    and m: "0 < oc_max_attempts (os_config svc)"
  shows "\<exists>s'. exec port clk ext (verify_rounds (cas_budget svc) env svc key code) s w = (Inr Verified, s', w)
     \<and> inv s' \<and> (\<forall>t \<ge> clk w. kv_get port t (store_key_new OTP_NAMESPACE key) s' = None)"
proof -
  let ?r = "new_challenge env svc key now cid code"
  have "clk w < keep_challenge svc now" using t expires_before_keep by (meson less_le_trans)
  then obtain v where at: "challenge_at (oe_challenge_codec env) (clk w) key s ?r v (Some (keep_challenge svc now))"
    using st t(1) by (auto simp: stored_until_def)
  have r: "hex_decode (sc_mac ?r) = Some (code_mac env svc key (sc_id ?r) code)"
      "sc_attempts ?r = 0" "sc_expires_at ?r = to_ms (plus_time now (oc_ttl (os_config svc)))"
    by (simp_all add: new_challenge_def)
  obtain n where n: "cas_budget svc = Suc n"
    by (metis cas_budget_def add_gr_0 gr0_implies_Suc zero_less_numeral)
  show ?thesis
    unfolding n
    using verify_rounds_alone[where clk = clk and ext = ext and n = n and svc = svc and code = code, OF i g at]
      r t(4) m by auto
qed

end

section \<open>Properties\<close>

text \<open>
  C9. Every outcome of a verification that nobody disturbs, and what it leaves in the store. A
  recipient or purpose that gives no key is the error, and no record under the key is \<open>NotFound\<close>;
  a record that does not decode is \<open>Corrupt\<close>; an expired challenge and one out of attempts are
  \<open>Expired\<close> and \<open>TooManyAttempts\<close>: in all of these the store is as it was. Otherwise the attempt
  is counted (the challenge kept with one attempt more and its lifetime unchanged) and then: a
  malformed hash is an error, a wrong code \<open>Invalid\<close> with the guesses left; the right code is
  \<open>Verified\<close> and the challenge is gone for good. No other key is ever touched.
\<close>

theorem verify_outcomes:
  assumes "kv_ok s" and "good_codec (oe_challenge_codec env)"
  shows "\<exists>out s'. exec memory_kv clk ext (otp_verify env svc recipient purpose code) s w = (out, s', w) \<and>
    (case phone_of recipient of
       Inl e \<Rightarrow> out = Inl e \<and> s' = s
     | Inr digits \<Rightarrow>
    (case otp_key env svc digits purpose of
       Inl e \<Rightarrow> out = Inl e \<and> s' = s
     | Inr key \<Rightarrow>
    kv_ok s' \<and> mem.others_kept (clk w) (store_key_new OTP_NAMESPACE key) s s' \<and>
    (case mem_get (clk w) (store_key_new OTP_NAMESPACE key) s of
       None \<Rightarrow> out = Inr NotFound \<and> s' = s
     | Some x \<Rightarrow>
    (case dec (oe_challenge_codec env) (ver_value x) of
       Inl source \<Rightarrow> s' = s \<and>
         out = Inl (Storage (Corrupt (store_key_display (store_key_new OTP_NAMESPACE key)) source))
     | Inr record \<Rightarrow>
    (if clk w \<ge> from_ms (sc_expires_at record) then out = Inr Expired \<and> s' = s
     else if sc_attempts record \<ge> oc_max_attempts (os_config svc)
       then out = Inr TooManyAttempts \<and> s' = s
     else case hex_decode (sc_mac record) of
            None \<Rightarrow> out = Inl (malformed_hash key)
                \<and> (\<exists>v. mem.challenge_at (oe_challenge_codec env) (clk w) key s'
                     (record\<lparr>sc_attempts := sc_attempts record + 1\<rparr>) v (ver_expires_at x))
          | Some expected \<Rightarrow>
              if code_mac env svc key (sc_id record) code = expected
              then out = Inr Verified
                \<and> (\<forall>t \<ge> clk w. mem_get t (store_key_new OTP_NAMESPACE key) s' = None)
              else out = Inr (Invalid (oc_max_attempts (os_config svc) - (sc_attempts record + 1)))
                \<and> (\<exists>v. mem.challenge_at (oe_challenge_codec env) (clk w) key s'
                     (record\<lparr>sc_attempts := sc_attempts record + 1\<rparr>) v (ver_expires_at x)))))))"
proof (cases "phone_of recipient")
  case (Inl e)
  then show ?thesis by (simp add: otp_verify_def)
next
  case phone: (Inr digits)
  show ?thesis
  proof (cases "otp_key env svc digits purpose")
    case (Inl e)
    then show ?thesis using phone by (simp add: otp_verify_def)
  next
    case key: (Inr key)
    obtain n where n: "cas_budget svc = Suc n"
      by (metis cas_budget_def add_gr_0 gr0_implies_Suc zero_less_numeral)
    have v: "otp_verify env svc recipient purpose code = verify_rounds (cas_budget svc) env svc key code"
      using phone key by (simp add: otp_verify_def)
    show ?thesis
    proof (cases "mem_get (clk w) (store_key_new OTP_NAMESPACE key) s")
      case None
      then show ?thesis
        using mem.verify_budget_none[where clk = clk and ext = ext and w = w] v phone key assms(1) by simp
    next
      case (Some x)
      show ?thesis
      proof (cases "dec (oe_challenge_codec env) (ver_value x)")
        case (Inl source)
        then show ?thesis
          using mem.verify_budget_corrupt[where clk = clk and ext = ext and w = w] v phone key assms(1) Some
          by simp
      next
        case (Inr stored)
        then have "mem.challenge_at (oe_challenge_codec env) (clk w) key s stored (ver_version x) (ver_expires_at x)"
          using Some by (auto simp: mem.challenge_at_def intro: exI[of _ "ver_value x"])
        from mem.verify_rounds_alone[where clk = clk and ext = ext and n = n and svc = svc and code = code,
            OF assms this]
        show ?thesis unfolding v n phone key sum.case Some option.case Inr memory_kv_sel by blast
      qed
    qed
  qed
qed

text \<open>
  C10. The code that was sent verifies once. When \<open>issue\<close> answers \<open>Sent\<close>, a code of the configured
  number of digits went to exactly \<open>+digits\<close> of the recipient; until the instant the challenge
  names, that code verifies; and from then on no code does, this one included.
\<close>

theorem issued_code_verifies_once:
  assumes "kv_ok s" and "good_codec (oe_challenge_codec env)"
    and "\<forall>x w. clk w \<le> clk (snd (ext x w))" and "0 \<le> clk w" and "in_range (clk w)"
    and "0 < oc_max_attempts (os_config svc)"
    and "exec memory_kv clk ext (otp_issue fuel env svc recipient purpose) s w
      = (Some (Inr (Sent ch)), s1, w1)"
    and "clk w1 \<le> clk w2" and "clk w2 < ch_expires_at ch" and "clk w2 \<le> clk w3"
  shows "\<exists>digits code w0 s2. phone_of recipient = Inr digits
     \<and> length code = oc_code_length (os_config svc) \<and> set code \<subseteq> {c. digit_char c}
     \<and> w1 = snd (ext (SendMessage \<lparr>om_to = e164 digits, om_template = os_template svc,
              om_code = code, om_messaging_account = os_messaging_account_id svc\<rparr>) w0)
     \<and> exec memory_kv clk ext (otp_verify env svc recipient purpose code) s1 w2 = (Inr Verified, s2, w2)
     \<and> exec memory_kv clk ext (otp_verify env svc recipient purpose code') s2 w3 = (Inr NotFound, s2, w3)"
proof -
  have mono: "\<And>x w. clk w \<le> clk (snd (ext x w))" using assms(3) by blast
  obtain digits key existing cid code s0 w0 where d:
    "phone_of recipient = Inr digits" "otp_key env svc digits purpose = Inr key"
    "length code = oc_code_length (os_config svc)" "set code \<subseteq> {c. digit_char c}"
    "kv_ok s0" "clk w \<le> clk w0"
    "exec memory_kv clk ext (issue_drawn env svc digits key (clk w) existing cid code) s0 w0
       = (Inr (Sent ch), s1, w1)"
    by (rule mem.issue_sent[where clk = clk and ext = ext, OF assms(1) mono assms(7)])
  note st = mem.drawn_sent[where clk = clk and ext = ext, OF d(5) assms(2) mono d(7)]
  have v: "otp_verify env svc recipient purpose c = verify_rounds (cas_budget svc) env svc key c" for c
    using d(1,2) by (simp add: otp_verify_def)
  have stored: "mem.stored_until (oe_challenge_codec env) key (new_challenge env svc key (clk w) cid code)
        (clk w0) (keep_challenge svc (clk w)) s1"
    and t: "clk w0 \<le> clk w2"
    and exp: "clk w2 < from_ms (to_ms (plus_time (clk w) (oc_ttl (os_config svc))))"
    using st assms(8,9) by auto
  obtain s2 where s2: "exec memory_kv clk ext (otp_verify env svc recipient purpose code) s1 w2
      = (Inr Verified, s2, w2)" "kv_ok s2"
      "\<forall>t \<ge> clk w2. kv_get memory_kv t (store_key_new OTP_NAMESPACE key) s2 = None"
    using mem.new_challenge_verifies[where clk = clk and ext = ext and w = w2, OF conjunct1[OF st] assms(2)
        stored t assms(4,5) exp assms(6)] v by auto
  have "exec memory_kv clk ext (otp_verify env svc recipient purpose code') s2 w3 = (Inr NotFound, s2, w3)"
    using mem.verify_budget_none[where clk = clk and ext = ext and w = w3 and s = s2] s2(3) assms(10) v by simp
  then show ?thesis using d(1,3,4) st s2(1) by blast
qed


section \<open>Concrete runs\<close>

definition demo_env :: "(stored_challenge + issue_log) otp_env" where
  "demo_env =
     \<lparr>oe_hmac = (\<lambda>key m. take 32 (rev m @ replicate 32 CHR ''0'')),
      oe_challenge_codec = \<lparr>enc = Inr \<circ> Inl, dec = (\<lambda>v. case v of Inl c \<Rightarrow> Inr c | Inr _ \<Rightarrow> Inl ''shape'')\<rparr>,
      oe_log_codec = \<lparr>enc = Inr \<circ> Inr, dec = (\<lambda>v. case v of Inr l \<Rightarrow> Inr l | Inl _ \<Rightarrow> Inl ''shape'')\<rparr>\<rparr>"

definition demo_service :: otp_service where
  "demo_service =
     \<lparr>os_phone_number_id = ''100'', os_scope = otp_scope ''100'' ''shop'',
      os_template = \<lparr>ot_name = ''code'', ot_language = ''en''\<rparr>, os_pepper = replicate 32 CHR ''p'',
      os_config = (otp_config_new ''shop'')\<lparr>oc_issue_limit := None\<rparr>, os_messaging_account_id = None\<rparr>"

lemma push_digits_full: "len \<le> length code \<Longrightarrow> push_digits code len bytes = code"
  by (cases bytes) auto

lemma random_code_full: "len \<le> length code \<Longrightarrow> random_code fuel len code = Ret (Some (Inr code))"
  by (cases fuel) auto

lemma random_code_round:
  assumes "length code < len" "exec port clk ext (random_bytes 32) s w = (Inr buf, s1, w1)"
    "length (push_digits code len buf) = len" "0 < fuel"
  shows "exec port clk ext (random_code fuel len code) s w
    = (Some (Inr (push_digits code len buf)), s1, w1)"
  using assms by (cases fuel) (auto simp: random_code_full)

lemma of_char_7: "of_char CHR ''7'' = (55 :: nat)"
  by simp

lemma demo_buffer: "push_digits [] 6 (replicate 32 CHR 0x07) = ''777777''"
proof -
  have "replicate 32 c = c # c # c # c # c # c # replicate 26 c" for c :: char
    by (simp add: numeral_eq_Suc)
  moreover have "char_of (55 :: nat) = CHR ''7''"
    by (metis char_of_char of_char_7)
  ultimately show ?thesis by (simp add: push_digits_full del: replicate.simps)
qed

lemma demo_codecs: "good_codec (oe_challenge_codec demo_env)" "good_codec (oe_log_codec demo_env)"
  by (simp_all add: demo_env_def good_codec_def)

lemma demo_phone: "phone_of (Phone ''+49 1'') = Inr ''491''"
  unfolding phone_of_def
  by (simp add: digit_char_def trim_def white_space_def strip_prefix_def E164_MAX_DIGITS_def)

definition demo_key :: string where
  "demo_key = hex_encode (otp_mac demo_env demo_service KEY_DOMAIN
     [os_scope demo_service, ''491'', ''login''])"

lemma demo_otp_key: "otp_key demo_env demo_service ''491'' ''login'' = Inr demo_key"
  by (simp add: otp_key_def demo_key_def)

lemma demo_expiry:
  "oc_max_attempts (os_config demo_service) = 5"
  "oc_code_length (os_config demo_service) = 6"
  "oc_issue_limit (os_config demo_service) = None"
  "from_ms (to_ms (plus_time 0 (oc_ttl (os_config demo_service)))) = 600000000000"
  "in_range 0"
  by (simp_all add: demo_service_def otp_config_new_def mins_def secs_def plus_time_def
      signed_duration_def time_checked_add_def in_range_def datetime_min_def datetime_max_def
      to_ms_def from_ms_def I64_MIN_def I64_MAX_def Let_def)

lemma demo_free: "mem_get t k (empty_state :: (stored_challenge + issue_log) kv_state) = None"
  by (simp add: mem_defs)

theorem verify_outcomes_witness:
  "\<exists>s v s' v'. mem.challenge_at (oe_challenge_codec demo_env) 1 demo_key s
       \<lparr>sc_id = ''id'', sc_mac = ''00'', sc_attempts = 2, sc_expires_at = 1000, sc_sent_at = 0\<rparr> v (Some 9000000)
     \<and> exec memory_kv (\<lambda>w. w) (\<lambda>x w. ((None, Inr []), w))
         (otp_verify demo_env demo_service (Phone ''+49 1'') ''login'' ''000000'') s 1
       = (Inr (Invalid 2), s', 1)
     \<and> mem.challenge_at (oe_challenge_codec demo_env) 1 demo_key s'
       \<lparr>sc_id = ''id'', sc_mac = ''00'', sc_attempts = 3, sc_expires_at = 1000, sc_sent_at = 0\<rparr> v' (Some 9000000)"
proof -
  let ?rec = "\<lparr>sc_id = ''id'', sc_mac = ''00'', sc_attempts = 2, sc_expires_at = 1000, sc_sent_at = 0\<rparr>"
  let ?K = "store_key_new OTP_NAMESPACE demo_key"
  obtain v s where p: "kv_put memory_kv 0 ?K (Inl ?rec) (At 9000000)
      (empty_state :: (stored_challenge + issue_log) kv_state) = (v, s)" by fastforce
  have s: "kv_ok s" using mem.put_version[OF kv_ok_empty p] by simp
  have at: "mem.challenge_at (oe_challenge_codec demo_env) 1 demo_key s ?rec v (Some 9000000)"
    using mem.put_challenge[OF kv_ok_empty _ _ p, of "oe_challenge_codec demo_env" ?rec 1]
    by (simp add: demo_env_def resolve_expiry_def alive_def)
  then obtain x where x: "mem_get 1 ?K s = Some \<lparr>ver_value = x, ver_version = v, ver_expires_at = Some 9000000\<rparr>"
      "dec (oe_challenge_codec demo_env) x = Inr ?rec" by (auto simp: mem.challenge_at_def)
  have h: "hex_decode ''00'' = Some [CHR 0x00]" by (simp add: hex_value_def Let_def char_of_def)
  have m: "code_mac demo_env demo_service demo_key ''id'' ''000000'' \<noteq> [CHR 0x00]"
    by (auto simp: code_mac_def otp_mac_def demo_env_def dest: arg_cong[of _ _ length])
  have e: "\<not> from_ms 1000 \<le> 1" by (simp add: from_ms_def in_range_def datetime_min_def datetime_max_def Let_def)
  from verify_outcomes[where clk = "\<lambda>w. w" and svc = demo_service and code = "''000000''" and w = 1
      and ext = "\<lambda>x w. ((None, Inr []), w)" and recipient = "Phone ''+49 1''" and purpose = "''login''",
      OF s demo_codecs(1)]
  show ?thesis using at x h m e by (auto simp: demo_phone demo_otp_key demo_expiry(1))
qed

theorem issued_code_verifies_once_witness:
  "\<exists>ch s1 w1. exec memory_kv fst demo_ext
       (otp_issue 6 demo_env demo_service (Phone ''+49 1'') ''login'') empty_state (0, [])
       = (Some (Inr (Sent ch)), s1, w1)
     \<and> (\<exists>code s2. exec memory_kv fst demo_ext (otp_verify demo_env demo_service (Phone ''+49 1'') ''login'' code)
          s1 (1, snd w1) = (Inr Verified, s2, (1, snd w1)))"
proof -
  let ?w = "(0 :: time, [] :: otp_message list)"
  have code: "exec memory_kv fst demo_ext (random_code 6 6 []) s ?w = (Some (Inr ''777777''), s, ?w)"
    for s :: "(stored_challenge + issue_log) kv_state"
    using random_code_round[of "[]" 6 memory_kv fst demo_ext s ?w "replicate 32 CHR 0x07" s ?w 6]
    by (simp add: random_bytes_def demo_ext_def demo_buffer)
  let ?cid = "hex_encode (replicate 16 CHR 0x07)"
  obtain w1 where ext: "demo_ext (SendMessage \<lparr>om_to = e164 ''491'', om_template = os_template demo_service,
        om_code = ''777777'', om_messaging_account = os_messaging_account_id demo_service\<rparr>) ?w
        = ((None, Inr [''wamid.1'']), w1)" "fst w1 = 0"
    by (simp add: demo_ext_def)
  obtain s1 where d: "exec memory_kv fst demo_ext (issue_drawn demo_env demo_service ''491'' demo_key 0 None
        ?cid ''777777'') empty_state ?w
      = (Inr (Sent \<lparr>ch_id = ?cid, ch_expires_at = 600000000000, ch_message_id = ''wamid.1''\<rparr>), s1, w1)"
    using mem.issue_accepted[where clk = fst and ext = demo_ext, OF kv_ok_empty demo_codecs(1) _ ext(1),
        of demo_key 0 ?cid] demo_free by (auto simp: demo_expiry)
  have "exec memory_kv fst demo_ext (js_get (oe_challenge_codec demo_env) OTP_NAMESPACE demo_key) empty_state ?w
      = (Inr None, empty_state, ?w)"
    using demo_free by (simp add: mem.exec_get_none)
  moreover have "exec memory_kv fst demo_ext (random_bytes 16) empty_state ?w
      = (Inr (replicate 16 CHR 0x07), empty_state :: (stored_challenge + issue_log) kv_state, ?w)"
    by (simp add: random_bytes_def demo_ext_def)
  ultimately have x: "exec memory_kv fst demo_ext
       (otp_issue 6 demo_env demo_service (Phone ''+49 1'') ''login'') empty_state ?w
       = (Some (Inr (Sent \<lparr>ch_id = ?cid, ch_expires_at = 600000000000, ch_message_id = ''wamid.1''\<rparr>)), s1, w1)"
    using code d by (simp add: otp_issue_def demo_phone demo_otp_key demo_expiry cooling_down_def)
  have mono: "\<forall>x w. fst w \<le> fst (snd (demo_ext x w))"
    by (simp add: demo_ext_def split: otp_request.splits)
  show ?thesis
    using issued_code_verifies_once[where clk = fst and code' = "[]", OF kv_ok_empty demo_codecs(1) mono _ _ _ x,
        of "(1, snd w1)" "(1, snd w1)"] x ext(2) by (simp add: demo_expiry) blast
qed


end
