(* ===== verification/Otp_Race.thy ===== *)
theory Otp_Race
  imports Otp_Verify
begin

text \<open>
  Guesses that run at the same time. A pool of verifications of one challenge, interleaved store
  call by store call, with time passing and calls failing (also after they took effect), compares
  at most as many codes as the challenge has attempts left, and at most one of them is told the
  code was right.
\<close>

section \<open>Counting in lists\<close>

definition cnt :: "('a \<Rightarrow> bool) \<Rightarrow> 'a list \<Rightarrow> nat" where
  "cnt P xs = length (filter P xs)"

lemma cnt_update:
  "i < length xs \<Longrightarrow>
     cnt P (xs[i := y]) + (if P (xs ! i) then 1 else 0) = cnt P xs + (if P y then 1 else 0)"
proof (induction xs arbitrary: i)
  case (Cons x xs)
  show ?case
  proof (cases i)
    case (Suc j)
    then show ?thesis using Cons.IH[of j] Cons.prems by (simp add: cnt_def)
  qed (simp add: cnt_def)
qed simp

lemma cnt_mono:
  "length xs = length ys \<Longrightarrow> (\<And>i. i < length xs \<Longrightarrow> P (xs ! i) \<Longrightarrow> Q (ys ! i)) \<Longrightarrow> cnt P xs \<le> cnt Q ys"
  unfolding cnt_def
proof (induction xs ys rule: list_induct2)
  case (Cons x xs y ys)
  have "\<And>i. i < length xs \<Longrightarrow> P (xs ! i) \<Longrightarrow> Q (ys ! i)" using Cons.prems[of "Suc _"] by auto
  then show ?case using Cons.IH Cons.prems[of 0] by auto
qed simp

section \<open>The shape of a guess\<close>

text \<open>
  A guess has not counted its attempt yet, has counted it, or has deleted the challenge. \<open>H\<close> is
  what was ever seen under the key, by version: a swap that counts an attempt writes a record the
  guess has seen, with one attempt more, over the version it saw.
\<close>

datatype guess_phase = Counting | Counted | Won

type_synonym 'v guess = "('v, error + verify_outcome) otp_prog"

primrec guessing ::
  "('v, stored_challenge) codec \<Rightarrow> store_key \<Rightarrow> nat \<Rightarrow> 'v guess \<Rightarrow> guess_phase \<Rightarrow> (nat \<times> 'v) set \<Rightarrow> bool"
where
  "guessing c K mx (Ret r) ph H =
     (case r of Inr Verified \<Rightarrow> ph = Won | Inr (Invalid _) \<Rightarrow> ph = Counted | _ \<Rightarrow> True)"
| "guessing c K mx (Get k f) ph H =
     (k = K \<and> (\<forall>r H'. H \<subseteq> H' \<longrightarrow> (\<forall>x. r = Inr (Some x) \<longrightarrow> (ver_version x, ver_value x) \<in> H') \<longrightarrow>
        guessing c K mx (f r) ph H'))"
| "guessing c K mx (Put k x e f) ph H = False"
| "guessing c K mx (PutIfAbsent k x e f) ph H = False"
| "guessing c K mx (CompareAndSwap k v new e f) ph H =
     (k = K \<and> e = Keep
      \<and> (case new of
           None \<Rightarrow> ph = Counted \<and> (\<forall>v' H'. H \<subseteq> H' \<longrightarrow> guessing c K mx (f (Inr (Some v'))) Won H')
         | Some y \<Rightarrow> ph = Counting
             \<and> (\<exists>x record. (v, x) \<in> H \<and> dec c x = Inr record \<and> sc_attempts record < mx
                  \<and> dec c y = Inr (record\<lparr>sc_attempts := sc_attempts record + 1\<rparr>))
             \<and> (\<forall>v' H'. H \<subseteq> H' \<longrightarrow> guessing c K mx (f (Inr (Some v'))) Counted H'))
      \<and> (\<forall>H'. H \<subseteq> H' \<longrightarrow> guessing c K mx (f (Inr None)) ph H')
      \<and> (\<forall>err H'. H \<subseteq> H' \<longrightarrow> guessing c K mx (f (Inl err)) ph H'))"
| "guessing c K mx (Delete k f) ph H = False"
| "guessing c K mx (Now f) ph H = (\<forall>t H'. H \<subseteq> H' \<longrightarrow> guessing c K mx (f t) ph H')"
| "guessing c K mx (Ext x f) ph H = False"

lemma guessing_mono:
  assumes "guessing c K mx p ph H" "H \<subseteq> H'"
  shows "guessing c K mx p ph H'"
proof (cases p)
  case (Get k f)
  then show ?thesis using assms by (auto dest: order_trans)
next
  case (CompareAndSwap k v new e f)
  then show ?thesis using assms
    by (cases new) (auto intro: order_trans[OF assms(2)] dest: subsetD[OF assms(2)])
next
  case (Now f)
  then show ?thesis using assms by (auto dest: order_trans)
qed (use assms in auto)

lemma guessing_get:
  assumes "\<And>(x :: 'v versioned) record1 H'. H \<subseteq> H' \<Longrightarrow> (ver_version x, ver_value x) \<in> H' \<Longrightarrow>
      dec c (ver_value x) = Inr record1 \<Longrightarrow>
      guessing c (store_key_new OTP_NAMESPACE key) mx
        (rest (Some (record1, ver_version x, ver_expires_at x))) ph H'"
    and "\<And>H'. guessing c (store_key_new OTP_NAMESPACE key) mx (rest None) ph H'"
  shows "guessing c (store_key_new OTP_NAMESPACE key) mx
    (pstore (js_get c OTP_NAMESPACE key) rest) ph H"
  by (auto simp: pstore_def js_get_def Let_def split: option.splits sum.splits intro!: assms)

lemma guessing_consume:
  "guessing (oe_challenge_codec env) (store_key_new OTP_NAMESPACE key) mx
     (consume_rounds n env key cid version) Counted H"
  by (induction n arbitrary: version H)
    (auto simp: pstore_def js_compare_and_swap_def js_get_def Let_def split: option.splits sum.splits)

lemma guessing_verify:
  assumes g: "good_codec (oe_challenge_codec env)"
  shows "guessing (oe_challenge_codec env) (store_key_new OTP_NAMESPACE key)
     (oc_max_attempts (os_config svc)) (verify_rounds n env svc key code) Counting H"
proof (induction n arbitrary: H)
  case (Suc n)
  have e: "\<exists>y. enc (oe_challenge_codec env) record1 = Inr y \<and> dec (oe_challenge_codec env) y = Inr record1"
    for record1 using g by (simp add: good_codec_def)
  have swap: "guessing (oe_challenge_codec env) (store_key_new OTP_NAMESPACE key)
      (oc_max_attempts (os_config svc))
      (pstore (js_compare_and_swap (oe_challenge_codec env) OTP_NAMESPACE key (ver_version x)
          (Some (rec1\<lparr>sc_attempts := sc_attempts rec1 + 1\<rparr>)) Keep) rest) Counting H'"
    if "(ver_version x, ver_value x) \<in> H'" "dec (oe_challenge_codec env) (ver_value x) = Inr rec1"
      "sc_attempts rec1 < oc_max_attempts (os_config svc)"
      "\<And>v' H''. guessing (oe_challenge_codec env) (store_key_new OTP_NAMESPACE key)
          (oc_max_attempts (os_config svc)) (rest (Some v')) Counted H''"
      "\<And>H''. guessing (oe_challenge_codec env) (store_key_new OTP_NAMESPACE key)
          (oc_max_attempts (os_config svc)) (rest None) Counting H''"
    for x rec1 rest H'
  proof -
    obtain y where y: "enc (oe_challenge_codec env) (rec1\<lparr>sc_attempts := sc_attempts rec1 + 1\<rparr>) = Inr y"
        "dec (oe_challenge_codec env) y = Inr (rec1\<lparr>sc_attempts := sc_attempts rec1 + 1\<rparr>)"
      using e by blast
    show ?thesis
      using that y by (auto simp: pstore_def js_compare_and_swap_def js_encode_def Let_def)
  qed
  have con: "guessing (oe_challenge_codec env) (store_key_new OTP_NAMESPACE key)
      (oc_max_attempts (os_config svc))
      (case hex_decode m of None \<Rightarrow> Ret (Inl (malformed_hash key))
        | Some expected \<Rightarrow> if code_mac env svc key cid code = expected
            then consume_rounds (cas_budget svc) env key cid v'
            else Ret (Inr (Invalid n))) Counted H''" for m cid v' n H''
    by (simp add: guessing_consume split: option.splits)
  show ?case
    unfolding verify_rounds.simps
    by (rule guessing_get)
      (auto simp: Let_def Suc.IH con intro!: swap[simplified] split: option.splits)
qed simp


definition counted :: "guess_phase list \<Rightarrow> nat" where
  "counted phs = cnt (\<lambda>p. p \<noteq> Counting) phs"

definition won :: "guess_phase list \<Rightarrow> nat" where
  "won phs = cnt (\<lambda>p. p = Won) phs"

text \<open>What was seen under the key: no version is above the last one issued, none has two values.\<close>

definition seen_ok :: "nat \<Rightarrow> (nat \<times> 'v) set \<Rightarrow> bool" where
  "seen_ok n H \<longleftrightarrow> (\<forall>v x. (v, x) \<in> H \<longrightarrow> v \<le> n) \<and> (\<forall>v x y. (v, x) \<in> H \<longrightarrow> (v, y) \<in> H \<longrightarrow> x = y)"

lemma seen_ok_insert: "seen_ok n H \<Longrightarrow> n < v \<Longrightarrow> seen_ok v (insert (v, x) H)"
  unfolding seen_ok_def by (metis (no_types, lifting) Pair_inject insertE leD less_imp_le order.refl order_trans)

lemma seen_ok_mono: "seen_ok n H \<Longrightarrow> n \<le> m \<Longrightarrow> seen_ok m H"
  unfolding seen_ok_def by (meson order_trans)

context kv_store
begin

text \<open>
  With \<open>a0\<close> attempts used at the start: while the challenge is there, it has counted every guess
  that went through; once it is gone, it stays gone, and one guess at most deleted it.
\<close>

definition guess_state ::
  "('v, stored_challenge) codec \<Rightarrow> store_key \<Rightarrow> nat \<Rightarrow> nat \<Rightarrow> time \<Rightarrow> 's \<Rightarrow> guess_phase list
     \<Rightarrow> (nat \<times> 'v) set \<Rightarrow> bool" where
  "guess_state c K mx a0 t s phs H \<longleftrightarrow> inv s \<and> seen_ok (issued s K) H \<and> won phs \<le> 1
     \<and> a0 + counted phs \<le> mx
     \<and> (case kv_get port t K s of
          None \<Rightarrow> True
        | Some x \<Rightarrow> (ver_version x, ver_value x) \<in> H \<and> won phs = 0
            \<and> (\<exists>record. dec c (ver_value x) = Inr record \<and> a0 + counted phs \<le> sc_attempts record
                 \<and> sc_attempts record \<le> mx))"

definition guess_inv ::
  "('v, stored_challenge) codec \<Rightarrow> store_key \<Rightarrow> nat \<Rightarrow> nat
     \<Rightarrow> ('s, 'v, otp_request, otp_reply, error + verify_outcome) pool \<Rightarrow> bool" where
  "guess_inv c K mx a0 P \<longleftrightarrow>
     (\<exists>phs H. length phs = length (pl_procs P)
        \<and> (\<forall>i < length phs. guessing c K mx (pl_procs P ! i) (phs ! i) H)
        \<and> guess_state c K mx a0 (pl_now P) (pl_store P) phs H)"

lemma guess_state_later:
  assumes "guess_state c K mx a0 t s phs H" "t \<le> t'"
  shows "guess_state c K mx a0 t' s phs H"
proof -
  have i: "inv s" using assms(1) by (simp add: guess_state_def)
  have "kv_get port t' K s = None \<or> kv_get port t' K s = kv_get port t K s"
    using get_expires[OF i assms(2), of K] by (auto simp: visible_def split: option.splits)
  then show ?thesis using assms(1) by (auto simp: guess_state_def split: option.splits)
qed

lemma guess_inv_later:
  assumes "guess_inv c K mx a0 P" "pl_now P \<le> t"
  shows "guess_inv c K mx a0 (P\<lparr>pl_now := t\<rparr>)"
proof -
  obtain phs H where p: "length phs = length (pl_procs P)"
      "\<forall>i < length phs. guessing c K mx (pl_procs P ! i) (phs ! i) H"
      and st: "guess_state c K mx a0 (pl_now P) (pl_store P) phs H"
    using assms(1) by (auto simp: guess_inv_def)
  show ?thesis
    unfolding guess_inv_def
    by (intro exI[of _ phs] exI[of _ H]) (use p guess_state_later[OF st assms(2)] in simp)
qed

lemma guess_inv_update:
  assumes I: "length phs = length (pl_procs P)"
      "\<forall>i < length phs. guessing c K mx (pl_procs P ! i) (phs ! i) H"
    and i: "i < length (pl_procs P)" and H: "H \<subseteq> H'"
    and p: "guessing c K mx p' ph' H'"
    and s: "guess_state c K mx a0 (pl_now P) s' (phs[i := ph']) H'"
  shows "guess_inv c K mx a0 (P\<lparr>pl_store := s', pl_procs := (pl_procs P)[i := p']\<rparr>)"
  unfolding guess_inv_def
proof (intro exI[of _ "phs[i := ph']"] exI[of _ H'] conjI allI impI)
  fix j assume j: "j < length (phs[i := ph'])"
  show "guessing c K mx (pl_procs (P\<lparr>pl_store := s', pl_procs := (pl_procs P)[i := p']\<rparr>) ! j)
      (phs[i := ph'] ! j) H'"
    using I j i p guessing_mono[OF _ H] by (cases "j = i") auto
qed (use I s in simp_all)

text \<open>A swap that takes effect: an attempt counted, or the challenge deleted.\<close>

lemma guess_swap_counts:
  assumes st: "guess_state c K mx a0 t s phs H" and i: "i < length phs" "phs ! i = Counting"
    and r: "kv_get port t K s = Some r"
    and seen: "(ver_version r, x) \<in> H" "dec c x = Inr record1" "sc_attempts record1 < mx"
      "dec c y = Inr (record1\<lparr>sc_attempts := sc_attempts record1 + 1\<rparr>)"
    and p: "kv_put port t K y Keep s = (v', s')"
    and ph: "ph \<in> {Counting, Counted}"
  shows "guess_state c K mx a0 t s' (phs[i := ph]) (insert (v', y) H)"
proof -
  have inv: "inv s" and ok: "seen_ok (issued s K) H" using st by (simp_all add: guess_state_def)
  have put: "inv s'" "issued s K < v'" "issued s' K = v'" using put_version[OF inv p] by auto
  have "x = ver_value r" using st r seen(1) ok by (auto simp: guess_state_def seen_ok_def)
  then have a: "a0 + counted phs \<le> sc_attempts record1" "won phs = 0"
    using st r seen(2) by (auto simp: guess_state_def)
  have c: "counted (phs[i := ph]) \<le> counted phs + 1" "won (phs[i := ph]) = 0"
    using cnt_update[OF i(1), of "\<lambda>p. p \<noteq> Counting" ph] cnt_update[OF i(1), of "\<lambda>p. p = Won" ph] i(2) ph a(2)
    by (auto simp: counted_def won_def)
  have "kv_get port t K s' = visible t (Some \<lparr>ver_value = y, ver_version = v',
      ver_expires_at = resolve_expiry Keep t (kv_get port t K s)\<rparr>)"
    by (rule put_get_same[OF inv p order_refl])
  then show ?thesis
    using put seen_ok_insert[OF ok put(2)] a c seen(3,4)
    by (auto simp: guess_state_def visible_def split: if_splits)
qed

lemma guess_swap_deletes:
  assumes st: "guess_state c K mx a0 t s phs H" and i: "i < length phs" "phs ! i = Counted"
    and r: "kv_get port t K s = Some r" and ph: "ph \<in> {Counted, Won}"
  shows "guess_state c K mx a0 t (snd (kv_delete port t K s)) (phs[i := ph]) H"
proof -
  have inv: "inv s" using st by (simp add: guess_state_def)
  have "won phs = 0" using st r by (simp add: guess_state_def)
  then have c: "counted (phs[i := ph]) = counted phs" "won (phs[i := ph]) \<le> 1"
    using cnt_update[OF i(1), of "\<lambda>p. p \<noteq> Counting" ph] cnt_update[OF i(1), of "\<lambda>p. p = Won" ph] i(2) ph
    by (auto simp: counted_def won_def split: if_splits)
  show ?thesis
    using st c delete_state[OF inv] delete_get[OF inv, of t t K]
    by (auto simp: guess_state_def)
qed

lemma guess_inv_move:
  assumes I: "guess_inv c K mx a0 P" and i: "i < length (pl_procs P)"
    and step: "proc_step port (pl_now P) (pl_procs P ! i) (pl_store P) p' s'"
  shows "guess_inv c K mx a0 (P\<lparr>pl_store := s', pl_procs := (pl_procs P)[i := p']\<rparr>)"
proof -
  let ?p = "pl_procs P ! i" and ?t = "pl_now P" and ?s = "pl_store P"
  obtain phs H where ph: "length phs = length (pl_procs P)"
      "\<forall>i < length phs. guessing c K mx (pl_procs P ! i) (phs ! i) H"
      and st: "guess_state c K mx a0 ?t ?s phs H"
    using I by (auto simp: guess_inv_def)
  have inv: "inv ?s" using st by (simp add: guess_state_def)
  have g: "guessing c K mx ?p (phs ! i) H" using ph i by simp
  note upd = guess_inv_update[OF ph i]
  have keep: ?thesis if "s' = ?s" "guessing c K mx p' (phs ! i) H"
    using upd[OF order_refl that(2), of a0 s'] st that(1) by simp
  show ?thesis
  proof (cases ?p)
    case (Get k f)
    have seen: "(ver_version x, ver_value x) \<in> H" if "kv_get port ?t K ?s = Some x" for x
      using st that by (simp add: guess_state_def)
    from step Get show ?thesis
      using g seen keep by (auto elim!: proc_step_GetE)
  next
    case (Now f)
    then show ?thesis using step g keep by (auto elim!: proc_step_NowE)
  next
    case (CompareAndSwap k v new e f)
    have k: "k = K" "e = Keep" using g CompareAndSwap by auto
    have fails: "guessing c K mx (f (Inr None)) (phs ! i) H'"
        "guessing c K mx (f (Inl err)) (phs ! i) H'" if "H \<subseteq> H'" for H' err
      using g CompareAndSwap that by auto
    obtain res s1 where r: "kv_compare_and_swap port ?t K v new Keep ?s = (res, s1)" by fastforce
    from step CompareAndSwap r k
    consider "s' = ?s" "\<exists>err. p' = f (Inl err)" | "s' = s1" "p' = f (Inr res)"
      | "s' = s1" "\<exists>err. p' = f (Inl err)"
      by (auto elim!: proc_step_CasE) blast+
    then show ?thesis
    proof cases
      case 1
      then show ?thesis using keep fails(2) by auto
    next
      case 2
      show ?thesis
      proof (cases "res = None")
        case True
        then have "s1 = ?s"
          using cas_cases[OF inv r] by (auto split: option.splits)
        then show ?thesis using 2 True keep fails(1) by auto
      next
        case False
        then obtain x where x: "kv_get port ?t K ?s = Some x" "ver_version x = v"
          and eff: "case new of None \<Rightarrow> res = Some 0 \<and> s1 = snd (kv_delete port ?t K ?s)
             | Some y \<Rightarrow> (\<exists>v'. res = Some v' \<and> kv_put port ?t K y Keep ?s = (v', s1))"
          using cas_cases[OF inv r] by auto
        show ?thesis
        proof (cases new)
          case None
          then have "guessing c K mx p' Won H" "phs ! i = Counted"
            using g CompareAndSwap 2 eff by auto
          then show ?thesis
            using upd[OF order_refl] guess_swap_deletes[OF st _ _ x(1), of i Won] ph(1) i eff None 2 by simp
        next
          case (Some y)
          then obtain v' where put: "res = Some v'" "kv_put port ?t K y Keep ?s = (v', s1)" using eff by auto
          obtain z record1 where z: "(v, z) \<in> H" "dec c z = Inr record1" "sc_attempts record1 < mx"
              "dec c y = Inr (record1\<lparr>sc_attempts := sc_attempts record1 + 1\<rparr>)" "phs ! i = Counting"
            using g CompareAndSwap Some by auto
          have "guessing c K mx p' Counted H"
            using g CompareAndSwap Some 2 put(1) by auto
          from guessing_mono[OF this subset_insertI]
          have "guessing c K mx p' Counted (insert (v', y) H)" .
          then show ?thesis
            using upd[OF subset_insertI] guess_swap_counts[OF st _ z(5) x(1) _ z(2-4) put(2), of Counted]
              ph(1) i z(1) x(2) 2 by simp
        qed
      qed
    next
      case 3
      then obtain err where err: "p' = f (Inl err)" by blast
      show ?thesis
      proof (cases "res = None")
        case True
        then have "s1 = ?s"
          using cas_cases[OF inv r] by (auto split: option.splits)
        then show ?thesis using 3 err keep fails(2) by auto
      next
        case False
        then obtain x where x: "kv_get port ?t K ?s = Some x" "ver_version x = v"
          and eff: "case new of None \<Rightarrow> res = Some 0 \<and> s1 = snd (kv_delete port ?t K ?s)
             | Some y \<Rightarrow> (\<exists>v'. res = Some v' \<and> kv_put port ?t K y Keep ?s = (v', s1))"
          using cas_cases[OF inv r] by auto
        show ?thesis
        proof (cases new)
          case None
          then have "phs ! i = Counted" using g CompareAndSwap by auto
          then show ?thesis
            using upd[OF order_refl fails(2)[OF order_refl, of err]]
              guess_swap_deletes[OF st _ _ x(1), of i Counted] ph(1) i eff None 3 err by simp
        next
          case (Some y)
          then obtain v' where put: "res = Some v'" "kv_put port ?t K y Keep ?s = (v', s1)" using eff by auto
          obtain z record1 where z: "(v, z) \<in> H" "dec c z = Inr record1" "sc_attempts record1 < mx"
              "dec c y = Inr (record1\<lparr>sc_attempts := sc_attempts record1 + 1\<rparr>)" "phs ! i = Counting"
            using g CompareAndSwap Some by auto
          show ?thesis
            using upd[OF subset_insertI fails(2)[OF subset_insertI, of err]]
              guess_swap_counts[OF st _ z(5) x(1) _ z(2-4) put(2), of Counting]
              ph(1) i z(1,5) x(2) 3 err by simp
        qed
      qed
    qed
  qed (use g step in auto)
qed

lemma guess_inv_run:
  assumes "pool_run port P Q" "guess_inv c K mx a0 P"
  shows "guess_inv c K mx a0 Q"
proof (rule pool_run_invariant[where I = "guess_inv c K mx a0", OF assms])
  fix Q R assume I: "guess_inv c K mx a0 Q" and step: "pool_step port Q R"
  from step show "guess_inv c K mx a0 R"
  proof cases
    case (tick t)
    then show ?thesis using guess_inv_later[OF I] by simp
  next
    case (move i p' s')
    then show ?thesis using guess_inv_move[OF I] by simp
  qed
qed

end

section \<open>Properties\<close>

definition compared :: "'v guess \<Rightarrow> bool" where
  "compared p \<longleftrightarrow> (case p of Ret (Inr Verified) \<Rightarrow> True | Ret (Inr (Invalid _)) \<Rightarrow> True | _ \<Rightarrow> False)"

definition verified :: "'v guess \<Rightarrow> bool" where
  "verified p \<longleftrightarrow> (case p of Ret (Inr Verified) \<Rightarrow> True | _ \<Rightarrow> False)"

lemma guessing_compared: "guessing c K mx p ph H \<Longrightarrow> compared p \<Longrightarrow> ph \<noteq> Counting"
  by (cases p) (auto simp: compared_def split: sum.splits verify_outcome.splits)

lemma guessing_verified: "guessing c K mx p ph H \<Longrightarrow> verified p \<Longrightarrow> ph = Won"
  by (cases p) (auto simp: verified_def split: sum.splits verify_outcome.splits)

text \<open>
  C12. Guessing in parallel gains nothing. Any number of verifications of one challenge, with any
  codes, interleaved in any order, with time passing and any store call failing before or after it
  took effect: the guesses that were compared, right or wrong, are at most the attempts the
  challenge had left, and at most one of them is answered \<open>Verified\<close>.
\<close>

theorem guesses_bounded:
  assumes "kv_ok (pl_store P)" and "good_codec (oe_challenge_codec env)"
    and "phone_of recipient = Inr digits" and "otp_key env svc digits purpose = Inr key"
    and "mem.challenge_at (oe_challenge_codec env) (pl_now P) key (pl_store P) record1 version expires"
    and "sc_attempts record1 \<le> oc_max_attempts (os_config svc)"
    and "pl_procs P = map (otp_verify env svc recipient purpose) codes"
    and "pool_run memory_kv P Q"
  shows "sc_attempts record1 + cnt compared (pl_procs Q) \<le> oc_max_attempts (os_config svc)
     \<and> cnt verified (pl_procs Q) \<le> 1"
proof -
  let ?c = "oe_challenge_codec env" and ?K = "store_key_new OTP_NAMESPACE key"
  let ?mx = "oc_max_attempts (os_config svc)" and ?a0 = "sc_attempts record1"
  have procs: "pl_procs P = map (verify_rounds (cas_budget svc) env svc key) codes"
    using assms(3,4,7) by (simp add: otp_verify_def)
  obtain x where x: "mem_get (pl_now P) ?K (pl_store P)
      = Some \<lparr>ver_value = x, ver_version = version, ver_expires_at = expires\<rparr>" "dec ?c x = Inr record1"
    using assms(5) by (auto simp: mem.challenge_at_def)
  have zero: "counted (replicate n Counting) = 0" "won (replicate n Counting) = 0" for n
    by (simp_all add: counted_def won_def cnt_def)
  have "mem.guess_state ?c ?K ?mx ?a0 (pl_now P) (pl_store P) (replicate (length codes) Counting) {(version, x)}"
    using x assms(1,6) zero mem.get_issued[OF assms(1), of "pl_now P" ?K]
    by (auto simp: mem.guess_state_def seen_ok_def)
  then have "mem.guess_inv ?c ?K ?mx ?a0 P"
    unfolding mem.guess_inv_def
    by (intro exI[of _ "replicate (length codes) Counting"] exI[of _ "{(version, x)}"])
      (simp add: procs guessing_verify[OF assms(2)])
  from mem.guess_inv_run[OF assms(8) this] obtain phs H where
      q: "length phs = length (pl_procs Q)"
        "\<forall>i < length phs. guessing ?c ?K ?mx (pl_procs Q ! i) (phs ! i) H"
        "?a0 + counted phs \<le> ?mx" "won phs \<le> 1"
    by (auto simp: mem.guess_inv_def mem.guess_state_def)
  have g: "guessing ?c ?K ?mx (pl_procs Q ! i) (phs ! i) H" if "i < length (pl_procs Q)" for i
    using q(1,2) that by simp
  have "cnt compared (pl_procs Q) \<le> counted phs"
    unfolding counted_def by (rule cnt_mono) (use q(1) guessing_compared[OF g] in auto)
  moreover have "cnt verified (pl_procs Q) \<le> won phs"
    unfolding won_def by (rule cnt_mono) (use q(1) guessing_verified[OF g] in auto)
  ultimately show ?thesis using q(3,4) by linarith
qed

theorem guesses_bounded_witness:
  "\<exists>(P :: ((stored_challenge + issue_log) kv_state, _, _, _, _) pool) Q.
     pool_run memory_kv P Q \<and> length (pl_procs Q) = 3
     \<and> cnt compared (pl_procs Q) \<le> 1 \<and> cnt verified (pl_procs Q) \<le> 1"
proof -
  let ?rec = "\<lparr>sc_id = ''id'', sc_mac = ''00'', sc_attempts = 4, sc_expires_at = 1000, sc_sent_at = 0\<rparr>"
  let ?K = "store_key_new OTP_NAMESPACE demo_key"
  obtain v s where p: "kv_put memory_kv 0 ?K (Inl ?rec) (At 9000000)
      (empty_state :: (stored_challenge + issue_log) kv_state) = (v, s)" by fastforce
  have s: "kv_ok s" using mem.put_version[OF kv_ok_empty p] by simp
  have at: "mem.challenge_at (oe_challenge_codec demo_env) 1 demo_key s ?rec v (Some 9000000)"
    using mem.put_challenge[OF kv_ok_empty _ _ p, of "oe_challenge_codec demo_env" ?rec 1]
    by (simp add: demo_env_def resolve_expiry_def alive_def)
  define P where "P = \<lparr>pl_store = s, pl_now = 1, pl_procs = map (otp_verify demo_env demo_service
      (Phone ''+49 1'') ''login'') [''111111'', ''222222'', ''333333'']\<rparr>"
  obtain n where n: "cas_budget demo_service = Suc n"
    by (metis cas_budget_def add_gr_0 gr0_implies_Suc zero_less_numeral)
  obtain f where f: "pl_procs P ! 0 = Get ?K f"
    by (simp add: P_def otp_verify_def demo_phone demo_otp_key n pstore_def js_get_def Let_def)
  define Q where "Q = P\<lparr>pl_store := s, pl_procs := (pl_procs P)[0 := f (Inr (kv_get memory_kv 1 ?K s))]\<rparr>"
  have "proc_step memory_kv (pl_now P) (pl_procs P ! 0) (pl_store P) (f (Inr (kv_get memory_kv 1 ?K s))) s"
    unfolding f using proc_step.get[of memory_kv 1 ?K f s] by (simp add: P_def)
  then have run: "pool_run memory_kv P Q"
    unfolding Q_def by (intro pool_run.step[OF pool_run.refl] pool_step.move) (simp_all add: P_def)
  have "sc_attempts ?rec + cnt compared (pl_procs Q) \<le> oc_max_attempts (os_config demo_service)
      \<and> cnt verified (pl_procs Q) \<le> 1"
    by (rule guesses_bounded[where codes = "[''111111'', ''222222'', ''333333'']",
          OF _ demo_codecs(1) demo_phone demo_otp_key _ _ _ run])
      (use s at in \<open>simp_all add: P_def demo_expiry(1)\<close>)
  then show ?thesis
    using run by (intro exI[of _ P] exI[of _ Q]) (simp add: Q_def P_def demo_expiry(1))
qed

end
