(* ===== verification/Otp_Limit.thy ===== *)
theory Otp_Limit
  imports Otp_Race "HOL-Library.Multiset"
begin

text \<open>
  The issue limit, for requests that run at the same time. Each reads the clock, reads the log,
  and writes it back over the version it saw; other requests, expiry and failing calls (also after
  they took effect) come in between. If none takes longer than \<open>d\<close> milliseconds from its start to
  its write, no window that is \<open>d\<close> shorter than the configured one has more than \<open>max_issues\<close>
  grants; for requests that take no time this is the configured window itself. The margin is
  real: the log expires a window after the clock reading of its last writer, however late it wrote.
\<close>

section \<open>The horizon\<close>

definition window_ms :: "issue_limit \<Rightarrow> int" where
  "window_ms limit = duration_ms (il_window limit)"

lemma ms_bound: "in_range t \<Longrightarrow> t div 1000000 \<le> I64_MAX"
  using zdiv_mono1[of t datetime_max 1000000] by (simp add: I64_MAX_def in_range_def datetime_max_def)

lemma to_ms_nonneg: "0 \<le> t \<Longrightarrow> in_range t \<Longrightarrow> to_ms t = t div 1000000"
  using ms_bound by (simp add: to_ms_def Let_def I64_MIN_def pos_imp_zdiv_nonneg_iff order_trans[of _ 0])

lemma duration_ms_bounds: "0 \<le> duration_ms d" "duration_ms d \<le> I64_MAX" "duration_ms d \<le> int (d div 1000000)"
  by (auto simp: duration_ms_def I64_MAX_def Let_def)

lemma horizon:
  assumes "0 \<le> t" "in_range t"
  shows "i64_saturating_sub (to_ms t) (duration_ms d) = to_ms t - duration_ms d"
proof -
  have "0 \<le> to_ms t" "to_ms t \<le> I64_MAX"
    using assms to_ms_nonneg[OF assms] ms_bound by (simp_all add: pos_imp_zdiv_nonneg_iff)
  then show ?thesis
    using duration_ms_bounds[of d] by (simp add: i64_saturating_sub_def I64_MIN_def I64_MAX_def)
qed

lemma to_ms_mono: "0 \<le> t \<Longrightarrow> t \<le> t' \<Longrightarrow> in_range t' \<Longrightarrow> to_ms t \<le> to_ms t'"
  using to_ms_nonneg[of t] to_ms_nonneg[of t'] by (simp add: in_range_def zdiv_mono1 datetime_min_def)

text \<open>An instant a whole window later is out of the window in milliseconds too.\<close>

lemma window_over:
  assumes "0 \<le> t" "in_range t'" "t + int d \<le> t'"
  shows "to_ms t \<le> to_ms t' - duration_ms d"
proof -
  have "in_range t" using assms by (simp add: in_range_def datetime_min_def)
  have "t div 1000000 + int d div 1000000 \<le> (t + int d) div 1000000"
    by (metis add_diff_cancel_left' div_add1_eq le_add_same_cancel1 pos_imp_zdiv_nonneg_iff
        pos_mod_sign add_nonneg_nonneg zero_less_numeral)
  also have "\<dots> \<le> t' div 1000000" using assms(3) by (rule zdiv_mono1) simp
  finally show ?thesis
    using to_ms_nonneg[of t] to_ms_nonneg[of t'] assms \<open>in_range t\<close> duration_ms_bounds(3)[of d]
    by (simp add: zdiv_int)
qed

text \<open>A write that is at most \<open>d\<close> milliseconds late is so in milliseconds too.\<close>

lemma to_ms_delay:
  assumes "0 \<le> t" "t \<le> c" "c \<le> t + int d * 1000000" "in_range c"
  shows "to_ms t \<le> to_ms c" "to_ms c \<le> to_ms t + int d"
proof -
  have "in_range t" using assms by (simp add: in_range_def datetime_min_def)
  moreover have "c div 1000000 \<le> (t + int d * 1000000) div 1000000" using assms(3) by (rule zdiv_mono1) simp
  ultimately show "to_ms c \<le> to_ms t + int d" using to_ms_nonneg[of t] to_ms_nonneg[of c] assms by simp
  show "to_ms t \<le> to_ms c" by (rule to_ms_mono) (use assms in auto)
qed

section \<open>Requests that run together\<close>

definition slot_granted :: "('v, error + duration option) otp_prog \<Rightarrow> bool" where
  "slot_granted p \<longleftrightarrow> (case p of Ret (Inr None) \<Rightarrow> True | _ \<Rightarrow> False)"

type_synonym ('s, 'v) issue_pool = "('s, 'v, otp_request, otp_reply, error + duration option) pool"

text \<open>
  Runs of a pool in which every step of the request \<open>i\<close> is within \<open>d\<close> milliseconds of its start
  \<open>ts ! i\<close> (a request that was cut off takes no more steps), with the instants at which slots were
  granted.
\<close>

inductive issue_run ::
  "('s, 'v) kv_port \<Rightarrow> time list \<Rightarrow> nat \<Rightarrow> ('s, 'v) issue_pool \<Rightarrow> time list \<Rightarrow> ('s, 'v) issue_pool \<Rightarrow> bool"
  for port :: "('s, 'v) kv_port" and ts :: "time list" and d :: nat and P :: "('s, 'v) issue_pool" where
  start: "issue_run port ts d P [] P"
| wait: "issue_run port ts d P G Q \<Longrightarrow> pl_now Q \<le> t \<Longrightarrow> issue_run port ts d P G (Q\<lparr>pl_now := t\<rparr>)"
| work: "issue_run port ts d P G Q \<Longrightarrow> i < length (pl_procs Q) \<Longrightarrow>
    ts ! i \<le> pl_now Q \<Longrightarrow> pl_now Q \<le> ts ! i + int d * 1000000 \<Longrightarrow>
    proc_step port (pl_now Q) (pl_procs Q ! i) (pl_store Q) p' s' \<Longrightarrow>
    issue_run port ts d P (if slot_granted p' then G @ [pl_now Q] else G)
      (Q\<lparr>pl_store := s', pl_procs := (pl_procs Q)[i := p']\<rparr>)"

text \<open>How many of the instants, in milliseconds, are after \<open>a\<close> and not more than \<open>w\<close> after it.\<close>

definition in_window :: "int \<Rightarrow> int \<Rightarrow> int list \<Rightarrow> nat" where
  "in_window a w ms = length (filter (\<lambda>m. a < m \<and> m \<le> a + w) ms)"

section \<open>The shape of a request\<close>

definition slots_left :: "issue_limit \<Rightarrow> time \<Rightarrow> int list \<Rightarrow> int list" where
  "slots_left limit t log =
     sort (filter (\<lambda>m. m > i64_saturating_sub (to_ms t) (duration_ms (il_window limit))) log)"

text \<open>\<open>y\<close> is the log \<open>log\<close> with one slot more, taken at \<open>t\<close>, and there was room for it.\<close>

definition one_more :: "('v, issue_log) codec \<Rightarrow> issue_limit \<Rightarrow> time \<Rightarrow> int list \<Rightarrow> 'v \<Rightarrow> bool" where
  "one_more c limit t log y \<longleftrightarrow> length (slots_left limit t log) < il_max_issues limit
     \<and> dec c y = Inr \<lparr>lg_issued_at = slots_left limit t log @ [to_ms t]\<rparr>"

text \<open>
  A request that read the clock at \<open>t\<close> and has no slot yet. \<open>H\<close> is what was ever seen under the
  key, by version. It writes one slot more than the log it has seen, over the version it saw, or
  the first slot where there is no log; only a write that took effect grants it the slot.
\<close>

primrec reserving ::
  "('v, issue_log) codec \<Rightarrow> store_key \<Rightarrow> issue_limit \<Rightarrow> time \<Rightarrow> ('v, error + duration option) otp_prog
     \<Rightarrow> (nat \<times> 'v) set \<Rightarrow> bool" where
  "reserving c K limit t (Ret r) H = (r \<noteq> Inr None)"
| "reserving c K limit t (Get k f) H =
     (k = K \<and> (\<forall>r H'. H \<subseteq> H' \<longrightarrow> (\<forall>x. r = Inr (Some x) \<longrightarrow> (ver_version x, ver_value x) \<in> H') \<longrightarrow>
        reserving c K limit t (f r) H'))"
| "reserving c K limit t (Put k y e f) H = False"
| "reserving c K limit t (PutIfAbsent k y e f) H =
     (k = K \<and> e = At (plus_time t (il_window limit)) \<and> one_more c limit t [] y
      \<and> (\<forall>v. f (Inr (Some v)) = Ret (Inr None))
      \<and> (\<forall>r H'. H \<subseteq> H' \<longrightarrow> (\<forall>v. r \<noteq> Inr (Some v)) \<longrightarrow> reserving c K limit t (f r) H'))"
| "reserving c K limit t (CompareAndSwap k v new e f) H =
     (k = K \<and> e = At (plus_time t (il_window limit))
      \<and> (\<exists>x log y. (v, x) \<in> H \<and> dec c x = Inr log \<and> new = Some y \<and> one_more c limit t (lg_issued_at log) y)
      \<and> (\<forall>v'. f (Inr (Some v')) = Ret (Inr None))
      \<and> (\<forall>r H'. H \<subseteq> H' \<longrightarrow> (\<forall>v'. r \<noteq> Inr (Some v')) \<longrightarrow> reserving c K limit t (f r) H'))"
| "reserving c K limit t (Delete k f) H = False"
| "reserving c K limit t (Now f) H = False"
| "reserving c K limit t (Ext x f) H = False"

lemma reserving_mono:
  assumes "reserving c K limit t p H" "H \<subseteq> H'"
  shows "reserving c K limit t p H'"
proof (cases p)
  case (Get k f)
  then show ?thesis using assms by (auto dest: order_trans)
next
  case (PutIfAbsent k y e f)
  then show ?thesis using assms by (auto intro: order_trans)
next
  case (CompareAndSwap k v new e f)
  then show ?thesis using assms by (auto intro: order_trans dest: subsetD[OF assms(2)])
qed (use assms in auto)

lemma reserving_get:
  assumes "\<And>(x :: 'v versioned) log H'. (ver_version x, ver_value x) \<in> H' \<Longrightarrow>
      dec c (ver_value x) = Inr log \<Longrightarrow>
      reserving c (store_key_new ISSUE_LOG_NAMESPACE key) limit t
        (rest (Some (log, ver_version x, ver_expires_at x))) H'"
    and "\<And>H'. reserving c (store_key_new ISSUE_LOG_NAMESPACE key) limit t (rest None) H'"
  shows "reserving c (store_key_new ISSUE_LOG_NAMESPACE key) limit t
    (pstore (js_get c ISSUE_LOG_NAMESPACE key) rest) H"
  by (auto simp: pstore_def js_get_def Let_def split: option.splits sum.splits intro!: assms)

lemma reserving_rounds:
  assumes g: "good_codec (oe_log_codec env)"
  shows "reserving (oe_log_codec env) (store_key_new ISSUE_LOG_NAMESPACE key) limit t
     (reserve_rounds n env key limit t) H"
proof (induction n arbitrary: H)
  case (Suc n)
  let ?c = "oe_log_codec env" and ?K = "store_key_new ISSUE_LOG_NAMESPACE key"
  have e: "\<exists>y. enc ?c log = Inr y \<and> dec ?c y = Inr log" for log using g by (simp add: good_codec_def)
  have end_of: "reserving ?c ?K limit t (pstore (Ret r) (\<lambda>written. if written \<noteq> None then Ret (Inr None)
      else reserve_rounds n env key limit t)) H'" if "\<forall>v. r \<noteq> Inr (Some v)" for r H'
    using that Suc.IH by (cases r) (auto simp: pstore_def)
  have swap: "reserving ?c ?K limit t (pstore (js_compare_and_swap ?c ISSUE_LOG_NAMESPACE key (ver_version x)
        (Some \<lparr>lg_issued_at = slots_left limit t (lg_issued_at log) @ [to_ms t]\<rparr>)
        (At (plus_time t (il_window limit)))) (\<lambda>written. if written \<noteq> None then Ret (Inr None)
      else reserve_rounds n env key limit t)) H'"
    if "(ver_version x, ver_value x) \<in> H'" "dec ?c (ver_value x) = Inr log"
      "\<not> il_max_issues limit \<le> length (slots_left limit t (lg_issued_at log))" for x log H'
  proof -
    obtain y where "enc ?c \<lparr>lg_issued_at = slots_left limit t (lg_issued_at log) @ [to_ms t]\<rparr> = Inr y"
        "dec ?c y = Inr \<lparr>lg_issued_at = slots_left limit t (lg_issued_at log) @ [to_ms t]\<rparr>" using e by blast
    then show ?thesis
      using that end_of
      by (auto simp: js_compare_and_swap_def js_encode_def Let_def one_more_def pstore_def)
  qed
  have first: "reserving ?c ?K limit t (pstore (js_put_if_absent ?c ISSUE_LOG_NAMESPACE key
        \<lparr>lg_issued_at = slots_left limit t [] @ [to_ms t]\<rparr> (At (plus_time t (il_window limit))))
        (\<lambda>written. if written \<noteq> None then Ret (Inr None) else reserve_rounds n env key limit t)) H'"
    if "\<not> il_max_issues limit \<le> length (slots_left limit t [])" for H'
  proof -
    obtain y where "enc ?c \<lparr>lg_issued_at = slots_left limit t [] @ [to_ms t]\<rparr> = Inr y"
        "dec ?c y = Inr \<lparr>lg_issued_at = slots_left limit t [] @ [to_ms t]\<rparr>" using e by blast
    then show ?thesis
      using that end_of by (auto simp: js_put_if_absent_def js_encode_def Let_def one_more_def pstore_def)
  qed
  show ?case
    unfolding reserve_rounds.simps Let_def slots_left_def[symmetric]
    by (rule reserving_get) (auto intro!: swap[simplified] first[simplified])
qed simp

lemma reserving_not_granted: "reserving c K limit t p H \<Longrightarrow> \<not> slot_granted p"
  by (cases p) (auto simp: slot_granted_def split: sum.splits option.splits)

lemma granted_cases: "slot_granted p \<longleftrightarrow> p = Ret (Inr None)"
  by (cases p) (auto simp: slot_granted_def split: sum.splits option.splits)

text \<open>A request: still to read the clock, without a slot, or granted one.\<close>

definition request_ok ::
  "('v, issue_log) codec \<Rightarrow> store_key \<Rightarrow> issue_limit \<Rightarrow> time \<Rightarrow> time
     \<Rightarrow> ('v, error + duration option) otp_prog \<Rightarrow> (nat \<times> 'v) set \<Rightarrow> bool" where
  "request_ok c K limit t0 t p H \<longleftrightarrow> slot_granted p
     \<or> (\<exists>f. p = Now f \<and> (\<forall>u H'. reserving c K limit u (f u) H'))
     \<or> (\<exists>u. 0 \<le> u \<and> t0 \<le> u \<and> u \<le> t \<and> reserving c K limit u p H)"

lemma request_ok_mono: "request_ok c K limit t0 t p H \<Longrightarrow> H \<subseteq> H' \<Longrightarrow> t \<le> t' \<Longrightarrow> request_ok c K limit t0 t' p H'"
  unfolding request_ok_def using reserving_mono by (meson order_trans)

section \<open>The log and the grants\<close>

text \<open>Grants are kept with the clock reading of their request: the instants \<open>(read, granted)\<close>.\<close>

definition slots_due :: "issue_limit \<Rightarrow> nat \<Rightarrow> time \<Rightarrow> (time \<times> time) list \<Rightarrow> (time \<times> time) list" where
  "slots_due limit d t G = filter (\<lambda>g. to_ms (snd g) > to_ms t - window_ms limit + int d) G"

definition in_time :: "nat \<Rightarrow> time \<Rightarrow> time \<times> time \<Rightarrow> bool" where
  "in_time d t g \<longleftrightarrow> 0 \<le> fst g \<and> fst g \<le> snd g \<and> snd g \<le> fst g + int d * 1000000 \<and> snd g \<le> t"

lemma length_filter_le_filter:
  "(\<And>x. x \<in> set xs \<Longrightarrow> P x \<Longrightarrow> Q x) \<Longrightarrow> length (filter P xs) \<le> length (filter Q xs)"
  by (induction xs) auto

lemma in_window_snoc:
  "in_window a w (ms @ [m]) = in_window a w ms + (if a < m \<and> m \<le> a + w then 1 else 0)"
  by (simp add: in_window_def)

lemma slots_due_later:
  assumes "0 \<le> t" "t \<le> t'" "in_range t'"
  shows "mset (slots_due limit d t' G) \<subseteq># mset (slots_due limit d t G)"
proof -
  have "to_ms t \<le> to_ms t'" by (rule to_ms_mono[OF assms])
  then have "filter_mset (\<lambda>g. to_ms (snd g) > to_ms t' - window_ms limit + int d) (mset G)
      \<subseteq># filter_mset (\<lambda>g. to_ms (snd g) > to_ms t - window_ms limit + int d) (mset G)"
    by (intro filter_mset_mono_strong) auto
  then show ?thesis by (simp add: slots_due_def)
qed

text \<open>A grant that is due now was read late enough to be in the window of any request that writes now.\<close>

lemma due_in_window:
  assumes "g \<in> set (slots_due limit d t G)" "in_time d t g" "in_range t" "0 \<le> u" "u \<le> t"
  shows "to_ms (fst g) > to_ms u - window_ms limit"
proof -
  have r: "in_range (snd g)" "0 \<le> snd g" using assms by (auto simp: in_time_def in_range_def datetime_min_def)
  have "to_ms (snd g) \<le> to_ms (fst g) + int d"
    using to_ms_delay(2)[of "fst g" "snd g" d] assms(2) r by (simp add: in_time_def)
  moreover have "to_ms u \<le> to_ms t" by (rule to_ms_mono) (use assms in auto)
  ultimately show ?thesis using assms(1) by (simp add: slots_due_def)
qed

lemma mset_filter_subset:
  "A \<subseteq># B \<Longrightarrow> \<forall>x \<in># A. P x \<Longrightarrow> A \<subseteq># filter_mset P B"
  by (metis multiset_filter_mono filter_mset_cong filter_mset_True)

lemma mset_subset_add_one: "A \<subseteq># add_mset x A"
  by (metis add_mset_add_single mset_subset_eq_add_left)

context kv_store
begin

definition log_at :: "('v, issue_log) codec \<Rightarrow> time \<Rightarrow> store_key \<Rightarrow> 's \<Rightarrow> int list" where
  "log_at c t K s = (case kv_get port t K s of
      None \<Rightarrow> [] | Some x \<Rightarrow> (case dec c (ver_value x) of Inl _ \<Rightarrow> [] | Inr log \<Rightarrow> lg_issued_at log))"

text \<open>
  After the grants \<open>G\<close>: no window holds more of them than the limit, and whenever the log is read,
  now or later, it still has every grant that is due.
\<close>

definition slot_state ::
  "('v, issue_log) codec \<Rightarrow> store_key \<Rightarrow> issue_limit \<Rightarrow> nat \<Rightarrow> time \<Rightarrow> 's \<Rightarrow> (time \<times> time) list
     \<Rightarrow> (nat \<times> 'v) set \<Rightarrow> bool" where
  "slot_state c K limit d t s G H \<longleftrightarrow> inv s \<and> seen_ok (issued s K) H \<and> 0 \<le> t
     \<and> (\<forall>x. kv_get port t K s = Some x \<longrightarrow> (ver_version x, ver_value x) \<in> H)
     \<and> (\<forall>g \<in> set G. in_time d t g)
     \<and> (\<forall>a. in_window a (window_ms limit - int d) (map (to_ms \<circ> snd) G) \<le> il_max_issues limit)
     \<and> (\<forall>t'. t \<le> t' \<longrightarrow> in_range t' \<longrightarrow>
          mset (map (to_ms \<circ> fst) (slots_due limit d t' G)) \<subseteq># mset (log_at c t' K s))"

lemma slot_state_later:
  assumes "slot_state c K limit d t s G H" "t \<le> t'"
  shows "slot_state c K limit d t' s G H"
proof -
  have i: "inv s" using assms(1) by (simp add: slot_state_def)
  have "kv_get port t' K s = None \<or> kv_get port t' K s = kv_get port t K s"
    using get_expires[OF i assms(2), of K] by (auto simp: visible_def split: option.splits)
  then show ?thesis using assms by (auto simp: slot_state_def in_time_def)
qed

lemma slot_state_drop:
  assumes "slot_state c K limit d t s (G @ [g]) H"
  shows "slot_state c K limit d t s G H"
proof -
  have "mset (map (to_ms \<circ> fst) (slots_due limit d t' G)) \<subseteq># mset (log_at c t' K s)"
    if "t \<le> t'" "in_range t'" for t'
  proof (rule subset_mset.order_trans)
    show "mset (map (to_ms \<circ> fst) (slots_due limit d t' G))
        \<subseteq># mset (map (to_ms \<circ> fst) (slots_due limit d t' (G @ [g])))"
      by (simp add: slots_due_def)
    show "mset (map (to_ms \<circ> fst) (slots_due limit d t' (G @ [g]))) \<subseteq># mset (log_at c t' K s)"
      using assms that by (simp add: slot_state_def)
  qed
  moreover have "in_window a (window_ms limit - int d) (map (to_ms \<circ> snd) G) \<le> il_max_issues limit" for a
  proof -
    have "in_window a (window_ms limit - int d) (map (to_ms \<circ> snd) (G @ [g])) \<le> il_max_issues limit"
      using assms by (simp add: slot_state_def)
    then show ?thesis by (simp add: in_window_snoc split: if_splits)
  qed
  ultimately show ?thesis using assms by (simp add: slot_state_def)
qed

text \<open>The write of a request that read the clock at \<open>u\<close>, over the log as it stands.\<close>

lemma slot_written:
  assumes st: "slot_state c K limit d t s G H"
    and u: "0 \<le> u" "u \<le> t" "t \<le> u + int d * 1000000" and range: "in_range (t + int (il_window limit))"
    and y: "one_more c limit u (log_at c t K s) y"
    and p: "kv_put port t K y (At (plus_time u (il_window limit))) s = (v, s')"
  shows "slot_state c K limit d t s' (G @ [(u, t)]) (insert (v, y) H)"
proof -
  let ?w = "window_ms limit" and ?W = "il_window limit" and ?G = "G @ [(u, t)]"
  have i: "inv s" and ok: "seen_ok (issued s K) H" and times: "\<forall>g \<in> set G. in_time d t g"
    and win: "\<And>a. in_window a (?w - int d) (map (to_ms \<circ> snd) G) \<le> il_max_issues limit"
    and known: "\<And>t'. t \<le> t' \<Longrightarrow> in_range t' \<Longrightarrow>
      mset (map (to_ms \<circ> fst) (slots_due limit d t' G)) \<subseteq># mset (log_at c t' K s)"
    using st by (auto simp: slot_state_def)
  have r: "in_range t" "in_range u" "in_range (u + int ?W)" "0 \<le> t"
    using u range by (auto simp: in_range_def datetime_min_def)
  have put: "inv s'" "issued s K < v" "issued s' K = v" using put_version[OF i p] by auto
  have until: "plus_time u ?W = u + int ?W"
  proof -
    have "?W div 1000000000 < 2 ^ 63"
      using u(1) r(3) by (simp add: in_range_def datetime_max_def) linarith
    then show ?thesis using r(3) by (simp add: plus_time_def signed_duration_def time_checked_add_def)
  qed
  have get: "kv_get port t' K s' = (if t' < u + int ?W
      then Some \<lparr>ver_value = y, ver_version = v, ver_expires_at = Some (u + int ?W)\<rparr> else None)"
    if "t \<le> t'" for t'
    using put_get_same[OF i p that] until by (simp add: resolve_expiry_def visible_def alive_def)
  have times': "\<forall>g \<in> set ?G. in_time d t g" using times u by (auto simp: in_time_def)
  let ?old = "slots_left limit u (log_at c t K s)"
  have left: "mset ?old = filter_mset (\<lambda>m. m > to_ms u - ?w) (mset (log_at c t K s))"
    using horizon[OF u(1) r(2), of ?W] by (simp add: slots_left_def window_ms_def)
  have have_due: "mset (map (to_ms \<circ> fst) (slots_due limit d t G)) \<subseteq># mset ?old"
    unfolding left
  proof (rule mset_filter_subset[OF known[OF order_refl r(1)]])
    show "\<forall>m \<in># mset (map (to_ms \<circ> fst) (slots_due limit d t G)). m > to_ms u - ?w"
      using due_in_window[OF _ _ r(1) u(1,2)] times by (auto simp: slots_due_def)
  qed
  have win': "in_window a (?w - int d) (map (to_ms \<circ> snd) ?G) \<le> il_max_issues limit" for a
  proof (cases "a < to_ms t \<and> to_ms t \<le> a + (?w - int d)")
    case True
    have "in_window a (?w - int d) (map (to_ms \<circ> snd) G) \<le> length (slots_due limit d t G)"
      unfolding in_window_def slots_due_def filter_map length_map comp_def
      by (rule length_filter_le_filter) (use True in auto)
    also have "\<dots> \<le> length ?old" using size_mset_mono[OF have_due] by simp
    finally show ?thesis using y True by (simp add: in_window_snoc one_more_def)
  next
    case False
    then show ?thesis using win[of a] by (auto simp: in_window_snoc)
  qed
  have known': "mset (map (to_ms \<circ> fst) (slots_due limit d t' ?G)) \<subseteq># mset (log_at c t' K s')"
    if t': "t \<le> t'" "in_range t'" for t'
  proof (cases "t' < u + int ?W")
    case True
    have "mset (map (to_ms \<circ> fst) (slots_due limit d t' G)) \<subseteq># mset (map (to_ms \<circ> fst) (slots_due limit d t G))"
      using image_mset_subseteq_mono[OF slots_due_later[OF r(4) t']] by simp
    then have "mset (map (to_ms \<circ> fst) (slots_due limit d t' G)) \<subseteq># mset ?old"
      using have_due by (rule subset_mset.order_trans)
    moreover have "log_at c t' K s' = ?old @ [to_ms u]"
      using get[OF t'(1)] True y by (simp add: log_at_def one_more_def)
    ultimately show ?thesis
      by (auto simp: slots_due_def intro: subset_mset.order_trans[OF _ mset_subset_add_one])
  next
    case False
    have "to_ms u \<le> to_ms t' - ?w"
      unfolding window_ms_def using False by (intro window_over[OF u(1) t'(2)]) simp
    moreover have "to_ms t \<le> to_ms u + int d" by (rule to_ms_delay(2)[OF u r(1)])
    moreover have "to_ms (snd g) \<le> to_ms t" if "g \<in> set ?G" for g
      using times' that r(1) to_ms_mono[of "snd g" t] by (auto simp: in_time_def)
    ultimately have "slots_due limit d t' ?G = []"
      unfolding slots_due_def by (intro filter_False) force
    then show ?thesis by simp
  qed
  show ?thesis
    unfolding slot_state_def
    using put(1,3) seen_ok_insert[OF ok put(2)] r(4) get[OF order_refl] times' win' known' by auto
qed

text \<open>A step of a request without a slot: no change, or a write over the log as it stands.\<close>

lemma reserving_step:
  assumes st: "slot_state c K limit d t s G H" and p: "reserving c K limit u p H"
    and step: "proc_step port t p s p' s'"
  shows "(s' = s \<and> reserving c K limit u p' H)
    \<or> (\<exists>y v. one_more c limit u (log_at c t K s) y
        \<and> kv_put port t K y (At (plus_time u (il_window limit))) s = (v, s')
        \<and> (p' = Ret (Inr None) \<or> reserving c K limit u p' H))"
proof (cases p)
  case (Get k f)
  have "(ver_version x, ver_value x) \<in> H" if "kv_get port t K s = Some x" for x
    using st that by (simp add: slot_state_def)
  then show ?thesis using step Get p by (auto elim!: proc_step_GetE)
next
  case (PutIfAbsent k y e f)
  have k: "k = K" "e = At (plus_time u (il_window limit))" "one_more c limit u [] y"
    and yes: "\<And>v. f (Inr (Some v)) = Ret (Inr None)"
    and no: "\<And>r. (\<forall>v. r \<noteq> Inr (Some v)) \<Longrightarrow> reserving c K limit u (f r) H"
    using p PutIfAbsent by auto
  obtain res s1 where r: "kv_put_if_absent port t K y e s = (res, s1)" by fastforce
  have i: "inv s" using st by (simp add: slot_state_def)
  have eff: "(res = None \<and> s1 = s) \<or> (\<exists>v. res = Some v \<and> one_more c limit u (log_at c t K s) y
      \<and> kv_put port t K y e s = (v, s1))"
    using put_if_absent_cases[OF i r] k(3) by (auto simp: log_at_def)
  from step PutIfAbsent r k(1) have "(s' = s \<and> (\<exists>err. p' = f (Inl err)))
      \<or> (s' = s1 \<and> (p' = f (Inr res) \<or> (\<exists>err. p' = f (Inl err))))"
    by (auto elim!: proc_step_PutIfAbsentE)
  then show ?thesis using eff yes no k(2) by auto
next
  case (CompareAndSwap k ver new e f)
  obtain x log y where k: "k = K" "e = At (plus_time u (il_window limit))" and x: "(ver, x) \<in> H"
      "dec c x = Inr log" "new = Some y" "one_more c limit u (lg_issued_at log) y"
    and yes: "\<And>v. f (Inr (Some v)) = Ret (Inr None)"
    and no: "\<And>r. (\<forall>v. r \<noteq> Inr (Some v)) \<Longrightarrow> reserving c K limit u (f r) H"
    using p CompareAndSwap by auto
  obtain res s1 where r: "kv_compare_and_swap port t K ver (Some y) e s = (res, s1)" by fastforce
  have i: "inv s" and ok: "seen_ok (issued s K) H"
    and live: "\<And>z. kv_get port t K s = Some z \<Longrightarrow> (ver_version z, ver_value z) \<in> H"
    using st by (auto simp: slot_state_def)
  have "log_at c t K s = lg_issued_at log" if z: "kv_get port t K s = Some z" "ver_version z = ver" for z
  proof -
    have "ver_value z = x" using live[OF z(1)] x(1) z(2) ok by (auto simp: seen_ok_def)
    then show ?thesis using z(1) x(2) by (simp add: log_at_def)
  qed
  then have eff: "(res = None \<and> s1 = s) \<or> (\<exists>v. res = Some v \<and> one_more c limit u (log_at c t K s) y
      \<and> kv_put port t K y e s = (v, s1))"
    using cas_cases[OF i r] x(4) by auto
  from step CompareAndSwap r k(1) x(3) have "(s' = s \<and> (\<exists>err. p' = f (Inl err)))
      \<or> (s' = s1 \<and> (p' = f (Inr res) \<or> (\<exists>err. p' = f (Inl err))))"
    by (auto elim!: proc_step_CasE)
  then show ?thesis using eff yes no k(2) by auto
qed (use p step in auto)

definition issue_inv ::
  "('v, issue_log) codec \<Rightarrow> store_key \<Rightarrow> issue_limit \<Rightarrow> time list \<Rightarrow> nat \<Rightarrow> time list
     \<Rightarrow> ('s, 'v) issue_pool \<Rightarrow> bool" where
  "issue_inv c K limit ts d G Q \<longleftrightarrow>
     (\<exists>G' H. G = map snd G' \<and> slot_state c K limit d (pl_now Q) (pl_store Q) G' H
        \<and> (\<forall>i < length (pl_procs Q). request_ok c K limit (ts ! i) (pl_now Q) (pl_procs Q ! i) H))"

lemma issue_inv_work:
  assumes I: "issue_inv c K limit ts d G Q" and range: "in_range (pl_now Q + int (il_window limit))"
    and i: "i < length (pl_procs Q)" and t: "ts ! i \<le> pl_now Q" "pl_now Q \<le> ts ! i + int d * 1000000"
    and step: "proc_step port (pl_now Q) (pl_procs Q ! i) (pl_store Q) p' s'"
  shows "issue_inv c K limit ts d (if slot_granted p' then G @ [pl_now Q] else G)
    (Q\<lparr>pl_store := s', pl_procs := (pl_procs Q)[i := p']\<rparr>)"
proof -
  let ?t = "pl_now Q" and ?s = "pl_store Q"
  obtain G' H where G: "G = map snd G'" and st: "slot_state c K limit d ?t ?s G' H"
      and ok: "\<forall>i < length (pl_procs Q). request_ok c K limit (ts ! i) ?t (pl_procs Q ! i) H"
    using I by (auto simp: issue_inv_def)
  have upd: "issue_inv c K limit ts d (map snd G'') (Q\<lparr>pl_store := s', pl_procs := (pl_procs Q)[i := p']\<rparr>)"
    if "slot_state c K limit d ?t s' G'' H'" "H \<subseteq> H'" "request_ok c K limit (ts ! i) ?t p' H'" for G'' H'
    unfolding issue_inv_def
  proof (intro exI[of _ G''] exI[of _ H'] conjI allI impI)
    fix j assume "j < length (pl_procs (Q\<lparr>pl_store := s', pl_procs := (pl_procs Q)[i := p']\<rparr>))"
    then show "request_ok c K limit (ts ! j) (pl_now (Q\<lparr>pl_store := s', pl_procs := (pl_procs Q)[i := p']\<rparr>))
        (pl_procs (Q\<lparr>pl_store := s', pl_procs := (pl_procs Q)[i := p']\<rparr>) ! j) H'"
      using that ok request_ok_mono[OF _ that(2) order_refl] by (cases "j = i") auto
  qed (use that in simp_all)
  consider "slot_granted (pl_procs Q ! i)"
    | f where "pl_procs Q ! i = Now f" "\<forall>u H'. reserving c K limit u (f u) H'"
    | u where "0 \<le> u" "ts ! i \<le> u" "u \<le> ?t" "reserving c K limit u (pl_procs Q ! i) H"
    using ok i by (auto simp: request_ok_def)
  then show ?thesis
  proof cases
    case 1
    then show ?thesis using step by (auto simp: granted_cases)
  next
    case (2 f)
    then have p: "s' = ?s" "reserving c K limit ?t p' H" using step by (auto elim!: proc_step_NowE)
    have "0 \<le> ?t" using st by (simp add: slot_state_def)
    then have "request_ok c K limit (ts ! i) ?t p' H" using p(2) t(1) by (auto simp: request_ok_def)
    then show ?thesis using upd[OF _ order_refl] st p G reserving_not_granted[OF p(2)] by simp
  next
    case (3 u)
    have late: "?t \<le> u + int d * 1000000" using 3(2) t(2) by linarith
    from reserving_step[OF st 3(4) step] consider "s' = ?s" "reserving c K limit u p' H"
      | y v where "one_more c limit u (log_at c ?t K ?s) y"
        "kv_put port ?t K y (At (plus_time u (il_window limit))) ?s = (v, s')"
        "p' = Ret (Inr None) \<or> reserving c K limit u p' H" by blast
    then show ?thesis
    proof cases
      case 1
      then have "request_ok c K limit (ts ! i) ?t p' H" using 3 by (auto simp: request_ok_def)
      then show ?thesis using upd[OF _ order_refl] st 1 G reserving_not_granted[OF 1(2)] by simp
    next
      case (2 y v)
      note new = slot_written[OF st 3(1,3) late range 2(1,2)]
      show ?thesis
      proof (cases "slot_granted p'")
        case True
        then have "request_ok c K limit (ts ! i) ?t p' (insert (v, y) H)" by (simp add: request_ok_def)
        from upd[OF new subset_insertI this] show ?thesis using True G by simp
      next
        case False
        then have "reserving c K limit u p' (insert (v, y) H)"
          using 2(3) reserving_mono[OF _ subset_insertI] by (auto simp: granted_cases)
        then have "request_ok c K limit (ts ! i) ?t p' (insert (v, y) H)" using 3 by (auto simp: request_ok_def)
        from upd[OF slot_state_drop[OF new] subset_insertI this] show ?thesis using False G by simp
      qed
    qed
  qed
qed

lemma issue_run_now: "issue_run port ts d P G Q \<Longrightarrow> pl_now P \<le> pl_now Q"
  by (induction rule: issue_run.induct) auto

lemma issue_run_inv:
  assumes "issue_run port ts d P G Q" "issue_inv c K limit ts d [] P"
    "in_range (pl_now Q + int (il_window limit))"
  shows "issue_inv c K limit ts d G Q"
  using assms(1,3)
proof (induction rule: issue_run.induct)
  case start
  show ?case by (rule assms(2))
next
  case (wait G Q t)
  have "0 \<le> pl_now P" using assms(2) by (auto simp: issue_inv_def slot_state_def)
  then have "in_range (pl_now Q + int (il_window limit))"
    using wait issue_run_now[OF wait.hyps(1)] by (simp add: in_range_def datetime_min_def)
  from wait.IH[OF this] obtain G' H where "G = map snd G'"
      "slot_state c K limit d (pl_now Q) (pl_store Q) G' H"
      "\<forall>i < length (pl_procs Q). request_ok c K limit (ts ! i) (pl_now Q) (pl_procs Q ! i) H"
    by (auto simp: issue_inv_def)
  then show ?case
    unfolding issue_inv_def
    by (intro exI[of _ G'] exI[of _ H])
      (use wait.hyps(2) slot_state_later request_ok_mono in \<open>auto intro: request_ok_mono[OF _ order_refl]\<close>)
next
  case (work G Q i p' s')
  then show ?case using issue_inv_work by simp
qed

end

section \<open>Properties\<close>

text \<open>
  C13. The issue limit holds for concurrent requests. Any number of requests, each starting with
  its own reading of the clock, run interleaved store call by store call, with time passing, records
  expiring and calls failing before or after they took effect. If every step of a request is within
  \<open>d\<close> milliseconds of its start, any window \<open>d\<close> shorter than the configured one, wherever it
  starts, has at most \<open>max_issues\<close> grants: the configured window itself for requests that take no
  time, however they interleave.
\<close>

theorem issue_limit_holds:
  assumes "kv_ok (pl_store P)" and "good_codec (oe_log_codec env)"
    and "\<forall>t. mem_get t (store_key_new ISSUE_LOG_NAMESPACE key) (pl_store P) = None"
    and "0 \<le> pl_now P" and "in_range (pl_now Q + int (il_window limit))"
    and "pl_procs P = map (\<lambda>_. Now (reserve_issue env svc key limit)) ts"
    and "issue_run memory_kv ts d P granted Q"
  shows "in_window a (duration_ms (il_window limit) - int d) (map to_ms granted) \<le> il_max_issues limit"
proof -
  let ?c = "oe_log_codec env" and ?K = "store_key_new ISSUE_LOG_NAMESPACE key"
  have "request_ok ?c ?K limit (ts ! i) (pl_now P) (pl_procs P ! i) {}" if "i < length (pl_procs P)" for i
  proof -
    have "\<forall>u H'. reserving ?c ?K limit u (reserve_issue env svc key limit u) H'"
      by (simp add: reserve_issue_def reserving_rounds[OF assms(2)])
    then show ?thesis using that assms(6) unfolding request_ok_def by auto
  qed
  then have "mem.issue_inv ?c ?K limit ts d [] P"
    using assms(1,3,4)
    by (auto simp: mem.issue_inv_def mem.slot_state_def seen_ok_def in_window_def slots_due_def)
  from mem.issue_run_inv[OF assms(7) this assms(5)] show ?thesis
    by (auto simp: mem.issue_inv_def mem.slot_state_def window_ms_def)
qed

text \<open>Two requests find no log; the first takes the only slot, the other's write fails.\<close>

lemma demo_round:
  fixes limit :: issue_limit
  assumes "0 < il_max_issues limit"
  obtains f g y where
    "reserve_issue demo_env demo_service ''k'' limit 0 = Get (store_key_new ISSUE_LOG_NAMESPACE ''k'') f"
    "f (Inr None) = PutIfAbsent (store_key_new ISSUE_LOG_NAMESPACE ''k'') y (At (plus_time 0 (il_window limit))) g"
    "\<And>v. g (Inr (Some v)) = Ret (Inr None)" "\<not> slot_granted (g (Inr None))"
proof -
  obtain n where n: "cas_budget demo_service = Suc n"
    by (metis cas_budget_def add_gr_0 gr0_implies_Suc zero_less_numeral)
  have "\<not> slot_granted (reserve_rounds n demo_env ''k'' limit 0)"
    using reserving_not_granted[OF reserving_rounds[OF demo_codecs(2)]] .
  then show ?thesis
    using that n assms
    by (simp add: reserve_issue_def pstore_def js_get_def js_put_if_absent_def js_encode_def demo_env_def Let_def)
qed

theorem issue_limit_holds_witness:
  "\<exists>(P :: ((stored_challenge + issue_log) kv_state, stored_challenge + issue_log) issue_pool) Q.
     issue_run memory_kv [0, 0] 0 P [0] Q
     \<and> in_window (- 1) 1000 (map to_ms [0]) \<le> 1"
proof -
  let ?l = "\<lparr>il_max_issues = 1, il_window = secs 1\<rparr>" and ?K = "store_key_new ISSUE_LOG_NAMESPACE ''k''"
  let ?e = "empty_state :: (stored_challenge + issue_log) kv_state"
  obtain f g y where f: "reserve_issue demo_env demo_service ''k'' ?l 0 = Get ?K f"
      "f (Inr None) = PutIfAbsent ?K y (At (plus_time 0 (il_window ?l))) g"
      "\<And>v. g (Inr (Some v)) = Ret (Inr None)" "\<not> slot_granted (g (Inr None))"
    by (rule demo_round[of ?l]) (simp, rule that)
  define req where "req = Now (reserve_issue demo_env demo_service ''k'' ?l)"
  define P where "P = \<lparr>pl_store = ?e, pl_now = 0, pl_procs = [req, req]\<rparr>"
  have one: "issue_run memory_kv [0, 0] 0 P (if slot_granted p' then G @ [0] else G)
      \<lparr>pl_store = s', pl_now = 0, pl_procs = [p, q][i := p']\<rparr>"
    if "issue_run memory_kv [0, 0] 0 P G \<lparr>pl_store = s, pl_now = 0, pl_procs = [p, q]\<rparr>"
      "proc_step memory_kv 0 ([p, q] ! i) s p' s'" "i < 2" for G s p q i p' s'
    using issue_run.work[OF that(1), of i p' s'] that(2,3) by (cases i) (auto simp: less_Suc_eq)
  obtain v s where w: "kv_put_if_absent memory_kv 0 ?K y (At (plus_time 0 (secs 1))) ?e = (Some v, s)"
    using mem.put_if_absent_free[OF kv_ok_empty, of 0 ?K y "At (plus_time 0 (secs 1))"]
    by (auto simp: demo_free split: prod.splits)
  have none: "kv_get memory_kv 0 ?K ?e = None" by (simp add: demo_free)
  have taken: "kv_put_if_absent memory_kv 0 ?K y (At (plus_time 0 (secs 1))) s = (None, s)"
  proof -
    obtain v' where "kv_put memory_kv 0 ?K y (At (plus_time 0 (secs 1))) ?e = (v', s)"
      using mem.put_if_absent_cases[OF kv_ok_empty w] by auto
    from mem.put_get_same[OF kv_ok_empty this order_refl] mem.put_version[OF kv_ok_empty this]
    show ?thesis
      by (intro mem.put_if_absent_live)
        (auto simp: visible_def resolve_expiry_def alive_def plus_time_def secs_def signed_duration_def
          time_checked_add_def in_range_def datetime_min_def datetime_max_def)
  qed
  have "issue_run memory_kv [0, 0] 0 P [] \<lparr>pl_store = ?e, pl_now = 0, pl_procs = [req, req]\<rparr>"
    using issue_run.start[of memory_kv "[0, 0]" 0 P] by (simp add: P_def)
  from one[OF this, of 0 "Get ?K f" ?e] have "issue_run memory_kv [0, 0] 0 P []
      \<lparr>pl_store = ?e, pl_now = 0, pl_procs = [Get ?K f, req]\<rparr>"
    using proc_step.now[of memory_kv 0 "reserve_issue demo_env demo_service ''k'' ?l" ?e] f(1)
    by (simp add: req_def granted_cases)
  from one[OF this, of 1 "Get ?K f" ?e] have "issue_run memory_kv [0, 0] 0 P []
      \<lparr>pl_store = ?e, pl_now = 0, pl_procs = [Get ?K f, Get ?K f]\<rparr>"
    using proc_step.now[of memory_kv 0 "reserve_issue demo_env demo_service ''k'' ?l" ?e] f(1)
    by (simp add: req_def granted_cases)
  from one[OF this, of 0 "f (Inr None)" ?e] have "issue_run memory_kv [0, 0] 0 P []
      \<lparr>pl_store = ?e, pl_now = 0, pl_procs = [f (Inr None), Get ?K f]\<rparr>"
    using proc_step.get[of memory_kv 0 ?K f ?e] none by (simp add: f(2) granted_cases)
  from one[OF this, of 1 "f (Inr None)" ?e] have "issue_run memory_kv [0, 0] 0 P []
      \<lparr>pl_store = ?e, pl_now = 0, pl_procs = [f (Inr None), f (Inr None)]\<rparr>"
    using proc_step.get[of memory_kv 0 ?K f ?e] none by (simp add: f(2) granted_cases)
  from one[OF this, of 0 "Ret (Inr None)" s] have "issue_run memory_kv [0, 0] 0 P [0]
      \<lparr>pl_store = s, pl_now = 0, pl_procs = [Ret (Inr None), f (Inr None)]\<rparr>"
    using proc_step.put_if_absent[OF w, of g] by (simp add: f(2,3) granted_cases)
  from one[OF this, of 1 "g (Inr None)" s] have run: "issue_run memory_kv [0, 0] 0 P [0]
      \<lparr>pl_store = s, pl_now = 0, pl_procs = [Ret (Inr None), g (Inr None)]\<rparr>"
    using proc_step.put_if_absent[OF taken, of g] by (simp add: f(2,4))
  have "in_window (- 1) (duration_ms (il_window ?l) - int 0) (map to_ms [0]) \<le> il_max_issues ?l"
    by (rule issue_limit_holds[OF _ demo_codecs(2) _ _ _ _ run])
      (simp_all add: P_def req_def demo_free secs_def in_range_def datetime_min_def datetime_max_def)
  moreover have "duration_ms (secs 1) = 1000" by (simp add: duration_ms_def secs_def I64_MAX_def Let_def)
  ultimately show ?thesis using run by auto
qed

text \<open>
  The margin is needed. The log expires a window after the clock reading of the request that wrote
  it last, not after the newest slot in it: with a limit of two slots in ten seconds, a request
  that read the clock at 0 and wrote at 6 shortens the life of the slot taken at 5, and two more
  slots are granted at 10 and 11.
\<close>

definition issue_at ::
  "issue_limit \<Rightarrow> nat \<Rightarrow> nat \<Rightarrow> (stored_challenge + issue_log) kv_state
     \<Rightarrow> (error + duration option) \<times> (stored_challenge + issue_log) kv_state" where
  "issue_at limit read_at runs_at s =
     (let (r, s', _) = exec memory_kv (\<lambda>w. w) (\<lambda>x w. ((None, Inr []), w))
            (reserve_issue demo_env demo_service ''k'' limit (int (secs read_at))) s (int (secs runs_at))
      in (r, s'))"

lemma late_write_forgets:
  "let limit = \<lparr>il_max_issues = 2, il_window = secs 10\<rparr>;
       (r1, s1) = issue_at limit 5 5 empty_state;
       (r2, s2) = issue_at limit 0 6 s1;
       (r3, s3) = issue_at limit 10 10 s2;
       (r4, s4) = issue_at limit 11 11 s3
   in (r1, r2, r3, r4) = (Inr None, Inr None, Inr None, Inr None)"
proof -
  obtain n where n: "cas_budget demo_service = Suc n"
    by (metis cas_budget_def add_gr_0 gr0_implies_Suc zero_less_numeral)
  show ?thesis
    by (simp add: issue_at_def reserve_issue_def n js_get_def js_put_if_absent_def js_compare_and_swap_def
        js_encode_def demo_env_def mem_defs Let_def secs_def to_ms_def i64_saturating_sub_def duration_ms_def
        I64_MIN_def I64_MAX_def plus_time_def signed_duration_def time_checked_add_def in_range_def
        datetime_min_def datetime_max_def store_key_new_def)
qed

end
