(* ===== verification/Conversation.thy ===== *)
theory Conversation
  imports Prelude
begin

text \<open>
  The conversation history's data, from \<open>meta-whatsapp-core/src/store/conversation.rs\<close>: the
  messages of a conversation and the order their statuses move in, window events, thread owners,
  synced contacts, identity links, what an erasure and a purge report, the retention policy and
  the 24 hour customer service window. Identifiers are texts, and a text is ordered by its bytes.
  The store itself is in \<open>Memory_Conversation\<close>.
\<close>

section \<open>Messages\<close>

record conversation_key =
  ck_phone_number_id :: string
  ck_contact :: string

datatype direction = Inbound | Outbound

datatype delivery_status =
  Received | Accepted | Sent | Delivered | Read | Played | Failed | Deleted

fun status_rank :: "delivery_status \<Rightarrow> nat" where
  "status_rank Received = 0"
| "status_rank Accepted = 0"
| "status_rank Sent = 1"
| "status_rank Delivered = 2"
| "status_rank Read = 3"
| "status_rank Played = 4"
| "status_rank Failed = 5"
| "status_rank Deleted = 5"

definition supersedes :: "delivery_status \<Rightarrow> delivery_status \<Rightarrow> bool" where
  "supersedes new current \<longleftrightarrow> status_rank new > status_rank current"

definition status_from_webhook :: "string \<Rightarrow> delivery_status option" where
  "status_from_webhook s =
     (if s = ''sent'' then Some Sent
      else if s = ''delivered'' then Some Delivered
      else if s = ''read'' then Some Read
      else if s = ''played'' then Some Played
      else if s = ''failed'' then Some Failed
      else if s = ''deleted'' then Some Deleted
      else None)"

record stored_message =
  sm_id :: string
  sm_conversation :: conversation_key
  sm_direction :: direction
  sm_kind :: string
  sm_text :: "string option"
  sm_payload :: json
  sm_status :: delivery_status
  sm_timestamp :: time
  sm_status_at :: "time option"
  sm_error :: "json option"

definition MEDIA_PLACEHOLDER :: string where "MEDIA_PLACEHOLDER = ''media_placeholder''"
definition REVOKED :: string where "REVOKED = ''revoked''"
definition ERASED :: string where "ERASED = ''erased''"

text \<open>The field's value when it is a text, not empty and without U+0000.\<close>

definition sender_field :: "json \<Rightarrow> string \<Rightarrow> string option" where
  "sender_field payload field =
     (case json_get payload field of
        None \<Rightarrow> None
      | Some v \<Rightarrow>
          (case json_as_str v of
             None \<Rightarrow> None
           | Some s \<Rightarrow> if s \<noteq> [] \<and> CHR 0x00 \<notin> set s then Some s else None))"

definition sender :: "stored_message \<Rightarrow> string option" where
  "sender m =
     (if sm_direction m \<noteq> Inbound then None
      else case sender_field (sm_payload m) ''from_user_id'' of
             Some s \<Rightarrow> Some s
           | None \<Rightarrow> sender_field (sm_payload m) ''from'')"

definition redact :: "stored_message \<Rightarrow> stored_message" where
  "redact m = m\<lparr>sm_kind := ERASED, sm_text := None, sm_payload := JObject [], sm_error := None\<rparr>"

definition tombstone :: "conversation_key \<Rightarrow> string \<Rightarrow> direction \<Rightarrow> time \<Rightarrow> stored_message" where
  "tombstone key mid direction at =
     \<lparr>sm_id = mid, sm_conversation = key, sm_direction = direction, sm_kind = REVOKED,
      sm_text = None, sm_payload = JObject [], sm_status = Deleted, sm_timestamp = at,
      sm_status_at = Some at, sm_error = None\<rparr>"

record conversation_summary =
  su_key :: conversation_key
  su_last_message_at :: time
  su_last_inbound_at :: "time option"
  su_last_text :: "string option"
  su_unread :: nat

section \<open>Beside the history\<close>

datatype window_event_kind = CustomerCall | CallAccepted | StandbyMessage | OtherEvent string

fun window_event_kind_as_str :: "window_event_kind \<Rightarrow> string" where
  "window_event_kind_as_str CustomerCall = ''customer_call''"
| "window_event_kind_as_str CallAccepted = ''call_accepted''"
| "window_event_kind_as_str StandbyMessage = ''standby_message''"
| "window_event_kind_as_str (OtherEvent value) = value"

definition window_event_kind_from :: "string \<Rightarrow> window_event_kind" where
  "window_event_kind_from name =
     (if name = ''customer_call'' then CustomerCall
      else if name = ''call_accepted'' then CallAccepted
      else if name = ''standby_message'' then StandbyMessage
      else OtherEvent name)"

record window_event =
  we_conversation :: conversation_key
  we_kind :: window_event_kind
  we_id :: string
  we_at :: time

datatype thread_owner = ThisApp | AnotherApp | Idle

record thread_ownership =
  to_owner :: thread_owner
  to_role :: "string option"
  to_app_id :: "string option"
  to_since :: time

record stored_contact =
  ct_key :: conversation_key
  ct_full_name :: "string option"
  ct_first_name :: "string option"
  ct_phone_number :: "string option"
  ct_user_id :: "string option"
  ct_parent_user_id :: "string option"
  ct_username :: "string option"
  ct_synced_at :: time

record identity_link =
  lk_phone_number_id :: string
  lk_previous :: string
  lk_current :: string
  lk_at :: time

section \<open>Erasure, purge and retention\<close>

datatype erasure_mode = Redact | Delete

record erased =
  er_messages :: nat
  er_conversations :: nat
  er_window_events :: nat
  er_thread_owners :: nat
  er_contacts :: nat
  er_identity_links :: nat
  er_group_messages :: nat

definition erased_default :: erased where
  "erased_default =
     \<lparr>er_messages = 0, er_conversations = 0, er_window_events = 0, er_thread_owners = 0,
      er_contacts = 0, er_identity_links = 0, er_group_messages = 0\<rparr>"

definition erased_is_empty :: "erased \<Rightarrow> bool" where
  "erased_is_empty e \<longleftrightarrow> e = erased_default"

record purged =
  pu_messages :: nat
  pu_conversations :: nat
  pu_window_events :: nat
  pu_thread_owners :: nat
  pu_contact_removals :: nat

definition purged_default :: purged where
  "purged_default =
     \<lparr>pu_messages = 0, pu_conversations = 0, pu_window_events = 0, pu_thread_owners = 0,
      pu_contact_removals = 0\<rparr>"

text \<open>The counts are \<open>u64\<close>; the sum of two reports saturates.\<close>

definition u64_saturating_add :: "nat \<Rightarrow> nat \<Rightarrow> nat" where
  "u64_saturating_add a b = min (a + b) (2 ^ 64 - 1)"

definition purged_add :: "purged \<Rightarrow> purged \<Rightarrow> purged" where
  "purged_add p other =
     \<lparr>pu_messages = u64_saturating_add (pu_messages p) (pu_messages other),
      pu_conversations = u64_saturating_add (pu_conversations p) (pu_conversations other),
      pu_window_events = u64_saturating_add (pu_window_events p) (pu_window_events other),
      pu_thread_owners = u64_saturating_add (pu_thread_owners p) (pu_thread_owners other),
      pu_contact_removals = u64_saturating_add (pu_contact_removals p) (pu_contact_removals other)\<rparr>"

definition purged_is_empty :: "purged \<Rightarrow> bool" where
  "purged_is_empty p \<longleftrightarrow> p = purged_default"

datatype retention = KeepAll | For duration

definition retention_days :: "nat \<Rightarrow> retention" where
  "retention_days n = For (hours (24 * n))"

fun retention_cutoff :: "retention \<Rightarrow> time \<Rightarrow> time option" where
  "retention_cutoff KeepAll now = None"
| "retention_cutoff (For d) now =
     (case signed_duration d of
        None \<Rightarrow> None
      | Some d' \<Rightarrow> time_checked_add now (- d'))"

section \<open>The customer service window\<close>

record customer_service_window =
  cw_last_inbound_at :: "time option"

definition WINDOW_LENGTH :: duration where "WINDOW_LENGTH = hours 24"

definition from_last_inbound :: "time option \<Rightarrow> customer_service_window" where
  "from_last_inbound t = \<lparr>cw_last_inbound_at = t\<rparr>"

text \<open>
  The sum panics when it is no date the type can hold: \<open>None\<close>. Otherwise the answer is the
  instant, if the window was ever opened.
\<close>

definition closes_at :: "customer_service_window \<Rightarrow> time option option" where
  "closes_at w =
     (case cw_last_inbound_at w of
        None \<Rightarrow> Some None
      | Some t \<Rightarrow> map_option Some (time_checked_add t (int WINDOW_LENGTH)))"

definition is_open :: "customer_service_window \<Rightarrow> time \<Rightarrow> bool option" where
  "is_open w now =
     map_option (\<lambda>c. case c of None \<Rightarrow> False | Some close \<Rightarrow> now < close) (closes_at w)"

lemma supersedes_irrefl [simp]: "\<not> supersedes s s"
  by (simp add: supersedes_def)

lemma supersedes_trans: "supersedes a b \<Longrightarrow> supersedes b c \<Longrightarrow> supersedes a c"
  by (simp add: supersedes_def)

lemma redact_sel [simp]:
  "sm_id (redact m) = sm_id m" "sm_conversation (redact m) = sm_conversation m"
  "sm_timestamp (redact m) = sm_timestamp m" "sm_status (redact m) = sm_status m"
  "sm_direction (redact m) = sm_direction m" "sm_kind (redact m) = ERASED"
  "sm_text (redact m) = None"
  by (simp_all add: redact_def)

lemma tombstone_sel [simp]:
  "sm_id (tombstone k i d t) = i" "sm_conversation (tombstone k i d t) = k"
  "sm_timestamp (tombstone k i d t) = t" "sm_status (tombstone k i d t) = Deleted"
  "sm_kind (tombstone k i d t) = REVOKED" "sender (tombstone k i d t) = None"
  by (simp_all add: tombstone_def sender_def sender_field_def)

lemma sender_nonempty: "sender m \<noteq> Some []"
  by (auto simp: sender_def sender_field_def split: option.splits if_splits)

lemma kinds_differ [simp]:
  "ERASED \<noteq> REVOKED" "REVOKED \<noteq> ERASED" "MEDIA_PLACEHOLDER \<noteq> REVOKED"
  "REVOKED \<noteq> MEDIA_PLACEHOLDER" "ERASED \<noteq> MEDIA_PLACEHOLDER"
  by (simp_all add: ERASED_def REVOKED_def MEDIA_PLACEHOLDER_def)

end
