(* ===== verification/Ordered_Index.thy ===== *)
theory Ordered_Index
  imports Prelude
begin

text \<open>
  Indexes and ordered maps. An index is a \<open>HashMap\<close> whose values are \<open>BTreeSet\<close>s, where a key
  whose set gets empty is dropped; \<open>idx\<close> reads it, an absent key as the empty set. A \<open>BTreeMap\<close>
  is an association list sorted strictly by its keys. The lemmas say what an update does to every
  reader, so that clients never unfold one.
\<close>

section \<open>Indexes\<close>

type_synonym ('k, 'a) index = "('k, 'a list) hashmap"

definition idx :: "('k, 'a) index \<Rightarrow> 'k \<Rightarrow> 'a list" where
  "idx m k = (case map_of m k of None \<Rightarrow> [] | Some xs \<Rightarrow> xs)"

definition idx_insert :: "'k \<Rightarrow> ('a::linorder) \<Rightarrow> ('k, 'a) index \<Rightarrow> ('k, 'a) index" where
  "idx_insert k x m = AList.update k (oset_insert x (idx m k)) m"

definition idx_remove :: "'k \<Rightarrow> 'a \<Rightarrow> ('k, 'a) index \<Rightarrow> ('k, 'a) index" where
  "idx_remove k x m =
     (case map_of m k of
        None \<Rightarrow> m
      | Some xs \<Rightarrow>
          let ys = oset_remove x xs in if ys = [] then AList.delete k m else AList.update k ys m)"

definition idx_ok :: "('k, 'a::linorder) index \<Rightarrow> bool" where
  "idx_ok m \<longleftrightarrow> keys_distinct m \<and> (\<forall>k xs. map_of m k = Some xs \<longrightarrow> oset_ok xs \<and> xs \<noteq> [])"

lemma idx_Nil [simp]: "idx [] k = []"
  by (simp add: idx_def)

lemma idx_ok_Nil [simp]: "idx_ok []"
  by (simp add: idx_ok_def)

lemma idx_insert [simp]:
  "idx (idx_insert k x m) k' = (if k' = k then oset_insert x (idx m k) else idx m k')"
  by (simp add: idx_insert_def idx_def)

lemma idx_delete [simp]: "idx (AList.delete k m) k' = (if k' = k then [] else idx m k')"
  by (simp add: idx_def)

lemma idx_remove [simp]:
  "idx (idx_remove k x m) k' = (if k' = k then oset_remove x (idx m k) else idx m k')"
  by (auto simp: idx_remove_def idx_def Let_def oset_remove_def split: option.split)

lemma oset_insert_nonempty [simp]: "oset_insert x xs \<noteq> []"
  using set_oset_insert[of x xs] by force

lemma oset_ok_idx: "idx_ok m \<Longrightarrow> oset_ok (idx m k)"
  by (auto simp: idx_ok_def idx_def split: option.split)

lemma idx_ok_insert [simp, intro]: "idx_ok m \<Longrightarrow> idx_ok (idx_insert k x m)"
  by (auto simp: idx_ok_def idx_insert_def idx_def split: option.splits if_splits)

lemma idx_ok_delete [simp, intro]: "idx_ok m \<Longrightarrow> idx_ok (AList.delete k m)"
  by (auto simp: idx_ok_def split: if_splits)

lemma idx_ok_remove [simp, intro]: "idx_ok m \<Longrightarrow> idx_ok (idx_remove k x m)"
  by (auto simp: idx_ok_def idx_remove_def Let_def split: option.splits if_splits)

text \<open>A key is in the map exactly when its set has an element.\<close>

lemma map_of_idx: "idx_ok m \<Longrightarrow> map_of m k = (if idx m k = [] then None else Some (idx m k))"
  by (auto simp: idx_ok_def idx_def split: option.split)

lemma idx_member: "idx_ok m \<Longrightarrow> (k, xs) \<in> set m \<Longrightarrow> xs = idx m k \<and> xs \<noteq> []"
  by (auto simp: idx_ok_def idx_def map_of_mem split: option.split)

definition find_map :: "('a \<Rightarrow> 'b option) \<Rightarrow> 'a list \<Rightarrow> 'b option" where
  "find_map f xs =
     foldr (\<lambda>x r. case f x of Some y \<Rightarrow> Some y | None \<Rightarrow> r) xs None"

lemma find_map_simps [simp]:
  "find_map f [] = None"
  "find_map f (x # xs) = (case f x of Some y \<Rightarrow> Some y | None \<Rightarrow> find_map f xs)"
  by (simp_all add: find_map_def split: option.split)

lemma find_map_None: "find_map f xs = None \<longleftrightarrow> (\<forall>x\<in>set xs. f x = None)"
  by (induction xs) (auto split: option.split)

text \<open>The collection of an iterator into a \<open>BTreeSet\<close>.\<close>

definition oset_of :: "('a::linorder) list \<Rightarrow> 'a list" where
  "oset_of xs = fold oset_insert xs []"

lemma oset_of: "oset_ok (oset_of xs) \<and> set (oset_of xs) = set xs"
proof -
  have "oset_ok (fold oset_insert xs ys) \<and> set (fold oset_insert xs ys) = set xs \<union> set ys"
    if "oset_ok ys" for ys :: "'a list"
    using that by (induction xs arbitrary: ys) auto
  from this[of "[]"] show ?thesis by (simp add: oset_of_def)
qed

lemmas oset_of_ok [simp] = conjunct1[OF oset_of]
lemmas set_oset_of [simp] = conjunct2[OF oset_of]

section \<open>Ordered maps\<close>

type_synonym ('k, 'v) btreemap = "('k \<times> 'v) list"

fun omap_insert :: "('k::linorder) \<Rightarrow> 'v \<Rightarrow> ('k, 'v) btreemap \<Rightarrow> ('k, 'v) btreemap" where
  "omap_insert k v [] = [(k, v)]"
| "omap_insert k v (e # m) =
     (if k < fst e then (k, v) # e # m
      else if k = fst e then (k, v) # m
      else e # omap_insert k v m)"

definition omap_ok :: "('k::linorder, 'v) btreemap \<Rightarrow> bool" where
  "omap_ok m \<longleftrightarrow> sorted_wrt (\<lambda>a b. fst a < fst b) m"

lemma omap_ok_Nil [simp]: "omap_ok []"
  by (simp add: omap_ok_def)

lemma keys_omap_insert [simp]: "fst ` set (omap_insert k v m) = insert k (fst ` set m)"
  by (induction m) auto

lemma omap_ok_Cons: "omap_ok (e # m) \<longleftrightarrow> (\<forall>k\<in>fst ` set m. fst e < k) \<and> omap_ok m"
  by (auto simp: omap_ok_def)

lemma omap_ok_insert [simp, intro]: "omap_ok m \<Longrightarrow> omap_ok (omap_insert k v m)"
  by (induction m) (auto simp: omap_ok_Cons intro: order.strict_trans)

lemma map_of_omap_insert [simp]:
  "omap_ok m \<Longrightarrow> map_of (omap_insert k v m) x = (if x = k then Some v else map_of m x)"
proof (induction m)
  case (Cons e m)
  have "map_of m k = None" if "k \<le> fst e"
    using that Cons.prems by (auto simp: omap_ok_Cons map_of_eq_None_iff)
  with Cons show ?case by (cases e) (auto simp: omap_ok_Cons)
qed simp

lemma omap_ok_filter [simp, intro]: "omap_ok m \<Longrightarrow> omap_ok (filter P m)"
  by (simp add: omap_ok_def sorted_wrt_filter)

lemma omap_keys_distinct: "omap_ok m \<Longrightarrow> keys_distinct m"
  by (induction m) (auto simp: omap_ok_Cons keys_distinct_def)

end
