(* ===== verification/Memory_Conversation.thy ===== *)
theory Memory_Conversation
  imports Conversation Ordered_Index
begin

text \<open>
  The in-process conversation store of \<open>meta-whatsapp-adapters/src/store/memory_conversation.rs\<close>:
  its state and every operation of the trait \<open>ConversationStore\<close>. An operation holds the store's
  lock for its whole run and never fails, so it is one function from state to answer and state;
  a read is a function of the state. The retention and the erasure mode are the store's settings,
  an argument of the two operations that read them. Where the code walks a \<open>HashMap\<close>, whose order
  is not specified, the walk here follows the association list; no answer depends on it.
\<close>

section \<open>State\<close>

record summary =
  ss_last_message_at :: time
  ss_last_message_id :: string
  ss_last_text :: "string option"
  ss_last_inbound_at :: "time option"
  ss_unread :: nat

datatype synced = Contact stored_contact | Removed time

record conv_state =
  cs_messages :: "(string, stored_message) hashmap"
  cs_history :: "(conversation_key, time \<times> string) index"
  cs_conversations :: "(conversation_key, summary) hashmap"
  cs_window_events :: "(string \<times> string, window_event) hashmap"
  cs_window_index :: "(conversation_key, time \<times> string) index"
  cs_owners :: "(conversation_key, thread_ownership) hashmap"
  cs_contacts :: "(string \<times> string, synced) btreemap"
  cs_senders :: "(string \<times> string, string) index"
  cs_sender_of :: "(string, string) hashmap"
  cs_links :: "(string \<times> string \<times> string, time) btreemap"

definition conv_empty :: conv_state where
  "conv_empty =
     \<lparr>cs_messages = [], cs_history = [], cs_conversations = [], cs_window_events = [],
      cs_window_index = [], cs_owners = [], cs_contacts = [], cs_senders = [],
      cs_sender_of = [], cs_links = []\<rparr>"

fun synced_at :: "synced \<Rightarrow> time" where
  "synced_at (Contact c) = ct_synced_at c"
| "synced_at (Removed at) = at"

fun synced_contact :: "synced \<Rightarrow> stored_contact option" where
  "synced_contact (Contact c) = Some c"
| "synced_contact (Removed _) = None"

section \<open>Rows\<close>

definition insert_row :: "stored_message \<Rightarrow> conv_state \<Rightarrow> bool \<times> conv_state" where
  "insert_row m st =
     (if map_of (cs_messages st) (sm_id m) \<noteq> None then (False, st)
      else
        let st = st\<lparr>cs_history :=
                  idx_insert (sm_conversation m) (sm_timestamp m, sm_id m) (cs_history st)\<rparr>;
            st = (case sender m of
                    None \<Rightarrow> st
                  | Some s \<Rightarrow>
                      st\<lparr>cs_senders := idx_insert (ck_phone_number_id (sm_conversation m), s) (sm_id m)
                                         (cs_senders st),
                         cs_sender_of := AList.update (sm_id m) s (cs_sender_of st)\<rparr>)
        in (True, st\<lparr>cs_messages := AList.update (sm_id m) m (cs_messages st)\<rparr>))"

definition unindex_sender :: "stored_message \<Rightarrow> conv_state \<Rightarrow> conv_state" where
  "unindex_sender m st =
     (case map_of (cs_sender_of st) (sm_id m) of
        None \<Rightarrow> st
      | Some s \<Rightarrow>
          st\<lparr>cs_sender_of := AList.delete (sm_id m) (cs_sender_of st),
             cs_senders := idx_remove (ck_phone_number_id (sm_conversation m), s) (sm_id m)
                             (cs_senders st)\<rparr>)"

definition remove_message :: "string \<Rightarrow> conv_state \<Rightarrow> bool \<times> conv_state" where
  "remove_message mid st =
     (case map_of (cs_messages st) mid of
        None \<Rightarrow> (False, st)
      | Some m \<Rightarrow>
          let st = unindex_sender m (st\<lparr>cs_messages := AList.delete mid (cs_messages st)\<rparr>)
          in (True, st\<lparr>cs_history :=
                idx_remove (sm_conversation m) (sm_timestamp m, sm_id m) (cs_history st)\<rparr>))"

definition resummarize :: "conversation_key \<Rightarrow> conv_state \<Rightarrow> conv_state" where
  "resummarize key st =
     (let latest = find_map (\<lambda>(_, mid).
             case map_of (cs_messages st) mid of
               None \<Rightarrow> None
             | Some m \<Rightarrow> if sm_kind m \<noteq> REVOKED then Some m else None)
           (rev (idx (cs_history st) key))
      in case latest of
           Some m \<Rightarrow>
             (case map_of (cs_conversations st) key of
                None \<Rightarrow> st
              | Some s \<Rightarrow>
                  st\<lparr>cs_conversations := AList.update key
                       (s\<lparr>ss_last_message_at := sm_timestamp m, ss_last_message_id := sm_id m,
                          ss_last_text := sm_text m\<rparr>) (cs_conversations st)\<rparr>)
         | None \<Rightarrow> st\<lparr>cs_conversations := AList.delete key (cs_conversations st)\<rparr>)"

definition contact_names :: "synced \<Rightarrow> string list \<Rightarrow> bool" where
  "contact_names synced ids =
     (case synced_contact synced of
        None \<Rightarrow> False
      | Some c \<Rightarrow>
          (case ct_user_id c of None \<Rightarrow> False | Some i \<Rightarrow> i \<in> set ids)
          \<or> (case ct_parent_user_id c of None \<Rightarrow> False | Some i \<Rightarrow> i \<in> set ids)
          \<or> (case ct_phone_number c of None \<Rightarrow> False | Some i \<Rightarrow> i \<in> set ids))"

definition remove_window_event :: "string \<Rightarrow> string \<Rightarrow> conv_state \<Rightarrow> bool \<times> conv_state" where
  "remove_window_event number eid st =
     (case map_of (cs_window_events st) (number, eid) of
        None \<Rightarrow> (False, st)
      | Some e \<Rightarrow>
          (True, st\<lparr>cs_window_events := AList.delete (number, eid) (cs_window_events st),
                    cs_window_index := idx_remove (we_conversation e) (we_at e, we_id e)
                                         (cs_window_index st)\<rparr>))"

definition conv_insert :: "stored_message \<Rightarrow> bool \<Rightarrow> conv_state \<Rightarrow> bool \<times> conv_state" where
  "conv_insert m live st =
     (let key = sm_conversation m;
          at = sm_timestamp m;
          opens_window = (live \<and> sm_direction m = Inbound);
          (stored, st) = insert_row m st
      in if \<not> stored then (False, st)
         else case map_of (cs_conversations st) key of
           Some s \<Rightarrow>
             let s = (if (at, sm_id m) > (ss_last_message_at s, ss_last_message_id s)
                      then s\<lparr>ss_last_message_at := at, ss_last_message_id := sm_id m,
                             ss_last_text := sm_text m\<rparr>
                      else s);
                 s = (if opens_window
                      then s\<lparr>ss_last_inbound_at := Some (case ss_last_inbound_at s of
                                 None \<Rightarrow> at | Some t \<Rightarrow> max t at),
                             ss_unread := ss_unread s + 1\<rparr>
                      else s)
             in (True, st\<lparr>cs_conversations := AList.update key s (cs_conversations st)\<rparr>)
         | None \<Rightarrow>
             (True, st\<lparr>cs_conversations := AList.update key
                \<lparr>ss_last_message_at = at, ss_last_message_id = sm_id m, ss_last_text = sm_text m,
                 ss_last_inbound_at = (if opens_window then Some at else None),
                 ss_unread = (if opens_window then 1 else 0)\<rparr> (cs_conversations st)\<rparr>))"

section \<open>Messages\<close>

definition conv_append :: "stored_message \<Rightarrow> conv_state \<Rightarrow> bool \<times> conv_state" where
  "conv_append m st = conv_insert m True st"

primrec append_synced :: "stored_message list \<Rightarrow> conv_state \<Rightarrow> bool list \<times> conv_state" where
  "append_synced [] st = ([], st)"
| "append_synced (m # ms) st =
     (let (b, st) = conv_insert m False st; (bs, st) = append_synced ms st in (b # bs, st))"

definition revoke ::
  "conversation_key \<Rightarrow> string \<Rightarrow> direction \<Rightarrow> time \<Rightarrow> conv_state \<Rightarrow> bool \<times> conv_state" where
  "revoke key mid direction at st =
     (case map_of (cs_messages st) mid of
        Some m \<Rightarrow>
          if ck_phone_number_id (sm_conversation m) \<noteq> ck_phone_number_id key
             \<or> sm_direction m \<noteq> direction \<or> \<not> supersedes Deleted (sm_status m)
          then (False, st)
          else (True, st\<lparr>cs_messages := AList.update mid
                  (m\<lparr>sm_status := Deleted, sm_status_at := Some at\<rparr>) (cs_messages st)\<rparr>)
      | None \<Rightarrow> insert_row (tombstone key mid direction at) st)"

definition fill_media_placeholder ::
  "string \<Rightarrow> string \<Rightarrow> string \<Rightarrow> string option \<Rightarrow> json \<Rightarrow> conv_state \<Rightarrow> bool \<times> conv_state" where
  "fill_media_placeholder number mid kind text payload st =
     (case map_of (cs_messages st) mid of
        None \<Rightarrow> (False, st)
      | Some m \<Rightarrow>
          if \<not> (ck_phone_number_id (sm_conversation m) = number
                 \<and> sm_kind m = MEDIA_PLACEHOLDER \<and> sm_status m \<noteq> Deleted)
          then (False, st)
          else
            let m = m\<lparr>sm_kind := kind, sm_text := text, sm_payload := payload\<rparr>;
                st = st\<lparr>cs_messages := AList.update mid m (cs_messages st)\<rparr>
            in (True,
                case map_of (cs_conversations st) (sm_conversation m) of
                  None \<Rightarrow> st
                | Some s \<Rightarrow>
                    if ss_last_message_id s = mid
                    then st\<lparr>cs_conversations := AList.update (sm_conversation m)
                              (s\<lparr>ss_last_text := sm_text m\<rparr>) (cs_conversations st)\<rparr>
                    else st))"

definition update_status ::
  "string \<Rightarrow> string \<Rightarrow> delivery_status \<Rightarrow> time \<Rightarrow> json option \<Rightarrow> conv_state
     \<Rightarrow> bool \<times> conv_state" where
  "update_status number mid status at error st =
     (case map_of (cs_messages st) mid of
        None \<Rightarrow> (False, st)
      | Some m \<Rightarrow>
          if ck_phone_number_id (sm_conversation m) \<noteq> number \<or> \<not> supersedes status (sm_status m)
          then (False, st)
          else
            let m = m\<lparr>sm_status := status, sm_status_at := Some at\<rparr>;
                m = (if error \<noteq> None then m\<lparr>sm_error := error\<rparr> else m)
            in (True, st\<lparr>cs_messages := AList.update mid m (cs_messages st)\<rparr>))"

text \<open>The rows of an index strictly before the cursor, newest first.\<close>

definition index_page :: "('a::linorder) list \<Rightarrow> 'a option \<Rightarrow> 'a list" where
  "index_page index before =
     (case before of
        Some cursor \<Rightarrow> rev (filter (\<lambda>x. x < cursor) index)
      | None \<Rightarrow> rev index)"

definition messages ::
  "conversation_key \<Rightarrow> (time \<times> string) option \<Rightarrow> nat \<Rightarrow> conv_state \<Rightarrow> stored_message list" where
  "messages key before limit st =
     List.map_filter (\<lambda>(_, mid). map_of (cs_messages st) mid)
       (take limit (index_page (idx (cs_history st) key) before))"

definition conversations ::
  "string \<Rightarrow> (time \<times> string) option \<Rightarrow> nat \<Rightarrow> conv_state \<Rightarrow> conversation_summary list" where
  "conversations number before limit st =
     (let rows = filter (\<lambda>(k, s). ck_phone_number_id k = number) (cs_conversations st);
          rows = filter (\<lambda>(k, s). case before of
                    None \<Rightarrow> True
                  | Some cursor \<Rightarrow> (ss_last_message_at s, ck_contact k) < cursor) rows;
          rows = rev (sort_key (\<lambda>(k, s). (ss_last_message_at s, ck_contact k)) rows)
      in map (\<lambda>(k, s). \<lparr>su_key = k, su_last_message_at = ss_last_message_at s,
                        su_last_inbound_at = ss_last_inbound_at s,
                        su_last_text = ss_last_text s, su_unread = ss_unread s\<rparr>)
             (take limit rows))"

definition mark_read :: "conversation_key \<Rightarrow> conv_state \<Rightarrow> conv_state" where
  "mark_read key st =
     (case map_of (cs_conversations st) key of
        None \<Rightarrow> st
      | Some s \<Rightarrow> st\<lparr>cs_conversations :=
                     AList.update key (s\<lparr>ss_unread := 0\<rparr>) (cs_conversations st)\<rparr>)"

definition last_inbound_at :: "conversation_key \<Rightarrow> conv_state \<Rightarrow> time option" where
  "last_inbound_at key st =
     (case map_of (cs_conversations st) key of None \<Rightarrow> None | Some s \<Rightarrow> ss_last_inbound_at s)"

definition message :: "string \<Rightarrow> string \<Rightarrow> conv_state \<Rightarrow> stored_message option" where
  "message number mid st =
     (case map_of (cs_messages st) mid of
        None \<Rightarrow> None
      | Some m \<Rightarrow> if ck_phone_number_id (sm_conversation m) = number then Some m else None)"

section \<open>Window events, owners, contacts, links\<close>

definition record_window_event :: "window_event \<Rightarrow> conv_state \<Rightarrow> bool \<times> conv_state" where
  "record_window_event e st =
     (let identity = (ck_phone_number_id (we_conversation e), we_id e)
      in if map_of (cs_window_events st) identity \<noteq> None then (False, st)
         else (True, st\<lparr>cs_window_index := idx_insert (we_conversation e) (we_at e, we_id e)
                                             (cs_window_index st),
                        cs_window_events := AList.update identity e (cs_window_events st)\<rparr>))"

definition window_events ::
  "conversation_key \<Rightarrow> (time \<times> string) option \<Rightarrow> nat \<Rightarrow> conv_state \<Rightarrow> window_event list" where
  "window_events key before limit st =
     List.map_filter (\<lambda>(_, eid). map_of (cs_window_events st) (ck_phone_number_id key, eid))
       (take limit (index_page (idx (cs_window_index st) key) before))"

definition set_thread_owner ::
  "conversation_key \<Rightarrow> thread_ownership \<Rightarrow> conv_state \<Rightarrow> bool \<times> conv_state" where
  "set_thread_owner key ownership st =
     (if (case map_of (cs_owners st) key of
            None \<Rightarrow> False | Some stored \<Rightarrow> to_since ownership < to_since stored)
      then (False, st)
      else (True, st\<lparr>cs_owners := AList.update key ownership (cs_owners st)\<rparr>))"

definition thread_owner_of :: "conversation_key \<Rightarrow> conv_state \<Rightarrow> thread_ownership option" where
  "thread_owner_of key st = map_of (cs_owners st) key"

definition book_key :: "conversation_key \<Rightarrow> string \<times> string" where
  "book_key key = (ck_phone_number_id key, ck_contact key)"

definition put_contact :: "stored_contact \<Rightarrow> conv_state \<Rightarrow> bool \<times> conv_state" where
  "put_contact c st =
     (let key = book_key (ct_key c)
      in if (case map_of (cs_contacts st) key of
               None \<Rightarrow> False | Some stored \<Rightarrow> ct_synced_at c < synced_at stored)
         then (False, st)
         else (True, st\<lparr>cs_contacts := omap_insert key (Contact c) (cs_contacts st)\<rparr>))"

definition remove_contact :: "conversation_key \<Rightarrow> time \<Rightarrow> conv_state \<Rightarrow> bool \<times> conv_state" where
  "remove_contact key at st =
     (let key = book_key key;
          put = st\<lparr>cs_contacts := omap_insert key (Removed at) (cs_contacts st)\<rparr>
      in case map_of (cs_contacts st) key of
           Some stored \<Rightarrow>
             if synced_at stored > at then (False, st)
             else (case stored of Contact _ \<Rightarrow> (True, put) | Removed _ \<Rightarrow> (False, put))
         | None \<Rightarrow> (False, put))"

definition contact :: "conversation_key \<Rightarrow> conv_state \<Rightarrow> stored_contact option" where
  "contact key st = Option.bind (map_of (cs_contacts st) (book_key key)) synced_contact"

definition contacts ::
  "string \<Rightarrow> string option \<Rightarrow> nat \<Rightarrow> conv_state \<Rightarrow> stored_contact list" where
  "contacts number after limit st =
     (let range = filter (\<lambda>(k, _). case after of
                      Some c \<Rightarrow> (number, c) < k
                    | None \<Rightarrow> (number, []) \<le> k) (cs_contacts st)
      in take limit (List.map_filter (\<lambda>(_, synced). synced_contact synced)
                       (takeWhile (\<lambda>((n, _), _). n = number) range)))"

definition link_identity :: "identity_link \<Rightarrow> conv_state \<Rightarrow> bool \<times> conv_state" where
  "link_identity link st =
     (let identity = (lk_phone_number_id link, lk_previous link, lk_current link)
      in if map_of (cs_links st) identity \<noteq> None then (False, st)
         else (True, st\<lparr>cs_links := omap_insert identity (lk_at link) (cs_links st)\<rparr>))"

definition identity_links :: "conversation_key \<Rightarrow> conv_state \<Rightarrow> identity_link list" where
  "identity_links key st =
     sort_key (\<lambda>l. (lk_at l, lk_previous l, lk_current l))
       (map (\<lambda>((n, p, c), at). \<lparr>lk_phone_number_id = n, lk_previous = p, lk_current = c, lk_at = at\<rparr>)
          (filter (\<lambda>((n, p, c), _). n = ck_phone_number_id key
                     \<and> (p = ck_contact key \<or> c = ck_contact key)) (cs_links st)))"

end
