(* ===== verification/Memory_Erasure.thy ===== *)
theory Memory_Erasure
  imports Memory_Conversation
begin

text \<open>
  The operations of the in-process conversation store that reach across records: a person's
  identities, their erasure, the purge by age and the cap on each conversation's history.
\<close>

section \<open>Identities\<close>

text \<open>
  What one pass over the address book and the links of a number connects to \<open>pid\<close>, in the order
  of the passes.
\<close>

definition contact_identities :: "string \<Rightarrow> stored_contact \<Rightarrow> string list" where
  "contact_identities key_contact c =
     key_contact # List.map_filter (\<lambda>x. x) [ct_user_id c, ct_parent_user_id c, ct_phone_number c]"

definition connected :: "string \<Rightarrow> string \<Rightarrow> conv_state \<Rightarrow> string list" where
  "connected number pid st =
     concat (map (\<lambda>((n, key_contact), synced).
         case synced_contact synced of
           None \<Rightarrow> []
         | Some c \<Rightarrow>
             if n = number \<and> pid \<in> set (contact_identities key_contact c)
             then contact_identities key_contact c else []) (cs_contacts st))
     @ concat (map (\<lambda>((n, previous, current), _).
         if n = number \<and> (previous = pid \<or> current = pid) then [previous, current] else [])
         (cs_links st))"

text \<open>\<open>todo\<close> is a \<open>Vec\<close>: pushed and popped at its end.\<close>

primrec absorb :: "string list \<Rightarrow> string list \<times> string list \<Rightarrow> string list \<times> string list" where
  "absorb [] ft = ft"
| "absorb (other # others) ft =
     (let (found, todo) = ft
      in absorb others
           (if other \<noteq> [] \<and> other \<notin> set found
            then (oset_insert other found, todo @ [other]) else (found, todo)))"

text \<open>
  Each round takes one identity off the stack, and what it puts on is new, from the finitely many
  texts the store holds.
\<close>

definition unfound :: "string \<Rightarrow> conv_state \<Rightarrow> string list \<Rightarrow> nat" where
  "unfound number st found = card ((\<Union>pid. set (connected number pid st)) - set found)"

lemma synced_contact_Some: "Some c = synced_contact s \<longleftrightarrow> s = Contact c"
  by (cases s) auto

lemma connected_iff:
  "b \<in> set (connected number a st) \<longleftrightarrow>
     (\<exists>k c. ((number, k), Contact c) \<in> set (cs_contacts st)
            \<and> a \<in> set (contact_identities k c) \<and> b \<in> set (contact_identities k c))
     \<or> (\<exists>p q t. ((number, p, q), t) \<in> set (cs_links st) \<and> (a = p \<or> a = q) \<and> (b = p \<or> b = q))"
  by (simp add: connected_def Bex_def split_paired_Ex synced_contact_Some) blast

lemma finite_connected: "finite (\<Union>a. set (connected number a st))"
proof (rule finite_subset)
  show "(\<Union>a. set (connected number a st)) \<subseteq>
      (\<Union>e\<in>set (cs_contacts st). case snd e of Removed _ \<Rightarrow> {}
          | Contact c \<Rightarrow> set (contact_identities (snd (fst e)) c))
      \<union> (\<Union>e\<in>set (cs_links st). {fst (snd (fst e)), snd (snd (fst e))})" (is "_ \<subseteq> ?C \<union> ?L")
  proof
    fix b assume "b \<in> (\<Union>a. set (connected number a st))"
    then obtain a where "b \<in> set (connected number a st)" by blast
    then consider k c where "((number, k), Contact c) \<in> set (cs_contacts st)"
        "b \<in> set (contact_identities k c)"
      | p q t where "((number, p, q), t) \<in> set (cs_links st)" "b = p \<or> b = q"
      unfolding connected_iff by blast
    then show "b \<in> ?C \<union> ?L" by cases (force intro: UN_I)+
  qed
qed (auto split: synced.split)

lemma absorb_measure:
  assumes "finite U" and "set others \<subseteq> U" and "absorb others (found, todo) = (found', todo')"
  shows "2 * card (U - set found') + length todo' \<le> 2 * card (U - set found) + length todo"
  using assms(2,3)
proof (induction others arbitrary: found todo)
  case (Cons other others)
  show ?case
  proof (cases "other \<noteq> [] \<and> other \<notin> set found")
    case True
    have "U - insert other (set found) = (U - set found) - {other}" by auto
    moreover have "other \<in> U - set found" using Cons.prems(1) True by simp
    ultimately have "card (U - insert other (set found)) < card (U - set found)"
      using assms(1) by (metis card_Diff1_less finite_Diff)
    with Cons.IH[of "oset_insert other found" "todo @ [other]"] Cons.prems True show ?thesis by simp
  qed (use Cons in auto)
qed simp

function identities_from ::
  "string \<Rightarrow> conv_state \<Rightarrow> string list \<Rightarrow> string list \<Rightarrow> string list" where
  "identities_from number st found todo =
     (if todo = [] then found
      else
        let pid = last todo; todo = butlast todo
        in if pid = [] then identities_from number st found todo
           else let (found, todo) = absorb (connected number pid st) (found, todo)
                in identities_from number st found todo)"
  by pat_completeness auto

termination
proof (relation "measure (\<lambda>(number, st, found, todo). 2 * unfound number st found + length todo)",
    goal_cases)
  case (3 number st found todo pid todo' ft found' todo'')
  have "2 * unfound number st found' + length todo'' \<le> 2 * unfound number st found + length todo'"
    unfolding unfound_def
    by (rule absorb_measure[OF finite_connected]) (use 3 in auto)
  with 3 show ?case by (cases todo rule: rev_cases) (auto split: prod.splits)
qed (auto simp: butlast_conv_take)

declare identities_from.simps [simp del]

definition identities :: "conversation_key \<Rightarrow> conv_state \<Rightarrow> string list" where
  "identities key st =
     identities_from (ck_phone_number_id key) st [ck_contact key] [ck_contact key]"

section \<open>Erasure\<close>

text \<open>The loop over the rows of an erased key's history.\<close>

definition erase_row :: "string \<Rightarrow> erased \<times> conv_state \<Rightarrow> erased \<times> conv_state" where
  "erase_row mid es =
     (let (er, st) = es; (removed, st) = remove_message mid st
      in (if removed then er\<lparr>er_messages := er_messages er + 1\<rparr> else er, st))"

definition erase_event :: "string \<Rightarrow> time \<times> string \<Rightarrow> erased \<times> conv_state \<Rightarrow> erased \<times> conv_state" where
  "erase_event number entry es =
     (let (er, st) = es
      in if map_of (cs_window_events st) (number, snd entry) \<noteq> None
         then (er\<lparr>er_window_events := er_window_events er + 1\<rparr>,
               st\<lparr>cs_window_events := AList.delete (number, snd entry) (cs_window_events st)\<rparr>)
         else (er, st))"

definition erase_key :: "string \<Rightarrow> string \<Rightarrow> erased \<times> conv_state \<Rightarrow> erased \<times> conv_state" where
  "erase_key number who es =
     (let (er, st) = es;
          key = \<lparr>ck_phone_number_id = number, ck_contact = who\<rparr>;
          rows = map snd (idx (cs_history st) key);
          (er, st) = fold erase_row rows (er, st);
          er = er\<lparr>er_conversations := er_conversations er
                   + (if map_of (cs_conversations st) key \<noteq> None then 1 else 0)\<rparr>;
          st = st\<lparr>cs_conversations := AList.delete key (cs_conversations st)\<rparr>;
          index = idx (cs_window_index st) key;
          st = st\<lparr>cs_window_index := AList.delete key (cs_window_index st)\<rparr>;
          (er, st) = fold (erase_event number) index (er, st);
          er = er\<lparr>er_thread_owners := er_thread_owners er
                   + (if map_of (cs_owners st) key \<noteq> None then 1 else 0)\<rparr>
      in (er, st\<lparr>cs_owners := AList.delete key (cs_owners st)\<rparr>))"

text \<open>One message of an erased person in someone else's conversation.\<close>

definition erase_group_message ::
  "erasure_mode \<Rightarrow> string \<Rightarrow> erased \<times> conversation_key list \<times> conv_state
     \<Rightarrow> erased \<times> conversation_key list \<times> conv_state" where
  "erase_group_message mode mid ets =
     (let (er, touched, st) = ets
      in case map_of (cs_messages st) mid of
           None \<Rightarrow> (er, touched, st)
         | Some m \<Rightarrow>
             let latest = (case map_of (cs_conversations st) (sm_conversation m) of
                             None \<Rightarrow> False | Some s \<Rightarrow> ss_last_message_id s = mid);
                 er = er\<lparr>er_group_messages := er_group_messages er + 1\<rparr>
             in if mode = Delete
                then (er, if latest then touched @ [sm_conversation m] else touched,
                      snd (remove_message mid st))
                else
                  let st = unindex_sender m st;
                      st = (case map_of (cs_messages st) mid of
                              None \<Rightarrow> st
                            | Some row \<Rightarrow>
                                st\<lparr>cs_messages := AList.update mid (redact row) (cs_messages st)\<rparr>);
                      st = (case map_of (cs_conversations st) (sm_conversation m) of
                              Some s \<Rightarrow>
                                if latest
                                then st\<lparr>cs_conversations := AList.update (sm_conversation m)
                                       (s\<lparr>ss_last_text := None\<rparr>) (cs_conversations st)\<rparr>
                                else st
                            | None \<Rightarrow> st)
                  in (er, touched, st))"

definition erase_all ::
  "erasure_mode \<Rightarrow> string \<Rightarrow> string list \<Rightarrow> conv_state \<Rightarrow> erased \<times> conv_state" where
  "erase_all mode number persons st =
     (let ids = oset_of persons;
          (er, st) = fold (erase_key number) ids (erased_default, st);
          named = filter (\<lambda>i. i \<noteq> []) ids;
          before = length (cs_contacts st);
          st = st\<lparr>cs_contacts := filter (\<lambda>((n, who), synced). n \<noteq> number
                     \<or> \<not> (who \<in> set ids \<or> contact_names synced named)) (cs_contacts st)\<rparr>;
          er = er\<lparr>er_contacts := before - length (cs_contacts st)\<rparr>;
          before = length (cs_links st);
          st = st\<lparr>cs_links := filter (\<lambda>((n, previous, current), _). n \<noteq> number
                     \<or> \<not> (previous \<in> set named \<or> current \<in> set named)) (cs_links st)\<rparr>;
          er = er\<lparr>er_identity_links := before - length (cs_links st)\<rparr>;
          theirs = concat (map (\<lambda>s. idx (cs_senders st) (number, s)) ids);
          (er, touched, st) = fold (erase_group_message mode) theirs (er, [], st)
      in (er, fold resummarize touched st))"

definition conv_erase ::
  "erasure_mode \<Rightarrow> conversation_key \<Rightarrow> conv_state \<Rightarrow> erased \<times> conv_state" where
  "conv_erase mode key st = erase_all mode (ck_phone_number_id key) [ck_contact key] st"

section \<open>Purge and trim\<close>

definition in_scope :: "string option \<Rightarrow> conversation_key \<Rightarrow> bool" where
  "in_scope number key = (case number of None \<Rightarrow> True | Some n \<Rightarrow> n = ck_phone_number_id key)"

definition purge_row :: "string \<Rightarrow> purged \<times> conv_state \<Rightarrow> purged \<times> conv_state" where
  "purge_row mid ps =
     (let (pu, st) = ps; (removed, st) = remove_message mid st
      in (if removed then pu\<lparr>pu_messages := pu_messages pu + 1\<rparr> else pu, st))"

definition purge_event :: "string \<times> string \<Rightarrow> purged \<times> conv_state \<Rightarrow> purged \<times> conv_state" where
  "purge_event identity ps =
     (let (pu, st) = ps; (removed, st) = remove_window_event (fst identity) (snd identity) st
      in (if removed then pu\<lparr>pu_window_events := pu_window_events pu + 1\<rparr> else pu, st))"

definition purge_before :: "string option \<Rightarrow> time \<Rightarrow> conv_state \<Rightarrow> purged \<times> conv_state" where
  "purge_before number cutoff st =
     (let old = map (\<lambda>(_, m). sm_id m)
              (filter (\<lambda>(_, m). in_scope number (sm_conversation m) \<and> sm_timestamp m < cutoff)
                 (cs_messages st));
          (pu, st) = fold purge_row old (purged_default, st);
          before = length (cs_conversations st);
          st = st\<lparr>cs_conversations := filter (\<lambda>(key, s).
                     \<not> (in_scope number key \<and> ss_last_message_at s < cutoff)) (cs_conversations st)\<rparr>;
          pu = pu\<lparr>pu_conversations := before - length (cs_conversations st)\<rparr>;
          old = map fst
              (filter (\<lambda>(_, e). in_scope number (we_conversation e) \<and> we_at e < cutoff)
                 (cs_window_events st));
          (pu, st) = fold purge_event old (pu, st);
          before = length (cs_owners st);
          st = st\<lparr>cs_owners := filter (\<lambda>(key, w).
                     \<not> (in_scope number key \<and> to_since w < cutoff)) (cs_owners st)\<rparr>;
          pu = pu\<lparr>pu_thread_owners := before - length (cs_owners st)\<rparr>;
          before = length (cs_contacts st);
          st = st\<lparr>cs_contacts := filter (\<lambda>((n, _), synced).
                     \<not> ((case number of None \<Rightarrow> True | Some n' \<Rightarrow> n' = n)
                        \<and> (case synced of Removed at \<Rightarrow> at < cutoff | Contact _ \<Rightarrow> False)))
                     (cs_contacts st)\<rparr>
      in (pu\<lparr>pu_contact_removals := before - length (cs_contacts st)\<rparr>, st))"

definition apply_retention :: "retention \<Rightarrow> time \<Rightarrow> conv_state \<Rightarrow> purged \<times> conv_state" where
  "apply_retention r now st =
     (case retention_cutoff r now of
        Some cutoff \<Rightarrow> purge_before None cutoff st
      | None \<Rightarrow> (purged_default, st))"

definition trim_key ::
  "conversation_key \<times> string list \<Rightarrow> purged \<times> conv_state \<Rightarrow> purged \<times> conv_state" where
  "trim_key doomed ps =
     (let (key, ids) = doomed;
          (pu, st) = ps;
          latest_goes = (case map_of (cs_conversations st) key of
                           None \<Rightarrow> False | Some s \<Rightarrow> ss_last_message_id s \<in> set ids);
          (pu, st) = fold purge_row ids (pu, st)
      in if latest_goes \<and> map_of (cs_conversations st) key \<noteq> None
         then (pu\<lparr>pu_conversations := pu_conversations pu + 1\<rparr>,
               st\<lparr>cs_conversations := AList.delete key (cs_conversations st)\<rparr>)
         else (pu, st))"

definition trim_conversations :: "string option \<Rightarrow> nat \<Rightarrow> conv_state \<Rightarrow> purged \<times> conv_state" where
  "trim_conversations number keep_last st =
     (let doomed = filter (\<lambda>(_, ids). ids \<noteq> [])
            (map (\<lambda>(key, index). (key, oset_of (map snd (drop keep_last (rev index)))))
               (filter (\<lambda>(key, _). in_scope number key) (cs_history st)))
      in fold trim_key doomed (purged_default, st))"

end
