(* ===== verification/Conversation_Invariant.thy ===== *)
theory Conversation_Invariant
  imports Memory_Erasure
begin

text \<open>
  The state invariant of the conversation store, and that every operation keeps it: the history
  index holds exactly the stored messages, the sender index exactly the senders they were appended
  with, the window index exactly the window events, and each summary follows the latest message
  that is no tombstone, existing exactly when there is one.
\<close>

section \<open>The invariant\<close>

definition rows_ok :: "conv_state \<Rightarrow> bool" where
  "rows_ok st \<longleftrightarrow>
     keys_distinct (cs_messages st) \<and> keys_distinct (cs_sender_of st)
     \<and> idx_ok (cs_history st) \<and> idx_ok (cs_senders st)
     \<and> (\<forall>i m. map_of (cs_messages st) i = Some m \<longrightarrow> sm_id m = i)
     \<and> (\<forall>k t i. (t, i) \<in> set (idx (cs_history st) k) \<longleftrightarrow>
          (\<exists>m. map_of (cs_messages st) i = Some m \<and> sm_conversation m = k \<and> sm_timestamp m = t))
     \<and> (\<forall>n s i. i \<in> set (idx (cs_senders st) (n, s)) \<longleftrightarrow>
          map_of (cs_sender_of st) i = Some s
          \<and> (\<exists>m. map_of (cs_messages st) i = Some m \<and> ck_phone_number_id (sm_conversation m) = n))
     \<and> (\<forall>i s. map_of (cs_sender_of st) i = Some s \<longrightarrow>
          s \<noteq> [] \<and> (\<exists>m. map_of (cs_messages st) i = Some m \<and> sm_kind m \<noteq> REVOKED))"

text \<open>A message a summary may be made from.\<close>

definition listed ::
  "(string \<rightharpoonup> stored_message) \<Rightarrow> conversation_key \<Rightarrow> string \<Rightarrow> stored_message \<Rightarrow> bool" where
  "listed ms k i m \<longleftrightarrow> ms i = Some m \<and> sm_conversation m = k \<and> sm_kind m \<noteq> REVOKED"

definition summarises ::
  "(string \<rightharpoonup> stored_message) \<Rightarrow> conversation_key \<Rightarrow> summary \<Rightarrow> bool" where
  "summarises ms k s \<longleftrightarrow>
     (\<exists>m. listed ms k (ss_last_message_id s) m \<and> sm_timestamp m = ss_last_message_at s
          \<and> sm_text m = ss_last_text s)
     \<and> (\<forall>i m. listed ms k i m \<longrightarrow> (sm_timestamp m, i) \<le> (ss_last_message_at s, ss_last_message_id s))"

definition thread_ok ::
  "(string \<rightharpoonup> stored_message) \<Rightarrow> conversation_key \<Rightarrow> summary option \<Rightarrow> bool" where
  "thread_ok ms k so \<longleftrightarrow>
     (case so of None \<Rightarrow> \<forall>i m. \<not> listed ms k i m | Some s \<Rightarrow> summarises ms k s)"

definition summaries_ok :: "conv_state \<Rightarrow> bool" where
  "summaries_ok st \<longleftrightarrow>
     keys_distinct (cs_conversations st)
     \<and> (\<forall>k. thread_ok (map_of (cs_messages st)) k (map_of (cs_conversations st) k))"

definition windows_ok :: "conv_state \<Rightarrow> bool" where
  "windows_ok st \<longleftrightarrow>
     keys_distinct (cs_window_events st) \<and> idx_ok (cs_window_index st)
     \<and> (\<forall>n i e. map_of (cs_window_events st) (n, i) = Some e \<longrightarrow>
          ck_phone_number_id (we_conversation e) = n \<and> we_id e = i)
     \<and> (\<forall>k t i. (t, i) \<in> set (idx (cs_window_index st) k) \<longleftrightarrow>
          (\<exists>e. map_of (cs_window_events st) (ck_phone_number_id k, i) = Some e
               \<and> we_conversation e = k \<and> we_at e = t))"

definition book_ok :: "conv_state \<Rightarrow> bool" where
  "book_ok st \<longleftrightarrow>
     keys_distinct (cs_owners st) \<and> omap_ok (cs_contacts st) \<and> omap_ok (cs_links st)
     \<and> (\<forall>k c. map_of (cs_contacts st) k = Some (Contact c) \<longrightarrow> book_key (ct_key c) = k)"

definition conv_ok :: "conv_state \<Rightarrow> bool" where
  "conv_ok st \<longleftrightarrow> rows_ok st \<and> summaries_ok st \<and> windows_ok st \<and> book_ok st"

text \<open>What the operations on rows leave alone.\<close>

definition same_rest :: "conv_state \<Rightarrow> conv_state \<Rightarrow> bool" where
  "same_rest st st' \<longleftrightarrow>
     cs_conversations st' = cs_conversations st \<and> cs_window_events st' = cs_window_events st
     \<and> cs_window_index st' = cs_window_index st \<and> cs_owners st' = cs_owners st
     \<and> cs_contacts st' = cs_contacts st \<and> cs_links st' = cs_links st"

lemma same_rest_refl [simp, intro]: "same_rest st st"
  by (simp add: same_rest_def)

lemma same_rest_trans: "same_rest a b \<Longrightarrow> same_rest b c \<Longrightarrow> same_rest a c"
  by (simp add: same_rest_def)

lemma rows_okD:
  assumes "rows_ok st"
  shows "keys_distinct (cs_messages st)" "keys_distinct (cs_sender_of st)"
    "idx_ok (cs_history st)" "idx_ok (cs_senders st)"
    "map_of (cs_messages st) i = Some m \<Longrightarrow> sm_id m = i"
    "(t, i) \<in> set (idx (cs_history st) k) \<longleftrightarrow>
       (\<exists>m. map_of (cs_messages st) i = Some m \<and> sm_conversation m = k \<and> sm_timestamp m = t)"
    "i \<in> set (idx (cs_senders st) (n, s)) \<longleftrightarrow> map_of (cs_sender_of st) i = Some s
       \<and> (\<exists>m. map_of (cs_messages st) i = Some m \<and> ck_phone_number_id (sm_conversation m) = n)"
    "map_of (cs_sender_of st) i = Some s \<Longrightarrow>
       s \<noteq> [] \<and> (\<exists>m. map_of (cs_messages st) i = Some m \<and> sm_kind m \<noteq> REVOKED)"
  using assms unfolding rows_ok_def by blast+

lemma no_sender:
  "rows_ok st \<Longrightarrow> map_of (cs_messages st) i = None \<Longrightarrow> map_of (cs_sender_of st) i = None"
  using rows_okD(8)[of st i] by (cases "map_of (cs_sender_of st) i") auto

lemma rows_ok_cong:
  assumes "rows_ok st" "cs_messages st' = cs_messages st" "cs_history st' = cs_history st"
    "cs_senders st' = cs_senders st" "cs_sender_of st' = cs_sender_of st"
  shows "rows_ok st'"
  using assms by (simp add: rows_ok_def)

lemma conv_ok_empty [simp]: "conv_ok conv_empty"
  by (simp add: conv_ok_def rows_ok_def summaries_ok_def windows_ok_def book_ok_def conv_empty_def
      thread_ok_def listed_def)

section \<open>Rows\<close>

lemma insert_row_fresh:
  assumes ok: "rows_ok st" and tomb: "sender m \<noteq> None \<Longrightarrow> sm_kind m \<noteq> REVOKED"
    and new: "map_of (cs_messages st) (sm_id m) = None" and ins: "insert_row m st = (b, st')"
  shows "b \<and> rows_ok st' \<and> same_rest st st'
    \<and> map_of (cs_messages st') = (map_of (cs_messages st))(sm_id m \<mapsto> m)
    \<and> map_of (cs_sender_of st') = (map_of (cs_sender_of st))(sm_id m := sender m)"
proof -
  note D = rows_okD[OF ok]
  have no: "map_of (cs_sender_of st) (sm_id m) = None"
    using D(8)[of "sm_id m"] new by (cases "map_of (cs_sender_of st) (sm_id m)") auto
  have maps: "map_of (cs_messages st') = (map_of (cs_messages st))(sm_id m \<mapsto> m)"
    "map_of (cs_sender_of st') = (map_of (cs_sender_of st))(sm_id m := sender m)"
    "b" "same_rest st st'"
    using ins new no by (auto simp: insert_row_def Let_def same_rest_def split: option.splits)
  have hist: "cs_history st' =
      idx_insert (sm_conversation m) (sm_timestamp m, sm_id m) (cs_history st)"
    using ins new by (auto simp: insert_row_def Let_def split: option.splits)
  have send: "cs_senders st' = (case sender m of None \<Rightarrow> cs_senders st | Some s \<Rightarrow>
      idx_insert (ck_phone_number_id (sm_conversation m), s) (sm_id m) (cs_senders st))"
    using ins new by (auto simp: insert_row_def Let_def split: option.splits)
  have dist: "keys_distinct (cs_messages st')" "keys_distinct (cs_sender_of st')"
    using ins new D(1,2) by (auto simp: insert_row_def Let_def split: option.splits)
  have "rows_ok st'"
    unfolding rows_ok_def
  proof (intro conjI allI impI dist, goal_cases)
    case 1 show ?case using D(3) by (simp add: hist)
  next
    case 2 show ?case using D(4) by (simp add: send split: option.split)
  next
    case (3 i x) then show ?case using D(5) by (auto simp: maps split: if_splits)
  next
    case (4 k t i) show ?case using new by (auto simp: maps hist D(6))
  next
    case (5 n s i) show ?case using new by (auto simp: maps send D(7) split: option.splits)
  next
    case (6 i s) then show ?case using D(8)[of i s] sender_nonempty[of m] by (auto simp: maps split: if_splits)
  next
    case (7 i s) then show ?case using D(8)[of i s] tomb by (auto simp: maps split: if_splits)
  qed
  then show ?thesis using maps by simp
qed

lemma insert_row_known:
  "map_of (cs_messages st) (sm_id m) = Some m' \<Longrightarrow> insert_row m st = (False, st)"
  by (simp add: insert_row_def)

lemma unindex_sender:
  assumes ok: "rows_ok st" and m: "sm_id m = i" "map_of (cs_messages st) i = Some m'"
      "ck_phone_number_id (sm_conversation m) = ck_phone_number_id (sm_conversation m')"
  shows "same_rest st (unindex_sender m st) \<and> rows_ok (unindex_sender m st)
    \<and> cs_messages (unindex_sender m st) = cs_messages st
    \<and> cs_history (unindex_sender m st) = cs_history st
    \<and> map_of (cs_sender_of (unindex_sender m st)) = (map_of (cs_sender_of st))(i := None)"
proof (cases "map_of (cs_sender_of st) i")
  case None
  then show ?thesis using ok m(1) by (auto simp: unindex_sender_def fun_eq_iff)
next
  case (Some s)
  note D = rows_okD[OF ok]
  have "rows_ok (unindex_sender m st)"
    unfolding rows_ok_def using D(1-6,8) Some m
    by (auto simp: unindex_sender_def D(6,7) split: if_splits)
  with Some m(1) show ?thesis by (simp add: unindex_sender_def same_rest_def fun_eq_iff)
qed

lemma remove_message:
  assumes ok: "rows_ok st" and rem: "remove_message i st = (b, st')"
  shows "rows_ok st' \<and> same_rest st st' \<and> (b \<longleftrightarrow> map_of (cs_messages st) i \<noteq> None)
    \<and> map_of (cs_messages st') = (map_of (cs_messages st))(i := None)
    \<and> map_of (cs_sender_of st') = (map_of (cs_sender_of st))(i := None)"
proof (cases "map_of (cs_messages st) i")
  case None
  note D = rows_okD[OF ok]
  have "map_of (cs_sender_of st) i = None"
    using D(8)[of i] None by (cases "map_of (cs_sender_of st) i") auto
  then show ?thesis using None ok rem by (auto simp: remove_message_def fun_eq_iff)
next
  case (Some m)
  note D = rows_okD[OF ok]
  let ?u = "unindex_sender m st"
  have U: "same_rest st ?u \<and> rows_ok ?u \<and> cs_messages ?u = cs_messages st
      \<and> cs_history ?u = cs_history st \<and> map_of (cs_sender_of ?u) = (map_of (cs_sender_of st))(i := None)"
    using unindex_sender[OF ok D(5)[OF Some] Some HOL.refl] .
  have st': "st' = ?u\<lparr>cs_messages := AList.delete i (cs_messages st),
      cs_history := idx_remove (sm_conversation m) (sm_timestamp m, i) (cs_history st)\<rparr>" and b: b
    using rem Some D(5)[OF Some] U
    by (auto simp: remove_message_def Let_def unindex_sender_def split: option.splits)
  note E = rows_okD[OF conjunct1[OF conjunct2[OF U]]]
  have "rows_ok st'"
    unfolding rows_ok_def
  proof (intro conjI allI impI, goal_cases)
    case 3 show ?case using D(3) by (simp add: st')
  next
    case (6 k t j) show ?case using Some by (auto simp: st' D(6) split: if_splits)
  next
    case (7 n s j) show ?case using U by (auto simp: st' E(7))
  qed (use D E U in \<open>auto simp: st' split: if_splits\<close>)
  then show ?thesis using Some b U by (auto simp: st' same_rest_def fun_eq_iff)
qed

end
