(* ===== verification/Conversation_Spec.thy ===== *)
theory Conversation_Spec
  imports Conversation_Invariant
begin

text \<open>
  What the conversation store promises, without its indexes: finite maps of messages, window
  events, owners, contacts and links, and per conversation its window and unread count. A summary
  is not kept but is what the latest listed message says. An erasure, a purge and a trim are said
  by which records they leave, and their reports are numbers of records. \<open>conv_abs\<close> reads such a
  state off the store's; \<open>conv_step\<close> runs one call on the store.
\<close>

record conv_spec =
  sp_messages :: "string \<rightharpoonup> stored_message"
  sp_sender :: "string \<rightharpoonup> string"
  sp_window :: "conversation_key \<rightharpoonup> time option \<times> nat"
  sp_events :: "string \<times> string \<rightharpoonup> window_event"
  sp_owners :: "conversation_key \<rightharpoonup> thread_ownership"
  sp_contacts :: "string \<times> string \<rightharpoonup> synced"
  sp_links :: "string \<times> string \<times> string \<rightharpoonup> time"

definition summary_window :: "summary \<Rightarrow> time option \<times> nat" where
  "summary_window s = (ss_last_inbound_at s, ss_unread s)"

definition conv_abs :: "conv_state \<Rightarrow> conv_spec" where
  "conv_abs st =
     \<lparr>sp_messages = map_of (cs_messages st), sp_sender = map_of (cs_sender_of st),
      sp_window = (\<lambda>k. map_option summary_window (map_of (cs_conversations st) k)),
      sp_events = map_of (cs_window_events st), sp_owners = map_of (cs_owners st),
      sp_contacts = map_of (cs_contacts st), sp_links = map_of (cs_links st)\<rparr>"

section \<open>The operations\<close>

definition spec_insert :: "stored_message \<Rightarrow> bool \<Rightarrow> conv_spec \<Rightarrow> bool \<times> conv_spec" where
  "spec_insert m live s =
     (if sp_messages s (sm_id m) \<noteq> None then (False, s)
      else
        let k = sm_conversation m;
            (inbound, unread) = (case sp_window s k of None \<Rightarrow> (None, 0) | Some w \<Rightarrow> w);
            w = (if live \<and> sm_direction m = Inbound
                 then (Some (case inbound of None \<Rightarrow> sm_timestamp m | Some t \<Rightarrow> max t (sm_timestamp m)),
                       unread + 1)
                 else (inbound, unread))
        in (True, s\<lparr>sp_messages := (sp_messages s)(sm_id m \<mapsto> m),
                    sp_sender := (sp_sender s)(sm_id m := sender m),
                    sp_window := (sp_window s)(k \<mapsto> w)\<rparr>))"

primrec spec_insert_synced :: "stored_message list \<Rightarrow> conv_spec \<Rightarrow> bool list \<times> conv_spec" where
  "spec_insert_synced [] s = ([], s)"
| "spec_insert_synced (m # ms) s =
     (let (b, s) = spec_insert m False s; (bs, s) = spec_insert_synced ms s in (b # bs, s))"

definition spec_revoke ::
  "conversation_key \<Rightarrow> string \<Rightarrow> direction \<Rightarrow> time \<Rightarrow> conv_spec \<Rightarrow> bool \<times> conv_spec" where
  "spec_revoke key i d at s =
     (case sp_messages s i of
        None \<Rightarrow> (True, s\<lparr>sp_messages := (sp_messages s)(i \<mapsto> tombstone key i d at),
                         sp_sender := (sp_sender s)(i := None)\<rparr>)
      | Some m \<Rightarrow>
          if ck_phone_number_id (sm_conversation m) = ck_phone_number_id key \<and> sm_direction m = d
             \<and> supersedes Deleted (sm_status m)
          then (True, s\<lparr>sp_messages :=
                  (sp_messages s)(i \<mapsto> m\<lparr>sm_status := Deleted, sm_status_at := Some at\<rparr>)\<rparr>)
          else (False, s))"

definition spec_fill ::
  "string \<Rightarrow> string \<Rightarrow> string \<Rightarrow> string option \<Rightarrow> json \<Rightarrow> conv_spec \<Rightarrow> bool \<times> conv_spec" where
  "spec_fill number i kind text payload s =
     (case sp_messages s i of
        None \<Rightarrow> (False, s)
      | Some m \<Rightarrow>
          if ck_phone_number_id (sm_conversation m) = number \<and> sm_kind m = MEDIA_PLACEHOLDER
             \<and> sm_status m \<noteq> Deleted
          then (True, s\<lparr>sp_messages :=
                  (sp_messages s)(i \<mapsto> m\<lparr>sm_kind := kind, sm_text := text, sm_payload := payload\<rparr>)\<rparr>)
          else (False, s))"

definition spec_status ::
  "string \<Rightarrow> string \<Rightarrow> delivery_status \<Rightarrow> time \<Rightarrow> json option \<Rightarrow> conv_spec \<Rightarrow> bool \<times> conv_spec" where
  "spec_status number i status at error s =
     (case sp_messages s i of
        None \<Rightarrow> (False, s)
      | Some m \<Rightarrow>
          if ck_phone_number_id (sm_conversation m) = number \<and> supersedes status (sm_status m)
          then (True, s\<lparr>sp_messages :=
                  (sp_messages s)(i \<mapsto> m\<lparr>sm_status := status, sm_status_at := Some at,
                     sm_error := (if error = None then sm_error m else error)\<rparr>)\<rparr>)
          else (False, s))"

definition spec_mark_read :: "conversation_key \<Rightarrow> conv_spec \<Rightarrow> conv_spec" where
  "spec_mark_read k s =
     s\<lparr>sp_window := (sp_window s)(k := map_option (\<lambda>(t, _). (t, 0)) (sp_window s k))\<rparr>"

definition spec_event :: "window_event \<Rightarrow> conv_spec \<Rightarrow> bool \<times> conv_spec" where
  "spec_event e s =
     (let k = (ck_phone_number_id (we_conversation e), we_id e)
      in if sp_events s k \<noteq> None then (False, s)
         else (True, s\<lparr>sp_events := (sp_events s)(k \<mapsto> e)\<rparr>))"

text \<open>The last writer wins, by the time a record carries; of one instant, the later call.\<close>

definition newest :: "('a \<Rightarrow> time) \<Rightarrow> 'a option \<Rightarrow> 'a \<Rightarrow> bool" where
  "newest at stored x \<longleftrightarrow> (case stored of None \<Rightarrow> True | Some y \<Rightarrow> at y \<le> at x)"

definition spec_owner :: "conversation_key \<Rightarrow> thread_ownership \<Rightarrow> conv_spec \<Rightarrow> bool \<times> conv_spec" where
  "spec_owner k w s =
     (if newest to_since (sp_owners s k) w
      then (True, s\<lparr>sp_owners := (sp_owners s)(k \<mapsto> w)\<rparr>) else (False, s))"

definition spec_put_contact :: "stored_contact \<Rightarrow> conv_spec \<Rightarrow> bool \<times> conv_spec" where
  "spec_put_contact c s =
     (let k = book_key (ct_key c)
      in if newest synced_at (sp_contacts s k) (Contact c)
         then (True, s\<lparr>sp_contacts := (sp_contacts s)(k \<mapsto> Contact c)\<rparr>) else (False, s))"

definition spec_remove_contact :: "conversation_key \<Rightarrow> time \<Rightarrow> conv_spec \<Rightarrow> bool \<times> conv_spec" where
  "spec_remove_contact key at s =
     (let k = book_key key
      in if newest synced_at (sp_contacts s k) (Removed at)
         then (Option.bind (sp_contacts s k) synced_contact \<noteq> None,
               s\<lparr>sp_contacts := (sp_contacts s)(k \<mapsto> Removed at)\<rparr>)
         else (False, s))"

definition spec_link :: "identity_link \<Rightarrow> conv_spec \<Rightarrow> bool \<times> conv_spec" where
  "spec_link l s =
     (let k = (lk_phone_number_id l, lk_previous l, lk_current l)
      in if sp_links s k \<noteq> None then (False, s)
         else (True, s\<lparr>sp_links := (sp_links s)(k \<mapsto> lk_at l)\<rparr>))"

section \<open>Erasure, purge, trim\<close>

text \<open>The bindings of a map a predicate keeps, and how many it drops.\<close>

definition keep_map :: "('k \<Rightarrow> 'v \<Rightarrow> bool) \<Rightarrow> ('k \<rightharpoonup> 'v) \<Rightarrow> 'k \<rightharpoonup> 'v" where
  "keep_map P f k = (case f k of None \<Rightarrow> None | Some v \<Rightarrow> if P k v then Some v else None)"

definition dropped :: "('k \<Rightarrow> 'v \<Rightarrow> bool) \<Rightarrow> ('k \<rightharpoonup> 'v) \<Rightarrow> nat" where
  "dropped P f = card {k. \<exists>v. f k = Some v \<and> \<not> P k v}"

text \<open>A conversation keeps its window as long as a message is listed in it.\<close>

definition keep_windows ::
  "(string \<rightharpoonup> stored_message) \<Rightarrow> (conversation_key \<rightharpoonup> 'w) \<Rightarrow> conversation_key \<rightharpoonup> 'w" where
  "keep_windows ms = keep_map (\<lambda>k _. \<exists>i m. listed ms k i m)"

definition own_key :: "string \<Rightarrow> string set \<Rightarrow> conversation_key \<Rightarrow> bool" where
  "own_key number ids k \<longleftrightarrow> ck_phone_number_id k = number \<and> ck_contact k \<in> ids"

definition sent_by ::
  "string \<Rightarrow> string set \<Rightarrow> (string \<rightharpoonup> string) \<Rightarrow> string \<Rightarrow> stored_message \<Rightarrow> bool" where
  "sent_by number ids senders i m \<longleftrightarrow>
     ck_phone_number_id (sm_conversation m) = number
     \<and> (case senders i of None \<Rightarrow> False | Some p \<Rightarrow> p \<in> ids)"

definition names_person :: "string set \<Rightarrow> stored_contact \<Rightarrow> bool" where
  "names_person ids c \<longleftrightarrow>
     (\<exists>p\<in>ids. p \<noteq> [] \<and> (ct_user_id c = Some p \<or> ct_parent_user_id c = Some p
                          \<or> ct_phone_number c = Some p))"

definition erased_contact :: "string \<Rightarrow> string set \<Rightarrow> string \<times> string \<Rightarrow> synced \<Rightarrow> bool" where
  "erased_contact number ids k v \<longleftrightarrow>
     fst k = number \<and> (snd k \<in> ids \<or> (case v of Contact c \<Rightarrow> names_person ids c | Removed _ \<Rightarrow> False))"

definition erased_link :: "string \<Rightarrow> string set \<Rightarrow> string \<times> string \<times> string \<Rightarrow> bool" where
  "erased_link number ids k \<longleftrightarrow>
     fst k = number \<and> (\<exists>p\<in>ids. p \<noteq> [] \<and> (fst (snd k) = p \<or> snd (snd k) = p))"

definition spec_erase ::
  "erasure_mode \<Rightarrow> string \<Rightarrow> string set \<Rightarrow> conv_spec \<Rightarrow> erased \<times> conv_spec" where
  "spec_erase mode number ids s =
     (let own = (\<lambda>m. own_key number ids (sm_conversation m));
          theirs = (\<lambda>i m. \<not> own m \<and> sent_by number ids (sp_sender s) i m);
          ms = (\<lambda>i. case sp_messages s i of
                  None \<Rightarrow> None
                | Some m \<Rightarrow>
                    if own m \<or> theirs i m \<and> mode = Delete then None
                    else Some (if theirs i m then redact m else m));
          touched = {i. \<exists>m. sp_messages s i = Some m \<and> (own m \<or> theirs i m)}
      in (\<lparr>er_messages = dropped (\<lambda>_ m. \<not> own m) (sp_messages s),
           er_conversations = dropped (\<lambda>k _. \<not> own_key number ids k) (sp_window s),
           er_window_events = dropped (\<lambda>_ e. \<not> own_key number ids (we_conversation e)) (sp_events s),
           er_thread_owners = dropped (\<lambda>k _. \<not> own_key number ids k) (sp_owners s),
           er_contacts = dropped (\<lambda>k v. \<not> erased_contact number ids k v) (sp_contacts s),
           er_identity_links = dropped (\<lambda>k _. \<not> erased_link number ids k) (sp_links s),
           er_group_messages = dropped (\<lambda>i m. \<not> theirs i m) (sp_messages s)\<rparr>,
          s\<lparr>sp_messages := ms,
            sp_sender := (\<lambda>i. if i \<in> touched then None else sp_sender s i),
            sp_window := keep_windows ms (sp_window s),
            sp_events := keep_map (\<lambda>_ e. \<not> own_key number ids (we_conversation e)) (sp_events s),
            sp_owners := keep_map (\<lambda>k _. \<not> own_key number ids k) (sp_owners s),
            sp_contacts := keep_map (\<lambda>k v. \<not> erased_contact number ids k v) (sp_contacts s),
            sp_links := keep_map (\<lambda>k _. \<not> erased_link number ids k) (sp_links s)\<rparr>))"

definition spec_drop_messages :: "(string \<Rightarrow> stored_message \<Rightarrow> bool) \<Rightarrow> conv_spec \<Rightarrow> conv_spec" where
  "spec_drop_messages P s =
     (let ms = keep_map P (sp_messages s)
      in s\<lparr>sp_messages := ms,
           sp_sender := (\<lambda>i. if ms i = None then None else sp_sender s i),
           sp_window := keep_windows ms (sp_window s)\<rparr>)"

definition spec_purge :: "string option \<Rightarrow> time \<Rightarrow> conv_spec \<Rightarrow> purged \<times> conv_spec" where
  "spec_purge number cutoff s =
     (let kept = (\<lambda>k at. \<not> (in_scope number k \<and> at < cutoff));
          s' = spec_drop_messages (\<lambda>_ m. kept (sm_conversation m) (sm_timestamp m)) s;
          kept_contact = (\<lambda>k v. \<not> ((case number of None \<Rightarrow> True | Some n \<Rightarrow> n = fst k)
              \<and> (case v of Removed at \<Rightarrow> at < cutoff | Contact _ \<Rightarrow> False)))
      in (\<lparr>pu_messages = dropped (\<lambda>_ m. kept (sm_conversation m) (sm_timestamp m)) (sp_messages s),
           pu_conversations = card (dom (sp_window s) - dom (sp_window s')),
           pu_window_events = dropped (\<lambda>_ e. kept (we_conversation e) (we_at e)) (sp_events s),
           pu_thread_owners = dropped (\<lambda>k w. kept k (to_since w)) (sp_owners s),
           pu_contact_removals = dropped kept_contact (sp_contacts s)\<rparr>,
          s'\<lparr>sp_events := keep_map (\<lambda>_ e. kept (we_conversation e) (we_at e)) (sp_events s),
             sp_owners := keep_map (\<lambda>k w. kept k (to_since w)) (sp_owners s),
             sp_contacts := keep_map kept_contact (sp_contacts s)\<rparr>))"

text \<open>The rows of a conversation after a given one.\<close>

definition newer_rows ::
  "(string \<rightharpoonup> stored_message) \<Rightarrow> string \<Rightarrow> stored_message \<Rightarrow> (time \<times> string) set" where
  "newer_rows ms i m =
     {(t, j). (sm_timestamp m, i) < (t, j)
        \<and> (\<exists>m'. ms j = Some m' \<and> sm_conversation m' = sm_conversation m \<and> sm_timestamp m' = t)}"

definition spec_trim :: "string option \<Rightarrow> nat \<Rightarrow> conv_spec \<Rightarrow> purged \<times> conv_spec" where
  "spec_trim number keep_last s =
     (let kept = (\<lambda>i m. in_scope number (sm_conversation m) \<longrightarrow>
                     card (newer_rows (sp_messages s) i m) < keep_last);
          s' = spec_drop_messages kept s
      in (purged_default\<lparr>pu_messages := dropped kept (sp_messages s),
                         pu_conversations := card (dom (sp_window s) - dom (sp_window s'))\<rparr>, s'))"

section \<open>Calls\<close>

datatype conv_call =
  Append stored_message
| AppendSynced "stored_message list"
| Revoke conversation_key string direction time
| FillMedia string string string "string option" json
| UpdateStatus string string delivery_status time "json option"
| MarkRead conversation_key
| RecordEvent window_event
| SetOwner conversation_key thread_ownership
| PutContact stored_contact
| RemoveContact conversation_key time
| LinkIdentity identity_link
| EraseAll string "string list"
| PurgeBefore "string option" time
| Trim "string option" nat

datatype conv_reply = Flag bool | Flags "bool list" | Unit | ErasedReply erased | PurgedReply purged

fun conv_step :: "erasure_mode \<Rightarrow> conv_call \<Rightarrow> conv_state \<Rightarrow> conv_reply \<times> conv_state" where
  "conv_step mode (Append m) st = map_prod Flag id (conv_append m st)"
| "conv_step mode (AppendSynced ms) st = map_prod Flags id (append_synced ms st)"
| "conv_step mode (Revoke k i d t) st = map_prod Flag id (revoke k i d t st)"
| "conv_step mode (FillMedia n i kind text p) st =
     map_prod Flag id (fill_media_placeholder n i kind text p st)"
| "conv_step mode (UpdateStatus n i s t e) st = map_prod Flag id (update_status n i s t e st)"
| "conv_step mode (MarkRead k) st = (Unit, mark_read k st)"
| "conv_step mode (RecordEvent e) st = map_prod Flag id (record_window_event e st)"
| "conv_step mode (SetOwner k w) st = map_prod Flag id (set_thread_owner k w st)"
| "conv_step mode (PutContact c) st = map_prod Flag id (put_contact c st)"
| "conv_step mode (RemoveContact k t) st = map_prod Flag id (remove_contact k t st)"
| "conv_step mode (LinkIdentity l) st = map_prod Flag id (link_identity l st)"
| "conv_step mode (EraseAll n ids) st = map_prod ErasedReply id (erase_all mode n ids st)"
| "conv_step mode (PurgeBefore n t) st = map_prod PurgedReply id (purge_before n t st)"
| "conv_step mode (Trim n keep) st = map_prod PurgedReply id (trim_conversations n keep st)"

fun spec_step :: "erasure_mode \<Rightarrow> conv_call \<Rightarrow> conv_spec \<Rightarrow> conv_reply \<times> conv_spec" where
  "spec_step mode (Append m) s = map_prod Flag id (spec_insert m True s)"
| "spec_step mode (AppendSynced ms) s = map_prod Flags id (spec_insert_synced ms s)"
| "spec_step mode (Revoke k i d t) s = map_prod Flag id (spec_revoke k i d t s)"
| "spec_step mode (FillMedia n i kind text p) s = map_prod Flag id (spec_fill n i kind text p s)"
| "spec_step mode (UpdateStatus n i st t e) s = map_prod Flag id (spec_status n i st t e s)"
| "spec_step mode (MarkRead k) s = (Unit, spec_mark_read k s)"
| "spec_step mode (RecordEvent e) s = map_prod Flag id (spec_event e s)"
| "spec_step mode (SetOwner k w) s = map_prod Flag id (spec_owner k w s)"
| "spec_step mode (PutContact c) s = map_prod Flag id (spec_put_contact c s)"
| "spec_step mode (RemoveContact k t) s = map_prod Flag id (spec_remove_contact k t s)"
| "spec_step mode (LinkIdentity l) s = map_prod Flag id (spec_link l s)"
| "spec_step mode (EraseAll n ids) s = map_prod ErasedReply id (spec_erase mode n (set ids) s)"
| "spec_step mode (PurgeBefore n t) s = map_prod PurgedReply id (spec_purge n t s)"
| "spec_step mode (Trim n keep) s = map_prod PurgedReply id (spec_trim n keep s)"

text \<open>
  \<open>revoked\<close> is this library's own kind, which no message that is stored or filled in carries.
\<close>

fun call_ok :: "conv_call \<Rightarrow> bool" where
  "call_ok (Append m) \<longleftrightarrow> sm_kind m \<noteq> REVOKED"
| "call_ok (AppendSynced ms) \<longleftrightarrow> (\<forall>m\<in>set ms. sm_kind m \<noteq> REVOKED)"
| "call_ok (FillMedia _ _ kind _ _) \<longleftrightarrow> kind \<noteq> REVOKED"
| "call_ok _ \<longleftrightarrow> True"

primrec conv_run :: "erasure_mode \<Rightarrow> conv_call list \<Rightarrow> conv_state \<Rightarrow> conv_reply list \<times> conv_state" where
  "conv_run mode [] st = ([], st)"
| "conv_run mode (c # cs) st =
     (let (r, st) = conv_step mode c st; (rs, st) = conv_run mode cs st in (r # rs, st))"

primrec spec_run :: "erasure_mode \<Rightarrow> conv_call list \<Rightarrow> conv_spec \<Rightarrow> conv_reply list \<times> conv_spec" where
  "spec_run mode [] s = ([], s)"
| "spec_run mode (c # cs) s =
     (let (r, s) = spec_step mode c s; (rs, s) = spec_run mode cs s in (r # rs, s))"

end
