(* ===== verification/Conversation_Refinement.thy ===== *)
theory Conversation_Refinement
  imports Conversation_Spec
begin

text \<open>
  Every call on the in-process conversation store keeps its invariant and does to the records what
  the specification says, its answer included.
\<close>

section \<open>Single records\<close>

lemma conv_abs_sel [simp]:
  "sp_messages (conv_abs st) = map_of (cs_messages st)"
  "sp_sender (conv_abs st) = map_of (cs_sender_of st)"
  "sp_window (conv_abs st) k = map_option summary_window (map_of (cs_conversations st) k)"
  "sp_events (conv_abs st) = map_of (cs_window_events st)"
  "sp_owners (conv_abs st) = map_of (cs_owners st)"
  "sp_contacts (conv_abs st) = map_of (cs_contacts st)"
  "sp_links (conv_abs st) = map_of (cs_links st)"
  by (simp_all add: conv_abs_def)

lemma conv_okD:
  assumes "conv_ok st"
  shows "rows_ok st" "summaries_ok st" "windows_ok st" "book_ok st"
  using assms by (simp_all add: conv_ok_def)

text \<open>The parts of the invariant look at some components only.\<close>

lemma windows_ok_cong:
  "windows_ok st \<Longrightarrow> cs_window_events st' = cs_window_events st
    \<Longrightarrow> cs_window_index st' = cs_window_index st \<Longrightarrow> windows_ok st'"
  by (simp add: windows_ok_def)

lemma book_ok_cong:
  "book_ok st \<Longrightarrow> cs_owners st' = cs_owners st \<Longrightarrow> cs_contacts st' = cs_contacts st
    \<Longrightarrow> cs_links st' = cs_links st \<Longrightarrow> book_ok st'"
  by (simp add: book_ok_def)

lemma same_rest_ok:
  "same_rest st st' \<Longrightarrow> windows_ok st \<Longrightarrow> book_ok st \<Longrightarrow> windows_ok st' \<and> book_ok st'"
  by (auto simp: same_rest_def elim: windows_ok_cong book_ok_cong)

text \<open>A summary sees of a message its conversation, kind, time and text.\<close>

definition row_view :: "stored_message \<Rightarrow> conversation_key \<times> string \<times> time \<times> string option" where
  "row_view m = (sm_conversation m, sm_kind m, sm_timestamp m, sm_text m)"

lemma thread_ok_cong:
  "(\<And>i m. listed ms' k i m \<longleftrightarrow> listed ms k i m) \<Longrightarrow> thread_ok ms' k so = thread_ok ms k so"
  by (auto simp: thread_ok_def summarises_def split: option.split)

lemma summaries_ok_view:
  assumes "summaries_ok st" and "cs_conversations st' = cs_conversations st"
    and view: "\<And>i. map_option row_view (map_of (cs_messages st') i)
                   = map_option row_view (map_of (cs_messages st) i)"
  shows "summaries_ok st'"
proof -
  have "(\<exists>m. listed (map_of (cs_messages st')) k i m \<and> sm_timestamp m = t \<and> sm_text m = x)
      \<longleftrightarrow> (\<exists>m. listed (map_of (cs_messages st)) k i m \<and> sm_timestamp m = t \<and> sm_text m = x)"
    for k i t x
    using view[of i]
    by (cases "map_of (cs_messages st') i"; cases "map_of (cs_messages st) i")
      (auto simp: listed_def row_view_def)
  then have one: "(\<exists>m. listed (map_of (cs_messages st')) k i m \<and> sm_timestamp m = t \<and> sm_text m = x)
      = (\<exists>m. listed (map_of (cs_messages st)) k i m \<and> sm_timestamp m = t \<and> sm_text m = x)" for k i t x .
  have two: "(\<exists>m. listed (map_of (cs_messages st')) k i m \<and> sm_timestamp m = t)
      = (\<exists>m. listed (map_of (cs_messages st)) k i m \<and> sm_timestamp m = t)" for k i t
    using one[of k i t] by metis
  have sum: "summarises (map_of (cs_messages st')) k s = summarises (map_of (cs_messages st)) k s" for k s
    unfolding summarises_def one using two by metis
  have none: "(\<forall>i m. \<not> listed (map_of (cs_messages st')) k i m)
      = (\<forall>i m. \<not> listed (map_of (cs_messages st)) k i m)" for k
    using two by metis
  show ?thesis
    using assms(1,2) unfolding summaries_ok_def thread_ok_def sum none by simp
qed

lemma rows_ok_update:
  assumes ok: "rows_ok st" and "map_of (cs_messages st) i = Some m"
    and "sm_id m' = i" "sm_conversation m' = sm_conversation m" "sm_timestamp m' = sm_timestamp m"
    and "sm_kind m' = REVOKED \<Longrightarrow> sm_kind m = REVOKED"
  shows "rows_ok (st\<lparr>cs_messages := AList.update i m' (cs_messages st)\<rparr>)"
  unfolding rows_ok_def using rows_okD[OF ok] assms(2-6)
  by (auto simp: rows_okD(6,7)[OF ok] split: if_splits dest: rows_okD(8)[OF ok])

text \<open>A status, or the mark of a revoke, changes nothing a summary or an index sees.\<close>

lemma conv_ok_restatus:
  assumes ok: "conv_ok st" and m: "map_of (cs_messages st) i = Some m"
    and view: "sm_id m' = sm_id m" "row_view m' = row_view m"
  shows "conv_ok (st\<lparr>cs_messages := AList.update i m' (cs_messages st)\<rparr>)" (is "conv_ok ?s")
proof -
  have "rows_ok ?s"
    by (rule rows_ok_update[OF conv_okD(1)[OF ok] m])
      (use view rows_okD(5)[OF conv_okD(1)[OF ok] m] in \<open>auto simp: row_view_def\<close>)
  moreover have "summaries_ok ?s"
    by (rule summaries_ok_view[OF conv_okD(2)[OF ok]]) (use m view in auto)
  ultimately show ?thesis
    using conv_okD(3,4)[OF ok] by (auto simp: conv_ok_def elim: windows_ok_cong book_ok_cong)
qed

lemma row_view_status [simp]:
  "row_view (m\<lparr>sm_status := a, sm_status_at := b\<rparr>) = row_view m"
  "row_view (m\<lparr>sm_status := a, sm_status_at := b, sm_error := c\<rparr>) = row_view m"
  by (simp_all add: row_view_def)

lemma update_status_refines:
  assumes ok: "conv_ok st" and run: "update_status n i status at e st = (r, st')"
  shows "conv_ok st' \<and> spec_status n i status at e (conv_abs st) = (r, conv_abs st')"
proof (cases "map_of (cs_messages st) i")
  case (Some m)
  then show ?thesis
    using conv_ok_restatus[OF ok Some] run ok
    by (auto simp: update_status_def spec_status_def Let_def conv_abs_def fun_eq_iff split: if_splits)
qed (use assms in \<open>auto simp: update_status_def spec_status_def\<close>)

text \<open>A new row, and the summary after it.\<close>

lemma listed_new:
  "ms (sm_id m) = None \<Longrightarrow>
     listed (ms(sm_id m \<mapsto> m)) k i x \<longleftrightarrow>
       listed ms k i x \<or> i = sm_id m \<and> x = m \<and> sm_conversation m = k \<and> sm_kind m \<noteq> REVOKED"
  by (auto simp: listed_def)

lemma summarises_new:
  assumes old: "summarises ms k s" and new: "ms (sm_id m) = None" "sm_conversation m = k"
      "sm_kind m \<noteq> REVOKED"
    and s': "(ss_last_message_at s', ss_last_message_id s', ss_last_text s') =
      (if (ss_last_message_at s, ss_last_message_id s) < (sm_timestamp m, sm_id m)
       then (sm_timestamp m, sm_id m, sm_text m)
       else (ss_last_message_at s, ss_last_message_id s, ss_last_text s))"
  shows "summarises (ms(sm_id m \<mapsto> m)) k s'"
proof (cases "(ss_last_message_at s, ss_last_message_id s) < (sm_timestamp m, sm_id m)")
  case True
  then have "\<forall>i x. listed ms k i x \<longrightarrow> (sm_timestamp x, i) \<le> (sm_timestamp m, sm_id m)"
    using old unfolding summarises_def by (meson le_less_trans less_imp_le)
  then show ?thesis
    using s' new True by (auto simp: summarises_def listed_new)
next
  case False
  then have "(sm_timestamp m, sm_id m) \<le> (ss_last_message_at s, ss_last_message_id s)"
    by (simp only: not_less)
  then show ?thesis
    using s' new old False unfolding summarises_def listed_new[of ms m, OF new(1)]
    by (simp del: less_prod_simp less_eq_prod_simp) blast
qed

lemma conv_insert_refines:
  assumes ok: "conv_ok st" and kind: "sm_kind m \<noteq> REVOKED" and run: "conv_insert m live st = (r, st')"
  shows "conv_ok st' \<and> spec_insert m live (conv_abs st) = (r, conv_abs st')"
proof (cases "map_of (cs_messages st) (sm_id m)")
  case (Some x)
  then show ?thesis
    using run ok by (simp add: conv_insert_def insert_row_known spec_insert_def)
next
  case None
  obtain b st1 where ins: "insert_row m st = (b, st1)" by fastforce
  note N = insert_row_fresh[OF conv_okD(1)[OF ok] kind None ins]
  then have b: "insert_row m st = (True, st1)" using ins by simp
  let ?k = "sm_conversation m" and ?ms = "map_of (cs_messages st)"
  have rest: "windows_ok st1 \<and> book_ok st1"
    using N same_rest_ok conv_okD(3,4)[OF ok] by blast
  have conv: "cs_conversations st1 = cs_conversations st" using N by (simp add: same_rest_def)
  obtain s where st': "st' = st1\<lparr>cs_conversations := AList.update ?k s (cs_conversations st)\<rparr>" "r"
    and s: "s = (case map_of (cs_conversations st) ?k of
        None \<Rightarrow> \<lparr>ss_last_message_at = sm_timestamp m, ss_last_message_id = sm_id m,
                 ss_last_text = sm_text m,
                 ss_last_inbound_at = (if live \<and> sm_direction m = Inbound then Some (sm_timestamp m) else None),
                 ss_unread = (if live \<and> sm_direction m = Inbound then 1 else 0)\<rparr>
      | Some s0 \<Rightarrow>
          let s1 = (if (sm_timestamp m, sm_id m) > (ss_last_message_at s0, ss_last_message_id s0)
                    then s0\<lparr>ss_last_message_at := sm_timestamp m, ss_last_message_id := sm_id m,
                            ss_last_text := sm_text m\<rparr> else s0)
          in if live \<and> sm_direction m = Inbound
             then s1\<lparr>ss_last_inbound_at := Some (case ss_last_inbound_at s1 of
                        None \<Rightarrow> sm_timestamp m | Some t \<Rightarrow> max t (sm_timestamp m)),
                     ss_unread := ss_unread s1 + 1\<rparr> else s1)"
    using run b conv by (auto simp: conv_insert_def Let_def split: option.splits)
  have ms: "map_of (cs_messages st') = ?ms(sm_id m \<mapsto> m)" using N by (simp add: st')
  note S = conv_okD(2)[OF ok, unfolded summaries_ok_def]
  note new = listed_new[of ?ms m, OF None]
  have "thread_ok (?ms(sm_id m \<mapsto> m)) ?k (Some s)"
  proof (cases "map_of (cs_conversations st) ?k")
    case none: None
    then have "\<not> listed ?ms ?k i x" for i x
      using S thread_ok_def[of ?ms ?k None] by (metis option.simps(4))
    then show ?thesis
      using none kind by (auto simp: s thread_ok_def summarises_def new)
  next
    case (Some s0)
    then have "summarises ?ms ?k s0" using S thread_ok_def by (metis option.simps(5))
    then have "summarises (?ms(sm_id m \<mapsto> m)) ?k s"
      by (rule summarises_new) (use Some kind None in \<open>simp_all add: s Let_def del: less_prod_simp\<close>)
    then show ?thesis by (simp add: thread_ok_def)
  qed
  moreover have "thread_ok (?ms(sm_id m \<mapsto> m)) k so = thread_ok ?ms k so" if "k \<noteq> ?k" for k so
    by (rule thread_ok_cong) (use that in \<open>simp add: new\<close>)
  ultimately have "summaries_ok st'"
    using S unfolding summaries_ok_def ms by (simp add: st')
  then have "conv_ok st'"
    using N rest rows_ok_cong[of st1 st']
    by (auto simp: conv_ok_def st' elim: windows_ok_cong book_ok_cong)
  moreover have "summary_window s = (let (inbound, unread) = (case map_option summary_window
        (map_of (cs_conversations st) ?k) of None \<Rightarrow> (None, 0) | Some w \<Rightarrow> w)
      in if live \<and> sm_direction m = Inbound
         then (Some (case inbound of None \<Rightarrow> sm_timestamp m | Some t \<Rightarrow> max t (sm_timestamp m)), unread + 1)
         else (inbound, unread))"
    by (auto simp: s summary_window_def Let_def split: option.split)
  ultimately show ?thesis
    using N st' None ms
    by (auto simp: spec_insert_def Let_def conv_abs_def fun_eq_iff same_rest_def split: prod.splits)
qed

lemma append_synced_refines:
  "conv_ok st \<Longrightarrow> \<forall>m\<in>set ms. sm_kind m \<noteq> REVOKED \<Longrightarrow> append_synced ms st = (bs, st') \<Longrightarrow>
     conv_ok st' \<and> spec_insert_synced ms (conv_abs st) = (bs, conv_abs st')"
proof (induction ms arbitrary: st bs)
  case (Cons m ms)
  obtain b st1 bs1 where ins: "conv_insert m False st = (b, st1)"
    and more: "append_synced ms st1 = (bs1, st')" "bs = b # bs1"
    using Cons.prems(3) by (auto split: prod.splits)
  note one = conv_insert_refines[OF Cons.prems(1) _ ins]
  with Cons more show ?case by auto
qed simp

lemma revoke_refines:
  assumes ok: "conv_ok st" and run: "revoke k i d at st = (r, st')"
  shows "conv_ok st' \<and> spec_revoke k i d at (conv_abs st) = (r, conv_abs st')"
proof (cases "map_of (cs_messages st) i")
  case (Some m)
  then show ?thesis
    using conv_ok_restatus[OF ok Some] run ok
    by (auto simp: revoke_def spec_revoke_def conv_abs_def fun_eq_iff split: if_splits)
next
  case None
  let ?t = "tombstone k i d at"
  have ins: "insert_row ?t st = (r, st')" using None run by (simp add: revoke_def)
  have N: "r \<and> rows_ok st' \<and> same_rest st st'
      \<and> map_of (cs_messages st') = (map_of (cs_messages st))(i \<mapsto> ?t)
      \<and> map_of (cs_sender_of st') = (map_of (cs_sender_of st))(i := None)"
    using insert_row_fresh[OF conv_okD(1)[OF ok] _ _ ins] None by simp
  then have ms: "map_of (cs_messages st') = (map_of (cs_messages st))(i \<mapsto> ?t)" by blast
  have "thread_ok (map_of (cs_messages st')) k' so = thread_ok (map_of (cs_messages st)) k' so"
    for k' so by (rule thread_ok_cong) (use None in \<open>auto simp: ms listed_def\<close>)
  then have "summaries_ok st'"
    using conv_okD(2)[OF ok] N by (simp add: summaries_ok_def same_rest_def)
  then have "conv_ok st'"
    using N same_rest_ok[of st st'] conv_okD(3,4)[OF ok] by (simp add: conv_ok_def)
  then show ?thesis
    using N None by (auto simp: spec_revoke_def conv_abs_def same_rest_def fun_eq_iff)
qed

text \<open>The latest message's new text is the summary's.\<close>

lemma summarises_retext:
  assumes "summarises ms k s" and "ms i = Some m" and "sm_id m = i" and "sm_kind m \<noteq> REVOKED"
    and "sm_conversation m' = sm_conversation m" "sm_timestamp m' = sm_timestamp m"
      "sm_kind m' \<noteq> REVOKED"
  shows "summarises (ms(i \<mapsto> m')) k
           (if sm_conversation m = k \<and> ss_last_message_id s = i
            then s\<lparr>ss_last_text := sm_text m'\<rparr> else s)"
proof -
  have row: "listed (ms(i \<mapsto> m')) k j x \<longleftrightarrow>
      (if j = i then x = m' \<and> sm_conversation m = k else listed ms k j x)" for j x
    using assms by (auto simp: listed_def)
  show ?thesis using assms(1-4) unfolding summarises_def row
    by (auto simp: listed_def assms(6) simp del: less_eq_prod_simp split: if_splits)
qed

lemma thread_ok_retext:
  assumes "thread_ok ms k so" and "ms i = Some m" and "sm_id m = i" and "sm_kind m \<noteq> REVOKED"
    and "sm_conversation m' = sm_conversation m" "sm_timestamp m' = sm_timestamp m"
      "sm_kind m' \<noteq> REVOKED" "sm_text m' = x"
  shows "thread_ok (ms(i \<mapsto> m')) k
           (map_option (\<lambda>s. if sm_conversation m = k \<and> ss_last_message_id s = i
                            then s\<lparr>ss_last_text := x\<rparr> else s) so)"
proof (cases so)
  case None
  then have "\<not> listed (ms(i \<mapsto> m')) k j x" for j x
    using assms by (auto simp: thread_ok_def listed_def)
  then show ?thesis using None by (simp add: thread_ok_def)
next
  case (Some s)
  then show ?thesis using summarises_retext[of ms k s i m m'] assms by (auto simp: thread_ok_def split: if_splits)
qed

lemma fill_refines:
  assumes ok: "conv_ok st" and kind: "kind \<noteq> REVOKED"
    and run: "fill_media_placeholder n i kind text p st = (r, st')"
  shows "conv_ok st' \<and> spec_fill n i kind text p (conv_abs st) = (r, conv_abs st')"
proof (cases "\<exists>m. map_of (cs_messages st) i = Some m
    \<and> ck_phone_number_id (sm_conversation m) = n \<and> sm_kind m = MEDIA_PLACEHOLDER \<and> sm_status m \<noteq> Deleted")
  case False
  then show ?thesis using ok run
    by (auto simp: fill_media_placeholder_def spec_fill_def split: option.splits)
next
  case True
  then obtain m where m: "map_of (cs_messages st) i = Some m"
      "ck_phone_number_id (sm_conversation m) = n" "sm_kind m = MEDIA_PLACEHOLDER" "sm_status m \<noteq> Deleted"
    by blast
  let ?m = "m\<lparr>sm_kind := kind, sm_text := text, sm_payload := p\<rparr>"
  let ?f = "\<lambda>k s. if sm_conversation m = k \<and> ss_last_message_id s = i
                 then s\<lparr>ss_last_text := text\<rparr> else s"
  have rows: "cs_messages st' = AList.update i ?m (cs_messages st)" "cs_sender_of st' = cs_sender_of st"
      "cs_history st' = cs_history st" "cs_senders st' = cs_senders st"
    and win: "cs_window_events st' = cs_window_events st" "cs_window_index st' = cs_window_index st"
    and book: "cs_owners st' = cs_owners st" "cs_contacts st' = cs_contacts st" "cs_links st' = cs_links st"
    and r: "r" and dist: "keys_distinct (cs_conversations st) \<Longrightarrow> keys_distinct (cs_conversations st')"
    using run m by (auto simp: fill_media_placeholder_def Let_def split: option.splits if_splits)
  have conv: "map_of (cs_conversations st') k = map_option (?f k) (map_of (cs_conversations st) k)" for k
    using run m(1,3,4)
    by (cases "map_of (cs_conversations st) (sm_conversation m)"; cases "k = sm_conversation m")
      (auto simp: fill_media_placeholder_def Let_def m(2) option.map_ident split: if_splits)
  have id: "sm_id m = i" using rows_okD(5)[OF conv_okD(1)[OF ok] m(1)] .
  have "rows_ok st'"
    by (rule rows_ok_cong[OF rows_ok_update[OF conv_okD(1)[OF ok] m(1), of ?m]])
      (use id kind in \<open>simp_all add: rows\<close>)
  moreover have "thread_ok ((map_of (cs_messages st))(i \<mapsto> ?m)) k
      (map_option (?f k) (map_of (cs_conversations st) k))" for k
    using thread_ok_retext[of "map_of (cs_messages st)" k "map_of (cs_conversations st) k" i m ?m "text"]
      conv_okD(2)[OF ok] m id kind by (simp add: summaries_ok_def)
  then have "summaries_ok st'"
    using dist conv_okD(2)[OF ok] unfolding summaries_ok_def rows(1) update_conv' conv by blast
  ultimately have "conv_ok st'"
    using windows_ok_cong[OF conv_okD(3)[OF ok] win] book_ok_cong[OF conv_okD(4)[OF ok] book]
    by (simp add: conv_ok_def)
  moreover have "map_option summary_window (map_option (?f k) so) = map_option summary_window so" for k so
    by (cases so) (auto simp: summary_window_def)
  ultimately show ?thesis
    using m r by (auto simp: spec_fill_def conv_abs_def fun_eq_iff rows(1,2) conv win book)
qed

lemma mark_read_refines:
  assumes ok: "conv_ok st"
  shows "conv_ok (mark_read k st) \<and> spec_mark_read k (conv_abs st) = conv_abs (mark_read k st)"
proof (cases "map_of (cs_conversations st) k")
  case None
  then show ?thesis using ok by (simp add: mark_read_def spec_mark_read_def conv_abs_def fun_eq_iff)
next
  case (Some s)
  have read: "summarises ms k (s\<lparr>ss_unread := 0\<rparr>) = summarises ms k s" for ms
    by (simp add: summarises_def)
  have "thread_ok (map_of (cs_messages st)) k (Some s)"
    using conv_okD(2)[OF ok] Some by (metis summaries_ok_def)
  then have "summaries_ok (mark_read k st)"
    using conv_okD(2)[OF ok] Some by (auto simp: summaries_ok_def mark_read_def thread_ok_def read)
  then have "conv_ok (mark_read k st)"
    using conv_okD[OF ok] Some
    by (auto simp: conv_ok_def mark_read_def elim: rows_ok_cong windows_ok_cong book_ok_cong)
  then show ?thesis
    using Some by (simp add: mark_read_def spec_mark_read_def conv_abs_def fun_eq_iff summary_window_def)
qed

lemma windows_okD:
  assumes "windows_ok st"
  shows "keys_distinct (cs_window_events st)" "idx_ok (cs_window_index st)"
    "map_of (cs_window_events st) (n, i) = Some e \<Longrightarrow> ck_phone_number_id (we_conversation e) = n \<and> we_id e = i"
    "(t, i) \<in> set (idx (cs_window_index st) k) \<longleftrightarrow>
      (\<exists>e. map_of (cs_window_events st) (ck_phone_number_id k, i) = Some e \<and> we_conversation e = k \<and> we_at e = t)"
  using assms unfolding windows_ok_def by blast+

text \<open>The records beside the history: the rest of the state is as it was.\<close>

lemma conv_ok_beside:
  assumes "conv_ok st" and "windows_ok st'" "book_ok st'"
    and "cs_messages st' = cs_messages st" "cs_history st' = cs_history st"
      "cs_senders st' = cs_senders st" "cs_sender_of st' = cs_sender_of st"
      "cs_conversations st' = cs_conversations st"
  shows "conv_ok st'"
  using assms rows_ok_cong[of st st'] by (simp add: conv_ok_def summaries_ok_def)

lemma record_event_refines:
  assumes ok: "conv_ok st" and run: "record_window_event e st = (r, st')"
  shows "conv_ok st' \<and> spec_event e (conv_abs st) = (r, conv_abs st')"
proof (cases "map_of (cs_window_events st) (ck_phone_number_id (we_conversation e), we_id e)")
  case None
  note W = windows_okD[OF conv_okD(3)[OF ok]]
  have st': "st' = st\<lparr>cs_window_index := idx_insert (we_conversation e) (we_at e, we_id e) (cs_window_index st),
      cs_window_events := AList.update (ck_phone_number_id (we_conversation e), we_id e) e (cs_window_events st)\<rparr>"
    "r" using run None by (auto simp: record_window_event_def)
  have "windows_ok st'"
    unfolding windows_ok_def using W(1-3) None by (auto simp: st' W(4) split: if_splits)
  then have "conv_ok st'"
    by (rule conv_ok_beside[OF ok]) (use conv_okD(4)[OF ok] in \<open>auto simp: st' elim: book_ok_cong\<close>)
  then show ?thesis using None by (simp add: st' spec_event_def conv_abs_def fun_eq_iff)
qed (use ok run in \<open>auto simp: record_window_event_def spec_event_def\<close>)

lemma set_owner_refines:
  assumes ok: "conv_ok st" and run: "set_thread_owner k w st = (r, st')"
  shows "conv_ok st' \<and> spec_owner k w (conv_abs st) = (r, conv_abs st')"
proof -
  have "conv_ok (st\<lparr>cs_owners := AList.update k w (cs_owners st)\<rparr>)"
    by (rule conv_ok_beside[OF ok])
      (use conv_okD(3,4)[OF ok] in \<open>auto simp: book_ok_def elim: windows_ok_cong\<close>)
  then show ?thesis using ok run
    by (auto simp: set_thread_owner_def spec_owner_def newest_def conv_abs_def fun_eq_iff not_less
        split: option.splits if_splits)
qed

lemma book_okD:
  assumes "book_ok st"
  shows "keys_distinct (cs_owners st)" "omap_ok (cs_contacts st)" "omap_ok (cs_links st)"
    "map_of (cs_contacts st) k = Some (Contact c) \<Longrightarrow> book_key (ct_key c) = k"
  using assms unfolding book_ok_def by blast+

lemma contacts_put:
  assumes ok: "conv_ok st" and key: "\<And>c. v = Contact c \<Longrightarrow> book_key (ct_key c) = k"
  shows "conv_ok (st\<lparr>cs_contacts := omap_insert k v (cs_contacts st)\<rparr>)
    \<and> conv_abs (st\<lparr>cs_contacts := omap_insert k v (cs_contacts st)\<rparr>)
      = (conv_abs st)\<lparr>sp_contacts := (map_of (cs_contacts st))(k \<mapsto> v)\<rparr>"
proof -
  note B = book_okD[OF conv_okD(4)[OF ok]]
  have "book_ok (st\<lparr>cs_contacts := omap_insert k v (cs_contacts st)\<rparr>)"
    unfolding book_ok_def using B key by auto
  then have "conv_ok (st\<lparr>cs_contacts := omap_insert k v (cs_contacts st)\<rparr>)"
    by (intro conv_ok_beside[OF ok]) (use conv_okD(3)[OF ok] in \<open>auto elim: windows_ok_cong\<close>)
  then show ?thesis using B(2) by (simp add: conv_abs_def fun_eq_iff)
qed

lemma put_contact_refines:
  assumes ok: "conv_ok st" and run: "put_contact c st = (r, st')"
  shows "conv_ok st' \<and> spec_put_contact c (conv_abs st) = (r, conv_abs st')"
  using contacts_put[OF ok, of "Contact c" "book_key (ct_key c)"] ok run
  by (auto simp: put_contact_def spec_put_contact_def newest_def Let_def not_less
      split: option.splits if_splits)

lemma remove_contact_refines:
  assumes ok: "conv_ok st" and run: "remove_contact k at st = (r, st')"
  shows "conv_ok st' \<and> spec_remove_contact k at (conv_abs st) = (r, conv_abs st')"
  using contacts_put[OF ok, of "Removed at" "book_key k"] ok run
  by (auto simp: remove_contact_def spec_remove_contact_def newest_def Let_def not_less not_le
      split: option.splits if_splits synced.splits)

lemma link_refines:
  assumes ok: "conv_ok st" and run: "link_identity l st = (r, st')"
  shows "conv_ok st' \<and> spec_link l (conv_abs st) = (r, conv_abs st')"
proof -
  let ?k = "(lk_phone_number_id l, lk_previous l, lk_current l)"
  let ?s = "st\<lparr>cs_links := omap_insert ?k (lk_at l) (cs_links st)\<rparr>"
  note B = book_okD[OF conv_okD(4)[OF ok]]
  have "book_ok ?s" unfolding book_ok_def using B by auto
  then have "conv_ok ?s"
    by (intro conv_ok_beside[OF ok]) (use conv_okD(3)[OF ok] in \<open>auto elim: windows_ok_cong\<close>)
  then show ?thesis using ok run B(3)
    by (auto simp: link_identity_def spec_link_def Let_def conv_abs_def fun_eq_iff split: if_splits)
qed

end
