(* ===== verification/Conversation_Bulk.thy ===== *)
theory Conversation_Bulk
  imports Conversation_Refinement
begin

text \<open>
  The operations that delete many records at once (a purge by age and a trim here) keep the store's
  invariant and leave what the specification says.
\<close>

section \<open>Dropped bindings\<close>

lemma dropped_dom: "dropped P f = card (dom f - dom (keep_map P f))"
  by (auto simp: dropped_def keep_map_def dom_def intro!: arg_cong[where f = card] split: option.splits)

lemma map_of_filter_keep:
  "keys_distinct m \<Longrightarrow> map_of (filter P m) = keep_map (\<lambda>k v. P (k, v)) (map_of m)"
  by (simp add: fun_eq_iff map_of_al_filter keep_map_def)

lemma length_filter_dropped:
  assumes "keys_distinct m"
  shows "length m - length (filter P m) = dropped (\<lambda>k v. P (k, v)) (map_of m)"
proof -
  have "{k. \<exists>v. map_of m k = Some v \<and> \<not> P (k, v)} = fst ` set (filter (\<lambda>e. \<not> P e) m)"
    using map_of_mem[OF assms] by force
  moreover have "card (fst ` set (filter (\<lambda>e. \<not> P e) m)) = length (filter (\<lambda>e. \<not> P e) m)"
    using keys_distinct_filter[OF assms, of "\<lambda>e. \<not> P e"]
    by (metis keys_distinct_def distinct_card length_map list.set_map)
  ultimately show ?thesis
    using sum_length_filter_compl[of P m] by (simp add: dropped_def)
qed

text \<open>A map that shrinks twice.\<close>

lemma card_dom_chain:
  assumes "finite (dom a)" and "dom b \<subseteq> dom a" and "dom c \<subseteq> dom b"
  shows "card (dom a - dom b) + card (dom b - dom c) = card (dom a - dom c)"
proof -
  have "dom a - dom c = (dom a - dom b) \<union> (dom b - dom c)" using assms by auto
  moreover have "(dom a - dom b) \<inter> (dom b - dom c) = {}" by auto
  ultimately show ?thesis
    using assms(1,2) by (simp add: card_Un_disjoint finite_subset)
qed

lemma length_filter_le_dropped: "length (filter P m) \<le> length m"
  by simp

section \<open>Rows\<close>

primrec remove_rows :: "string list \<Rightarrow> conv_state \<Rightarrow> nat \<times> conv_state" where
  "remove_rows [] st = (0, st)"
| "remove_rows (i # ids) st =
     (let (b, st) = remove_message i st; (n, st) = remove_rows ids st
      in ((if b then n + 1 else n), st))"

definition without :: "'k set \<Rightarrow> ('k \<rightharpoonup> 'v) \<Rightarrow> 'k \<rightharpoonup> 'v" where
  "without A f k = (if k \<in> A then None else f k)"

lemma dom_without [simp]: "dom (without A f) = dom f - A"
  by (auto simp: without_def dom_def)

lemma without_simps [simp]:
  "without {} f = f" "without A (f(i := None)) = without (insert i A) f"
  by (auto simp: without_def fun_eq_iff)

lemma remove_rows:
  "rows_ok st \<Longrightarrow> remove_rows ids st = (n, st') \<Longrightarrow>
     rows_ok st' \<and> same_rest st st' \<and> n = card (set ids \<inter> dom (map_of (cs_messages st)))
     \<and> map_of (cs_messages st') = without (set ids) (map_of (cs_messages st))
     \<and> map_of (cs_sender_of st') = without (set ids) (map_of (cs_sender_of st))"
proof (induction ids arbitrary: st n)
  case (Cons i ids)
  obtain b st1 n1 where one: "remove_message i st = (b, st1)"
    and more: "remove_rows ids st1 = (n1, st')" "n = (if b then n1 + 1 else n1)"
    using Cons.prems(2) by (auto split: prod.splits)
  note R = remove_message[OF Cons.prems(1) one]
  have M: "map_of (cs_messages st1) = (map_of (cs_messages st))(i := None)" using R by blast
  note H = Cons.IH[OF conjunct1[OF R] more(1)]
  have "set (i # ids) \<inter> dom (map_of (cs_messages st)) =
      (if b then insert i else id) (set ids \<inter> dom (map_of (cs_messages st1)))"
    using R unfolding M by auto
  moreover have "i \<notin> set ids \<inter> dom (map_of (cs_messages st1))" unfolding M by simp
  ultimately have "n = card (set (i # ids) \<inter> dom (map_of (cs_messages st)))"
    using H more(2) by (auto simp: card_insert_if)
  moreover have "map_of (cs_sender_of st1) = (map_of (cs_sender_of st))(i := None)" using R by blast
  ultimately show ?case
    using H R same_rest_trans[of st st1 st'] unfolding M list.simps(15) by (simp only: without_simps simp_thms)
qed simp

lemma fold_purge_row:
  "fold purge_row ids (pu, st) =
     (pu\<lparr>pu_messages := pu_messages pu + fst (remove_rows ids st)\<rparr>, snd (remove_rows ids st))"
  by (induction ids arbitrary: pu st) (auto simp: purge_row_def Let_def split: prod.splits)

lemma fold_erase_row:
  "fold erase_row ids (er, st) =
     (er\<lparr>er_messages := er_messages er + fst (remove_rows ids st)\<rparr>, snd (remove_rows ids st))"
  by (induction ids arbitrary: er st) (auto simp: erase_row_def Let_def split: prod.splits)

section \<open>Summaries of what stays\<close>

lemma thread_ok_listed:
  "thread_ok ms k so \<Longrightarrow> so \<noteq> None \<longleftrightarrow> (\<exists>i m. listed ms k i m)"
  by (auto simp: thread_ok_def summarises_def split: option.splits)

lemma thread_ok_Some: "thread_ok ms k (Some s) \<longleftrightarrow> summarises ms k s"
  by (simp add: thread_ok_def)

lemma summarises_fewer:
  assumes "summarises ms k s" and "\<And>i m. listed ms' k i m \<Longrightarrow> listed ms k i m"
    and "ms' (ss_last_message_id s) = ms (ss_last_message_id s)"
  shows "summarises ms' k s"
  using assms unfolding summarises_def by (metis listed_def)

lemma windows_kept:
  assumes "summaries_ok st'"
    and "\<And>k. map_of (cs_conversations st') k = None
       \<or> map_option summary_window (map_of (cs_conversations st') k)
         = map_option summary_window (map_of (cs_conversations st) k)"
  shows "sp_window (conv_abs st') = keep_windows (map_of (cs_messages st')) (sp_window (conv_abs st))"
proof
  fix k
  have "thread_ok (map_of (cs_messages st')) k (map_of (cs_conversations st') k)"
    using assms(1) by (simp add: summaries_ok_def)
  from thread_ok_listed[OF this]
  show "sp_window (conv_abs st') k
      = keep_windows (map_of (cs_messages st')) (sp_window (conv_abs st)) k"
    using assms(2)[of k]
    by (cases "map_of (cs_conversations st') k"; cases "map_of (cs_conversations st) k")
      (auto simp: keep_windows_def keep_map_def)
qed

section \<open>Window events\<close>

lemma remove_window_event:
  assumes ok: "windows_ok st" and run: "remove_window_event n i st = (b, st')"
  shows "windows_ok st' \<and> (b \<longleftrightarrow> map_of (cs_window_events st) (n, i) \<noteq> None)
    \<and> map_of (cs_window_events st') = (map_of (cs_window_events st))((n, i) := None)
    \<and> st' = st\<lparr>cs_window_events := cs_window_events st', cs_window_index := cs_window_index st'\<rparr>"
proof (cases "map_of (cs_window_events st) (n, i)")
  case (Some e)
  note W = windows_okD[OF ok]
  have st': "st' = st\<lparr>cs_window_events := AList.delete (n, i) (cs_window_events st),
      cs_window_index := idx_remove (we_conversation e) (we_at e, i) (cs_window_index st)\<rparr>" "b"
    using run Some W(3)[OF Some] by (auto simp: remove_window_event_def)
  have "windows_ok st'"
    unfolding windows_ok_def using W(1-3) Some W(3)[OF Some] by (auto simp: st' W(4) split: if_splits)
  then show ?thesis using Some st' by (simp add: fun_eq_iff)
qed (use ok run in \<open>auto simp: remove_window_event_def fun_eq_iff\<close>)

lemma fold_purge_event:
  "windows_ok st \<Longrightarrow> fold purge_event es (pu, st) = (pu', st') \<Longrightarrow>
     windows_ok st' \<and> map_of (cs_window_events st') = without (set es) (map_of (cs_window_events st))
     \<and> pu' = pu\<lparr>pu_window_events :=
          pu_window_events pu + card (set es \<inter> dom (map_of (cs_window_events st)))\<rparr>
     \<and> st' = st\<lparr>cs_window_events := cs_window_events st', cs_window_index := cs_window_index st'\<rparr>"
proof (induction es arbitrary: pu st)
  case (Cons e es)
  obtain b st1 where one: "remove_window_event (fst e) (snd e) st = (b, st1)" by fastforce
  note R = remove_window_event[OF Cons.prems(1) one]
  let ?pu = "if b then pu\<lparr>pu_window_events := pu_window_events pu + 1\<rparr> else pu"
  have "fold purge_event es (?pu, st1) = (pu', st')"
    using Cons.prems(2) one by (simp add: purge_event_def[of e])
  note H = Cons.IH[OF conjunct1[OF R] this]
  have M: "map_of (cs_window_events st1) = (map_of (cs_window_events st))(e := None)" using R by simp
  have "set (e # es) \<inter> dom (map_of (cs_window_events st)) =
      (if b then insert e else id) (set es \<inter> dom (map_of (cs_window_events st1)))"
    using R unfolding M by auto
  moreover have "e \<notin> set es \<inter> dom (map_of (cs_window_events st1))" unfolding M by simp
  ultimately have "card (set (e # es) \<inter> dom (map_of (cs_window_events st)))
      = (if b then 1 else 0) + card (set es \<inter> dom (map_of (cs_window_events st1)))"
    by (simp add: card_insert_if)
  then have "pu' = pu\<lparr>pu_window_events :=
      pu_window_events pu + card (set (e # es) \<inter> dom (map_of (cs_window_events st)))\<rparr>"
    using H by simp
  moreover have "map_of (cs_window_events st') = without (set (e # es)) (map_of (cs_window_events st))"
    using H unfolding M list.simps(15) by (simp only: without_simps)
  moreover have "st' = st\<lparr>cs_window_events := cs_window_events st', cs_window_index := cs_window_index st'\<rparr>"
    using H R by (cases st; cases st1; cases st') simp
  ultimately show ?case using H by blast
qed simp

section \<open>Purge\<close>

lemma without_keep:
  "A = {k. \<exists>v. f k = Some v \<and> \<not> P k v} \<Longrightarrow> without A f = keep_map P f"
  by (auto simp: without_def keep_map_def fun_eq_iff split: option.split)

lemma card_dropped:
  "A = {k. \<exists>v. f k = Some v \<and> \<not> P k v} \<Longrightarrow> card (A \<inter> dom f) = dropped P f"
  by (auto simp: dropped_def intro!: arg_cong[where f = card])

lemma senders_kept:
  assumes ok: "rows_ok st" and A: "A = {i. \<exists>m. map_of (cs_messages st) i = Some m \<and> \<not> P i m}"
  shows "without A (map_of (cs_sender_of st))
    = (\<lambda>i. if keep_map P (map_of (cs_messages st)) i = None then None else map_of (cs_sender_of st) i)"
proof
  fix i
  show "without A (map_of (cs_sender_of st)) i
    = (if keep_map P (map_of (cs_messages st)) i = None then None else map_of (cs_sender_of st) i)"
    using rows_okD(8)[OF ok, of i] A
    by (cases "map_of (cs_sender_of st) i") (auto simp: without_def keep_map_def split: option.split)
qed

lemma dom_sp_window: "dom (sp_window (conv_abs st)) = dom (map_of (cs_conversations st))"
  by (auto simp: dom_def)

lemma purge_refines:
  assumes ok: "conv_ok st" and run: "purge_before number cutoff st = (pu, st')"
  shows "conv_ok st' \<and> spec_purge number cutoff (conv_abs st) = (pu, conv_abs st')"
proof -
  let ?kept = "\<lambda>k at. \<not> (in_scope number k \<and> at < cutoff)"
  let ?keptm = "\<lambda>_ m. ?kept (sm_conversation m) (sm_timestamp m)"
  let ?ms = "map_of (cs_messages st)" and ?es = "map_of (cs_window_events st)"
  note R = rows_okD[OF conv_okD(1)[OF ok]]
  note W = windows_okD[OF conv_okD(3)[OF ok]]
  note B = book_okD[OF conv_okD(4)[OF ok]]
  note S = conv_okD(2)[OF ok]
  define old where "old = map (\<lambda>(_, m). sm_id m)
      (filter (\<lambda>(_, m). in_scope number (sm_conversation m) \<and> sm_timestamp m < cutoff) (cs_messages st))"
  define olde where "olde = map fst
      (filter (\<lambda>(_, e). in_scope number (we_conversation e) \<and> we_at e < cutoff) (cs_window_events st))"
  have set_old: "set old = {i. \<exists>m. ?ms i = Some m \<and> \<not> ?keptm i m}"
    using map_of_mem[OF R(1)] R(5) unfolding old_def by force
  have set_olde: "set olde = {k. \<exists>e. ?es k = Some e \<and> \<not> ?kept (we_conversation e) (we_at e)}"
    using map_of_mem[OF W(1)] unfolding olde_def by force
  obtain n st1 where rem: "remove_rows old st = (n, st1)" by fastforce
  note M = remove_rows[OF conv_okD(1)[OF ok] rem]
  have ms: "map_of (cs_messages st1) = keep_map ?keptm ?ms"
    using M without_keep[OF set_old] by simp
  have n: "n = dropped ?keptm ?ms" using M card_dropped[OF set_old] by simp
  have rest: "same_rest st st1" using M by blast
  let ?keep = "\<lambda>(k, s). \<not> (in_scope number k \<and> ss_last_message_at s < cutoff)"
  define st2 where "st2 = st1\<lparr>cs_conversations := filter ?keep (cs_conversations st1)\<rparr>"
  obtain pu3 st3 where ev: "fold purge_event olde
      (purged_default\<lparr>pu_messages := n,
         pu_conversations := length (cs_conversations st) - length (cs_conversations st2)\<rparr>, st2) = (pu3, st3)"
    by fastforce
  have win2: "windows_ok st2"
    using same_rest_ok[OF rest conv_okD(3,4)[OF ok]] by (auto simp: st2_def elim: windows_ok_cong)
  note E = fold_purge_event[OF win2 ev]
  have st3: "st3 = st2\<lparr>cs_window_events := cs_window_events st3, cs_window_index := cs_window_index st3\<rparr>"
    using E by blast
  have same: "cs_conversations st1 = cs_conversations st" "cs_window_events st1 = cs_window_events st"
    using rest by (simp_all add: same_rest_def)
  have first: "fold purge_row (map (\<lambda>(_, m). sm_id m)
      (filter (\<lambda>(_, m). in_scope number (sm_conversation m) \<and> sm_timestamp m < cutoff) (cs_messages st)))
      (purged_default, st) = (purged_default\<lparr>pu_messages := n\<rparr>, st1)"
    using rem by (simp add: fold_purge_row old_def purged_default_def)
  let ?owners = "filter (\<lambda>(k, w). \<not> (in_scope number k \<and> to_since w < cutoff))"
  let ?contacts = "filter (\<lambda>((n, _), synced). \<not> ((case number of None \<Rightarrow> True | Some n' \<Rightarrow> n' = n)
                        \<and> (case synced of Removed at \<Rightarrow> at < cutoff | Contact _ \<Rightarrow> False)))"
  have "(pu, st') = (pu3\<lparr>pu_thread_owners := length (cs_owners st3) - length (?owners (cs_owners st3)),
          pu_contact_removals := length (cs_contacts st3) - length (?contacts (cs_contacts st3))\<rparr>,
      st3\<lparr>cs_owners := ?owners (cs_owners st3), cs_contacts := ?contacts (cs_contacts st3)\<rparr>)"
    using run[symmetric] ev[unfolded st2_def olde_def]
    unfolding purge_before_def Let_def first prod.case by (simp add: same)
  moreover have from3: "cs_owners st3 = cs_owners st" "cs_contacts st3 = cs_contacts st"
      "cs_links st3 = cs_links st" "cs_messages st3 = cs_messages st1" "cs_history st3 = cs_history st1"
      "cs_senders st3 = cs_senders st1" "cs_sender_of st3 = cs_sender_of st1"
      "cs_conversations st3 = filter ?keep (cs_conversations st)"
    using rest by (subst st3, simp add: st2_def same_rest_def)+
  ultimately have fin: "st' = st3\<lparr>cs_owners := ?owners (cs_owners st), cs_contacts := ?contacts (cs_contacts st)\<rparr>"
    "pu = pu3\<lparr>pu_thread_owners := length (cs_owners st) - length (?owners (cs_owners st)),
          pu_contact_removals := length (cs_contacts st) - length (?contacts (cs_contacts st))\<rparr>"
    by simp_all
  let ?conv = "map_of (cs_conversations st)"
  have conv: "map_of (cs_conversations st') = keep_map (\<lambda>k s. ?keep (k, s)) ?conv"
    using S by (simp add: fin from3 map_of_filter_keep summaries_ok_def)
  have ms': "map_of (cs_messages st') = keep_map ?keptm ?ms" by (simp add: fin from3 ms)
  have "thread_ok (keep_map ?keptm ?ms) k (keep_map (\<lambda>k s. ?keep (k, s)) ?conv k)" for k
  proof (cases "?conv k")
    case None
    then have "\<not> listed (keep_map ?keptm ?ms) k i m" for i m
      using S by (auto simp: summaries_ok_def thread_ok_def listed_def keep_map_def dest: spec[of _ k] split: option.splits if_splits)
    then show ?thesis by (simp add: None thread_ok_def keep_map_def)
  next
    case (Some s)
    then have s: "summarises ?ms k s" using S by (metis summaries_ok_def thread_ok_Some)
    show ?thesis
    proof (cases "?keep (k, s)")
      case True
      have "summarises (keep_map ?keptm ?ms) k s"
        by (rule summarises_fewer[OF s])
          (use s True in \<open>auto simp: listed_def summarises_def keep_map_def split: option.splits if_splits\<close>)
      then show ?thesis using Some True by (simp add: keep_map_def thread_ok_def)
    next
      case False
      then have "\<not> listed (keep_map ?keptm ?ms) k i m" for i m
        using s by (force simp: listed_def summarises_def keep_map_def split: option.splits if_splits)
      then show ?thesis using Some False by (simp add: keep_map_def thread_ok_def)
    qed
  qed
  moreover have "keys_distinct (cs_conversations st')"
    using S by (simp add: fin(1) from3(8) summaries_ok_def)
  ultimately have sums: "summaries_ok st'" unfolding summaries_ok_def ms' conv by blast
  moreover have "rows_ok st'" by (rule rows_ok_cong[of st1]) (use M in \<open>simp_all add: fin from3\<close>)
  moreover have "windows_ok st'" using E by (auto simp: fin elim: windows_ok_cong)
  moreover have "book_ok st'"
    using B by (auto simp: book_ok_def fin from3 map_of_filter_keep[OF omap_keys_distinct] keep_map_def
        split: option.splits if_splits)
  ultimately have "conv_ok st'" by (simp add: conv_ok_def)
  moreover have win: "sp_window (conv_abs st') = keep_windows (keep_map ?keptm ?ms) (sp_window (conv_abs st))"
    using windows_kept[OF sums, of st] by (auto simp: ms' conv keep_map_def split: option.split)
  moreover have "conv_abs st' = snd (spec_purge number cutoff (conv_abs st))"
  proof (rule conv_spec.equality)
    show "sp_messages (conv_abs st') = sp_messages (snd (spec_purge number cutoff (conv_abs st)))"
      by (simp add: spec_purge_def spec_drop_messages_def Let_def ms')
    show "sp_sender (conv_abs st') = sp_sender (snd (spec_purge number cutoff (conv_abs st)))"
      using M senders_kept[OF conv_okD(1)[OF ok] set_old]
      by (simp add: spec_purge_def spec_drop_messages_def Let_def fin from3 fun_eq_iff)
    show "sp_window (conv_abs st') = sp_window (snd (spec_purge number cutoff (conv_abs st)))"
      by (simp add: spec_purge_def spec_drop_messages_def Let_def win)
    show "sp_events (conv_abs st') = sp_events (snd (spec_purge number cutoff (conv_abs st)))"
      using E without_keep[OF set_olde] from3 st3
      by (simp add: spec_purge_def spec_drop_messages_def Let_def fin st2_def same)
    show "sp_owners (conv_abs st') = sp_owners (snd (spec_purge number cutoff (conv_abs st)))"
      by (simp add: spec_purge_def spec_drop_messages_def Let_def fin map_of_filter_keep B(1))
    show "sp_contacts (conv_abs st') = sp_contacts (snd (spec_purge number cutoff (conv_abs st)))"
      by (simp add: spec_purge_def spec_drop_messages_def Let_def fin split_def
          map_of_filter_keep[OF omap_keys_distinct[OF B(2)]] cong: option.case_cong)
  qed (simp_all add: spec_purge_def spec_drop_messages_def Let_def fin from3)
  moreover have "pu = fst (spec_purge number cutoff (conv_abs st))"
  proof (rule purged.equality)
    show "pu_messages pu = pu_messages (fst (spec_purge number cutoff (conv_abs st)))"
      using E by (simp add: spec_purge_def Let_def fin n)
    show "pu_conversations pu = pu_conversations (fst (spec_purge number cutoff (conv_abs st)))"
    proof -
      have "pu_conversations pu = card (dom ?conv - dom (map_of (cs_conversations st')))"
        using E S length_filter_dropped[of "cs_conversations st" ?keep]
        by (simp add: fin(2) st2_def same conv dropped_dom summaries_ok_def)
      then show ?thesis
        using win dom_sp_window[of st']
        by (simp add: spec_purge_def Let_def spec_drop_messages_def dom_sp_window[of st])
    qed
    show "pu_window_events pu = pu_window_events (fst (spec_purge number cutoff (conv_abs st)))"
      using E card_dropped[OF set_olde] by (simp add: spec_purge_def Let_def fin st2_def same purged_default_def)
    show "pu_thread_owners pu = pu_thread_owners (fst (spec_purge number cutoff (conv_abs st)))"
      by (simp add: spec_purge_def Let_def fin length_filter_dropped[OF B(1)] split_def)
    show "pu_contact_removals pu = pu_contact_removals (fst (spec_purge number cutoff (conv_abs st)))"
      by (simp add: spec_purge_def Let_def fin split_def
          length_filter_dropped[OF omap_keys_distinct[OF B(2)]] cong: option.case_cong)
  qed simp
  ultimately show ?thesis by simp
qed

end
