(* ===== verification/Conversation_Trim.thy ===== *)
theory Conversation_Trim
  imports Conversation_Bulk
begin

text \<open>A trim keeps the newest rows of each conversation, as the specification says.\<close>

section \<open>The rows beyond the newest\<close>

lemma drop_rev_oset:
  assumes "oset_ok xs"
  shows "x \<in> set (drop n (rev xs)) \<longleftrightarrow> x \<in> set xs \<and> n \<le> card {y \<in> set xs. x < y}"
  using assms
proof (induction xs arbitrary: n)
  case (Cons a xs)
  have ok: "oset_ok xs" and a: "\<forall>y\<in>set xs. a < y"
    using Cons.prems by (auto simp: oset_ok_def order.strict_iff_order)
  have len: "card {y \<in> set (a # xs). a < y} = length xs"
  proof -
    have "{y \<in> set (a # xs). a < y} = set xs" using a by auto
    then show ?thesis using ok by (simp add: oset_ok_def distinct_card)
  qed
  have split: "set (drop n (rev (a # xs))) = set (drop n (rev xs)) \<union> (if n \<le> length xs then {a} else {})"
    by (cases "n \<le> length xs") (auto simp: drop_Cons')
  show ?case
  proof (cases "x = a")
    case True
    have "a \<notin> set (drop n (rev xs))" using a by (auto dest!: in_set_dropD)
    then show ?thesis using True len split by auto
  next
    case False
    have same: "{y \<in> set (a # xs). x < y} = {y \<in> set xs. x < y}" if "x \<in> set xs"
      using bspec[OF a that] by (auto simp: not_less_iff_gr_or_eq)
    show ?thesis
    proof (cases "x \<in> set xs")
      case True
      then show ?thesis using Cons.IH[OF ok, of n] False same unfolding split by simp
    next
      case notin: False
      then show ?thesis using Cons.IH[OF ok, of n] False unfolding split by simp
    qed
  qed
qed simp

section \<open>One conversation\<close>

definition same_beside :: "conv_state \<Rightarrow> conv_state \<Rightarrow> bool" where
  "same_beside st st' \<longleftrightarrow>
     cs_window_events st' = cs_window_events st \<and> cs_window_index st' = cs_window_index st
     \<and> cs_owners st' = cs_owners st \<and> cs_contacts st' = cs_contacts st \<and> cs_links st' = cs_links st"

lemma same_beside_refl [simp]: "same_beside st st"
  by (simp add: same_beside_def)

lemma same_beside_trans: "same_beside a b \<Longrightarrow> same_beside b c \<Longrightarrow> same_beside a c"
  by (simp add: same_beside_def)

lemma same_rest_beside: "same_rest st st' \<Longrightarrow> same_beside st st'"
  by (simp add: same_beside_def same_rest_def)

lemma same_beside_ok:
  "same_beside st st' \<Longrightarrow> windows_ok st \<Longrightarrow> book_ok st \<Longrightarrow> windows_ok st' \<and> book_ok st'"
  by (auto simp: same_beside_def elim: windows_ok_cong book_ok_cong)

lemma without_without [simp]: "without A (without B f) = without (A \<union> B) f"
  by (auto simp: without_def fun_eq_iff)

lemma dom_without_card: "card (dom f - dom (without A f)) = card (A \<inter> dom f)"
  by (auto intro!: arg_cong[where f = card])

definition shrunk :: "purged \<Rightarrow> conv_state \<Rightarrow> purged \<Rightarrow> conv_state \<Rightarrow> bool" where
  "shrunk pu st pu' st' \<longleftrightarrow>
     dom (map_of (cs_messages st')) \<subseteq> dom (map_of (cs_messages st))
     \<and> dom (map_of (cs_conversations st')) \<subseteq> dom (map_of (cs_conversations st))
     \<and> pu' = pu\<lparr>pu_messages := pu_messages pu
              + card (dom (map_of (cs_messages st)) - dom (map_of (cs_messages st'))),
            pu_conversations := pu_conversations pu
              + card (dom (map_of (cs_conversations st)) - dom (map_of (cs_conversations st')))\<rparr>"

lemma shrunk_refl [simp]: "shrunk pu st pu st"
  by (simp add: shrunk_def)

lemma shrunk_trans:
  assumes "shrunk pu a pu1 b" and "shrunk pu1 b pu2 c"
  shows "shrunk pu a pu2 c"
proof -
  have "card (dom (map_of (cs_messages a)) - dom (map_of (cs_messages b)))
      + card (dom (map_of (cs_messages b)) - dom (map_of (cs_messages c)))
      = card (dom (map_of (cs_messages a)) - dom (map_of (cs_messages c)))"
    "card (dom (map_of (cs_conversations a)) - dom (map_of (cs_conversations b)))
      + card (dom (map_of (cs_conversations b)) - dom (map_of (cs_conversations c)))
      = card (dom (map_of (cs_conversations a)) - dom (map_of (cs_conversations c)))"
    using assms by (auto intro!: card_dom_chain finite_dom_map_of simp: shrunk_def)
  moreover have "dom (map_of (cs_messages c)) \<subseteq> dom (map_of (cs_messages a))"
    "dom (map_of (cs_conversations c)) \<subseteq> dom (map_of (cs_conversations a))"
    using assms unfolding shrunk_def by blast+
  ultimately show ?thesis using assms unfolding shrunk_def by (simp add: add.assoc)
qed

lemma trim_key:
  assumes ok: "rows_ok st" and dist: "keys_distinct (cs_conversations st)"
    and run: "trim_key (k, ids) (pu, st) = (pu', st')"
  shows "rows_ok st' \<and> same_beside st st' \<and> keys_distinct (cs_conversations st')
    \<and> map_of (cs_messages st') = without (set ids) (map_of (cs_messages st))
    \<and> map_of (cs_sender_of st') = without (set ids) (map_of (cs_sender_of st))
    \<and> map_of (cs_conversations st') = keep_map (\<lambda>k' s. \<not> (k' = k \<and> ss_last_message_id s \<in> set ids))
        (map_of (cs_conversations st))
    \<and> shrunk pu st pu' st'"
proof -
  obtain n st1 where rem: "remove_rows ids st = (n, st1)" by fastforce
  note R = remove_rows[OF ok rem]
  let ?goes = "case map_of (cs_conversations st) k of None \<Rightarrow> False | Some s \<Rightarrow> ss_last_message_id s \<in> set ids"
  have conv1: "cs_conversations st1 = cs_conversations st" using R by (simp add: same_rest_def)
  have st': "st' = (if ?goes then st1\<lparr>cs_conversations := AList.delete k (cs_conversations st)\<rparr> else st1)"
    "pu' = pu\<lparr>pu_messages := pu_messages pu + n,
             pu_conversations := pu_conversations pu + (if ?goes then 1 else 0)\<rparr>"
    using run rem conv1
    by (auto simp: trim_key_def fold_purge_row Let_def split: option.splits if_splits)
  have ms: "map_of (cs_messages st') = without (set ids) (map_of (cs_messages st))"
    "map_of (cs_sender_of st') = without (set ids) (map_of (cs_sender_of st))"
    using R by (simp_all add: st'(1))
  have conv: "map_of (cs_conversations st') = keep_map (\<lambda>k' s. \<not> (k' = k \<and> ss_last_message_id s \<in> set ids))
        (map_of (cs_conversations st))"
    using conv1 by (auto simp: st'(1) keep_map_def fun_eq_iff split: option.splits)
  have "card (dom (map_of (cs_conversations st)) - dom (map_of (cs_conversations st'))) = (if ?goes then 1 else 0)"
  proof -
    have "dom (map_of (cs_conversations st)) - dom (map_of (cs_conversations st'))
        = (if ?goes then {k} else {})"
      unfolding conv by (auto simp: keep_map_def dom_def split: option.splits if_splits)
    then show ?thesis by simp
  qed
  moreover have "dom (map_of (cs_conversations st')) \<subseteq> dom (map_of (cs_conversations st))"
    unfolding conv by (auto simp: keep_map_def dom_def split: option.splits)
  moreover have "n = card (dom (map_of (cs_messages st)) - dom (map_of (cs_messages st')))"
    using R by (simp add: ms dom_without_card del: dom_without)
  ultimately have "shrunk pu st pu' st'"
    unfolding shrunk_def by (simp add: st'(2)) (simp add: ms Diff_subset)
  moreover have "rows_ok st'" using R by (auto simp: st'(1) elim: rows_ok_cong)
  moreover have "same_beside st st'" using R by (simp add: st'(1) same_beside_def same_rest_def)
  moreover have "keys_distinct (cs_conversations st')" using dist conv1 by (simp add: st'(1))
  ultimately show ?thesis using ms conv by blast
qed

lemma fold_trim_key:
  "rows_ok st \<Longrightarrow> keys_distinct (cs_conversations st) \<Longrightarrow> fold trim_key ds (pu, st) = (pu', st') \<Longrightarrow>
    rows_ok st' \<and> same_beside st st' \<and> keys_distinct (cs_conversations st')
    \<and> map_of (cs_messages st') = without (\<Union>d\<in>set ds. set (snd d)) (map_of (cs_messages st))
    \<and> map_of (cs_sender_of st') = without (\<Union>d\<in>set ds. set (snd d)) (map_of (cs_sender_of st))
    \<and> map_of (cs_conversations st') = keep_map (\<lambda>k s. \<not> (\<exists>ids. (k, ids) \<in> set ds \<and> ss_last_message_id s \<in> set ids))
        (map_of (cs_conversations st))
    \<and> shrunk pu st pu' st'"
proof (induction ds arbitrary: pu st)
  case Nil
  then show ?case by (simp add: keep_map_def fun_eq_iff split: option.split)
next
  case (Cons d ds)
  obtain k ids where d: "d = (k, ids)" by fastforce
  obtain pu1 st1 where one: "trim_key (k, ids) (pu, st) = (pu1, st1)" by fastforce
  note T = trim_key[OF Cons.prems(1,2) one]
  have "fold trim_key ds (pu1, st1) = (pu', st')" using Cons.prems(3) one d by simp
  note H = Cons.IH[OF _ _ this]
  have "keep_map (\<lambda>k s. \<not> (\<exists>ids. (k, ids) \<in> set ds \<and> ss_last_message_id s \<in> set ids))
      (keep_map (\<lambda>k' s. \<not> (k' = k \<and> ss_last_message_id s \<in> set ids)) f)
    = keep_map (\<lambda>k s. \<not> (\<exists>ids. (k, ids) \<in> set (d # ds) \<and> ss_last_message_id s \<in> set ids)) f" for f
    by (auto simp: keep_map_def fun_eq_iff d split: option.split)
  then show ?case
    using T H shrunk_trans[of pu st pu1 st1 pu' st'] same_beside_trans[of st st1 st']
    by (simp add: d Un_commute)
qed

section \<open>All conversations\<close>

text \<open>The rows to go, by conversation: those the specification drops.\<close>

definition doomed_rows :: "string option \<Rightarrow> nat \<Rightarrow> conv_state \<Rightarrow> (conversation_key \<times> string list) list" where
  "doomed_rows number keep_last st =
     filter (\<lambda>(_, ids). ids \<noteq> [])
       (map (\<lambda>(key, index). (key, oset_of (map snd (drop keep_last (rev index)))))
          (filter (\<lambda>(key, _). in_scope number key) (cs_history st)))"

definition trim_kept :: "string option \<Rightarrow> nat \<Rightarrow> (string \<rightharpoonup> stored_message) \<Rightarrow> string \<Rightarrow> stored_message \<Rightarrow> bool" where
  "trim_kept number keep_last ms i m \<longleftrightarrow>
     (in_scope number (sm_conversation m) \<longrightarrow> card (newer_rows ms i m) < keep_last)"

lemma doomed_row:
  assumes ok: "rows_ok st"
  shows "(\<exists>ids. (k, ids) \<in> set (doomed_rows number n st) \<and> i \<in> set ids) \<longleftrightarrow>
    (\<exists>m. map_of (cs_messages st) i = Some m \<and> sm_conversation m = k
         \<and> \<not> trim_kept number n (map_of (cs_messages st)) i m)"
proof -
  note R = rows_okD[OF ok]
  let ?xs = "idx (cs_history st) k"
  have "(\<exists>ids. (k, ids) \<in> set (doomed_rows number n st) \<and> i \<in> set ids) \<longleftrightarrow>
      in_scope number k \<and> i \<in> snd ` set (drop n (rev ?xs))"
  proof -
    have mem: "(k, ys) \<in> set (cs_history st) \<longleftrightarrow> map_of (cs_history st) k = Some ys" for ys
      using R(3) by (simp add: idx_ok_def map_of_mem)
    have "(k, ids) \<in> set (doomed_rows number n st) \<longleftrightarrow> ids \<noteq> [] \<and> in_scope number k
        \<and> (\<exists>ys. map_of (cs_history st) k = Some ys \<and> ids = oset_of (map snd (drop n (rev ys))))" for ids
      unfolding mem[symmetric] by (auto simp: doomed_rows_def image_iff)
    note doomed = this
    show ?thesis
    proof (cases "map_of (cs_history st) k")
      case None
      then show ?thesis unfolding doomed by (simp add: idx_def)
    next
      case (Some xs)
      have "i \<in> set (oset_of (map snd (drop n (rev xs)))) \<Longrightarrow> oset_of (map snd (drop n (rev xs))) \<noteq> []"
        by force
      then show ?thesis unfolding doomed Some idx_def option.case set_map[symmetric]
        by (simp del: set_map) (metis set_oset_of)
    qed
  qed
  also have "\<dots> \<longleftrightarrow> in_scope number k \<and> (\<exists>t. (t, i) \<in> set (drop n (rev ?xs)))" by force
  also have "\<dots> \<longleftrightarrow> in_scope number k
      \<and> (\<exists>t. (t, i) \<in> set ?xs \<and> n \<le> card {y \<in> set ?xs. (t, i) < y})"
    by (simp only: drop_rev_oset[OF oset_ok_idx[OF R(3)]])
  also have "\<dots> \<longleftrightarrow> (\<exists>m. map_of (cs_messages st) i = Some m \<and> sm_conversation m = k
         \<and> in_scope number k \<and> n \<le> card {y \<in> set ?xs. (sm_timestamp m, i) < y})"
    by (auto simp: R(6))
  also have "\<dots> \<longleftrightarrow> (\<exists>m. map_of (cs_messages st) i = Some m \<and> sm_conversation m = k
         \<and> \<not> trim_kept number n (map_of (cs_messages st)) i m)"
  proof -
    have "{y \<in> set ?xs. (sm_timestamp m, i) < y} = newer_rows (map_of (cs_messages st)) i m"
      if "sm_conversation m = k" for m
    proof (rule set_eqI)
      fix y :: "time \<times> string"
      show "y \<in> {y \<in> set ?xs. (sm_timestamp m, i) < y} \<longleftrightarrow> y \<in> newer_rows (map_of (cs_messages st)) i m"
        by (cases y) (simp only: newer_rows_def R(6) that mem_Collect_eq prod.case conj_commute)
    qed
    then show ?thesis by (auto simp: trim_kept_def not_less)
  qed
  finally show ?thesis .
qed

lemma newer_rows_mono:
  assumes "finite (dom ms)" and "sm_conversation m = sm_conversation m'"
    and "(sm_timestamp m, i) \<le> (sm_timestamp m', j)"
  shows "card (newer_rows ms j m') \<le> card (newer_rows ms i m)"
proof (rule card_mono)
  have "newer_rows ms i m \<subseteq> (\<lambda>j. (sm_timestamp (the (ms j)), j)) ` dom ms"
    by (force simp: newer_rows_def)
  then show "finite (newer_rows ms i m)" using assms(1) by (blast intro: finite_subset)
  show "newer_rows ms j m' \<subseteq> newer_rows ms i m"
    using assms(2,3) unfolding newer_rows_def by (auto simp del: less_prod_simp less_eq_prod_simp)
qed

lemma trim_refines:
  assumes ok: "conv_ok st" and run: "trim_conversations number n st = (pu, st')"
  shows "conv_ok st' \<and> spec_trim number n (conv_abs st) = (pu, conv_abs st')"
proof -
  let ?ms = "map_of (cs_messages st)" and ?conv = "map_of (cs_conversations st)"
  let ?kept = "trim_kept number n ?ms"
  let ?ds = "doomed_rows number n st"
  note R = conv_okD(1)[OF ok]
  note S = conv_okD(2)[OF ok]
  have "fold trim_key ?ds (purged_default, st) = (pu, st')"
    using run by (simp add: trim_conversations_def doomed_rows_def)
  note T = fold_trim_key[OF R _ this]
  have dist: "keys_distinct (cs_conversations st)" using S by (simp add: summaries_ok_def)
  note T = T[OF dist]
  have gone: "(\<Union>d\<in>set ?ds. set (snd d)) = {i. \<exists>m. ?ms i = Some m \<and> \<not> ?kept i m}"
    using doomed_row[OF R, of _ number n] by force
  have ms: "map_of (cs_messages st') = keep_map ?kept ?ms"
    using T without_keep[OF gone] by simp
  have conv: "map_of (cs_conversations st') = keep_map (\<lambda>k s. \<not> (\<exists>m. ?ms (ss_last_message_id s) = Some m
      \<and> sm_conversation m = k \<and> \<not> ?kept (ss_last_message_id s) m)) ?conv"
    using T by (simp add: doomed_row[OF R])
  have "thread_ok (keep_map ?kept ?ms) k (map_of (cs_conversations st') k)" for k
  proof (cases "?conv k")
    case None
    then have "\<not> listed (keep_map ?kept ?ms) k i m" for i m
      using S by (auto simp: summaries_ok_def thread_ok_def listed_def keep_map_def dest: spec[of _ k]
          split: option.splits if_splits)
    then show ?thesis by (simp add: None thread_ok_def conv keep_map_def)
  next
    case (Some s)
    then have s: "summarises ?ms k s" using S by (metis summaries_ok_def thread_ok_Some)
    then obtain m where m: "listed ?ms k (ss_last_message_id s) m"
        "sm_timestamp m = ss_last_message_at s" by (auto simp: summarises_def)
    show ?thesis
    proof (cases "?kept (ss_last_message_id s) m")
      case True
      have "summarises (keep_map ?kept ?ms) k s"
        by (rule summarises_fewer[OF s])
          (use m True in \<open>auto simp: listed_def keep_map_def split: option.splits if_splits\<close>)
      then show ?thesis using Some True m by (auto simp: conv keep_map_def thread_ok_def listed_def)
    next
      case False
      have "\<not> ?kept i x" if "listed ?ms k i x" for i x
      proof -
        have "(sm_timestamp x, i) \<le> (sm_timestamp m, ss_last_message_id s)"
          using s that m(2) unfolding summarises_def by metis
        moreover have "sm_conversation x = sm_conversation m" using that m by (simp add: listed_def)
        ultimately have "card (newer_rows ?ms (ss_last_message_id s) m) \<le> card (newer_rows ?ms i x)"
          using newer_rows_mono[of ?ms x m i] by (simp add: finite_dom_map_of)
        then show ?thesis
          using False \<open>sm_conversation x = sm_conversation m\<close> by (auto simp: trim_kept_def)
      qed
      then have "\<not> listed (keep_map ?kept ?ms) k i x" for i x
        by (auto simp: listed_def keep_map_def split: option.splits if_splits)
      then show ?thesis using Some False m by (auto simp: conv keep_map_def thread_ok_def listed_def)
    qed
  qed
  then have sums: "summaries_ok st'" using T by (simp add: summaries_ok_def ms)
  have "conv_ok st'"
    using sums T same_beside_ok[of st st'] conv_okD(3,4)[OF ok] by (simp add: conv_ok_def)
  moreover have win: "sp_window (conv_abs st') = keep_windows (keep_map ?kept ?ms) (sp_window (conv_abs st))"
    using windows_kept[OF sums, of st] by (auto simp: ms conv keep_map_def split: option.split)
  have senders: "map_of (cs_sender_of st')
      = (\<lambda>i. if keep_map ?kept ?ms i = None then None else map_of (cs_sender_of st) i)"
    using T senders_kept[OF R gone] by simp
  have abs: "conv_abs st' = spec_drop_messages ?kept (conv_abs st)"
    by (rule conv_spec.equality)
      (use T win in \<open>simp_all add: spec_drop_messages_def Let_def ms senders same_beside_def fun_eq_iff\<close>)
  have "pu = purged_default\<lparr>pu_messages := dropped ?kept ?ms,
      pu_conversations := card (dom (sp_window (conv_abs st)) - dom (sp_window (conv_abs st')))\<rparr>"
    using T unfolding shrunk_def by (simp add: purged_default_def ms dropped_dom dom_sp_window)
  moreover have "?kept = (\<lambda>i m. in_scope number (sm_conversation m) \<longrightarrow> card (newer_rows ?ms i m) < n)"
    by (simp add: trim_kept_def fun_eq_iff)
  ultimately show ?thesis by (simp add: spec_trim_def Let_def abs)
qed

end
