(* ===== verification/Conversation_Erase.thy ===== *)
theory Conversation_Erase
  imports Conversation_Trim
begin

text \<open>
  An erasure leaves of a person what the specification says: nothing keyed by them, no contact or
  link naming them, and their messages in other conversations redacted or gone.
\<close>

section \<open>Summaries made again\<close>

lemma find_map_rev:
  "oset_ok xs \<Longrightarrow> find_map f (rev xs) = Some y \<Longrightarrow>
     \<exists>x\<in>set xs. f x = Some y \<and> (\<forall>x'\<in>set xs. f x' \<noteq> None \<longrightarrow> x' \<le> x)"
proof (induction xs rule: rev_induct)
  case (snoc a xs)
  have ok: "oset_ok xs" and a: "\<forall>x\<in>set xs. x \<le> a"
    using snoc.prems(1) by (auto simp: oset_ok_def sorted_append)
  show ?case using snoc.prems(2) snoc.IH[OF ok] a by (cases "f a") auto
qed simp

lemma resummarize:
  assumes ok: "rows_ok st" and none: "map_of (cs_conversations st) k = None \<Longrightarrow>
      \<forall>i m. \<not> listed (map_of (cs_messages st)) k i m"
  defines "st' \<equiv> resummarize k st"
  shows "thread_ok (map_of (cs_messages st)) k (map_of (cs_conversations st') k)
    \<and> (\<forall>k'. k' \<noteq> k \<longrightarrow> map_of (cs_conversations st') k' = map_of (cs_conversations st) k')
    \<and> (map_of (cs_conversations st') k = None
       \<or> map_option summary_window (map_of (cs_conversations st') k)
         = map_option summary_window (map_of (cs_conversations st) k))
    \<and> (keys_distinct (cs_conversations st) \<longrightarrow> keys_distinct (cs_conversations st'))
    \<and> st' = st\<lparr>cs_conversations := cs_conversations st'\<rparr>"
proof -
  let ?ms = "map_of (cs_messages st)"
  let ?f = "\<lambda>(t, i). case ?ms i of None \<Rightarrow> None | Some m \<Rightarrow> if sm_kind m \<noteq> REVOKED then Some m else None"
  let ?xs = "idx (cs_history st) k"
  note R = rows_okD[OF ok]
  have row: "?f (t, i) = Some m \<and> (t, i) \<in> set ?xs \<longleftrightarrow> listed ?ms k i m \<and> sm_timestamp m = t" for t i m
    by (auto simp: R(6) listed_def split: option.splits if_splits)
  show ?thesis
  proof (cases "find_map ?f (rev ?xs)")
    case None
    then have "\<not> listed ?ms k i m" for i m
      using row[of "sm_timestamp m" i m] by (auto simp: find_map_None)
    then show ?thesis
      using None by (auto simp: st'_def resummarize_def thread_ok_def split: option.split)
  next
    case (Some m)
    then obtain x where x: "x \<in> set ?xs" "?f x = Some m" "\<forall>y\<in>set ?xs. ?f y \<noteq> None \<longrightarrow> y \<le> x"
      using find_map_rev[OF oset_ok_idx[OF R(3)] Some] by blast
    obtain t i where ti: "x = (t, i)" by fastforce
    note max = x[unfolded ti]
    then have m: "listed ?ms k i m" "sm_timestamp m = t" using row[of t i m] by simp_all
    then have id: "sm_id m = i" using R(5) by (auto simp: listed_def)
    have le: "(sm_timestamp x, j) \<le> (t, i)" if "listed ?ms k j x" for j x
    proof -
      have a: "?f (sm_timestamp x, j) = Some x" "(sm_timestamp x, j) \<in> set ?xs"
        using row[of "sm_timestamp x" j x] that by simp_all
      show ?thesis using bspec[OF max(3) a(2)] unfolding a(1) by simp
    qed
    obtain s where s: "map_of (cs_conversations st) k = Some s"
      using none m by (cases "map_of (cs_conversations st) k") auto
    have st': "st' = st\<lparr>cs_conversations := AList.update k
        (s\<lparr>ss_last_message_at := t, ss_last_message_id := i, ss_last_text := sm_text m\<rparr>) (cs_conversations st)\<rparr>"
      using Some s m id by (simp add: st'_def resummarize_def)
    have "summarises ?ms k (s\<lparr>ss_last_message_at := t, ss_last_message_id := i, ss_last_text := sm_text m\<rparr>)"
      unfolding summarises_def using m le by (simp del: less_eq_prod_simp) blast
    then show ?thesis using s by (simp add: st' thread_ok_def summary_window_def)
  qed
qed

lemma fold_resummarize:
  assumes "rows_ok st" and "keys_distinct (cs_conversations st)"
    and "\<And>k. k \<notin> set ks \<Longrightarrow> thread_ok (map_of (cs_messages st)) k (map_of (cs_conversations st) k)"
    and "\<And>k. map_of (cs_conversations st) k = None \<Longrightarrow> \<forall>i m. \<not> listed (map_of (cs_messages st)) k i m"
  defines "st' \<equiv> fold resummarize ks st"
  shows "summaries_ok st'
    \<and> (\<forall>k. map_of (cs_conversations st') k = None
         \<or> map_option summary_window (map_of (cs_conversations st') k)
           = map_option summary_window (map_of (cs_conversations st) k))
    \<and> st' = st\<lparr>cs_conversations := cs_conversations st'\<rparr>"
  using assms(1-4) unfolding st'_def
proof (induction ks arbitrary: st)
  case Nil
  then show ?case by (simp add: summaries_ok_def)
next
  case (Cons k ks)
  let ?s = "resummarize k st"
  note one = resummarize[OF Cons.prems(1) Cons.prems(4)[of k]]
  have st1: "?s = st\<lparr>cs_conversations := cs_conversations ?s\<rparr>" using one by blast
  then have ms: "cs_messages ?s = cs_messages st" by (metis conv_state.simps(1) conv_state.surjective conv_state.update_convs(3))
  have "rows_ok ?s"
    by (subst st1) (auto intro: rows_ok_cong[OF Cons.prems(1)])
  moreover have "keys_distinct (cs_conversations ?s)" using one Cons.prems(2) by blast
  moreover have "thread_ok (map_of (cs_messages ?s)) k' (map_of (cs_conversations ?s) k')"
    if "k' \<notin> set ks" for k' unfolding ms using one Cons.prems(3)[of k'] that by (cases "k' = k") auto
  moreover have "\<forall>i m. \<not> listed (map_of (cs_messages ?s)) k' i m"
    if "map_of (cs_conversations ?s) k' = None" for k'
    unfolding ms using one Cons.prems(4)[of k'] that thread_ok_listed[OF conjunct1[OF one]]
    by (cases "k' = k") auto
  ultimately have H: "summaries_ok (fold resummarize ks ?s)
    \<and> (\<forall>k. map_of (cs_conversations (fold resummarize ks ?s)) k = None
         \<or> map_option summary_window (map_of (cs_conversations (fold resummarize ks ?s)) k)
           = map_option summary_window (map_of (cs_conversations ?s) k))
    \<and> fold resummarize ks ?s = ?s\<lparr>cs_conversations := cs_conversations (fold resummarize ks ?s)\<rparr>"
    by (rule Cons.IH)
  have "fold resummarize ks ?s = st\<lparr>cs_conversations := cs_conversations (fold resummarize ks ?s)\<rparr>"
    using H st1 by (cases st) (metis conv_state.update_convs(3))
  moreover have "map_of (cs_conversations (fold resummarize ks ?s)) k' = None
      \<or> map_option summary_window (map_of (cs_conversations (fold resummarize ks ?s)) k')
        = map_option summary_window (map_of (cs_conversations st) k')" for k'
    using H one by (cases "k' = k") (metis map_option_is_None)+
  ultimately show ?case using H by simp
qed

section \<open>The records of one key\<close>

definition conv_key :: "string \<Rightarrow> string \<Rightarrow> conversation_key" where
  "conv_key number who = \<lparr>ck_phone_number_id = number, ck_contact = who\<rparr>"

lemma conv_key_sel [simp]:
  "ck_phone_number_id (conv_key number who) = number" "ck_contact (conv_key number who) = who"
  by (simp_all add: conv_key_def)

lemma conv_key_eq: "k = conv_key number who \<longleftrightarrow> ck_phone_number_id k = number \<and> ck_contact k = who"
  by (cases k) (auto simp: conv_key_def)

lemma in_snd_image: "i \<in> snd ` A \<longleftrightarrow> (\<exists>t. (t, i) \<in> A)"
  by force

lemma in_pair_snd_image: "(n', i) \<in> Pair n ` snd ` A \<longleftrightarrow> n' = n \<and> (\<exists>t. (t, i) \<in> A)"
  by force

lemma fold_erase_event:
  "keys_distinct (cs_window_events st) \<Longrightarrow> fold (erase_event n) es (er, st) = (er', st') \<Longrightarrow>
     keys_distinct (cs_window_events st')
     \<and> map_of (cs_window_events st') = without (Pair n ` snd ` set es) (map_of (cs_window_events st))
     \<and> er' = er\<lparr>er_window_events := er_window_events er
           + card (dom (map_of (cs_window_events st)) - dom (map_of (cs_window_events st')))\<rparr>
     \<and> st' = st\<lparr>cs_window_events := cs_window_events st'\<rparr>"
proof (induction es arbitrary: er st)
  case (Cons e es)
  let ?we = "map_of (cs_window_events st)"
  let ?hit = "?we (n, snd e) \<noteq> None"
  define st1 where "st1 = (if ?hit then st\<lparr>cs_window_events := AList.delete (n, snd e) (cs_window_events st)\<rparr> else st)"
  define er1 where "er1 = (if ?hit then er\<lparr>er_window_events := er_window_events er + 1\<rparr> else er)"
  have we1: "map_of (cs_window_events st1) = without {(n, snd e)} ?we"
    by (auto simp: st1_def without_def fun_eq_iff)
  have d1: "keys_distinct (cs_window_events st1)" using Cons.prems(1) by (simp add: st1_def)
  have run: "fold (erase_event n) es (er1, st1) = (er', st')"
    using Cons.prems(2) by (simp add: erase_event_def[of n e] st1_def er1_def split: if_splits)
  note H = Cons.IH[OF d1 run]
  have c: "card (dom ?we - dom (map_of (cs_window_events st1))) = (if ?hit then 1 else 0)"
  proof -
    have "dom ?we - dom (map_of (cs_window_events st1)) = (if ?hit then {(n, snd e)} else {})"
      unfolding we1 by auto
    then show ?thesis by simp
  qed
  have w: "map_of (cs_window_events st') = without (Pair n ` snd ` set (e # es)) ?we"
    using H unfolding we1 without_without by simp
  have "card (dom ?we - dom (map_of (cs_window_events st1)))
      + card (dom (map_of (cs_window_events st1)) - dom (map_of (cs_window_events st')))
      = card (dom ?we - dom (map_of (cs_window_events st')))"
    by (rule card_dom_chain) (auto simp: finite_dom_map_of w we1)
  with c have "er_window_events er1 + card (dom (map_of (cs_window_events st1)) - dom (map_of (cs_window_events st')))
      = er_window_events er + card (dom ?we - dom (map_of (cs_window_events st')))"
    by (cases ?hit) (simp_all add: er1_def)
  moreover have "er1\<lparr>er_window_events := x\<rparr> = er\<lparr>er_window_events := x\<rparr>" for x
    by (simp add: er1_def)
  ultimately have "er' = er\<lparr>er_window_events := er_window_events er
      + card (dom ?we - dom (map_of (cs_window_events st')))\<rparr>"
    using H by metis
  moreover have "st' = st\<lparr>cs_window_events := cs_window_events st'\<rparr>"
    using H by (cases st; cases st'; cases st1) (auto simp: st1_def split: if_splits)
  ultimately show ?case using H w by blast
qed simp

text \<open>What the loop over the keys did so far: records gone, and counted.\<close>

definition erased_to :: "erased \<Rightarrow> conv_state \<Rightarrow> erased \<Rightarrow> conv_state \<Rightarrow> bool" where
  "erased_to er st er' st' \<longleftrightarrow>
     dom (map_of (cs_messages st')) \<subseteq> dom (map_of (cs_messages st))
     \<and> dom (map_of (cs_conversations st')) \<subseteq> dom (map_of (cs_conversations st))
     \<and> dom (map_of (cs_window_events st')) \<subseteq> dom (map_of (cs_window_events st))
     \<and> dom (map_of (cs_owners st')) \<subseteq> dom (map_of (cs_owners st))
     \<and> er' = er\<lparr>er_messages := er_messages er
              + card (dom (map_of (cs_messages st)) - dom (map_of (cs_messages st'))),
            er_conversations := er_conversations er
              + card (dom (map_of (cs_conversations st)) - dom (map_of (cs_conversations st'))),
            er_window_events := er_window_events er
              + card (dom (map_of (cs_window_events st)) - dom (map_of (cs_window_events st'))),
            er_thread_owners := er_thread_owners er
              + card (dom (map_of (cs_owners st)) - dom (map_of (cs_owners st')))\<rparr>"

lemma erased_to_refl [simp]: "erased_to er st er st"
  by (simp add: erased_to_def)

lemma card_map_chain:
  "dom (map_of b) \<subseteq> dom (map_of a) \<Longrightarrow> dom (map_of c) \<subseteq> dom (map_of b) \<Longrightarrow>
     card (dom (map_of a) - dom (map_of b)) + card (dom (map_of b) - dom (map_of c))
       = card (dom (map_of a) - dom (map_of c))"
  by (rule card_dom_chain) (simp_all add: finite_dom_map_of)

lemma erased_to_trans:
  assumes "erased_to er a er1 b" and "erased_to er1 b er2 c"
  shows "erased_to er a er2 c"
proof -
  have "dom (map_of (cs_messages c)) \<subseteq> dom (map_of (cs_messages a))"
    "dom (map_of (cs_conversations c)) \<subseteq> dom (map_of (cs_conversations a))"
    "dom (map_of (cs_window_events c)) \<subseteq> dom (map_of (cs_window_events a))"
    "dom (map_of (cs_owners c)) \<subseteq> dom (map_of (cs_owners a))"
    using assms unfolding erased_to_def by blast+
  then show ?thesis
    using assms unfolding erased_to_def by (simp add: add.assoc card_map_chain)
qed

definition only_keys :: "(conversation_key \<Rightarrow> bool) \<Rightarrow> conv_state \<Rightarrow> conv_state \<Rightarrow> bool" where
  "only_keys K st st' \<longleftrightarrow>
     map_of (cs_messages st') = keep_map (\<lambda>_ m. \<not> K (sm_conversation m)) (map_of (cs_messages st))
     \<and> map_of (cs_sender_of st') = (\<lambda>i. if map_of (cs_messages st') i = None then None
                                        else map_of (cs_sender_of st) i)
     \<and> map_of (cs_conversations st') = keep_map (\<lambda>k _. \<not> K k) (map_of (cs_conversations st))
     \<and> map_of (cs_window_events st')
       = keep_map (\<lambda>_ e. \<not> K (we_conversation e)) (map_of (cs_window_events st))
     \<and> map_of (cs_owners st') = keep_map (\<lambda>k _. \<not> K k) (map_of (cs_owners st))
     \<and> cs_contacts st' = cs_contacts st \<and> cs_links st' = cs_links st"

lemma keep_map_keep_map [simp]:
  "keep_map P (keep_map Q f) = keep_map (\<lambda>k v. Q k v \<and> P k v) f"
  by (auto simp: keep_map_def fun_eq_iff split: option.split)

lemma keep_map_None_imp: "f k = None \<Longrightarrow> keep_map P f k = None"
  by (simp add: keep_map_def)

lemma only_keys_trans:
  assumes "only_keys K a b" and "only_keys L b c"
  shows "only_keys (\<lambda>k. K k \<or> L k) a c"
proof -
  note A = assms(1)[unfolded only_keys_def] and B = assms(2)[unfolded only_keys_def]
  have "map_of (cs_messages b) i = None \<Longrightarrow> map_of (cs_messages c) i = None" for i
    using B by (simp add: keep_map_None_imp)
  moreover have "map_of (cs_sender_of b)
      = (\<lambda>i. if map_of (cs_messages b) i = None then None else map_of (cs_sender_of a) i)"
    "map_of (cs_sender_of c)
      = (\<lambda>i. if map_of (cs_messages c) i = None then None else map_of (cs_sender_of b) i)"
    using A B by blast+
  ultimately have "map_of (cs_sender_of c)
      = (\<lambda>i. if map_of (cs_messages c) i = None then None else map_of (cs_sender_of a) i)"
    by (simp add: fun_eq_iff)
  then show ?thesis
    unfolding only_keys_def using A B by (simp add: keep_map_keep_map)
qed

lemma erase_key:
  assumes ok: "conv_ok st" and run: "erase_key number who (er, st) = (er', st')"
  shows "conv_ok st' \<and> only_keys (\<lambda>k. k = conv_key number who) st st' \<and> erased_to er st er' st'"
proof -
  let ?k = "conv_key number who"
  let ?ms = "map_of (cs_messages st)" and ?we = "map_of (cs_window_events st)"
  note R = rows_okD[OF conv_okD(1)[OF ok]]
  note S = conv_okD(2)[OF ok]
  note W = windows_okD[OF conv_okD(3)[OF ok]]
  note B = book_okD[OF conv_okD(4)[OF ok]]
  obtain n st1 where rem: "remove_rows (map snd (idx (cs_history st) ?k)) st = (n, st1)" by fastforce
  note M = remove_rows[OF conv_okD(1)[OF ok] rem]
  have rows: "snd ` set (idx (cs_history st) ?k) = {i. \<exists>m. ?ms i = Some m \<and> \<not> sm_conversation m \<noteq> ?k}"
    by (rule set_eqI) (simp add: in_snd_image R(6))
  have ms: "map_of (cs_messages st1) = keep_map (\<lambda>_ m. sm_conversation m \<noteq> ?k) ?ms"
    using M without_keep[OF rows] by simp
  have rest: "same_rest st st1" using M by blast
  define st2 where "st2 = st1\<lparr>cs_conversations := AList.delete ?k (cs_conversations st),
      cs_window_index := AList.delete ?k (cs_window_index st)\<rparr>"
  define er2 where "er2 = er\<lparr>er_messages := er_messages er + n,
      er_conversations := er_conversations er + (if map_of (cs_conversations st) ?k \<noteq> None then 1 else 0)\<rparr>"
  obtain er3 st3 where ev: "fold (erase_event number) (idx (cs_window_index st) ?k) (er2, st2) = (er3, st3)"
    by fastforce
  have we2: "cs_window_events st2 = cs_window_events st" using rest by (simp add: st2_def same_rest_def)
  note E = fold_erase_event[OF _ ev, unfolded we2, OF W(1)]
  have st3: "st3 = st2\<lparr>cs_window_events := cs_window_events st3\<rparr>" using E by blast
  have from3: "cs_owners st3 = cs_owners st" "cs_contacts st3 = cs_contacts st" "cs_links st3 = cs_links st"
      "cs_messages st3 = cs_messages st1" "cs_history st3 = cs_history st1" "cs_senders st3 = cs_senders st1"
      "cs_sender_of st3 = cs_sender_of st1" "cs_conversations st3 = AList.delete ?k (cs_conversations st)"
      "cs_window_index st3 = AList.delete ?k (cs_window_index st)"
    using rest by (subst st3, simp add: st2_def same_rest_def)+
  have fin: "st' = st3\<lparr>cs_owners := AList.delete ?k (cs_owners st)\<rparr>"
    "er' = er3\<lparr>er_thread_owners := er_thread_owners er3 + (if map_of (cs_owners st) ?k \<noteq> None then 1 else 0)\<rparr>"
  proof -
    have same: "cs_conversations st1 = cs_conversations st" "cs_window_index st1 = cs_window_index st"
      using rest by (simp_all add: same_rest_def)
    show "st' = st3\<lparr>cs_owners := AList.delete ?k (cs_owners st)\<rparr>"
      "er' = er3\<lparr>er_thread_owners := er_thread_owners er3 + (if map_of (cs_owners st) ?k \<noteq> None then 1 else 0)\<rparr>"
      using run[symmetric] ev[unfolded st2_def er2_def] unfolding erase_key_def Let_def fold_erase_row
      by (simp_all add: rem same from3 conv_key_def[symmetric])
  qed
  have ms': "map_of (cs_messages st') = keep_map (\<lambda>_ m. sm_conversation m \<noteq> ?k) ?ms"
    by (simp add: fin from3 ms)
  have conv': "map_of (cs_conversations st') = keep_map (\<lambda>k _. k \<noteq> ?k) (map_of (cs_conversations st))"
    "map_of (cs_owners st') = keep_map (\<lambda>k _. k \<noteq> ?k) (map_of (cs_owners st))"
    by (auto simp: fin from3 keep_map_def fun_eq_iff split: option.split)
  have events: "map_of (cs_window_events st') = keep_map (\<lambda>_ e. we_conversation e \<noteq> ?k) ?we"
  proof -
    have "without (Pair number ` snd ` set (idx (cs_window_index st) ?k)) ?we
        = keep_map (\<lambda>_ e. we_conversation e \<noteq> ?k) ?we"
    proof
      fix p :: "string \<times> string"
      obtain n' i where p: "p = (n', i)" by fastforce
      show "without (Pair number ` snd ` set (idx (cs_window_index st) ?k)) ?we p
          = keep_map (\<lambda>_ e. we_conversation e \<noteq> ?k) ?we p"
        using W(3)[of n' i]
        by (cases "?we p") (auto simp: p without_def keep_map_def in_pair_snd_image W(4))
    qed
    then show ?thesis using E by (simp add: fin)
  qed
  have "thread_ok (map_of (cs_messages st')) k (map_of (cs_conversations st') k)" for k
  proof (cases "k = ?k")
    case True
    then show ?thesis
      by (auto simp: thread_ok_def ms' conv' keep_map_def listed_def split: option.splits if_splits)
  next
    case False
    then have "thread_ok (map_of (cs_messages st')) k so = thread_ok ?ms k so" for so
      by (intro thread_ok_cong) (auto simp: ms' keep_map_def listed_def split: option.splits)
    moreover have "map_of (cs_conversations st') k = map_of (cs_conversations st) k"
      using False by (simp add: conv' keep_map_def split: option.split)
    ultimately show ?thesis using S by (simp add: summaries_ok_def)
  qed
  then have "summaries_ok st'" using S by (simp add: summaries_ok_def fin from3)
  moreover have "rows_ok st'" by (rule rows_ok_cong[of st1]) (use M in \<open>simp_all add: fin from3\<close>)
  moreover have "windows_ok st'"
    unfolding windows_ok_def events
    using E W(1-3) by (auto simp: fin from3 W(4) keep_map_def split: option.splits if_splits)
  moreover have "book_ok st'" using B by (auto simp: book_ok_def fin from3)
  ultimately have "conv_ok st'" by (simp add: conv_ok_def)
  moreover have "only_keys (\<lambda>k. k = ?k) st st'"
    unfolding only_keys_def ms' conv' events
    using M senders_kept[OF conv_okD(1)[OF ok] rows] by (simp add: fin from3)
  moreover have "erased_to er st er' st'"
  proof -
    have one: "card (dom f - dom (keep_map (\<lambda>k _. k \<noteq> ?k) f)) = (if f ?k \<noteq> None then 1 else 0)" for f
    proof -
      have "dom f - dom (keep_map (\<lambda>k _. k \<noteq> ?k) f) = (if f ?k \<noteq> None then {?k} else {})"
        by (auto simp: keep_map_def dom_def split: option.splits if_splits)
      then show ?thesis by simp
    qed
    have sub: "dom (keep_map P f) \<subseteq> dom f" for P f by (auto simp: keep_map_def dom_def split: option.splits)
    have "n = card (dom ?ms - dom (map_of (cs_messages st')))"
      using M by (simp add: fin from3 dom_without_card del: dom_without)
    then show ?thesis
      using E unfolding erased_to_def ms' conv' one
      by (simp add: sub fin er2_def events)
  qed
  ultimately show ?thesis by blast
qed

lemma fold_erase_key:
  "conv_ok st \<Longrightarrow> fold (erase_key n) ids (er, st) = (er', st') \<Longrightarrow>
     conv_ok st' \<and> only_keys (own_key n (set ids)) st st' \<and> erased_to er st er' st'"
proof (induction ids arbitrary: er st)
  case Nil
  have "map_of (cs_sender_of st) i = None" if "map_of (cs_messages st) i = None" for i
    using rows_okD(8)[OF conv_okD(1)[OF Nil(1)], of i] that by (cases "map_of (cs_sender_of st) i") auto
  then show ?case
    using Nil by (auto simp: only_keys_def own_key_def keep_map_def fun_eq_iff split: option.split)
next
  case (Cons w ids)
  obtain er1 st1 where one: "erase_key n w (er, st) = (er1, st1)" by fastforce
  note K = erase_key[OF Cons.prems(1) one]
  have "fold (erase_key n) ids (er1, st1) = (er', st')" using Cons.prems(2) one by simp
  note H = Cons.IH[OF conjunct1[OF K] this]
  have "(\<lambda>k. k = conv_key n w \<or> own_key n (set ids) k) = own_key n (set (w # ids))"
    by (auto simp: own_key_def conv_key_eq fun_eq_iff)
  then show ?case
    using H K only_keys_trans[of "\<lambda>k. k = conv_key n w" st st1 "own_key n (set ids)" st']
      erased_to_trans[of er st er1 st1 er' st'] by simp
qed

section \<open>A person's messages elsewhere\<close>

lemma redact_message:
  assumes ok: "conv_ok st" and s: "map_of (cs_sender_of st) i = Some p"
    and run: "erase_group_message Redact i (er, ks, st) = (er', ks', st')"
  shows "conv_ok st' \<and> ks' = ks \<and> er' = er\<lparr>er_group_messages := er_group_messages er + 1\<rparr>
    \<and> conv_abs st' = (conv_abs st)\<lparr>
        sp_messages := (\<lambda>j. if j = i then map_option redact (map_of (cs_messages st) j)
                            else map_of (cs_messages st) j),
        sp_sender := (map_of (cs_sender_of st))(i := None)\<rparr>"
proof -
  let ?ms = "map_of (cs_messages st)"
  note R = rows_okD[OF conv_okD(1)[OF ok]]
  obtain m where m: "?ms i = Some m" "sm_kind m \<noteq> REVOKED" using R(8)[OF s] by blast
  have id: "sm_id m = i" using R(5)[OF m(1)] .
  let ?k = "sm_conversation m"
  let ?f = "\<lambda>k s. if ?k = k \<and> ss_last_message_id s = i then s\<lparr>ss_last_text := None\<rparr> else s"
  let ?u = "unindex_sender m st"
  note U = unindex_sender[OF conv_okD(1)[OF ok] id m(1) HOL.refl]
  let ?conv = "case map_of (cs_conversations st) ?k of None \<Rightarrow> cs_conversations st
    | Some s \<Rightarrow> if ss_last_message_id s = i
        then AList.update ?k (s\<lparr>ss_last_text := None\<rparr>) (cs_conversations st) else cs_conversations st"
  have same: "cs_conversations ?u = cs_conversations st" "cs_messages ?u = cs_messages st"
    using U by (simp_all add: same_rest_def)
  have st': "st' = ?u\<lparr>cs_messages := AList.update i (redact m) (cs_messages st), cs_conversations := ?conv\<rparr>"
    "ks' = ks" "er' = er\<lparr>er_group_messages := er_group_messages er + 1\<rparr>"
    using run m(1) same by (auto simp: erase_group_message_def Let_def split: option.splits if_splits)
  have conv: "map_of ?conv k = map_option (?f k) (map_of (cs_conversations st) k)" for k
    by (cases "map_of (cs_conversations st) ?k"; cases "k = ?k") (auto simp: option.map_ident)
  have ms: "map_of (cs_messages st') = ?ms(i \<mapsto> redact m)" by (simp add: st'(1) fun_eq_iff)
  have "rows_ok (?u\<lparr>cs_messages := AList.update i (redact m) (cs_messages ?u)\<rparr>)"
    by (rule rows_ok_update[of ?u i m]) (use U m id in \<open>simp_all add: same\<close>)
  then have "rows_ok st'" by (rule rows_ok_cong) (simp_all add: st'(1) same)
  moreover have "thread_ok (?ms(i \<mapsto> redact m)) k (map_option (?f k) (map_of (cs_conversations st) k))" for k
    using thread_ok_retext[of ?ms k "map_of (cs_conversations st) k" i m "redact m" None]
      conv_okD(2)[OF ok] m id by (simp add: summaries_ok_def)
  moreover have "keys_distinct ?conv"
    using conv_okD(2)[OF ok] by (auto simp: summaries_ok_def split: option.split)
  ultimately have "rows_ok st' \<and> summaries_ok st'"
    unfolding summaries_ok_def ms by (simp add: st'(1) conv)
  moreover have "windows_ok st' \<and> book_ok st'"
    by (rule same_beside_ok[OF _ conv_okD(3,4)[OF ok]])
      (use U in \<open>simp add: st'(1) same_beside_def same_rest_def\<close>)
  ultimately have "conv_ok st'" by (simp add: conv_ok_def)
  moreover have "map_option summary_window (map_option (?f k) so) = map_option summary_window so" for k so
    by (cases so) (auto simp: summary_window_def)
  then have "conv_abs st' = (conv_abs st)\<lparr>
        sp_messages := (\<lambda>j. if j = i then map_option redact (?ms j) else ?ms j),
        sp_sender := (map_of (cs_sender_of st))(i := None)\<rparr>"
    using U m by (auto simp: conv_abs_def st'(1) conv fun_eq_iff same_rest_def)
  ultimately show ?thesis using st' by blast
qed

lemma fold_redact:
  "conv_ok st \<Longrightarrow> distinct ids \<Longrightarrow> \<forall>i\<in>set ids. map_of (cs_sender_of st) i \<noteq> None \<Longrightarrow>
   fold (erase_group_message Redact) ids (er, ks, st) = (er', ks', st') \<Longrightarrow>
     conv_ok st' \<and> ks' = ks \<and> er' = er\<lparr>er_group_messages := er_group_messages er + length ids\<rparr>
     \<and> conv_abs st' = (conv_abs st)\<lparr>
         sp_messages := (\<lambda>j. if j \<in> set ids then map_option redact (map_of (cs_messages st) j)
                             else map_of (cs_messages st) j),
         sp_sender := without (set ids) (map_of (cs_sender_of st))\<rparr>"
proof (induction ids arbitrary: er ks st)
  case Nil
  then show ?case by (simp add: conv_abs_def)
next
  case (Cons i ids)
  obtain p where s: "map_of (cs_sender_of st) i = Some p" using Cons.prems(3) by auto
  obtain er1 ks1 st1 where one: "erase_group_message Redact i (er, ks, st) = (er1, ks1, st1)"
    by (metis surj_pair)
  note D = redact_message[OF Cons.prems(1) s one]
  have ms1: "map_of (cs_messages st1) = (\<lambda>j. if j = i then map_option redact (map_of (cs_messages st) j)
      else map_of (cs_messages st) j)" "map_of (cs_sender_of st1) = (map_of (cs_sender_of st))(i := None)"
    using D conv_abs_sel(1,2)[of st1] by simp_all
  have "fold (erase_group_message Redact) ids (er1, ks1, st1) = (er', ks', st')"
    using Cons.prems(4) one by simp
  note H = Cons.IH[OF conjunct1[OF D] _ _ this]
  have "\<forall>j\<in>set ids. map_of (cs_sender_of st1) j \<noteq> None"
    using Cons.prems(2,3) by (auto simp: ms1)
  note H = H[OF _ this]
  show ?case using H D Cons.prems(2)
    by (auto simp: ms1 fun_eq_iff without_def)
qed

end
