(* ===== verification/Conversation_Erase_All.thy ===== *)
theory Conversation_Erase_All
  imports Conversation_Erase
begin

text \<open>The whole erasure: the keys, the address book and the links, then the other conversations.\<close>

lemma delete_message:
  assumes ok: "rows_ok st" and m: "map_of (cs_messages st) i = Some m"
    and run: "erase_group_message Delete i (er, ks, st) = (er', ks', st')"
  shows "rows_ok st' \<and> same_rest st st' \<and> er' = er\<lparr>er_group_messages := er_group_messages er + 1\<rparr>
    \<and> map_of (cs_messages st') = without {i} (map_of (cs_messages st))
    \<and> map_of (cs_sender_of st') = without {i} (map_of (cs_sender_of st))
    \<and> set ks' = set ks \<union> {k. \<exists>s. map_of (cs_conversations st) k = Some s
         \<and> sm_conversation m = k \<and> ss_last_message_id s = i}"
proof -
  obtain b st1 where rem: "remove_message i st = (b, st1)" by fastforce
  note R = remove_message[OF ok rem]
  have fin: "st' = st1" "er' = er\<lparr>er_group_messages := er_group_messages er + 1\<rparr>"
    "ks' = (if (case map_of (cs_conversations st) (sm_conversation m) of
                  None \<Rightarrow> False | Some s \<Rightarrow> ss_last_message_id s = i) then ks @ [sm_conversation m] else ks)"
    using run m rem by (auto simp: erase_group_message_def Let_def)
  have "set ks' = set ks \<union> {k. \<exists>s. map_of (cs_conversations st) k = Some s
         \<and> sm_conversation m = k \<and> ss_last_message_id s = i}"
    by (auto simp: fin(3) split: option.splits)
  then show ?thesis using R by (auto simp: fin without_def fun_eq_iff)
qed

lemma fold_delete:
  "rows_ok st \<Longrightarrow> distinct ids \<Longrightarrow> set ids \<subseteq> dom (map_of (cs_messages st)) \<Longrightarrow>
   fold (erase_group_message Delete) ids (er, ks, st) = (er', ks', st') \<Longrightarrow>
     rows_ok st' \<and> same_rest st st' \<and> er' = er\<lparr>er_group_messages := er_group_messages er + length ids\<rparr>
     \<and> map_of (cs_messages st') = without (set ids) (map_of (cs_messages st))
     \<and> map_of (cs_sender_of st') = without (set ids) (map_of (cs_sender_of st))
     \<and> set ks' = set ks \<union> {k. \<exists>s m. map_of (cs_conversations st) k = Some s
          \<and> map_of (cs_messages st) (ss_last_message_id s) = Some m \<and> sm_conversation m = k
          \<and> ss_last_message_id s \<in> set ids}"
proof (induction ids arbitrary: er ks st)
  case Nil
  then show ?case by (simp add: without_def)
next
  case (Cons i ids)
  obtain m where m: "map_of (cs_messages st) i = Some m" using Cons.prems(3) by auto
  obtain er1 ks1 st1 where one: "erase_group_message Delete i (er, ks, st) = (er1, ks1, st1)"
    by (metis surj_pair)
  note D = delete_message[OF Cons.prems(1) m one]
  have ms1: "map_of (cs_messages st1) = without {i} (map_of (cs_messages st))"
    "map_of (cs_sender_of st1) = without {i} (map_of (cs_sender_of st))"
    "cs_conversations st1 = cs_conversations st" using D by (simp_all add: same_rest_def)
  have "fold (erase_group_message Delete) ids (er1, ks1, st1) = (er', ks', st')"
    using Cons.prems(4) one by simp
  note H = Cons.IH[OF conjunct1[OF D] _ _ this]
  have sub: "set ids \<subseteq> dom (map_of (cs_messages st1))" and d: "distinct ids" and i: "i \<notin> set ids"
    using Cons.prems(2,3) by (auto simp: ms1)
  note H = H[OF d sub]
  have "without {i} (map_of (cs_messages st)) j = Some x \<longleftrightarrow> j \<noteq> i \<and> map_of (cs_messages st) j = Some x"
    for j x by (auto simp: without_def)
  then have "set ks' = set ks \<union> {k. \<exists>s m. map_of (cs_conversations st) k = Some s
          \<and> map_of (cs_messages st) (ss_last_message_id s) = Some m \<and> sm_conversation m = k
          \<and> ss_last_message_id s \<in> set (i # ids)}"
    using H D m i unfolding ms1 by auto
  moreover have "er' = er\<lparr>er_group_messages := er_group_messages er + length (i # ids)\<rparr>"
    using H D by simp
  moreover have "map_of (cs_messages st') = without (set (i # ids)) (map_of (cs_messages st))"
    "map_of (cs_sender_of st') = without (set (i # ids)) (map_of (cs_sender_of st))"
    using H unfolding ms1 without_without by simp_all
  ultimately show ?case using H D same_rest_trans[of st st1 st'] by blast
qed

section \<open>The messages elsewhere\<close>

definition their_rows :: "string \<Rightarrow> string list \<Rightarrow> conv_state \<Rightarrow> string list" where
  "their_rows number ids st = concat (map (\<lambda>s. idx (cs_senders st) (number, s)) ids)"

lemma their_rows:
  assumes ok: "rows_ok st" and ids: "distinct ids"
  shows "distinct (their_rows number ids st)
    \<and> set (their_rows number ids st) = {i. \<exists>m. map_of (cs_messages st) i = Some m
        \<and> sent_by number (set ids) (map_of (cs_sender_of st)) i m}"
proof -
  note R = rows_okD[OF ok]
  have "distinct (concat (map (\<lambda>s. idx (cs_senders st) (number, s)) ids))" if "distinct ids"
    using that
  proof (induction ids)
    case (Cons p ids)
    have "distinct (idx (cs_senders st) (number, p))" using oset_ok_idx[OF R(4)] by (simp add: oset_ok_def)
    with Cons show ?case by (auto simp: R(7))
  qed simp
  then show ?thesis
    using ids by (auto simp: their_rows_def sent_by_def R(7) split: option.splits)
qed

text \<open>Either way, the summaries of the other conversations follow what stays.\<close>

lemma erase_elsewhere:
  assumes ok: "conv_ok st" and ids: "distinct ids"
    and run: "fold (erase_group_message mode) (their_rows number ids st) (er, [], st) = (er', ks, st1)"
  defines "st' \<equiv> fold resummarize ks st1"
    and "theirs \<equiv> \<lambda>i. \<exists>m. map_of (cs_messages st) i = Some m
        \<and> sent_by number (set ids) (map_of (cs_sender_of st)) i m"
  shows "conv_ok st' \<and> er' = er\<lparr>er_group_messages := er_group_messages er + card {i. theirs i}\<rparr>
    \<and> (let ms = (\<lambda>i. if theirs i then (if mode = Delete then None
                        else map_option redact (map_of (cs_messages st) i))
                    else map_of (cs_messages st) i)
       in conv_abs st' = (conv_abs st)\<lparr>sp_messages := ms,
            sp_sender := without {i. theirs i} (map_of (cs_sender_of st)),
            sp_window := keep_windows ms (sp_window (conv_abs st))\<rparr>)"
proof -
  note R = conv_okD(1)[OF ok]
  let ?ids = "their_rows number ids st"
  note T = their_rows[OF R ids, of number]
  have set: "set ?ids = {i. theirs i}" and len: "length ?ids = card {i. theirs i}"
    using T distinct_card[of ?ids] by (simp_all add: theirs_def)
  show ?thesis
  proof (cases mode)
    case Redact
    have "\<forall>i\<in>set ?ids. map_of (cs_sender_of st) i \<noteq> None"
      using T by (auto simp: sent_by_def split: option.splits)
    note F = fold_redact[OF ok _ this run[unfolded Redact]]
    note F = F[OF conjunct1[OF T]]
    have st': "st' = st1" using F by (simp add: st'_def)
    have abs: "conv_abs st1 = (conv_abs st)\<lparr>
         sp_messages := (\<lambda>j. if j \<in> set ?ids then map_option redact (map_of (cs_messages st) j)
                             else map_of (cs_messages st) j),
         sp_sender := without (set ?ids) (map_of (cs_sender_of st))\<rparr>" using F by blast
    have "sp_window (conv_abs st1) = sp_window (conv_abs st)" unfolding abs by simp
    moreover from this have "map_option summary_window (map_of (cs_conversations st1) k)
        = map_option summary_window (map_of (cs_conversations st) k)" for k
      by (metis conv_abs_sel(3))
    then have "sp_window (conv_abs st1) = keep_windows (map_of (cs_messages st1)) (sp_window (conv_abs st))"
      using windows_kept[of st1 st] F by (simp add: conv_ok_def)
    moreover have "map_of (cs_messages st1) = (\<lambda>j. if theirs j then map_option redact (map_of (cs_messages st) j)
                             else map_of (cs_messages st) j)"
      using conv_abs_sel(1)[of st1] unfolding abs by (simp add: set)
    ultimately have eq: "keep_windows (\<lambda>j. if theirs j then map_option redact (map_of (cs_messages st) j)
        else map_of (cs_messages st) j) (sp_window (conv_abs st)) = sp_window (conv_abs st)"
      by simp
    show ?thesis
      using F unfolding st' Let_def Redact
      by (simp add: eq len set cong: if_cong)
  next
    case Delete
    have "set ?ids \<subseteq> dom (map_of (cs_messages st))" using T by auto
    note F = fold_delete[OF R conjunct1[OF T] this run[unfolded Delete]]
    have ms: "map_of (cs_messages st1) = without {i. theirs i} (map_of (cs_messages st))"
      using F by (simp add: set)
    have conv: "cs_conversations st1 = cs_conversations st" using F by (simp add: same_rest_def)
    note S = conv_okD(2)[OF ok]
    have touched: "k \<in> set ks \<longleftrightarrow> (\<exists>s m. map_of (cs_conversations st) k = Some s
          \<and> map_of (cs_messages st) (ss_last_message_id s) = Some m \<and> sm_conversation m = k
          \<and> theirs (ss_last_message_id s))" for k
      using F by (simp add: set)
    have dist: "keys_distinct (cs_conversations st1)" using S by (simp add: summaries_ok_def conv)
    have fewer: "listed (map_of (cs_messages st1)) k i m \<Longrightarrow> listed (map_of (cs_messages st)) k i m" for k i m
      by (simp add: ms listed_def without_def split: if_splits)
    have kept: "thread_ok (map_of (cs_messages st1)) k (map_of (cs_conversations st1) k)" if "k \<notin> set ks" for k
    proof (cases "map_of (cs_conversations st) k")
      case None
      then have "\<not> listed (map_of (cs_messages st)) k i m" for i m
        using S thread_ok_listed[of "map_of (cs_messages st)" k None] by (metis summaries_ok_def)
      then have "\<not> listed (map_of (cs_messages st1)) k i m" for i m using fewer by blast
      then show ?thesis using None by (simp add: conv thread_ok_def)
    next
      case (Some s)
      then have s: "summarises (map_of (cs_messages st)) k s" using S by (metis summaries_ok_def thread_ok_Some)
      then have "\<not> theirs (ss_last_message_id s)"
        using that Some touched[of k] by (auto simp: summarises_def listed_def)
      then have "summarises (map_of (cs_messages st1)) k s"
        by (intro summarises_fewer[OF s fewer]) (simp_all add: ms without_def)
      then show ?thesis by (simp add: conv Some thread_ok_def)
    qed
    have none: "\<forall>i m. \<not> listed (map_of (cs_messages st1)) k i m" if "map_of (cs_conversations st1) k = None" for k
    proof -
      have "k \<notin> set ks" using that touched[of k] by (auto simp: conv)
      then show ?thesis using kept that thread_ok_listed by metis
    qed
    note Q = fold_resummarize[OF conjunct1[OF F] dist kept none, of ks, folded st'_def]
    note Q = Q[simplified]
    have st': "st' = st1\<lparr>cs_conversations := cs_conversations st'\<rparr>" using Q by blast
    have from1: "cs_messages st' = cs_messages st1" "cs_sender_of st' = cs_sender_of st1"
        "cs_history st' = cs_history st1" "cs_senders st' = cs_senders st1"
        "cs_window_events st' = cs_window_events st" "cs_window_index st' = cs_window_index st"
        "cs_owners st' = cs_owners st" "cs_contacts st' = cs_contacts st" "cs_links st' = cs_links st"
      using F by (subst st', simp add: same_rest_def)+
    have "rows_ok st'" by (rule rows_ok_cong[OF conjunct1[OF F]]) (simp_all add: from1)
    moreover have "windows_ok st' \<and> book_ok st'"
      by (rule same_beside_ok[OF _ conv_okD(3,4)[OF ok]]) (simp add: same_beside_def from1)
    ultimately have "conv_ok st'" using Q by (simp add: conv_ok_def)
    moreover have "sp_window (conv_abs st') = keep_windows (map_of (cs_messages st')) (sp_window (conv_abs st))"
      by (rule windows_kept) (use Q in \<open>simp_all add: conv\<close>)
    moreover have "map_of (cs_messages st') = (\<lambda>i. if theirs i then None else map_of (cs_messages st) i)"
      by (simp add: from1 ms without_def fun_eq_iff)
    moreover have "conv_abs st' = (conv_abs st)\<lparr>sp_messages := map_of (cs_messages st'),
        sp_sender := map_of (cs_sender_of st'), sp_window := sp_window (conv_abs st')\<rparr>"
      by (simp add: conv_abs_def from1)
    moreover have "map_of (cs_sender_of st') = without {i. theirs i} (map_of (cs_sender_of st))"
      using F by (simp add: from1 set)
    ultimately show ?thesis using F by (simp add: Delete len Let_def cong: if_cong)
  qed
qed

section \<open>The address book and the links\<close>

definition kept_contacts :: "string \<Rightarrow> string list \<Rightarrow> (string \<times> string, synced) btreemap \<Rightarrow> (string \<times> string, synced) btreemap" where
  "kept_contacts number ids =
     filter (\<lambda>((n, who), synced). n \<noteq> number
        \<or> \<not> (who \<in> set ids \<or> contact_names synced (filter (\<lambda>i. i \<noteq> []) ids)))"

definition kept_links :: "string \<Rightarrow> string list \<Rightarrow> (string \<times> string \<times> string, time) btreemap \<Rightarrow> (string \<times> string \<times> string, time) btreemap" where
  "kept_links number ids =
     filter (\<lambda>((n, previous, current), _). n \<noteq> number
        \<or> \<not> (previous \<in> set (filter (\<lambda>i. i \<noteq> []) ids) \<or> current \<in> set (filter (\<lambda>i. i \<noteq> []) ids)))"

lemma contact_names_person:
  "contact_names v (filter (\<lambda>i. i \<noteq> []) ids)
     \<longleftrightarrow> (case v of Contact c \<Rightarrow> names_person (set ids) c | Removed _ \<Rightarrow> False)"
  by (cases v) (auto simp: contact_names_def names_person_def split: option.split)

lemma kept_contacts:
  assumes "omap_ok m"
  shows "map_of (kept_contacts number ids m) = keep_map (\<lambda>k v. \<not> erased_contact number (set ids) k v) (map_of m)"
    and "length m - length (kept_contacts number ids m)
      = dropped (\<lambda>k v. \<not> erased_contact number (set ids) k v) (map_of m)"
proof -
  note dist = omap_keys_distinct[OF assms]
  show "map_of (kept_contacts number ids m) = keep_map (\<lambda>k v. \<not> erased_contact number (set ids) k v) (map_of m)"
    unfolding kept_contacts_def
    by (rule trans[OF map_of_filter_keep[OF dist]], rule arg_cong[where f = "\<lambda>P. keep_map P (map_of m)"])
      (auto simp: fun_eq_iff erased_contact_def contact_names_person)
  show "length m - length (kept_contacts number ids m) = dropped (\<lambda>k v. \<not> erased_contact number (set ids) k v) (map_of m)"
    unfolding kept_contacts_def
    by (rule trans[OF length_filter_dropped[OF dist]], rule arg_cong[where f = "\<lambda>P. dropped P (map_of m)"])
      (auto simp: fun_eq_iff erased_contact_def contact_names_person)
qed

lemma kept_contacts_ok: "omap_ok m \<Longrightarrow> omap_ok (kept_contacts number ids m)"
  by (simp add: kept_contacts_def)

lemma kept_links:
  assumes "omap_ok m"
  shows "map_of (kept_links number ids m) = keep_map (\<lambda>k _. \<not> erased_link number (set ids) k) (map_of m)"
    and "length m - length (kept_links number ids m)
      = dropped (\<lambda>k _. \<not> erased_link number (set ids) k) (map_of m)"
proof -
  note dist = omap_keys_distinct[OF assms]
  show "map_of (kept_links number ids m) = keep_map (\<lambda>k _. \<not> erased_link number (set ids) k) (map_of m)"
    unfolding kept_links_def
    by (rule trans[OF map_of_filter_keep[OF dist]], rule arg_cong[where f = "\<lambda>P. keep_map P (map_of m)"])
      (auto simp: fun_eq_iff erased_link_def)
  show "length m - length (kept_links number ids m) = dropped (\<lambda>k _. \<not> erased_link number (set ids) k) (map_of m)"
    unfolding kept_links_def
    by (rule trans[OF length_filter_dropped[OF dist]], rule arg_cong[where f = "\<lambda>P. dropped P (map_of m)"])
      (auto simp: fun_eq_iff erased_link_def)
qed

lemma kept_links_ok: "omap_ok m \<Longrightarrow> omap_ok (kept_links number ids m)"
  by (simp add: kept_links_def)

lemma erase_all_run:
  assumes "erase_all mode number persons st = (er, st')"
  obtains er1 st1 er3 ks st3 where
    "fold (erase_key number) (oset_of persons) (erased_default, st) = (er1, st1)"
    "fold (erase_group_message mode) (their_rows number (oset_of persons) st1)
       (er1\<lparr>er_contacts := length (cs_contacts st1) - length (kept_contacts number (oset_of persons) (cs_contacts st1)),
            er_identity_links := length (cs_links st1) - length (kept_links number (oset_of persons) (cs_links st1))\<rparr>, [],
        st1\<lparr>cs_contacts := kept_contacts number (oset_of persons) (cs_contacts st1),
            cs_links := kept_links number (oset_of persons) (cs_links st1)\<rparr>) = (er3, ks, st3)"
    "er = er3" "st' = fold resummarize ks st3"
proof -
  obtain er1 st1 where one: "fold (erase_key number) (oset_of persons) (erased_default, st) = (er1, st1)"
    by fastforce
  obtain er3 ks st3 where two: "fold (erase_group_message mode) (their_rows number (oset_of persons) st1)
       (er1\<lparr>er_contacts := length (cs_contacts st1) - length (kept_contacts number (oset_of persons) (cs_contacts st1)),
            er_identity_links := length (cs_links st1) - length (kept_links number (oset_of persons) (cs_links st1))\<rparr>, [],
        st1\<lparr>cs_contacts := kept_contacts number (oset_of persons) (cs_contacts st1),
            cs_links := kept_links number (oset_of persons) (cs_links st1)\<rparr>) = (er3, ks, st3)"
    by (metis surj_pair)
  have "(er, st') = (er3, fold resummarize ks st3)"
    using assms[symmetric] two
    unfolding erase_all_def Let_def one prod.case kept_contacts_def kept_links_def their_rows_def
    by simp
  then show thesis using that one two by blast
qed

lemma erase_refines:
  assumes ok: "conv_ok st" and run: "erase_all mode number persons st = (er, st')"
  shows "conv_ok st' \<and> spec_erase mode number (set persons) (conv_abs st) = (er, conv_abs st')"
proof -
  let ?ids = "oset_of persons"
  obtain er1 st1 er3 ks st3 where keys: "fold (erase_key number) ?ids (erased_default, st) = (er1, st1)"
    and group: "fold (erase_group_message mode) (their_rows number ?ids st1)
       (er1\<lparr>er_contacts := length (cs_contacts st1) - length (kept_contacts number ?ids (cs_contacts st1)),
            er_identity_links := length (cs_links st1) - length (kept_links number ?ids (cs_links st1))\<rparr>, [],
        st1\<lparr>cs_contacts := kept_contacts number ?ids (cs_contacts st1),
            cs_links := kept_links number ?ids (cs_links st1)\<rparr>) = (er3, ks, st3)"
    and fin: "er = er3" "st' = fold resummarize ks st3"
    by (rule erase_all_run[OF run])
  note K = fold_erase_key[OF ok keys]
  let ?st2 = "st1\<lparr>cs_contacts := kept_contacts number ?ids (cs_contacts st1),
            cs_links := kept_links number ?ids (cs_links st1)\<rparr>"
  note B = book_okD[OF conv_okD(4)[OF conjunct1[OF K]]]
  note B0 = book_okD[OF conv_okD(4)[OF ok]]
  have "book_ok ?st2"
    using B unfolding book_ok_def
    by (auto simp: kept_contacts(1) keep_map_def kept_contacts_ok kept_links_ok split: option.splits if_splits)
  then have ok2: "conv_ok ?st2"
    by (intro conv_ok_beside[OF conjunct1[OF K]])
      (use conv_okD(3)[OF conjunct1[OF K]] in \<open>auto elim: windows_ok_cong\<close>)
  have d: "distinct ?ids" using oset_of_ok[of persons] by (simp add: oset_ok_def)
  have "their_rows number ?ids ?st2 = their_rows number ?ids st1" by (simp add: their_rows_def)
  note E = erase_elsewhere[OF ok2 d group[folded this], folded fin(2)]
  let ?ms = "map_of (cs_messages st)" and ?P = "set persons"
  let ?own = "\<lambda>m. own_key number ?P (sm_conversation m)"
  let ?theirs = "\<lambda>i m. \<not> ?own m \<and> sent_by number ?P (map_of (cs_sender_of st)) i m"
  note A = K[THEN conjunct2, THEN conjunct1, unfolded only_keys_def set_oset_of]
  have ms1: "map_of (cs_messages st1) = keep_map (\<lambda>_ m. \<not> ?own m) ?ms"
    and senders: "map_of (cs_sender_of st1)
      = (\<lambda>i. if keep_map (\<lambda>_ m. \<not> ?own m) ?ms i = None then None else map_of (cs_sender_of st) i)"
    using A by simp_all
  have theirs: "(\<exists>m. map_of (cs_messages ?st2) i = Some m
        \<and> sent_by number (set ?ids) (map_of (cs_sender_of ?st2)) i m) \<longleftrightarrow> (\<exists>m. ?ms i = Some m \<and> ?theirs i m)" for i
    by (auto simp: ms1 senders keep_map_def sent_by_def split: option.splits if_splits)
  define ms' where "ms' = (\<lambda>i. case ?ms i of None \<Rightarrow> None
      | Some m \<Rightarrow> if ?own m \<or> ?theirs i m \<and> mode = Delete then None
                  else Some (if ?theirs i m then redact m else m))"
  have "(\<lambda>i. if \<exists>m. ?ms i = Some m \<and> ?theirs i m
      then (if mode = Delete then None else map_option redact (map_of (cs_messages ?st2) i))
      else map_of (cs_messages ?st2) i) = ms'"
    by (auto simp: ms1 ms'_def keep_map_def fun_eq_iff split: option.split)
  with E have abs: "conv_abs st' = (conv_abs ?st2)\<lparr>sp_messages := ms',
      sp_sender := without {i. \<exists>m. ?ms i = Some m \<and> ?theirs i m} (map_of (cs_sender_of st1)),
      sp_window := keep_windows ms' (sp_window (conv_abs ?st2))\<rparr>"
    and er3: "er3 = er1\<lparr>er_contacts := length (cs_contacts st1) - length (kept_contacts number ?ids (cs_contacts st1)),
            er_identity_links := length (cs_links st1) - length (kept_links number ?ids (cs_links st1)),
            er_group_messages := er_group_messages er1 + card {i. \<exists>m. ?ms i = Some m \<and> ?theirs i m}\<rparr>"
    unfolding theirs Let_def by simp_all
  have own_gone: "\<not> listed ms' k i m" if "own_key number ?P k" for k i m
    using that by (auto simp: listed_def ms'_def split: option.splits if_splits)
  have "conv_abs st' = snd (spec_erase mode number (set persons) (conv_abs st))"
  proof (rule conv_spec.equality)
    show "sp_messages (conv_abs st') = sp_messages (snd (spec_erase mode number (set persons) (conv_abs st)))"
      unfolding abs by (simp add: spec_erase_def Let_def ms'_def)
    show "sp_sender (conv_abs st') = sp_sender (snd (spec_erase mode number (set persons) (conv_abs st)))"
      unfolding abs using no_sender[OF conv_okD(1)[OF ok]]
      by (auto simp: spec_erase_def Let_def senders without_def keep_map_def fun_eq_iff split: option.split)
    have "map_option summary_window (map_of (cs_conversations st1) k)
        = (if own_key number ?P k then None else map_option summary_window (map_of (cs_conversations st) k))" for k
      using A by (simp add: keep_map_def split: option.split)
    then show "sp_window (conv_abs st') = sp_window (snd (spec_erase mode number (set persons) (conv_abs st)))"
      unfolding abs using own_gone
      by (auto simp: spec_erase_def Let_def ms'_def[symmetric] keep_windows_def keep_map_def fun_eq_iff
          split: option.split if_splits)
    show "sp_contacts (conv_abs st') = sp_contacts (snd (spec_erase mode number (set persons) (conv_abs st)))"
      unfolding abs using A by (simp add: spec_erase_def Let_def kept_contacts(1)[OF B0(2)])
    show "sp_links (conv_abs st') = sp_links (snd (spec_erase mode number (set persons) (conv_abs st)))"
      unfolding abs using A by (simp add: spec_erase_def Let_def kept_links(1)[OF B0(3)])
  qed (use A in \<open>simp_all add: abs spec_erase_def Let_def\<close>)
  moreover have "er = fst (spec_erase mode number (set persons) (conv_abs st))"
  proof -
    note C = K[THEN conjunct2, THEN conjunct2, unfolded erased_to_def]
    have "dropped (\<lambda>k _. \<not> own_key number ?P k) (sp_window (conv_abs st))
        = card (dom (map_of (cs_conversations st)) - dom (map_of (cs_conversations st1)))"
      using A by (auto simp: dropped_def keep_map_def dom_def intro!: arg_cong[where f = card]
          split: option.splits if_splits)
    moreover have "dropped (\<lambda>i m. \<not> ?theirs i m) ?ms = card {i. \<exists>m. ?ms i = Some m \<and> ?theirs i m}"
      by (simp add: dropped_def)
    ultimately show ?thesis
      using C A unfolding fin(1) er3
      by (simp add: spec_erase_def Let_def erased_default_def dropped_dom kept_contacts(2)[OF B0(2)]
          kept_links(2)[OF B0(3)])
  qed
  ultimately show ?thesis using E by simp
qed

end
