(* ===== verification/Conversation_Paging.thy ===== *)
theory Conversation_Paging
  imports Conversation_Erase_All
begin

text \<open>
  Reading a listing page by page. A listing is a list of rows in a strict order with a cursor per
  row; a page is the rows past the cursor, up to a limit. The locale proves once that following
  the last row's cursor reads every row exactly once; the store's four listings are instances.
\<close>

section \<open>Pages\<close>

text \<open>A reader that asks for the next page until one is empty, for at most \<open>fuel\<close> pages.\<close>

primrec read_pages :: "nat \<Rightarrow> ('c option \<Rightarrow> 'r list) \<Rightarrow> ('r \<Rightarrow> 'c) \<Rightarrow> 'c option \<Rightarrow> 'r list" where
  "read_pages 0 page cursor before = []"
| "read_pages (Suc fuel) page cursor before =
     (let p = page before
      in if p = [] then [] else p @ read_pages fuel page cursor (Some (cursor (last p))))"

locale paged =
  fixes rows :: "'k \<Rightarrow> 's \<Rightarrow> 'r list"
    and page :: "'k \<Rightarrow> 'c option \<Rightarrow> nat \<Rightarrow> 's \<Rightarrow> 'r list"
    and cursor :: "'r \<Rightarrow> 'c"
    and past :: "'c \<Rightarrow> 'c \<Rightarrow> bool"
    and inv :: "'s \<Rightarrow> bool"
  assumes page: "inv s \<Longrightarrow> page k before n s =
      take n (filter (\<lambda>r. case before of None \<Rightarrow> True | Some c \<Rightarrow> past c (cursor r)) (rows k s))"
    and ordered: "inv s \<Longrightarrow> sorted_wrt (\<lambda>x y. past (cursor x) (cursor y)) (rows k s)"
    and past_asym: "past c d \<Longrightarrow> \<not> past d c"
begin

lemma past_irrefl: "\<not> past c c"
  using past_asym by blast

lemma rest_after:
  assumes "inv s" and "rows k s = a @ r # b"
  shows "filter (\<lambda>x. past (cursor r) (cursor x)) (rows k s) = b"
proof -
  have "sorted_wrt (\<lambda>x y. past (cursor x) (cursor y)) (a @ r # b)"
    using ordered[OF assms(1), of k] assms(2) by simp
  then have "\<forall>x\<in>set a. past (cursor x) (cursor r)" "\<forall>x\<in>set b. past (cursor r) (cursor x)"
    by (auto simp: sorted_wrt_append)
  then show ?thesis
    using past_asym past_irrefl by (auto simp: assms(2) filter_empty_conv)
qed

lemma pages_from:
  assumes inv: "inv s" and n: "0 < n"
  shows "rows k s = a @ r # b \<Longrightarrow> length b < fuel \<Longrightarrow>
     read_pages fuel (\<lambda>c. page k c n s) cursor (Some (cursor r)) = b"
proof (induction fuel arbitrary: a r b)
  case (Suc fuel)
  have p: "page k (Some (cursor r)) n s = take n b"
    using page[OF inv] rest_after[OF inv Suc.prems(1)] by simp
  show ?case
  proof (cases "b = []")
    case False
    let ?p = "take n b"
    have ne: "?p \<noteq> []" using False n by simp
    have split: "rows k s = (a @ r # butlast ?p) @ last ?p # drop n b"
      using Suc.prems(1) append_butlast_last_id[OF ne]
      by (metis append.assoc append_Cons append_Nil append_take_drop_id)
    have "length (drop n b) < fuel" using Suc.prems(2) n False by (cases b; cases n) auto
    from Suc.IH[OF split] this show ?thesis using ne by (simp add: p)
  qed (simp add: p)
qed simp

text \<open>Following the cursors reads every row once, in order.\<close>

lemma pages_complete:
  assumes inv: "inv s" and n: "0 < n" and fuel: "length (rows k s) < fuel"
  shows "read_pages fuel (\<lambda>c. page k c n s) cursor None = rows k s"
proof (cases "rows k s")
  case Nil
  then show ?thesis using page[OF inv, of k None n] fuel by (cases fuel) simp_all
next
  case (Cons r0 rest)
  obtain f where f: "fuel = Suc f" using fuel by (cases fuel) auto
  let ?p = "take n (rows k s)"
  have p: "page k None n s = ?p" using page[OF inv, of k None n] by simp
  have ne: "?p \<noteq> []" using Cons n by simp
  have split: "rows k s = butlast ?p @ last ?p # drop n (rows k s)"
    using append_butlast_last_id[OF ne] by (metis append.assoc append_Cons append_Nil append_take_drop_id)
  have "length (drop n (rows k s)) < f" using fuel f n Cons by simp
  from pages_from[OF inv n split this] show ?thesis using ne by (simp add: f p Let_def del: take_eq_Nil)
qed

end

section \<open>Messages and window events\<close>

text \<open>A conversation's whole history, newest first, and its window events.\<close>

definition history_rows :: "conversation_key \<Rightarrow> conv_state \<Rightarrow> stored_message list" where
  "history_rows k st = messages k None (length (idx (cs_history st) k)) st"

definition event_rows :: "conversation_key \<Rightarrow> conv_state \<Rightarrow> window_event list" where
  "event_rows k st = window_events k None (length (idx (cs_window_index st) k)) st"

lemma map_filter_total:
  "\<forall>x\<in>set xs. f x = Some (g x) \<Longrightarrow> List.map_filter f xs = map g xs"
  by (induction xs) (auto simp: List.map_filter_simps)

text \<open>The pages of an index whose entries all have a row.\<close>

lemma index_pages:
  fixes xs :: "('c::linorder) list"
  assumes ok: "oset_ok xs" and row: "\<And>x. x \<in> set xs \<Longrightarrow> f x = Some (g x) \<and> cursor (g x) = x"
  shows "List.map_filter f (take n (index_page xs before))
      = take n (filter (\<lambda>r. case before of None \<Rightarrow> True | Some c \<Rightarrow> cursor r < c) (map g (rev xs)))"
    and "sorted_wrt (\<lambda>x y. cursor y < cursor x) (map g (rev xs))"
    and "List.map_filter f (take (length xs) (index_page xs None)) = map g (rev xs)"
proof -
  have pg: "index_page xs before = filter (\<lambda>x. case before of None \<Rightarrow> True | Some c \<Rightarrow> x < c) (rev xs)" for before
    by (simp add: index_page_def rev_filter split: option.split)
  have mf: "List.map_filter f (take n (index_page xs before)) = map g (take n (index_page xs before))" for n before
    by (rule map_filter_total) (auto simp: pg row dest!: in_set_takeD)
  have "filter (\<lambda>r. case before of None \<Rightarrow> True | Some c \<Rightarrow> cursor r < c) (map g ys)
      = map g (filter (\<lambda>x. case before of None \<Rightarrow> True | Some c \<Rightarrow> x < c) ys)" if "set ys \<subseteq> set xs" for ys
    using that row by (induction ys) (auto split: option.split)
  from this[of "rev xs"] show "List.map_filter f (take n (index_page xs before))
      = take n (filter (\<lambda>r. case before of None \<Rightarrow> True | Some c \<Rightarrow> cursor r < c) (map g (rev xs)))"
    by (simp only: mf) (simp add: pg take_map)
  have "sorted_wrt (<) xs" using ok by (simp add: oset_ok_def strict_sorted_iff)
  then have "sorted_wrt (\<lambda>x y. y < x) (rev xs)" by (simp add: sorted_wrt_rev)
  then show "sorted_wrt (\<lambda>x y. cursor y < cursor x) (map g (rev xs))"
    unfolding sorted_wrt_map by (rule sorted_wrt_mono_rel[rotated]) (simp add: row)
  show "List.map_filter f (take (length xs) (index_page xs None)) = map g (rev xs)"
    by (simp only: mf) (simp add: pg)
qed

definition message_cursor :: "stored_message \<Rightarrow> time \<times> string" where
  "message_cursor m = (sm_timestamp m, sm_id m)"

definition event_cursor :: "window_event \<Rightarrow> time \<times> string" where
  "event_cursor e = (we_at e, we_id e)"

definition older :: "'c::linorder \<Rightarrow> 'c \<Rightarrow> bool" where
  "older c d \<longleftrightarrow> d < c"

lemma message_row:
  assumes "conv_ok st" and "x \<in> set (idx (cs_history st) k)"
  shows "(case x of (_, i) \<Rightarrow> map_of (cs_messages st) i) = Some (the (map_of (cs_messages st) (snd x)))
    \<and> message_cursor (the (map_of (cs_messages st) (snd x))) = x"
proof -
  note R = rows_okD[OF conv_okD(1)[OF assms(1)]]
  obtain t i where x: "x = (t, i)" by fastforce
  then obtain m where "map_of (cs_messages st) i = Some m" "sm_timestamp m = t"
    using assms(2) R(6) by blast
  then show ?thesis using R(5)[of i m] by (simp add: x message_cursor_def)
qed

lemma event_row:
  assumes "conv_ok st" and "x \<in> set (idx (cs_window_index st) k)"
  shows "(case x of (_, i) \<Rightarrow> map_of (cs_window_events st) (ck_phone_number_id k, i))
      = Some (the (map_of (cs_window_events st) (ck_phone_number_id k, snd x)))
    \<and> event_cursor (the (map_of (cs_window_events st) (ck_phone_number_id k, snd x))) = x"
proof -
  note W = windows_okD[OF conv_okD(3)[OF assms(1)]]
  obtain t i where x: "x = (t, i)" by fastforce
  then obtain e where "map_of (cs_window_events st) (ck_phone_number_id k, i) = Some e" "we_at e = t"
    using assms(2) W(4) by blast
  then show ?thesis using W(3)[of "ck_phone_number_id k" i e] by (simp add: x event_cursor_def)
qed

interpretation history: paged history_rows messages message_cursor older conv_ok
proof (unfold_locales, goal_cases)
  case (1 s k before n)
  note P = index_pages[OF oset_ok_idx[OF rows_okD(3)[OF conv_okD(1)[OF 1]]] message_row[OF 1, of _ k]]
  show ?case using P(1) P(3) by (simp add: messages_def history_rows_def older_def cong: option.case_cong)
next
  case (2 s k)
  note P = index_pages[OF oset_ok_idx[OF rows_okD(3)[OF conv_okD(1)[OF 2]]] message_row[OF 2, of _ k]]
  show ?case using P(2,3) by (simp add: messages_def history_rows_def older_def cong: option.case_cong)
next
  case 3 then show ?case by (simp add: older_def)
qed

interpretation events: paged event_rows window_events event_cursor older conv_ok
proof (unfold_locales, goal_cases)
  case (1 s k before n)
  note P = index_pages[OF oset_ok_idx[OF windows_okD(2)[OF conv_okD(3)[OF 1]]] event_row[OF 1, of _ k]]
  show ?case using P(1) P(3) by (simp add: window_events_def event_rows_def older_def cong: option.case_cong)
next
  case (2 s k)
  note P = index_pages[OF oset_ok_idx[OF windows_okD(2)[OF conv_okD(3)[OF 2]]] event_row[OF 2, of _ k]]
  show ?case using P(2,3) by (simp add: window_events_def event_rows_def older_def cong: option.case_cong)
next
  case 3 then show ?case by (simp add: older_def)
qed

section \<open>The inbox and the address book\<close>

definition conversation_rows :: "string \<Rightarrow> conv_state \<Rightarrow> conversation_summary list" where
  "conversation_rows n st = conversations n None (length (cs_conversations st)) st"

definition summary_cursor :: "conversation_summary \<Rightarrow> time \<times> string" where
  "summary_cursor s = (su_last_message_at s, ck_contact (su_key s))"

definition summary_key :: "conversation_key \<times> summary \<Rightarrow> time \<times> string" where
  "summary_key e = (ss_last_message_at (snd e), ck_contact (fst e))"

definition summary_row :: "conversation_key \<times> summary \<Rightarrow> conversation_summary" where
  "summary_row e =
     \<lparr>su_key = fst e, su_last_message_at = ss_last_message_at (snd e),
      su_last_inbound_at = ss_last_inbound_at (snd e), su_last_text = ss_last_text (snd e),
      su_unread = ss_unread (snd e)\<rparr>"

definition inbox_entries :: "string \<Rightarrow> conv_state \<Rightarrow> (conversation_key \<times> summary) list" where
  "inbox_entries n st =
     sort_key summary_key (filter (\<lambda>e. ck_phone_number_id (fst e) = n) (cs_conversations st))"

lemma conversations_alt:
  "conversations n before limit st =
     take limit (filter (\<lambda>s. case before of None \<Rightarrow> True | Some c \<Rightarrow> summary_cursor s < c)
       (map summary_row (rev (inbox_entries n st))))"
proof -
  have row: "summary_cursor (summary_row e) = summary_key e" for e
    by (simp add: summary_cursor_def summary_row_def summary_key_def)
  have comp: "(\<lambda>s. case before of None \<Rightarrow> True | Some c \<Rightarrow> summary_cursor s < c) \<circ> summary_row
      = (\<lambda>e. case before of None \<Rightarrow> True | Some c \<Rightarrow> summary_key e < c)"
    by (rule ext) (simp add: row cong: option.case_cong)
  have parts: "(\<lambda>(k, s). (ss_last_message_at s, ck_contact k)) = summary_key"
    "(\<lambda>(k, s). ck_phone_number_id k = n) = (\<lambda>e :: conversation_key \<times> summary. ck_phone_number_id (fst e) = n)"
    "(\<lambda>(k, s). case before of None \<Rightarrow> True | Some c \<Rightarrow> (ss_last_message_at s, ck_contact k) < c)
      = (\<lambda>e. case before of None \<Rightarrow> True | Some c \<Rightarrow> summary_key e < c)"
    "(\<lambda>(k, s). \<lparr>su_key = k, su_last_message_at = ss_last_message_at s,
        su_last_inbound_at = ss_last_inbound_at s, su_last_text = ss_last_text s, su_unread = ss_unread s\<rparr>)
      = summary_row"
    by (auto simp: fun_eq_iff summary_key_def summary_row_def split: option.split)
  show ?thesis
    unfolding conversations_def Let_def inbox_entries_def parts filter_map comp
    by (simp add: filter_sort rev_filter[symmetric] take_map)
qed

lemma inbox_strict:
  assumes ok: "conv_ok st"
  shows "sorted_wrt (<) (map summary_key (inbox_entries n st))"
proof -
  have "distinct (map fst (cs_conversations st))"
    using conv_okD(2)[OF ok] by (simp add: summaries_ok_def keys_distinct_def)
  then have "distinct (map summary_key (filter (\<lambda>e. ck_phone_number_id (fst e) = n) (cs_conversations st)))"
    by (auto simp: distinct_map inj_on_def summary_key_def intro: conversation_key.equality)
  then have "distinct (map summary_key (inbox_entries n st))"
    by (simp add: inbox_entries_def distinct_map)
  moreover have "sorted (map summary_key (inbox_entries n st))"
    by (simp add: inbox_entries_def)
  ultimately show ?thesis by (simp add: strict_sorted_iff)
qed

lemma conversation_rows_alt: "conversation_rows n st = map summary_row (rev (inbox_entries n st))"
  by (simp add: conversation_rows_def conversations_alt inbox_entries_def)

interpretation inbox: paged conversation_rows conversations summary_cursor older conv_ok
proof (unfold_locales, goal_cases)
  case (1 s k before n)
  show ?case
    unfolding conversations_alt conversation_rows_alt by (simp add: older_def cong: option.case_cong)
next
  case (2 s k)
  have row: "summary_cursor (summary_row e) = summary_key e" for e
    by (simp add: summary_cursor_def summary_row_def summary_key_def)
  have "sorted_wrt (\<lambda>x y. y < x) (rev (map summary_key (inbox_entries k s)))"
    using inbox_strict[OF 2, of k] by (simp add: sorted_wrt_rev)
  then show ?case
    unfolding conversation_rows_alt rev_map sorted_wrt_map row older_def .
next
  case 3 then show ?case by (simp add: older_def)
qed

definition contact_rows :: "string \<Rightarrow> conv_state \<Rightarrow> stored_contact list" where
  "contact_rows n st = contacts n None (length (cs_contacts st)) st"

definition contact_cursor :: "stored_contact \<Rightarrow> string" where
  "contact_cursor c = ck_contact (ct_key c)"

text \<open>The keys of one number are together, in the order of the contacts.\<close>

lemma omap_range:
  fixes m :: "(string \<times> string, 'v) btreemap"
  assumes "omap_ok m" and lo: "\<And>k. Q k \<Longrightarrow> n \<le> fst k"
  shows "takeWhile (\<lambda>e. fst (fst e) = n) (filter (\<lambda>e. Q (fst e)) m)
    = filter (\<lambda>e. fst (fst e) = n \<and> Q (fst e)) m"
  using assms(1)
proof (induction m)
  case (Cons e m)
  show ?case
  proof (cases "Q (fst e) \<and> fst (fst e) \<noteq> n")
    case True
    then have "n < fst (fst e)" using lo[of "fst e"] by (auto simp: le_less)
    moreover have "fst (fst e) \<le> fst (fst x)" if "x \<in> set m" for x
      using Cons.prems that by (fastforce simp: omap_ok_Cons less_prod_def)
    ultimately have "filter (\<lambda>x. fst (fst x) = n \<and> Q (fst x)) m = []"
      by (fastforce simp: filter_empty_conv)
    then show ?thesis using True by simp
  next
    case False
    then show ?thesis using Cons by (auto simp: omap_ok_Cons)
  qed
qed simp

definition after_contact :: "string option \<Rightarrow> string \<Rightarrow> bool" where
  "after_contact after c \<longleftrightarrow> (case after of None \<Rightarrow> True | Some a \<Rightarrow> a < c)"

definition number_contacts :: "string \<Rightarrow> conv_state \<Rightarrow> ((string \<times> string) \<times> synced) list" where
  "number_contacts n st = filter (\<lambda>e. fst (fst e) = n) (cs_contacts st)"

lemma contacts_alt:
  assumes "conv_ok st"
  shows "contacts n after limit st =
    take limit (filter (\<lambda>c. after_contact after (contact_cursor c))
      (List.map_filter (\<lambda>e. synced_contact (snd e)) (number_contacts n st)))"
proof -
  have ok: "omap_ok (cs_contacts st)" and key: "\<And>k c. map_of (cs_contacts st) k = Some (Contact c) \<Longrightarrow>
      book_key (ct_key c) = k"
    using assms by (auto simp: conv_ok_def book_ok_def)
  define Q where "Q k = (case after of Some c \<Rightarrow> (n, c) < k | None \<Rightarrow> (n, []) \<le> k)" for k
  have lo: "n \<le> fst k" if "Q k" for k
    using that by (cases k) (auto simp: Q_def less_prod_def less_eq_prod_def split: option.splits)
  have here: "filter (\<lambda>e. Q (fst e) \<and> fst (fst e) = n) m
      = filter (\<lambda>e. after_contact after (snd (fst e)) \<and> fst (fst e) = n) m" for m
    by (rule filter_cong) (auto simp: Q_def after_contact_def split: option.splits)
  have "contacts n after limit st = take limit (List.map_filter (\<lambda>e. synced_contact (snd e))
      (filter (\<lambda>e. after_contact after (snd (fst e))) (number_contacts n st)))"
    using omap_range[OF ok, of Q n, OF lo]
    by (simp add: contacts_def Let_def case_prod_beta' number_contacts_def Q_def[symmetric] here
        conj_commute)
  moreover have cursors: "List.map_filter (\<lambda>e. synced_contact (snd e)) (filter (\<lambda>e. P (snd (fst e))) es)
      = filter (\<lambda>c. P (contact_cursor c)) (List.map_filter (\<lambda>e. synced_contact (snd e)) es)"
    if "set es \<subseteq> set (cs_contacts st)" for es P
    using that
  proof (induction es)
    case (Cons e es)
    have "map_of (cs_contacts st) (fst e) = Some (snd e)"
      using Cons.prems omap_keys_distinct[OF ok] by (cases e) (auto simp: keys_distinct_def)
    then have "snd e = Contact c \<Longrightarrow> contact_cursor c = snd (fst e)" for c
      using key[of "fst e" c] by (cases e) (auto simp: contact_cursor_def book_key_def)
    with Cons show ?case by (cases "snd e") (auto simp: List.map_filter_simps)
  qed (simp add: List.map_filter_simps)
  moreover have "set (number_contacts n st) \<subseteq> set (cs_contacts st)" by (auto simp: number_contacts_def)
  note cursors[OF this, of "after_contact after"]
  ultimately show ?thesis by simp
qed

lemma contact_order:
  assumes "conv_ok st"
  shows "sorted_wrt (\<lambda>c d. contact_cursor c < contact_cursor d)
    (List.map_filter (\<lambda>e. synced_contact (snd e)) (number_contacts n st))"
proof -
  have ok: "omap_ok (cs_contacts st)" and key: "\<And>k c. map_of (cs_contacts st) k = Some (Contact c) \<Longrightarrow>
      book_key (ct_key c) = k"
    using assms by (auto simp: conv_ok_def book_ok_def)
  have cur: "contact_cursor c = snd (fst e)" if "e \<in> set (cs_contacts st)" "snd e = Contact c" for e c
    using key[of "fst e" c] that omap_keys_distinct[OF ok]
    by (cases e) (auto simp: keys_distinct_def contact_cursor_def book_key_def)
  have "sorted_wrt (\<lambda>a b. fst a < fst b) (number_contacts n st)"
    using ok by (simp add: number_contacts_def omap_ok_def sorted_wrt_filter)
  moreover have "sorted_wrt (\<lambda>a b. fst a < fst b) es \<Longrightarrow>
      \<forall>e\<in>set es. e \<in> set (cs_contacts st) \<and> fst (fst e) = n \<Longrightarrow>
      sorted_wrt (\<lambda>c d. contact_cursor c < contact_cursor d)
        (List.map_filter (\<lambda>e. synced_contact (snd e)) es)" for es
  proof (induction es)
    case (Cons e es)
    have "contact_cursor c < contact_cursor d"
      if c: "snd e = Contact c" and d: "d \<in> set (List.map_filter (\<lambda>e. synced_contact (snd e)) es)" for c d
    proof -
      obtain x where x: "x \<in> set es" "snd x = Contact d"
        using d by (auto simp: List.map_filter_def elim: synced_contact.elims)
      then have "fst e < fst x" "fst (fst e) = fst (fst x)" using Cons.prems by auto
      then have "snd (fst e) < snd (fst x)" by (auto simp: less_prod_def)
      then show ?thesis using cur[of e c] cur[of x d] x c Cons.prems(2) by simp
    qed
    with Cons show ?case by (cases "snd e") (auto simp: List.map_filter_simps)
  qed (simp add: List.map_filter_simps)
  ultimately show ?thesis by (simp add: number_contacts_def)
qed

lemma contact_rows_alt:
  assumes "conv_ok st"
  shows "contact_rows n st = List.map_filter (\<lambda>e. synced_contact (snd e)) (number_contacts n st)"
proof -
  have "length (List.map_filter f xs) \<le> length xs" for f :: "'a \<Rightarrow> 'b option" and xs
    by (induction xs) (auto simp: List.map_filter_simps split: option.split)
  from this[of "\<lambda>e. synced_contact (snd e)" "number_contacts n st"]
  have "length (List.map_filter (\<lambda>e. synced_contact (snd e)) (number_contacts n st)) \<le> length (cs_contacts st)"
    by (metis length_filter_le number_contacts_def order.trans)
  then show ?thesis
    by (simp add: contact_rows_def contacts_alt[OF assms] after_contact_def)
qed

interpretation address_book: paged contact_rows contacts contact_cursor "(<)" conv_ok
proof (unfold_locales, goal_cases)
  case (1 s k before n)
  then show ?case
    by (simp add: contacts_alt[OF 1] contact_rows_alt[OF 1] after_contact_def cong: option.case_cong)
next
  case (2 s k)
  then show ?case using contact_order[OF 2, of k] by (simp add: contact_rows_alt[OF 2])
next
  case 3 then show ?case by simp
qed

end
