(* ===== verification/Conversation_Runs.thy ===== *)
theory Conversation_Runs
  imports Conversation_Paging
begin

text \<open>
  Runs of calls on the conversation store: one call refines its specification, so does a run, and
  what the readers return in terms of the stored messages.
\<close>

section \<open>Runs\<close>

lemma conv_step_refines:
  assumes "conv_ok st" and "call_ok c" and "conv_step mode c st = (r, st')"
  shows "conv_ok st' \<and> spec_step mode c (conv_abs st) = (r, conv_abs st')"
proof (cases c)
  case (Append m)
  with assms show ?thesis
    using conv_insert_refines[OF assms(1), of m True]
    by (cases "conv_append m st") (auto simp: conv_append_def)
next
  case (AppendSynced ms)
  with assms show ?thesis
    using append_synced_refines[OF assms(1), of ms] by (cases "append_synced ms st") auto
next
  case (Revoke k i d t)
  with assms show ?thesis using revoke_refines[OF assms(1)] by (cases "revoke k i d t st") auto
next
  case (FillMedia n i kind body p)
  with assms show ?thesis
    using fill_refines[OF assms(1), of kind] by (cases "fill_media_placeholder n i kind body p st") auto
next
  case (UpdateStatus n i s t e)
  with assms show ?thesis
    using update_status_refines[OF assms(1)] by (cases "update_status n i s t e st") auto
next
  case (MarkRead k)
  with assms show ?thesis using mark_read_refines[OF assms(1), of k] by auto
next
  case (RecordEvent e)
  with assms show ?thesis using record_event_refines[OF assms(1)] by (cases "record_window_event e st") auto
next
  case (SetOwner k w)
  with assms show ?thesis using set_owner_refines[OF assms(1)] by (cases "set_thread_owner k w st") auto
next
  case (PutContact c)
  with assms show ?thesis using put_contact_refines[OF assms(1)] by (cases "put_contact c st") auto
next
  case (RemoveContact k t)
  with assms show ?thesis using remove_contact_refines[OF assms(1)] by (cases "remove_contact k t st") auto
next
  case (LinkIdentity l)
  with assms show ?thesis using link_refines[OF assms(1)] by (cases "link_identity l st") auto
next
  case (EraseAll n ids)
  with assms show ?thesis using erase_refines[OF assms(1)] by (cases "erase_all mode n ids st") auto
next
  case (PurgeBefore n t)
  with assms show ?thesis using purge_refines[OF assms(1)] by (cases "purge_before n t st") auto
next
  case (Trim n keep)
  with assms show ?thesis using trim_refines[OF assms(1)] by (cases "trim_conversations n keep st") auto
qed

lemma conv_run_Cons:
  assumes "conv_run mode (c # cs) st = (rs, st')"
  obtains r st1 rs1 where "conv_step mode c st = (r, st1)" "conv_run mode cs st1 = (rs1, st')" "rs = r # rs1"
  using assms by (auto split: prod.splits)

lemma run_refines:
  assumes "conv_ok st" and "\<forall>c\<in>set calls. call_ok c" and "conv_run mode calls st = (rs, st')"
  shows "conv_ok st' \<and> spec_run mode calls (conv_abs st) = (rs, conv_abs st')"
  using assms
proof (induction calls arbitrary: st rs)
  case (Cons c calls)
  obtain r st1 rs1 where S: "conv_step mode c st = (r, st1)" "conv_run mode calls st1 = (rs1, st')" "rs = r # rs1"
    using Cons.prems(3) by (rule conv_run_Cons)
  have T: "conv_ok st1" "spec_step mode c (conv_abs st) = (r, conv_abs st1)"
    using conv_step_refines[OF Cons.prems(1) _ S(1)] Cons.prems(2) by auto
  have "conv_ok st' \<and> spec_run mode calls (conv_abs st1) = (rs1, conv_abs st')"
    using Cons.IH[OF T(1) _ S(2)] Cons.prems(2) by simp
  then show ?case using T S(3) by simp
qed simp

lemmas reached_ok = conjunct1[OF run_refines[OF conv_ok_empty]]

section \<open>Reading the stored messages\<close>

lemma history_rows_alt:
  assumes "conv_ok st"
  shows "history_rows k st =
    map (\<lambda>x. the (map_of (cs_messages st) (snd x))) (rev (idx (cs_history st) k))"
proof -
  note P = index_pages[OF oset_ok_idx[OF rows_okD(3)[OF conv_okD(1)[OF assms]]] message_row[OF assms, of _ k]]
  show ?thesis using P(3) by (simp add: messages_def history_rows_def)
qed

lemma history_rows_iff:
  assumes ok: "conv_ok st"
  shows "m \<in> set (history_rows k st) \<longleftrightarrow>
    map_of (cs_messages st) (sm_id m) = Some m \<and> sm_conversation m = k"
proof -
  note R = rows_okD[OF conv_okD(1)[OF ok]]
  have "m \<in> set (history_rows k st) \<longleftrightarrow>
      (\<exists>t i. (t, i) \<in> set (idx (cs_history st) k) \<and> m = the (map_of (cs_messages st) i))"
    by (force simp: history_rows_alt[OF ok])
  also have "\<dots> \<longleftrightarrow> (\<exists>i. map_of (cs_messages st) i = Some m \<and> sm_conversation m = k)"
    by (auto simp: R(6)) (metis option.sel)
  also have "\<dots> \<longleftrightarrow> map_of (cs_messages st) (sm_id m) = Some m \<and> sm_conversation m = k"
    using R(5) by auto
  finally show ?thesis .
qed

lemma event_rows_iff:
  assumes ok: "conv_ok st"
  shows "e \<in> set (event_rows k st) \<longleftrightarrow>
    map_of (cs_window_events st) (ck_phone_number_id k, we_id e) = Some e \<and> we_conversation e = k"
proof -
  note W = windows_okD[OF conv_okD(3)[OF ok]]
  note P = index_pages[OF oset_ok_idx[OF W(2)] event_row[OF ok, of _ k]]
  have "event_rows k st = map (\<lambda>x. the (map_of (cs_window_events st) (ck_phone_number_id k, snd x)))
      (rev (idx (cs_window_index st) k))"
    using P(3) by (simp add: window_events_def event_rows_def)
  then have "e \<in> set (event_rows k st) \<longleftrightarrow>
      (\<exists>t i. (t, i) \<in> set (idx (cs_window_index st) k)
        \<and> e = the (map_of (cs_window_events st) (ck_phone_number_id k, i)))"
    by force
  also have "\<dots> \<longleftrightarrow> (\<exists>i. map_of (cs_window_events st) (ck_phone_number_id k, i) = Some e \<and> we_conversation e = k)"
    by (auto simp: W(4)) (metis option.sel)
  also have "\<dots> \<longleftrightarrow> map_of (cs_window_events st) (ck_phone_number_id k, we_id e) = Some e \<and> we_conversation e = k"
    using W(3) by auto
  finally show ?thesis .
qed

lemma conversation_rows_iff:
  assumes "conv_ok st"
  shows "r \<in> set (conversation_rows n st) \<longleftrightarrow>
    (\<exists>k s. map_of (cs_conversations st) k = Some s \<and> ck_phone_number_id k = n \<and> r = summary_row (k, s))"
proof -
  have "keys_distinct (cs_conversations st)" using conv_okD(2)[OF assms] by (simp add: summaries_ok_def)
  then show ?thesis
    by (auto simp: conversation_rows_alt inbox_entries_def keys_distinct_def image_iff)
qed

lemma set_contacts_in:
  "set (List.map_filter (\<lambda>e. synced_contact (snd e)) es) = {c. \<exists>k. (k, Contact c) \<in> set es}"
proof (induction es)
  case (Cons e es)
  then show ?case by (cases e; cases "snd e") (auto simp: List.map_filter_simps)
qed (simp add: List.map_filter_simps)

lemma contact_rows_iff:
  assumes ok: "conv_ok st"
  shows "c \<in> set (contact_rows n st) \<longleftrightarrow>
    map_of (cs_contacts st) (n, ck_contact (ct_key c)) = Some (Contact c)
      \<and> ck_phone_number_id (ct_key c) = n"
proof -
  note B = book_okD[OF conv_okD(4)[OF ok]]
  have "c \<in> set (contact_rows n st) \<longleftrightarrow>
      (\<exists>w. map_of (cs_contacts st) (n, w) = Some (Contact c))"
    using omap_keys_distinct[OF B(2)]
    by (simp add: contact_rows_alt[OF ok] number_contacts_def keys_distinct_def set_contacts_in)
  also have "\<dots> \<longleftrightarrow> map_of (cs_contacts st) (n, ck_contact (ct_key c)) = Some (Contact c)
      \<and> ck_phone_number_id (ct_key c) = n"
    using B(4) by (auto simp: book_key_def)
  finally show ?thesis .
qed

text \<open>A strictly ordered list with the same members is the same list.\<close>

lemma ordered_list_unique:
  assumes "sorted_wrt R xs" "sorted_wrt R ys" "set xs = set ys" and asym: "\<And>x y. R x y \<Longrightarrow> \<not> R y x"
  shows "xs = ys"
  using assms(1-3)
proof (induction xs arbitrary: ys)
  case (Cons x xs)
  then obtain y ys' where ys: "ys = y # ys'" by (cases ys) auto
  have "x = y"
  proof (rule ccontr)
    assume "x \<noteq> y"
    then have "x \<in> set ys'" "y \<in> set xs" using Cons.prems(3) by (auto simp: ys)
    then show False using Cons.prems(1,2) asym[of x y] by (simp add: ys)
  qed
  moreover have "x \<notin> set xs" using Cons.prems(1) asym[of x x] by auto
  moreover have "y \<notin> set ys'" using Cons.prems(2) asym[of y y] by (auto simp: ys)
  moreover have "set xs = set ys'" using calculation Cons.prems(3) by (auto simp: ys)
  ultimately show ?case using Cons.IH[of ys'] Cons.prems by (simp add: ys)
qed simp

lemma history_rows_eq:
  assumes "conv_ok st" "conv_ok st'" "sorted_wrt (\<lambda>x y. older (message_cursor x) (message_cursor y)) ms"
    "set (history_rows k st') = set ms"
  shows "history_rows k st' = ms"
  by (rule ordered_list_unique[OF history.ordered[OF assms(2)] assms(3,4)]) (auto simp: older_def)

end
