(* ===== verification/Conversation_Effects.thy ===== *)
theory Conversation_Effects
  imports Conversation_Runs
begin

text \<open>
  What calls do to the conversation store, read off its specification: a message follows its former
  self, a window the live inbound messages, and an erasure, a purge or a trim leaves the messages
  and the rows it should.
\<close>

section \<open>What the properties speak of\<close>

text \<open>The calls that delete no message.\<close>

fun keeps_rows :: "conv_call \<Rightarrow> bool" where
  "keeps_rows (EraseAll _ _) \<longleftrightarrow> False"
| "keeps_rows (PurgeBefore _ _) \<longleftrightarrow> False"
| "keeps_rows (Trim _ _) \<longleftrightarrow> False"
| "keeps_rows _ \<longleftrightarrow> True"

text \<open>A message as it may have become: the same message, its status the same or of a higher rank.\<close>

definition follows :: "stored_message \<Rightarrow> stored_message \<Rightarrow> bool" where
  "follows m m' \<longleftrightarrow>
     sm_id m' = sm_id m \<and> sm_conversation m' = sm_conversation m \<and> sm_direction m' = sm_direction m
     \<and> sm_timestamp m' = sm_timestamp m
     \<and> (sm_status m' = sm_status m \<or> status_rank (sm_status m) < status_rank (sm_status m'))"

text \<open>Two identities of one number that an address book entry or a link names together.\<close>

definition same_person :: "string \<Rightarrow> conv_state \<Rightarrow> string \<Rightarrow> string \<Rightarrow> bool" where
  "same_person n st a b \<longleftrightarrow>
     (\<exists>w c. map_of (cs_contacts st) (n, w) = Some (Contact c)
            \<and> {a, b} \<subseteq> set (w # List.map_filter id [ct_user_id c, ct_parent_user_id c, ct_phone_number c]))
     \<or> (\<exists>p q t. map_of (cs_links st) (n, p, q) = Some t \<and> {a, b} \<subseteq> {p, q})"

text \<open>The instant of a live inbound message of \<open>k\<close> the store accepted.\<close>

fun accepted_inbound :: "conversation_key \<Rightarrow> conv_call \<times> conv_reply \<Rightarrow> time option" where
  "accepted_inbound k (Append m, Flag True) =
     (if sm_direction m = Inbound \<and> sm_conversation m = k then Some (sm_timestamp m) else None)"
| "accepted_inbound k _ = None"

definition inbound_times :: "conversation_key \<Rightarrow> conv_call list \<Rightarrow> conv_reply list \<Rightarrow> time list" where
  "inbound_times k calls rs = List.map_filter (accepted_inbound k) (zip calls rs)"

definition count_unread :: "conversation_key \<Rightarrow> conv_call \<times> conv_reply \<Rightarrow> nat \<Rightarrow> nat" where
  "count_unread k cr u =
     (if fst cr = MarkRead k then 0 else if accepted_inbound k cr \<noteq> None then u + 1 else u)"

section \<open>Runs of the specification\<close>

lemma follows_refl [simp, intro]: "follows m m"
  by (simp add: follows_def)

lemma follows_trans: "follows a b \<Longrightarrow> follows b c \<Longrightarrow> follows a c"
  by (auto simp: follows_def)

lemma spec_insert_keeps:
  "spec_insert m l s = (r, s') \<Longrightarrow> sp_messages s i = Some x \<Longrightarrow> sp_messages s' i = Some x"
  by (auto simp: spec_insert_def Let_def split: if_splits prod.splits)

lemma spec_insert_synced_keeps:
  "spec_insert_synced ms s = (rs, s') \<Longrightarrow> sp_messages s i = Some x \<Longrightarrow> sp_messages s' i = Some x"
  by (induction ms arbitrary: s rs) (auto split: prod.splits dest: spec_insert_keeps)

lemma spec_step_follows:
  assumes "spec_step mode c s = (r, s')" "keeps_rows c" "sp_messages s i = Some m"
  shows "\<exists>m'. sp_messages s' i = Some m' \<and> follows m m'"
proof (cases c)
  case (Append x)
  then show ?thesis using assms spec_insert_keeps[of x True s "fst (spec_insert x True s)" s' i m]
    by (cases "spec_insert x True s") auto
next
  case (AppendSynced xs)
  then show ?thesis using assms spec_insert_synced_keeps[of xs s "fst (spec_insert_synced xs s)" s' i m]
    by (cases "spec_insert_synced xs s") auto
next
  case (Revoke k j d t)
  then show ?thesis using assms
    by (auto simp: spec_revoke_def follows_def supersedes_def split: option.splits if_splits)
next
  case (FillMedia n j kind body p)
  then show ?thesis using assms
    by (auto simp: spec_fill_def follows_def split: option.splits if_splits)
next
  case (UpdateStatus n j st t e)
  then show ?thesis using assms
    by (auto simp: spec_status_def follows_def supersedes_def split: option.splits if_splits)
next
  case (MarkRead k)
  then show ?thesis using assms by (auto simp: spec_mark_read_def)
next
  case (RecordEvent e)
  then show ?thesis using assms by (auto simp: spec_event_def Let_def split: if_splits)
next
  case (SetOwner k w)
  then show ?thesis using assms by (auto simp: spec_owner_def split: if_splits)
next
  case (PutContact k)
  then show ?thesis using assms by (auto simp: spec_put_contact_def Let_def split: if_splits)
next
  case (RemoveContact k t)
  then show ?thesis using assms by (auto simp: spec_remove_contact_def Let_def split: if_splits)
next
  case (LinkIdentity l)
  then show ?thesis using assms by (auto simp: spec_link_def Let_def split: if_splits)
qed (use assms in simp_all)


lemma spec_run_follows:
  assumes "spec_run mode calls s = (rs, s')" "\<forall>c\<in>set calls. keeps_rows c" "sp_messages s i = Some m"
  shows "\<exists>m'. sp_messages s' i = Some m' \<and> follows m m'"
  using assms
proof (induction calls arbitrary: s rs m)
  case (Cons c calls)
  obtain r s1 rs1 where S: "spec_step mode c s = (r, s1)" "spec_run mode calls s1 = (rs1, s')"
    using Cons.prems(1) by (auto split: prod.splits)
  obtain m1 where m1: "sp_messages s1 i = Some m1" "follows m m1"
    using spec_step_follows[OF S(1) _ Cons.prems(3)] Cons.prems(2) by auto
  then show ?case using Cons.IH[OF S(2) _ m1(1)] Cons.prems(2) follows_trans by auto
qed auto

text \<open>A conversation's window and unread count; an unknown conversation has neither.\<close>

definition window_at :: "conversation_key \<Rightarrow> conv_spec \<Rightarrow> time option \<times> nat" where
  "window_at k s = (case sp_window s k of None \<Rightarrow> (None, 0) | Some w \<Rightarrow> w)"

definition latest_inbound :: "time option \<Rightarrow> time list \<Rightarrow> time option" where
  "latest_inbound t xs = fold (\<lambda>x t. Some (case t of None \<Rightarrow> x | Some y \<Rightarrow> max y x)) xs t"

lemma latest_inbound_Max: "latest_inbound None xs = (if xs = [] then None else Some (Max (set xs)))"
proof -
  have started: "latest_inbound (Some y) xs = Some (Max (insert y (set xs)))" for y xs
  proof (induction xs arbitrary: y)
    case (Cons x xs)
    have "Max (insert (max y x) (set xs)) = Max (insert y (insert x (set xs)))"
      by (cases "xs = []") (auto simp: max.assoc)
    with Cons[of "max y x"] show ?case by (simp add: latest_inbound_def)
  qed (simp add: latest_inbound_def)
  have "latest_inbound None (x # ys) = latest_inbound (Some x) ys" for x ys
    by (simp add: latest_inbound_def)
  then show ?thesis using started by (cases xs) (simp_all add: latest_inbound_def[of None "[]"])
qed

lemma window_insert:
  assumes "spec_insert m l s = (r, s')"
  shows "window_at k s' =
    (if r \<and> l \<and> sm_direction m = Inbound \<and> sm_conversation m = k
     then (latest_inbound (fst (window_at k s)) [sm_timestamp m], snd (window_at k s) + 1)
     else window_at k s)"
  using assms
  by (auto simp: spec_insert_def window_at_def latest_inbound_def Let_def split: option.splits if_splits prod.splits)

lemma window_insert_synced: "spec_insert_synced ms s = (rs, s') \<Longrightarrow> window_at k s' = window_at k s"
  by (induction ms arbitrary: s rs) (auto split: prod.splits dest: window_insert[where k = k])

lemma window_step:
  assumes "spec_step mode c s = (r, s')" "keeps_rows c"
  shows "window_at k s' = (latest_inbound (fst (window_at k s)) (List.map_filter (accepted_inbound k) [(c, r)]),
    count_unread k (c, r) (snd (window_at k s)))"
proof (cases c)
  case (Append x)
  then show ?thesis using assms window_insert[of x True s "fst (spec_insert x True s)" s' k]
    by (cases "spec_insert x True s"; cases "fst (spec_insert x True s)")
      (auto simp: count_unread_def latest_inbound_def List.map_filter_simps)
next
  case (AppendSynced xs)
  then show ?thesis using assms window_insert_synced[of xs s "fst (spec_insert_synced xs s)" s' k]
    by (cases "spec_insert_synced xs s") (auto simp: count_unread_def latest_inbound_def List.map_filter_simps)
next
  case (Revoke j i d t)
  then show ?thesis using assms
    by (auto simp: spec_revoke_def window_at_def count_unread_def latest_inbound_def List.map_filter_simps
        split: option.splits if_splits)
next
  case (FillMedia n j kind body p)
  then show ?thesis using assms
    by (auto simp: spec_fill_def window_at_def count_unread_def latest_inbound_def List.map_filter_simps
        split: option.splits if_splits)
next
  case (UpdateStatus n j st t e)
  then show ?thesis using assms
    by (auto simp: spec_status_def window_at_def count_unread_def latest_inbound_def List.map_filter_simps
        split: option.splits if_splits)
next
  case (MarkRead j)
  then show ?thesis using assms
    by (cases "j = k"; cases "sp_window s k") (auto simp: spec_mark_read_def window_at_def count_unread_def
        latest_inbound_def List.map_filter_simps)
qed (use assms in \<open>auto simp: spec_event_def spec_owner_def spec_put_contact_def spec_remove_contact_def
  spec_link_def Let_def window_at_def count_unread_def latest_inbound_def List.map_filter_simps
  split: if_splits\<close>)

lemma window_run:
  assumes "spec_run mode calls s = (rs, s')" "\<forall>c\<in>set calls. keeps_rows c"
  shows "window_at k s' = (latest_inbound (fst (window_at k s)) (inbound_times k calls rs),
    fold (count_unread k) (zip calls rs) (snd (window_at k s)))"
  using assms
proof (induction calls arbitrary: s rs)
  case (Cons c calls)
  obtain r s1 rs1 where S: "spec_step mode c s = (r, s1)" "spec_run mode calls s1 = (rs1, s')" "rs = r # rs1"
    using Cons.prems(1) by (auto split: prod.splits)
  have "window_at k s1 = (latest_inbound (fst (window_at k s)) (List.map_filter (accepted_inbound k) [(c, r)]),
      count_unread k (c, r) (snd (window_at k s)))"
    using window_step[OF S(1)] Cons.prems(2) by simp
  with Cons.IH[OF S(2)] Cons.prems(2) show ?case
    by (auto simp: S(3) inbound_times_def latest_inbound_def List.map_filter_simps split: option.splits)
qed (auto simp: inbound_times_def latest_inbound_def List.map_filter_simps)

section \<open>What each bulk call leaves\<close>

lemma erase_messages:
  assumes "conv_ok st" and "erase_all mode number persons st = (er, st')"
  shows "map_of (cs_messages st') i = (case map_of (cs_messages st) i of
      None \<Rightarrow> None
    | Some m \<Rightarrow>
        if own_key number (set persons) (sm_conversation m) then None
        else if sent_by number (set persons) (map_of (cs_sender_of st)) i m
        then (if mode = Delete then None else Some (redact m)) else Some m)"
proof -
  have "sp_messages (snd (spec_erase mode number (set persons) (conv_abs st))) = sp_messages (conv_abs st')"
    using erase_refines[OF assms] by simp
  then have "map_of (cs_messages st') i = sp_messages (snd (spec_erase mode number (set persons) (conv_abs st))) i"
    by (simp add: conv_abs_def)
  then show ?thesis
    by (cases "map_of (cs_messages st) i") (auto simp: spec_erase_def Let_def conv_abs_def)
qed

lemma erase_rest:
  assumes "conv_ok st" and "erase_all mode number persons st = (er, st')"
  shows "map_of (cs_window_events st') = keep_map (\<lambda>_ e. \<not> own_key number (set persons) (we_conversation e)) (map_of (cs_window_events st))"
    "map_of (cs_owners st') = keep_map (\<lambda>k _. \<not> own_key number (set persons) k) (map_of (cs_owners st))"
    "map_of (cs_contacts st') = keep_map (\<lambda>k v. \<not> erased_contact number (set persons) k v) (map_of (cs_contacts st))"
    "map_of (cs_links st') = keep_map (\<lambda>k _. \<not> erased_link number (set persons) k) (map_of (cs_links st))"
proof -
  have "conv_abs st' = snd (spec_erase mode number (set persons) (conv_abs st))"
    using erase_refines[OF assms] by simp
  then have E: "sp_events (conv_abs st') = sp_events (snd (spec_erase mode number (set persons) (conv_abs st)))"
    "sp_owners (conv_abs st') = sp_owners (snd (spec_erase mode number (set persons) (conv_abs st)))"
    "sp_contacts (conv_abs st') = sp_contacts (snd (spec_erase mode number (set persons) (conv_abs st)))"
    "sp_links (conv_abs st') = sp_links (snd (spec_erase mode number (set persons) (conv_abs st)))"
    by simp_all
  show "map_of (cs_window_events st') = keep_map (\<lambda>_ e. \<not> own_key number (set persons) (we_conversation e)) (map_of (cs_window_events st))"
    using E(1) by (simp add: spec_erase_def Let_def conv_abs_def)
  show "map_of (cs_owners st') = keep_map (\<lambda>k _. \<not> own_key number (set persons) k) (map_of (cs_owners st))"
    using E(2) by (simp add: spec_erase_def Let_def conv_abs_def)
  show "map_of (cs_contacts st') = keep_map (\<lambda>k v. \<not> erased_contact number (set persons) k v) (map_of (cs_contacts st))"
    using E(3) by (simp add: spec_erase_def Let_def conv_abs_def)
  show "map_of (cs_links st') = keep_map (\<lambda>k _. \<not> erased_link number (set persons) k) (map_of (cs_links st))"
    using E(4) by (simp add: spec_erase_def Let_def conv_abs_def)
qed

lemma purge_keeps:
  assumes "conv_ok st" and "purge_before number cutoff st = (pu, st')"
  shows "map_of (cs_messages st') = keep_map (\<lambda>_ m. \<not> (in_scope number (sm_conversation m) \<and> sm_timestamp m < cutoff)) (map_of (cs_messages st))"
    "map_of (cs_window_events st') = keep_map (\<lambda>_ e. \<not> (in_scope number (we_conversation e) \<and> we_at e < cutoff)) (map_of (cs_window_events st))"
proof -
  have "conv_abs st' = snd (spec_purge number cutoff (conv_abs st))"
    using purge_refines[OF assms] by simp
  then have E: "sp_messages (conv_abs st') = sp_messages (snd (spec_purge number cutoff (conv_abs st)))"
    "sp_events (conv_abs st') = sp_events (snd (spec_purge number cutoff (conv_abs st)))" by simp_all
  show "map_of (cs_messages st') = keep_map (\<lambda>_ m. \<not> (in_scope number (sm_conversation m) \<and> sm_timestamp m < cutoff)) (map_of (cs_messages st))"
    using E(1) by (simp add: spec_purge_def spec_drop_messages_def Let_def conv_abs_def)
  show "map_of (cs_window_events st') = keep_map (\<lambda>_ e. \<not> (in_scope number (we_conversation e) \<and> we_at e < cutoff)) (map_of (cs_window_events st))"
    using E(2) by (simp add: spec_purge_def spec_drop_messages_def Let_def conv_abs_def)
qed

lemma trim_keeps:
  assumes "conv_ok st" and "trim_conversations number n st = (pu, st')"
  shows "map_of (cs_messages st') = keep_map (\<lambda>i m. in_scope number (sm_conversation m) \<longrightarrow>
      card (newer_rows (map_of (cs_messages st)) i m) < n) (map_of (cs_messages st))"
    "map_of (cs_window_events st') = map_of (cs_window_events st)"
proof -
  have "conv_abs st' = snd (spec_trim number n (conv_abs st))"
    using trim_refines[OF assms] by simp
  then have E: "sp_messages (conv_abs st') = sp_messages (snd (spec_trim number n (conv_abs st)))"
    "sp_events (conv_abs st') = sp_events (snd (spec_trim number n (conv_abs st)))" by simp_all
  show "map_of (cs_messages st') = keep_map (\<lambda>i m. in_scope number (sm_conversation m) \<longrightarrow>
      card (newer_rows (map_of (cs_messages st)) i m) < n) (map_of (cs_messages st))"
    using E(1) by (simp add: spec_trim_def spec_drop_messages_def Let_def conv_abs_def)
  show "map_of (cs_window_events st') = map_of (cs_window_events st)"
    using E(2) by (simp add: spec_trim_def spec_drop_messages_def Let_def conv_abs_def)
qed

section \<open>Histories after a purge or a trim\<close>

lemma take_newest:
  fixes f :: "'a \<Rightarrow> 'c::linorder"
  assumes "sorted_wrt (\<lambda>x y. f y < f x) xs"
  shows "take n xs = filter (\<lambda>x. card {c \<in> f ` set xs. f x < c} < n) xs"
  using assms
proof (induction xs rule: rev_induct)
  case (snoc x xs)
  have below: "\<forall>y\<in>set xs. f x < f y" and ord: "sorted_wrt (\<lambda>x y. f y < f x) xs"
    using snoc.prems by (auto simp: sorted_wrt_append)
  have "distinct (map f xs)"
    using ord by (induction xs) auto
  then have "card (f ` set xs) = length xs" by (metis distinct_card length_map set_map)
  moreover have "{c \<in> f ` set (xs @ [x]). f x < c} = f ` set xs" using below by auto
  ultimately have last: "card {c \<in> f ` set (xs @ [x]). f x < c} = length xs" by simp
  have same: "{c \<in> f ` set (xs @ [x]). f y < c} = {c \<in> f ` set xs. f y < c}" if "y \<in> set xs" for y
    using below that by (auto dest: order.asym)
  have "filter (\<lambda>y. card {c \<in> f ` set (xs @ [x]). f y < c} < n) xs
      = filter (\<lambda>y. card {c \<in> f ` set xs. f y < c} < n) xs"
    by (rule filter_cong) (simp_all only: same)
  then show ?case
    using snoc.IH[OF ord] last by (auto simp del: set_append)
qed simp

lemma newer_rows_history:
  assumes ok: "conv_ok st" and m: "m \<in> set (history_rows k st)"
  shows "newer_rows (map_of (cs_messages st)) (sm_id m) m
    = {c \<in> message_cursor ` set (history_rows k st). message_cursor m < c}"
proof -
  note R = rows_okD[OF conv_okD(1)[OF ok]]
  have k: "sm_conversation m = k" using m by (simp add: history_rows_iff[OF ok])
  show ?thesis
  proof (intro equalityI subsetI)
    fix c assume "c \<in> newer_rows (map_of (cs_messages st)) (sm_id m) m"
    then obtain t j m' where c: "c = (t, j)" "(sm_timestamp m, sm_id m) < (t, j)"
        "map_of (cs_messages st) j = Some m'" "sm_conversation m' = k" "sm_timestamp m' = t"
      by (auto simp: newer_rows_def k simp del: less_prod_simp)
    then have "m' \<in> set (history_rows k st)" "c = message_cursor m'"
      using R(5)[of j m'] by (auto simp: history_rows_iff[OF ok] message_cursor_def)
    then show "c \<in> {c \<in> message_cursor ` set (history_rows k st). message_cursor m < c}"
      using c(1,2) by (auto simp: message_cursor_def[of m] simp del: less_prod_simp)
  qed (auto simp: newer_rows_def k message_cursor_def history_rows_iff[OF ok] simp del: less_prod_simp)
qed

lemma history_filtered:
  assumes ok: "conv_ok st" and ok': "conv_ok st'"
    and keep: "map_of (cs_messages st') = keep_map (\<lambda>_. P) (map_of (cs_messages st))"
  shows "history_rows k st' = filter P (history_rows k st)"
proof (rule history_rows_eq[OF ok ok'])
  show "sorted_wrt (\<lambda>x y. older (message_cursor x) (message_cursor y)) (filter P (history_rows k st))"
    by (rule sorted_wrt_filter[OF history.ordered[OF ok]])
  show "set (history_rows k st') = set (filter P (history_rows k st))"
    by (auto simp: history_rows_iff[OF ok] history_rows_iff[OF ok'] keep keep_map_def split: option.splits if_splits)
qed

lemma events_filtered:
  assumes ok: "conv_ok st" and ok': "conv_ok st'"
    and keep: "map_of (cs_window_events st') = keep_map (\<lambda>_. P) (map_of (cs_window_events st))"
  shows "event_rows k st' = filter P (event_rows k st)"
proof (rule ordered_list_unique[OF events.ordered[OF ok']])
  show "sorted_wrt (\<lambda>x y. older (event_cursor x) (event_cursor y)) (filter P (event_rows k st))"
    by (rule sorted_wrt_filter[OF events.ordered[OF ok]])
  show "set (event_rows k st') = set (filter P (event_rows k st))"
    by (auto simp: event_rows_iff[OF ok] event_rows_iff[OF ok'] keep keep_map_def split: option.splits if_splits)
qed (auto simp: older_def)

lemma history_trimmed:
  assumes ok: "conv_ok st" and ok': "conv_ok st'" and run: "trim_conversations number n st = (pu, st')"
  shows "history_rows k st' = (if in_scope number k then take n (history_rows k st) else history_rows k st)"
    (is "_ = ?rows")
proof (rule history_rows_eq[OF ok ok'])
  note ord = history.ordered[OF ok, of k]
  show "sorted_wrt (\<lambda>x y. older (message_cursor x) (message_cursor y)) ?rows"
    using ord by (simp add: sorted_wrt_take)
  have "m \<in> set (history_rows k st') \<longleftrightarrow> m \<in> set ?rows" for m
  proof (cases "m \<in> set (history_rows k st)")
    case True
    then have "map_of (cs_messages st) (sm_id m) = Some m" "sm_conversation m = k"
      by (simp_all add: history_rows_iff[OF ok])
    then show ?thesis
      using True newer_rows_history[OF ok True] take_newest[of message_cursor "history_rows k st" n] ord
      by (simp add: history_rows_iff[OF ok'] trim_keeps[OF ok run] keep_map_def older_def)
  next
    case False
    then show ?thesis
      by (auto simp: history_rows_iff[OF ok'] trim_keeps[OF ok run] keep_map_def history_rows_iff[OF ok]
          split: option.splits if_splits dest: in_set_takeD)
  qed
  then show "set (history_rows k st') = set ?rows" by blast
qed

section \<open>Identities\<close>

text \<open>One round of the search keeps its two sets: found or expanded, and still to expand.\<close>

lemma absorb_sets:
  assumes "absorb others (found, todo) = (found', todo')"
  shows "set found' = set found \<union> (set others - {[]}) \<and>
    set todo' = set todo \<union> (set others - {[]} - set found)"
  using assms
proof (induction others arbitrary: found todo)
  case (Cons x xs)
  show ?case
  proof (cases "x \<noteq> [] \<and> x \<notin> set found")
    case True
    then have "absorb xs (oset_insert x found, todo @ [x]) = (found', todo')" using Cons.prems by simp
    from Cons.IH[OF this] True show ?thesis by auto
  next
    case False
    then have "absorb xs (found, todo) = (found', todo')" using Cons.prems by auto
    from Cons.IH[OF this] False show ?thesis by auto
  qed
qed auto

definition linked :: "string \<Rightarrow> conv_state \<Rightarrow> (string \<times> string) set" where
  "linked n st = {(a, b). a \<noteq> [] \<and> b \<noteq> [] \<and> b \<in> set (connected n a st)}"

lemma linked_Nil [simp]: "([], b) \<notin> linked n st"
  by (simp add: linked_def)

lemma identities_from_closure:
  assumes "set todo \<subseteq> set found" "start \<in> set found"
    and "set found \<subseteq> (linked n st)\<^sup>* `` {start}"
    and "\<forall>a\<in>set found - set todo. linked n st `` {a} \<subseteq> set found"
  shows "set (identities_from n st found todo) = (linked n st)\<^sup>* `` {start}"
  using assms
proof (induction n st found todo rule: identities_from.induct)
  case (1 n st found todo)
  show ?case
  proof (cases "todo = []")
    case True
    have "b \<in> set found" if "(start, b) \<in> (linked n st)\<^sup>*" for b
      using that by (induction rule: rtrancl_induct) (use 1(4,6) True in auto)
    then show ?thesis using 1(5) True by (subst identities_from.simps) auto
  next
    case False
    then have todo: "todo = butlast todo @ [last todo]" by simp
    then have sub: "set todo = insert (last todo) (set (butlast todo))"
      by (metis list.simps(15) rotate1.simps(2) set_rotate1)
    show ?thesis
    proof (cases "last todo = []")
      case empty: True
      have "linked n st `` {[]} = {}" by auto
      then show ?thesis
        using 1(1)[OF False HOL.refl HOL.refl empty] 1(3-) sub empty
        by (subst identities_from.simps) (auto simp: False Let_def)
    next
      case nonempty: False
      obtain found' todo' where ab: "absorb (connected n (last todo) st) (found, butlast todo) = (found', todo')"
        by fastforce
      note S = absorb_sets[OF ab]
      have step: "linked n st `` {last todo} = set (connected n (last todo) st) - {[]}"
        using nonempty by (auto simp: linked_def)
      have "last todo \<in> (linked n st)\<^sup>* `` {start}" using 1(3,5) sub by auto
      then have reach: "set found' \<subseteq> (linked n st)\<^sup>* `` {start}"
        using 1(5) S step by (auto intro: rtrancl_into_rtrancl)
      have "set (identities_from n st found' todo') = (linked n st)\<^sup>* `` {start}"
      proof (rule 1(2)[OF False HOL.refl HOL.refl nonempty ab[symmetric] HOL.refl _ _ reach])
        show "set todo' \<subseteq> set found'" using S 1(3) sub by auto
        show "start \<in> set found'" using S 1(4) by auto
        show "\<forall>a\<in>set found' - set todo'. linked n st `` {a} \<subseteq> set found'"
          using S 1(6) sub step by auto
      qed
      then show ?thesis
        by (subst identities_from.simps) (simp add: False nonempty Let_def ab)
    qed
  qed
qed

end
