(* ===== verification/Conversation_Readers.thy ===== *)
theory Conversation_Readers
  imports Conversation_Effects
begin

text \<open>
  What the readers return in a well formed store: the inbox in terms of the histories, a history
  and an address book in terms of single reads, and what an erased person's readers find.
\<close>

section \<open>The inbox\<close>

lemma inbox_distinct:
  assumes ok: "conv_ok st"
  shows "distinct (map su_key (conversation_rows n st))"
proof -
  have "distinct (map fst (filter (\<lambda>e. ck_phone_number_id (fst e) = n) (cs_conversations st)))"
    using conv_okD(2)[OF ok] by (auto simp: summaries_ok_def keys_distinct_def distinct_map inj_on_def)
  then have "distinct (map fst (inbox_entries n st))"
    by (simp add: inbox_entries_def distinct_map)
  moreover have "map su_key (conversation_rows n st) = rev (map fst (inbox_entries n st))"
    by (simp add: conversation_rows_alt rev_map summary_row_def comp_def)
  ultimately show ?thesis by simp
qed

lemma listed_history:
  assumes "conv_ok st"
  shows "(\<exists>i. listed (map_of (cs_messages st)) k i m) \<longleftrightarrow> m \<in> set (history_rows k st) \<and> sm_kind m \<noteq> REVOKED"
  using rows_okD(5)[OF conv_okD(1)[OF assms]] by (auto simp: listed_def history_rows_iff[OF assms])

lemma su_key_row [simp]: "su_key (summary_row e) = fst e"
  by (simp add: summary_row_def)

lemma inbox_key:
  assumes "conv_ok st"
  shows "k \<in> su_key ` set (conversation_rows n st) \<longleftrightarrow>
    ck_phone_number_id k = n \<and> map_of (cs_conversations st) k \<noteq> None"
proof
  assume "ck_phone_number_id k = n \<and> map_of (cs_conversations st) k \<noteq> None"
  then obtain s where "summary_row (k, s) \<in> set (conversation_rows n st)"
    by (auto simp: conversation_rows_iff[OF assms])
  then show "k \<in> su_key ` set (conversation_rows n st)" by (rule rev_image_eqI) simp
qed (auto simp: conversation_rows_iff[OF assms])

lemma inbox_keys:
  assumes ok: "conv_ok st"
  shows "k \<in> su_key ` set (conversation_rows n st) \<longleftrightarrow>
    ck_phone_number_id k = n \<and> (\<exists>m\<in>set (history_rows k st). sm_kind m \<noteq> REVOKED)"
proof -
  have "thread_ok (map_of (cs_messages st)) k (map_of (cs_conversations st) k)"
    using conv_okD(2)[OF ok] by (simp add: summaries_ok_def)
  then have "map_of (cs_conversations st) k \<noteq> None \<longleftrightarrow> (\<exists>i m. listed (map_of (cs_messages st)) k i m)"
    by (auto simp: thread_ok_def summarises_def split: option.splits)
  moreover have "(\<exists>i m. listed (map_of (cs_messages st)) k i m) \<longleftrightarrow>
      (\<exists>m\<in>set (history_rows k st). sm_kind m \<noteq> REVOKED)"
    by (subst ex_comm) (auto simp: listed_history[OF ok])
  ultimately show ?thesis by (simp add: inbox_key[OF ok])
qed

lemma inbox_latest:
  assumes ok: "conv_ok st" and r: "r \<in> set (conversation_rows n st)"
  shows "\<exists>m ms. filter (\<lambda>m. sm_kind m \<noteq> REVOKED) (history_rows (su_key r) st) = m # ms
    \<and> su_last_message_at r = sm_timestamp m \<and> su_last_text r = sm_text m"
proof -
  obtain k s where s: "map_of (cs_conversations st) k = Some s" "r = summary_row (k, s)"
    using r by (auto simp: conversation_rows_iff[OF ok])
  have "summarises (map_of (cs_messages st)) k s"
    using conv_okD(2)[OF ok] s(1) by (metis summaries_ok_def thread_ok_Some)
  then obtain m where m: "listed (map_of (cs_messages st)) k (ss_last_message_id s) m"
      "sm_timestamp m = ss_last_message_at s" "sm_text m = ss_last_text s"
    and top: "\<And>i x. listed (map_of (cs_messages st)) k i x \<Longrightarrow>
      (sm_timestamp x, i) \<le> (ss_last_message_at s, ss_last_message_id s)"
    by (auto simp: summarises_def simp del: less_eq_prod_simp)
  let ?ms = "filter (\<lambda>m. sm_kind m \<noteq> REVOKED) (history_rows k st)"
  have id: "sm_id x = i" if "listed (map_of (cs_messages st)) k i x" for i x
    using that rows_okD(5)[OF conv_okD(1)[OF ok]] by (auto simp: listed_def)
  have mem: "m \<in> set ?ms" using m(1) listed_history[OF ok] by auto
  then obtain x xs where xs: "?ms = x # xs" by (cases ?ms) auto
  have "x \<in> set ?ms" by (simp add: xs)
  then obtain i where i: "listed (map_of (cs_messages st)) k i x" using listed_history[OF ok] by auto
  have "message_cursor x \<le> message_cursor m"
    using top[OF i] id[OF i] id[OF m(1)] m(2) by (simp add: message_cursor_def del: less_eq_prod_simp)
  moreover have "sorted_wrt (\<lambda>x y. older (message_cursor x) (message_cursor y)) ?ms"
    by (rule sorted_wrt_filter[OF history.ordered[OF ok]])
  then have "m = x \<or> message_cursor m < message_cursor x" using mem by (auto simp: xs older_def)
  ultimately have "m = x" by auto
  then show ?thesis using xs m by (auto simp: s(2) summary_row_def)
qed

section \<open>Single reads\<close>

lemma history_reader:
  assumes ok: "conv_ok st"
  shows "m \<in> set (history_rows k st) \<longleftrightarrow>
    message (ck_phone_number_id k) (sm_id m) st = Some m \<and> sm_conversation m = k"
  by (auto simp: history_rows_iff[OF ok] message_def split: option.splits if_splits)

lemma contact_reader:
  assumes ok: "conv_ok st"
  shows "c \<in> set (contact_rows n st) \<longleftrightarrow>
    contact \<lparr>ck_phone_number_id = n, ck_contact = ck_contact (ct_key c)\<rparr> st = Some c"
proof -
  have "map_of (cs_contacts st) (n, w) = Some (Contact c) \<Longrightarrow> ck_phone_number_id (ct_key c) = n" for w
    using book_okD(4)[OF conv_okD(4)[OF ok]] by (auto simp: book_key_def)
  then show ?thesis
    by (auto simp: contact_rows_iff[OF ok] contact_def book_key_def synced_contact_Some
        eq_commute[of "synced_contact _"] split: Option.bind_splits)
qed

text \<open>Only rows of the number and the conversation are ever listed.\<close>

lemma listings_within:
  assumes ok: "conv_ok st"
  shows "set (messages k b l st) \<subseteq> set (history_rows k st)"
    "set (window_events k b l st) \<subseteq> set (event_rows k st)"
    "set (conversations n b l st) \<subseteq> set (conversation_rows n st)"
    "set (contacts n a l st) \<subseteq> set (contact_rows n st)"
  using history.page[OF ok, of k b l] events.page[OF ok, of k b l] inbox.page[OF ok, of n b l]
    address_book.page[OF ok, of n a l]
  by (auto dest!: in_set_takeD)

section \<open>After an erasure\<close>

lemma erased_readers:
  assumes ok: "conv_ok st" and run: "erase_all mode number persons st = (er, st')"
    and k: "own_key number (set persons) k"
  shows "history_rows k st' = [] \<and> event_rows k st' = [] \<and> thread_owner_of k st' = None
    \<and> last_inbound_at k st' = None \<and> contact k st' = None
    \<and> k \<notin> su_key ` set (conversation_rows number st')"
proof -
  have ok': "conv_ok st'" using erase_refines[OF ok run] by blast
  note E = erase_rest[OF ok run]
  have "m \<notin> set (history_rows k st')" for m
    using k by (auto simp: history_rows_iff[OF ok'] erase_messages[OF ok run] split: option.splits if_splits)
  then have hist: "history_rows k st' = []" by (metis list.set_intros(1) neq_Nil_conv)
  have "e \<notin> set (event_rows k st')" for e
    using k by (auto simp: event_rows_iff[OF ok'] E keep_map_def split: option.splits if_splits)
  then have "event_rows k st' = []" by (metis list.set_intros(1) neq_Nil_conv)
  moreover have "thread_owner_of k st' = None"
    using k by (auto simp: thread_owner_of_def E keep_map_def split: option.splits)
  moreover have "contact k st' = None"
    using k by (auto simp: contact_def E keep_map_def book_key_def erased_contact_def own_key_def
        split: option.splits Option.bind_splits)
  moreover have row: "k \<notin> su_key ` set (conversation_rows n st')" for n
    by (simp add: inbox_keys[OF ok'] hist)
  moreover have "last_inbound_at k st' = None"
  proof (cases "map_of (cs_conversations st') k")
    case (Some s)
    then have "k \<in> su_key ` set (conversation_rows (ck_phone_number_id k) st')"
      by (simp add: inbox_key[OF ok'])
    then show ?thesis using row by blast
  qed (simp add: last_inbound_at_def)
  ultimately show ?thesis using hist by blast
qed

lemma erased_beside:
  assumes ok: "conv_ok st" and run: "erase_all mode number persons st = (er, st')"
  shows "c \<in> set (contact_rows number st') \<Longrightarrow> \<not> names_person (set persons) c"
    "own_key number (set persons) k \<Longrightarrow> ck_contact k \<noteq> [] \<Longrightarrow> identity_links k st' = []"
proof -
  have ok': "conv_ok st'" using erase_refines[OF ok run] by blast
  note E = erase_rest[OF ok run]
  show "\<not> names_person (set persons) c" if "c \<in> set (contact_rows number st')"
    using that by (auto simp: contact_rows_iff[OF ok'] E keep_map_def erased_contact_def split: option.splits if_splits)
  have mem: "map_of (cs_links st') j = Some t" if "(j, t) \<in> set (cs_links st')" for j t
    using that omap_keys_distinct[OF book_okD(3)[OF conv_okD(4)[OF ok']]] by (simp add: keys_distinct_def)
  show "identity_links k st' = []" if "own_key number (set persons) k" "ck_contact k \<noteq> []"
  proof -
    have "filter (\<lambda>((n, p, c), _). n = ck_phone_number_id k \<and> (p = ck_contact k \<or> c = ck_contact k)) (cs_links st') = []"
      using that by (fastforce simp: filter_empty_conv dest!: mem simp: E keep_map_def erased_link_def own_key_def
          split: option.splits if_splits)
    then show ?thesis by (simp add: identity_links_def)
  qed
qed

text \<open>Every message: of the person, by them elsewhere, or untouched.\<close>

lemma erased_message:
  assumes ok: "conv_ok st" and run: "erase_all mode number persons st = (er, st')"
  shows "\<forall>n i. message n i st' = (case message n i st of
       None \<Rightarrow> None
     | Some m \<Rightarrow>
         if n = number \<and> ck_contact (sm_conversation m) \<in> set persons then None
         else if sent_by number (set persons) (map_of (cs_sender_of st)) i m
         then (if mode = Delete then None else Some (redact m)) else Some m)"
  by (auto simp: message_def erase_messages[OF ok run] own_key_def split: option.split)

section \<open>After a purge and a trim\<close>

lemma purged_rows:
  assumes ok: "conv_ok st"
  shows "history_rows k (snd (purge_before number cutoff st))
      = filter (\<lambda>m. \<not> (in_scope number k \<and> sm_timestamp m < cutoff)) (history_rows k st)"
    and "event_rows k (snd (purge_before number cutoff st))
      = filter (\<lambda>e. \<not> (in_scope number k \<and> we_at e < cutoff)) (event_rows k st)"
proof -
  obtain pu st' where run: "purge_before number cutoff st = (pu, st')" by fastforce
  have ok': "conv_ok st'" using purge_refines[OF ok run] by blast
  have "history_rows k st'
      = filter (\<lambda>m. \<not> (in_scope number (sm_conversation m) \<and> sm_timestamp m < cutoff)) (history_rows k st)"
    by (rule history_filtered[OF ok ok' purge_keeps(1)[OF ok run]])
  also have "\<dots> = filter (\<lambda>m. \<not> (in_scope number k \<and> sm_timestamp m < cutoff)) (history_rows k st)"
    by (rule filter_cong) (auto simp: history_rows_iff[OF ok])
  finally show "history_rows k (snd (purge_before number cutoff st))
      = filter (\<lambda>m. \<not> (in_scope number k \<and> sm_timestamp m < cutoff)) (history_rows k st)" by (simp add: run)
  have "event_rows k st'
      = filter (\<lambda>e. \<not> (in_scope number (we_conversation e) \<and> we_at e < cutoff)) (event_rows k st)"
    by (rule events_filtered[OF ok ok' purge_keeps(2)[OF ok run]])
  also have "\<dots> = filter (\<lambda>e. \<not> (in_scope number k \<and> we_at e < cutoff)) (event_rows k st)"
    by (rule filter_cong) (auto simp: event_rows_iff[OF ok])
  finally show "event_rows k (snd (purge_before number cutoff st))
      = filter (\<lambda>e. \<not> (in_scope number k \<and> we_at e < cutoff)) (event_rows k st)" by (simp add: run)
qed

lemma trimmed_rows:
  assumes ok: "conv_ok st"
  shows "history_rows k (snd (trim_conversations number n st))
      = (if in_scope number k then take n (history_rows k st) else history_rows k st)"
    and "event_rows k (snd (trim_conversations number n st)) = event_rows k st"
proof -
  obtain pu st' where run: "trim_conversations number n st = (pu, st')" by fastforce
  have ok': "conv_ok st'" using trim_refines[OF ok run] by blast
  show "history_rows k (snd (trim_conversations number n st))
      = (if in_scope number k then take n (history_rows k st) else history_rows k st)"
    using history_trimmed[OF ok ok' run] by (simp add: run)
  have "event_rows k st' = filter (\<lambda>_. True) (event_rows k st)"
    by (rule events_filtered[OF ok ok']) (auto simp: trim_keeps[OF ok run] keep_map_def fun_eq_iff split: option.split)
  then show "event_rows k (snd (trim_conversations number n st)) = event_rows k st" by (simp add: run)
qed

section \<open>Persons and windows\<close>

lemma linked_same_person:
  assumes ok: "conv_ok st"
  shows "linked n st = {(a, b). a \<noteq> [] \<and> b \<noteq> [] \<and> same_person n st a b}"
proof -
  note B = book_okD[OF conv_okD(4)[OF ok]]
  have "(e, v) \<in> set (cs_contacts st) \<longleftrightarrow> map_of (cs_contacts st) e = Some v" for e v
    using omap_keys_distinct[OF B(2)] by (simp add: keys_distinct_def)
  moreover have "(e, v) \<in> set (cs_links st) \<longleftrightarrow> map_of (cs_links st) e = Some v" for e v
    using omap_keys_distinct[OF B(3)] by (simp add: keys_distinct_def)
  ultimately show ?thesis
    unfolding linked_def same_person_def connected_iff contact_identities_def id_def
    by auto
qed

lemma window_open:
  assumes "t = (let ts = xs in if ts = [] then None else Some (Max (set ts)))"
  shows "\<forall>now b. is_open (from_last_inbound t) now = Some b \<longrightarrow>
    (b \<longleftrightarrow> (\<exists>x\<in>set xs. now < x + int WINDOW_LENGTH))"
proof (cases "xs = []")
  case False
  have sum: "time_checked_add a d = Some c \<Longrightarrow> c = a + d" for a d c
    by (auto simp: time_checked_add_def split: if_splits)
  have latest: "(\<exists>x\<in>set xs. now < x + l) \<longleftrightarrow> now < Max (set xs) + l" for now l :: int
  proof
    assume "\<exists>x\<in>set xs. now < x + l"
    then obtain x where "x \<in> set xs" "now < x + l" by blast
    moreover from this have "x \<le> Max (set xs)" by simp
    ultimately show "now < Max (set xs) + l" by linarith
  next
    assume "now < Max (set xs) + l"
    then show "\<exists>x\<in>set xs. now < x + l" using False Max_in[of "set xs"] by auto
  qed
  then show ?thesis
    using False assms
    by (auto simp: latest is_open_def closes_at_def from_last_inbound_def dest!: sum)
qed (use assms in \<open>simp add: is_open_def closes_at_def from_last_inbound_def\<close>)

end
