(* ===== verification/Conversation_Store.thy ===== *)
theory Conversation_Store
  imports Conversation_Readers
begin

text \<open>
  The properties of the conversation store, over runs of calls from the empty store: it is well
  formed and refines its specification, its inbox shows the latest message of each conversation,
  its listings are read completely page by page, a delivery status only moves forward, a person's
  identities are closed, an erasure leaves nothing readable of them, a purge and a trim drop exactly
  the old messages, and the service window follows the live inbound messages.
\<close>

section \<open>A small store for the witnesses\<close>

definition demo_key :: conversation_key where
  "demo_key = \<lparr>ck_phone_number_id = ''n'', ck_contact = ''a''\<rparr>"

definition demo_message :: "string \<Rightarrow> time \<Rightarrow> stored_message" where
  "demo_message i t =
     \<lparr>sm_id = i, sm_conversation = demo_key, sm_direction = Inbound, sm_kind = ''text'', sm_text = Some i,
      sm_payload = JObject [(''from'', JString ''a'')], sm_status = Received, sm_timestamp = t,
      sm_status_at = None, sm_error = None\<rparr>"

definition demo_calls :: "conv_call list" where
  "demo_calls = [Append (demo_message ''x'' 1), Append (demo_message ''y'' 2),
     UpdateStatus ''n'' ''x'' Read 3 None]"

definition demo_run :: "conv_reply list \<times> conv_state" where
  "demo_run = conv_run Delete demo_calls conv_empty"

lemma demo_ok: "\<forall>c\<in>set demo_calls. call_ok c" "\<forall>c\<in>set demo_calls. keeps_rows c"
  by (simp_all add: demo_calls_def demo_message_def REVOKED_def)

lemma demo_reached: "conv_run Delete demo_calls conv_empty = (fst demo_run, snd demo_run)"
  by (simp add: demo_run_def)

section \<open>Properties\<close>

text \<open>
  C14. The store's records are well typed after any calls: the history index holds exactly the
  stored messages, by conversation and instant, the sender index exactly the messages of a sender,
  the window index exactly the window events, a summary exists exactly for a conversation with a
  message that is no tombstone and shows its latest, and no key is bound twice.
\<close>

theorem store_well_formed:
  assumes "conv_run mode calls conv_empty = (rs, st)" and "\<forall>c\<in>set calls. call_ok c"
  shows "conv_ok st"
  using assms reached_ok by blast

lemma store_well_formed_witness: "conv_ok (snd demo_run)"
  by (rule store_well_formed[OF demo_reached demo_ok(1)])

text \<open>
  C15. The in-memory store, with its indexes, refines the specification: any sequence of calls
  (appends, synced history, revocations, media, statuses, window events, owners, contacts, links,
  erasures, purges, trims) gives the same replies, reports included, and the state that the
  specification's maps describe.
\<close>

theorem store_refines_spec:
  assumes "conv_run mode calls conv_empty = (rs, st)" and "\<forall>c\<in>set calls. call_ok c"
  shows "spec_run mode calls (conv_abs conv_empty) = (rs, conv_abs st)"
  using run_refines[OF conv_ok_empty assms(2,1)] by blast

lemma store_refines_spec_witness:
  "spec_run Delete demo_calls (conv_abs conv_empty) = (fst demo_run, conv_abs (snd demo_run))"
  by (rule store_refines_spec[OF demo_reached demo_ok(1)])

text \<open>
  C16. The inbox of a number has one row for each of its conversations with a message that is no
  tombstone, and the row shows that conversation's latest such message: its instant and its text.
\<close>

theorem inbox_shows_latest:
  assumes "conv_run mode calls conv_empty = (rs, st)" and "\<forall>c\<in>set calls. call_ok c"
  shows "distinct (map su_key (conversation_rows n st))
    \<and> (\<forall>k. k \<in> su_key ` set (conversation_rows n st) \<longleftrightarrow>
         ck_phone_number_id k = n \<and> (\<exists>m\<in>set (history_rows k st). sm_kind m \<noteq> REVOKED))
    \<and> (\<forall>r\<in>set (conversation_rows n st). \<exists>m ms.
         filter (\<lambda>m. sm_kind m \<noteq> REVOKED) (history_rows (su_key r) st) = m # ms
         \<and> su_last_message_at r = sm_timestamp m \<and> su_last_text r = sm_text m)"
proof -
  have ok: "conv_ok st" using assms reached_ok by blast
  show ?thesis using inbox_distinct[OF ok] inbox_keys[OF ok] inbox_latest[OF ok] by blast
qed

lemma inbox_shows_latest_witness:
  "distinct (map su_key (conversation_rows ''n'' (snd demo_run)))"
  using inbox_shows_latest[OF demo_reached demo_ok(1)] by blast

text \<open>
  C17. Following the cursors reads every listing completely, each row once and in order: a
  conversation's messages, its window events, a number's inbox and its address book, for any page
  size. The rows are exactly the stored messages, events and contacts.
\<close>

theorem listings_read_completely:
  assumes "conv_run mode calls conv_empty = (rs, st)" and "\<forall>c\<in>set calls. call_ok c" and "0 < limit"
  shows "read_pages (Suc (length (history_rows k st))) (\<lambda>c. messages k c limit st) message_cursor None
      = history_rows k st
    \<and> read_pages (Suc (length (event_rows k st))) (\<lambda>c. window_events k c limit st) event_cursor None
      = event_rows k st
    \<and> read_pages (Suc (length (conversation_rows n st))) (\<lambda>c. conversations n c limit st) summary_cursor None
      = conversation_rows n st
    \<and> read_pages (Suc (length (contact_rows n st))) (\<lambda>c. contacts n c limit st) contact_cursor None
      = contact_rows n st
    \<and> (\<forall>m. m \<in> set (history_rows k st) \<longleftrightarrow>
         message (ck_phone_number_id k) (sm_id m) st = Some m \<and> sm_conversation m = k)
    \<and> (\<forall>c. c \<in> set (contact_rows n st) \<longleftrightarrow>
         contact \<lparr>ck_phone_number_id = n, ck_contact = ck_contact (ct_key c)\<rparr> st = Some c)"
proof -
  have ok: "conv_ok st" using assms(1,2) reached_ok by blast
  show ?thesis
    using history.pages_complete[OF ok assms(3)] events.pages_complete[OF ok assms(3)]
      inbox.pages_complete[OF ok assms(3)] address_book.pages_complete[OF ok assms(3)]
      history_reader[OF ok] contact_reader[OF ok] by blast
qed

lemma listings_read_completely_witness:
  "read_pages (Suc (length (history_rows demo_key (snd demo_run))))
     (\<lambda>c. messages demo_key c 1 (snd demo_run)) message_cursor None = history_rows demo_key (snd demo_run)"
  using listings_read_completely[OF demo_reached demo_ok(1), of 1] by simp

text \<open>
  C18. A message's status only moves forward: over any calls that delete nothing, a message stays
  the same message, and its status is the same or one of a higher rank, so a failed or deleted
  message stays so.
\<close>

theorem statuses_never_regress:
  assumes "conv_run mode before conv_empty = (rs0, st0)" and "conv_run mode calls st0 = (rs, st)"
    and "\<forall>c\<in>set (before @ calls). call_ok c" and "\<forall>c\<in>set calls. keeps_rows c"
    and "message n i st0 = Some m"
  shows "\<exists>m'. message n i st = Some m' \<and> follows m m'"
proof -
  have ok: "conv_ok st0" using reached_ok[OF _ assms(1)] assms(3) by simp
  have run: "spec_run mode calls (conv_abs st0) = (rs, conv_abs st)"
    using run_refines[OF ok _ assms(2)] assms(3) by simp
  have "sp_messages (conv_abs st0) i = Some m" and n: "ck_phone_number_id (sm_conversation m) = n"
    using assms(5) by (auto simp: message_def conv_abs_def split: option.splits if_splits)
  then obtain m' where "map_of (cs_messages st) i = Some m'" "follows m m'"
    using spec_run_follows[OF run assms(4)] by (auto simp: conv_abs_def)
  then show ?thesis using n by (auto simp: message_def follows_def)
qed

lemma statuses_never_regress_witness:
  "\<exists>m'. message ''n'' ''x'' (snd (conv_run Delete [UpdateStatus ''n'' ''x'' Sent 4 None]
      (snd (conv_run Delete [Append (demo_message ''x'' 1)] conv_empty)))) = Some m'
     \<and> follows (demo_message ''x'' 1) m'"
proof (rule statuses_never_regress[OF surjective_pairing surjective_pairing])
  show "message ''n'' ''x'' (snd (conv_run Delete [Append (demo_message ''x'' 1)] conv_empty))
    = Some (demo_message ''x'' 1)"
    by (auto simp: conv_append_def conv_insert_def insert_row_def conv_empty_def message_def Let_def
        demo_message_def demo_key_def split: option.split)
qed (simp_all add: demo_message_def REVOKED_def)

text \<open>
  C19. The identities of a conversation are exactly the texts its contact is connected to, through
  any number of address book entries and links of the same number, and the contact itself: the
  search ends with the closure, whatever the store holds.
\<close>

theorem identities_are_closed:
  assumes "conv_run mode calls conv_empty = (rs, st)" and "\<forall>c\<in>set calls. call_ok c"
  shows "set (identities k st) =
    {(a, b). a \<noteq> [] \<and> b \<noteq> [] \<and> same_person (ck_phone_number_id k) st a b}\<^sup>* `` {ck_contact k}"
proof -
  have ok: "conv_ok st" using assms reached_ok by blast
  have "set (identities k st) = (linked (ck_phone_number_id k) st)\<^sup>* `` {ck_contact k}"
    unfolding identities_def by (rule identities_from_closure) auto
  then show ?thesis by (simp add: linked_same_person[OF ok])
qed

lemma identities_are_closed_witness:
  "set (identities demo_key (snd demo_run)) =
     {(a, b). a \<noteq> [] \<and> b \<noteq> [] \<and> same_person (ck_phone_number_id demo_key) (snd demo_run) a b}\<^sup>* `` {''a''}"
  using identities_are_closed[OF demo_reached demo_ok(1), of demo_key] by (simp add: demo_key_def)

text \<open>
  C20. After an erasure nothing of the person is readable: no message, window event, thread owner,
  inbox row, open window, contact or link of their conversations, and no contact that names them.
  What they sent to other conversations of the number is redacted in place, or gone, and every
  other message is as it was.
\<close>

theorem erased_is_gone:
  assumes "conv_run mode calls conv_empty = (rs, st)" and "\<forall>c\<in>set calls. call_ok c"
    and "erase_all mode' number persons st = (er, st')"
    and "ck_phone_number_id k = number" and "ck_contact k \<in> set persons"
  shows "messages k before limit st' = [] \<and> window_events k before limit st' = []
    \<and> thread_owner_of k st' = None \<and> last_inbound_at k st' = None \<and> contact k st' = None
    \<and> k \<notin> su_key ` set (conversations number before limit st')
    \<and> (\<forall>c\<in>set (contacts number after limit st'). \<not> names_person (set persons) c)
    \<and> (ck_contact k \<noteq> [] \<longrightarrow> identity_links k st' = [])
    \<and> (\<forall>n i. message n i st' = (case message n i st of
         None \<Rightarrow> None
       | Some m \<Rightarrow>
           if n = number \<and> ck_contact (sm_conversation m) \<in> set persons then None
           else if sent_by number (set persons) (map_of (cs_sender_of st)) i m
           then (if mode' = Delete then None else Some (redact m)) else Some m))"
proof -
  have ok: "conv_ok st" using assms reached_ok by blast
  then have ok': "conv_ok st'" using erase_refines[OF ok assms(3)] by blast
  have k: "own_key number (set persons) k" using assms(4,5) by (simp add: own_key_def)
  note E = erased_readers[OF ok assms(3) k]
  note L = listings_within[OF ok']
  have "messages k before limit st' = []" "window_events k before limit st' = []"
    using L(1)[of k before limit] L(2)[of k before limit] E by simp_all
  moreover have "k \<notin> su_key ` set (conversations number before limit st')"
    using L(3)[of number before limit] E by blast
  moreover have "\<forall>c\<in>set (contacts number after limit st'). \<not> names_person (set persons) c"
    using L(4)[of number after limit] erased_beside(1)[OF ok assms(3)] by blast
  moreover have "ck_contact k \<noteq> [] \<longrightarrow> identity_links k st' = []"
    using erased_beside(2)[OF ok assms(3) k] by blast
  ultimately show ?thesis using E erased_message[OF ok assms(3)] by blast
qed

lemma erased_is_gone_witness:
  "messages demo_key None 10 (snd (erase_all Redact ''n'' [''a''] (snd demo_run))) = []"
  using erased_is_gone[OF demo_reached demo_ok(1) surjective_pairing, of demo_key "''n''" "[''a'']" None 10 Redact None]
  by (simp add: demo_key_def)

text \<open>
  C21. A purge drops exactly the messages and window events in its scope from before the cutoff and
  a trim exactly the messages beyond the newest \<open>keep_last\<close> of each conversation in its scope; both
  keep the others, in their order. A retention that keeps everything drops nothing, and one of a
  duration purges every number up to its cutoff.
\<close>

theorem old_rows_dropped:
  assumes "conv_run mode calls conv_empty = (rs, st)" and "\<forall>c\<in>set calls. call_ok c"
  shows "history_rows k (snd (purge_before number cutoff st))
      = filter (\<lambda>m. \<not> (in_scope number k \<and> sm_timestamp m < cutoff)) (history_rows k st)
    \<and> event_rows k (snd (purge_before number cutoff st))
      = filter (\<lambda>e. \<not> (in_scope number k \<and> we_at e < cutoff)) (event_rows k st)
    \<and> history_rows k (snd (trim_conversations number keep_last st))
      = (if in_scope number k then take keep_last (history_rows k st) else history_rows k st)
    \<and> event_rows k (snd (trim_conversations number keep_last st)) = event_rows k st
    \<and> history_rows k (snd (apply_retention r now st))
      = filter (\<lambda>m. case retention_cutoff r now of None \<Rightarrow> True | Some c \<Rightarrow> c \<le> sm_timestamp m)
          (history_rows k st)"
proof -
  have ok: "conv_ok st" using assms reached_ok by blast
  have all: "history_rows k (snd (purge_before None c st)) = filter (\<lambda>m. c \<le> sm_timestamp m) (history_rows k st)" for c
    using purged_rows(1)[OF ok, of k None c] by (simp add: in_scope_def not_less)
  have "history_rows k (snd (apply_retention r now st))
      = filter (\<lambda>m. case retention_cutoff r now of None \<Rightarrow> True | Some c \<Rightarrow> c \<le> sm_timestamp m) (history_rows k st)"
    by (cases "retention_cutoff r now") (simp_all add: apply_retention_def all)
  then show ?thesis using purged_rows[OF ok] trimmed_rows[OF ok] by blast
qed

lemma old_rows_dropped_witness:
  "history_rows demo_key (snd (trim_conversations None 1 (snd demo_run)))
     = take 1 (history_rows demo_key (snd demo_run))"
  using old_rows_dropped[OF demo_reached demo_ok(1), of demo_key None 0 1] by (simp add: in_scope_def)

text \<open>
  C22. Over any calls that erase, purge and trim nothing (a deleted summary takes its window with
  it), a conversation's window is that of the live inbound messages the store accepted: the last
  inbound instant is the greatest of theirs, whatever order they came in, duplicates, outbound and
  synced messages aside; the unread count is how many came since the last time it was read; and
  the customer service window, when it can be computed, is open exactly when one of them is less
  than 24 hours old.
\<close>

theorem window_follows_inbound:
  assumes "conv_run mode calls conv_empty = (rs, st)" and "\<forall>c\<in>set calls. call_ok c"
    and "\<forall>c\<in>set calls. keeps_rows c"
  shows "last_inbound_at k st
      = (let ts = inbound_times k calls rs in if ts = [] then None else Some (Max (set ts)))
    \<and> (\<forall>r\<in>set (conversation_rows n st). su_key r = k \<longrightarrow>
         su_unread r = fold (count_unread k) (zip calls rs) 0)
    \<and> (\<forall>now b. is_open (from_last_inbound (last_inbound_at k st)) now = Some b \<longrightarrow>
         (b \<longleftrightarrow> (\<exists>t\<in>set (inbound_times k calls rs). now < t + int WINDOW_LENGTH)))"
proof -
  have ok: "conv_ok st" using assms reached_ok by blast
  note W = window_run[OF conjunct2[OF run_refines[OF conv_ok_empty assms(2,1)]] assms(3), of k]
  have start: "window_at k (conv_abs conv_empty) = (None, 0)"
    by (simp add: window_at_def conv_abs_def conv_empty_def)
  have "last_inbound_at k st = fst (window_at k (conv_abs st))"
    by (simp add: last_inbound_at_def window_at_def conv_abs_def summary_window_def split: option.split)
  then have last: "last_inbound_at k st
      = (let ts = inbound_times k calls rs in if ts = [] then None else Some (Max (set ts)))"
    by (simp add: W start latest_inbound_Max Let_def)
  have "su_unread r = snd (window_at k (conv_abs st))" if "r \<in> set (conversation_rows n st)" "su_key r = k" for r
    using that by (auto simp: conversation_rows_iff[OF ok] window_at_def conv_abs_def summary_window_def summary_row_def)
  then have "\<forall>r\<in>set (conversation_rows n st). su_key r = k \<longrightarrow> su_unread r = fold (count_unread k) (zip calls rs) 0"
    by (simp add: W start)
  then show ?thesis using last window_open[OF last] by blast
qed

lemma window_follows_inbound_witness:
  "last_inbound_at demo_key (snd demo_run) = (let ts = inbound_times demo_key demo_calls (fst demo_run)
     in if ts = [] then None else Some (Max (set ts)))"
  using window_follows_inbound[OF demo_reached demo_ok] by blast

end
