(* ===== verification/Jobs.thy ===== *)
theory Jobs
  imports Recipients Error_Tree
begin

text \<open>
  Scheduled sends: the data of \<open>meta-whatsapp-bot/src/jobs/mod.rs\<close> and \<open>jobs/port.rs\<close>. A job is
  what is scheduled, a scheduled job what a store keeps, a claim a runner's hold on it, a marker
  what is known of one recipient of one run. The trait \<open>JobStore\<close> is the record \<open>jobs_port\<close> of its
  methods, \<open>claim_due\<close> split into the jobs it finds due and the claim of one of them, as its
  handler runs between the claims. Counters of the code are \<open>u32\<close> and saturate.
\<close>

section \<open>Jobs\<close>

definition JOB_ID_MAX_LEN :: nat where "JOB_ID_MAX_LEN = 128"

text \<open>The control characters (Unicode's \<open>Cc\<close>) in UTF-8: C0, delete, and C1 as two bytes.\<close>

fun has_control :: "string \<Rightarrow> bool" where
  "has_control [] \<longleftrightarrow> False"
| "has_control (c # cs) \<longleftrightarrow>
     (of_char c :: nat) < 32 \<or> c = CHR 0x7F
     \<or> (c = CHR 0xC2 \<and> (case cs of [] \<Rightarrow> False | d # _ \<Rightarrow> 128 \<le> (of_char d :: nat) \<and> (of_char d :: nat) < 160))
     \<or> has_control cs"

definition job_id_new :: "string \<Rightarrow> error + string" where
  "job_id_new i =
     (if i = [] \<or> length i > JOB_ID_MAX_LEN \<or> has_control i
      then Inl (Validation (validation_new ''id'' ''a job id is 1 to 128 bytes without a control character''))
      else Inr i)"

record job =
  jo_id :: string
  jo_from :: string
  jo_at :: time
  jo_recipients :: "recipient list"
  jo_payload :: json

definition job_new :: "string \<Rightarrow> string \<Rightarrow> time \<Rightarrow> job" where
  "job_new i from at =
     \<lparr>jo_id = i, jo_from = from, jo_at = at, jo_recipients = [], jo_payload = JNull\<rparr>"

definition job_to :: "recipient list \<Rightarrow> job \<Rightarrow> job" where
  "job_to rs j = j\<lparr>jo_recipients := jo_recipients j @ rs\<rparr>"

datatype job_state = JobPending | JobClaimed | JobDone | JobStopped | JobCancelled

definition is_settled :: "job_state \<Rightarrow> bool" where
  "is_settled s \<longleftrightarrow> s = JobDone \<or> s = JobStopped \<or> s = JobCancelled"

record job_summary =
  jsu_sent :: nat
  jsu_failed :: nat
  jsu_unknown :: "nat list"
  jsu_limited :: "nat list"
  jsu_unsent :: nat

definition summary_default :: job_summary where
  "summary_default = \<lparr>jsu_sent = 0, jsu_failed = 0, jsu_unknown = [], jsu_limited = [], jsu_unsent = 0\<rparr>"

record scheduled_job =
  sj_id :: string
  sj_from :: string
  sj_due_at :: time
  sj_state :: job_state
  sj_run :: nat
  sj_retries :: nat
  sj_recipients :: "recipient list"
  sj_payload :: json
  sj_summary :: "job_summary option"

definition into_scheduled :: "job \<Rightarrow> error + scheduled_job" where
  "into_scheduled j =
     (if jo_recipients j = []
      then Inl (Validation (validation_new ''recipients'' ''a job needs at least one recipient''))
      else if \<exists>r\<in>set (jo_recipients j). recipient_key r = None
      then Inl (Validation (validation_new ''recipients'' ''a kind of recipient a job cannot store''))
      else Inr \<lparr>sj_id = jo_id j, sj_from = jo_from j, sj_due_at = jo_at j, sj_state = JobPending,
                sj_run = 1, sj_retries = 0, sj_recipients = kept_listings (jo_recipients j),
                sj_payload = jo_payload j, sj_summary = None\<rparr>)"

definition MARKETING_LIMIT_WAIT :: duration where "MARKETING_LIMIT_WAIT = hours 24"

definition millis :: "time \<Rightarrow> int" where "millis t = to_ms t"

definition job_instant :: "int \<Rightarrow> time" where "job_instant ms = from_ms ms"

definition is_marketing_limit :: "error_kind \<Rightarrow> bool" where
  "is_marketing_limit kind \<longleftrightarrow> kind = EcosystemEngagementLimit"

text \<open>\<open>at + by\<close>, saturating.\<close>

definition after_time :: "time \<Rightarrow> duration \<Rightarrow> time" where
  "after_time at by' =
     (case signed_duration by' of None \<Rightarrow> datetime_max | Some d \<Rightarrow> min datetime_max (at + d))"

definition u32_succ :: "nat \<Rightarrow> nat" where
  "u32_succ n = min (n + 1) (2 ^ 32 - 1)"

section \<open>The port\<close>

record job_claim =
  jc_job :: scheduled_job
  jc_runner :: string
  jc_number :: nat
  jc_until :: time

datatype job_halt = HaltCancelled | HaltLost

datatype holding = Held time | Halted job_halt

datatype recipient_mark = MarkedNot | MarkedSent | MarkedFailed | MarkedUnknown | MarkedLimited

datatype send_record = RecordSent "string option" | RecordFailed "int option" | RecordUnknown "int option"

text \<open>What a marker says; a recipient of a run has at most one.\<close>

datatype mark = MarkSending string | MarkSent | MarkFailed | MarkUnknown

type_synonym mark_key = "string \<times> nat \<times> nat"

definition claim_key_of :: "job_claim \<Rightarrow> nat \<Rightarrow> mark_key" where
  "claim_key_of c i = (sj_id (jc_job c), sj_run (jc_job c), i)"

text \<open>A method takes the instant it runs at and the state; a refused argument is an error.\<close>

record 's jobs_port =
  jp_schedule :: "job \<Rightarrow> 's \<Rightarrow> (error + unit) \<times> 's"
  jp_cancel :: "string \<Rightarrow> 's \<Rightarrow> bool \<times> 's"
  jp_rerun :: "string \<Rightarrow> time \<Rightarrow> 's \<Rightarrow> bool \<times> 's"
  jp_get :: "string \<Rightarrow> 's \<Rightarrow> scheduled_job option"
  jp_limit_message :: "time \<Rightarrow> string \<Rightarrow> 's \<Rightarrow> bool \<times> 's"
  jp_due :: "time \<Rightarrow> 's \<Rightarrow> string list"
  jp_claim :: "time \<Rightarrow> string \<Rightarrow> string \<Rightarrow> duration \<Rightarrow> 's \<Rightarrow> job_claim option \<times> 's"
  jp_hold :: "time \<Rightarrow> job_claim \<Rightarrow> duration \<Rightarrow> 's \<Rightarrow> holding \<times> 's"
  jp_check_run :: "job_claim \<Rightarrow> 's \<Rightarrow> job_halt option"
  jp_recipient :: "time \<Rightarrow> job_claim \<Rightarrow> nat \<Rightarrow> 's \<Rightarrow> error + recipient_mark"
  jp_mark_sending :: "job_claim \<Rightarrow> nat \<Rightarrow> 's \<Rightarrow> (error + bool) \<times> 's"
  jp_mark_outcome :: "time \<Rightarrow> job_claim \<Rightarrow> nat \<Rightarrow> send_record \<Rightarrow> 's \<Rightarrow> bool \<times> 's"
  jp_unmark :: "job_claim \<Rightarrow> nat \<Rightarrow> 's \<Rightarrow> bool \<times> 's"
  jp_limit_recipient :: "time \<Rightarrow> job_claim \<Rightarrow> nat \<Rightarrow> 's \<Rightarrow> (error + unit) \<times> 's"
  jp_settle :: "job_claim \<Rightarrow> job_state \<Rightarrow> job_summary \<Rightarrow> 's \<Rightarrow> (error + job_halt option) \<times> 's"
  jp_retry :: "job_claim \<Rightarrow> time \<Rightarrow> job_summary \<Rightarrow> 's \<Rightarrow> job_halt option \<times> 's"

fun record_mark :: "send_record \<Rightarrow> mark" where
  "record_mark (RecordSent _) = MarkSent"
| "record_mark (RecordFailed _) = MarkFailed"
| "record_mark (RecordUnknown _) = MarkUnknown"

text \<open>
  The part of the contract the runner rests on, \<^emph>\<open>markers come before sends\<close>: a marker is created
  only where there is none, only the runner whose ``sending'' it is completes or removes it, and
  nothing else touches one.
\<close>

locale job_store =
  fixes port :: "'s jobs_port" and marker :: "'s \<Rightarrow> mark_key \<Rightarrow> mark option"
  assumes mark_sending_created:
      "jp_mark_sending port c i s = (Inr True, s') \<Longrightarrow> marker s (claim_key_of c i) = None
         \<and> marker s' = (marker s)(claim_key_of c i \<mapsto> MarkSending (jc_runner c))"
    and mark_sending_refused:
      "jp_mark_sending port c i s = (r, s') \<Longrightarrow> r \<noteq> Inr True \<Longrightarrow> marker s' = marker s"
    and mark_outcome_written:
      "jp_mark_outcome port t c i rec s = (True, s') \<Longrightarrow>
         marker s (claim_key_of c i) = Some (MarkSending (jc_runner c))
         \<and> marker s' = (marker s)(claim_key_of c i \<mapsto> record_mark rec)"
    and mark_outcome_refused:
      "jp_mark_outcome port t c i rec s = (False, s') \<Longrightarrow> marker s' = marker s"
    and unmark_removed:
      "jp_unmark port c i s = (True, s') \<Longrightarrow>
         marker s (claim_key_of c i) = Some (MarkSending (jc_runner c))
         \<and> marker s' = (marker s)(claim_key_of c i := None)"
    and unmark_refused: "jp_unmark port c i s = (False, s') \<Longrightarrow> marker s' = marker s"
    and schedule_marker: "jp_schedule port j s = (r1, s') \<Longrightarrow> marker s' = marker s"
    and cancel_marker: "jp_cancel port n s = (r2, s') \<Longrightarrow> marker s' = marker s"
    and rerun_marker: "jp_rerun port n t s = (r2, s') \<Longrightarrow> marker s' = marker s"
    and limit_message_marker: "jp_limit_message port t m s = (r2, s') \<Longrightarrow> marker s' = marker s"
    and claim_marker: "jp_claim port t n w d s = (r3, s') \<Longrightarrow> marker s' = marker s"
    and hold_marker: "jp_hold port t c d s = (h, s') \<Longrightarrow> marker s' = marker s"
    and limit_recipient_marker: "jp_limit_recipient port t c i s = (r1, s') \<Longrightarrow> marker s' = marker s"
    and settle_marker: "jp_settle port c st su s = (r4, s') \<Longrightarrow> marker s' = marker s"
    and retry_marker: "jp_retry port c t su s = (r5, s') \<Longrightarrow> marker s' = marker s"
begin

lemmas other_marker = schedule_marker cancel_marker rerun_marker limit_message_marker claim_marker
  hold_marker limit_recipient_marker settle_marker retry_marker

text \<open>Whatever a step on markers does, another recipient's marker stays as it is.\<close>

lemma marker_elsewhere:
  assumes "k \<noteq> claim_key_of c i"
  shows "jp_mark_sending port c i s = (r, s') \<Longrightarrow> marker s' k = marker s k"
    "jp_mark_outcome port t c i rec s = (b, s') \<Longrightarrow> marker s' k = marker s k"
    "jp_unmark port c i s = (b, s') \<Longrightarrow> marker s' k = marker s k"
  using assms mark_sending_created[of c i s s'] mark_sending_refused[of c i s r s']
    mark_outcome_written[of t c i rec s s'] mark_outcome_refused[of t c i rec s s']
    unmark_removed[of c i s s'] unmark_refused[of c i s s']
  by (cases "r = Inr True"; cases b; force)+

end

end
