(* ===== verification/Programs.thy ===== *)
theory Programs
  imports Error_Tree
begin

text \<open>
  Asynchronous code that awaits between its calls, as programs: a program is a tree whose nodes are
  one atomic store call, a reading of the clock or an outside call, each with its continuation, so
  anyone may act between two nodes. A store call may fail, before or after it took effect. What a
  program can return is what it returns for some answers.
\<close>

section \<open>Programs\<close>

datatype ('s, 'x, 'y, 'a) jprog =
  JRet 'a
| JOp "time \<Rightarrow> 's \<Rightarrow> ('s, 'x, 'y, 'a) jprog \<times> 's" "error \<Rightarrow> ('s, 'x, 'y, 'a) jprog"
| JNow "time \<Rightarrow> ('s, 'x, 'y, 'a) jprog"
| JAsk 'x "'y \<Rightarrow> ('s, 'x, 'y, 'a) jprog"

text \<open>A store call, and what to do with its answer or its failure.\<close>

definition jop ::
  "(time \<Rightarrow> 's \<Rightarrow> 'r \<times> 's) \<Rightarrow> (error + 'r \<Rightarrow> ('s, 'x, 'y, 'a) jprog) \<Rightarrow> ('s, 'x, 'y, 'a) jprog" where
  "jop f k = JOp (\<lambda>t s. map_prod (\<lambda>r. k (Inr r)) id (f t s)) (\<lambda>e. k (Inl e))"

text \<open>A call that reads: the state stays.\<close>

definition jread ::
  "(time \<Rightarrow> 's \<Rightarrow> 'r) \<Rightarrow> (error + 'r \<Rightarrow> ('s, 'x, 'y, 'a) jprog) \<Rightarrow> ('s, 'x, 'y, 'a) jprog" where
  "jread f = jop (\<lambda>t s. (f t s, s))"

text \<open>A call that may refuse its arguments: refused or failed, it is an error.\<close>

fun flatten :: "error + (error + 'r) \<Rightarrow> error + 'r" where
  "flatten (Inl e) = Inl e"
| "flatten (Inr r) = r"

text \<open>In sequence: an error ends the program.\<close>

primrec jbind ::
  "('s, 'x, 'y, error + 'a) jprog \<Rightarrow> ('a \<Rightarrow> ('s, 'x, 'y, error + 'b) jprog)
     \<Rightarrow> ('s, 'x, 'y, error + 'b) jprog" where
  "jbind (JRet r) k = (case r of Inl e \<Rightarrow> JRet (Inl e) | Inr a \<Rightarrow> k a)"
| "jbind (JOp f g) k = JOp (\<lambda>t s. map_prod (\<lambda>p. jbind p k) id (f t s)) (\<lambda>e. jbind (g e) k)"
| "jbind (JNow f) k = JNow (\<lambda>t. jbind (f t) k)"
| "jbind (JAsk x f) k = JAsk x (\<lambda>y. jbind (f y) k)"

section \<open>What a program can return\<close>

text \<open>Whatever the store, the clock and the outside answer.\<close>

inductive may_return :: "('s, 'x, 'y, 'a) jprog \<Rightarrow> 'a \<Rightarrow> bool" where
  ret: "may_return (JRet r) r"
| op: "may_return (fst (f t s)) r \<Longrightarrow> may_return (JOp f g) r"
| op_failed: "may_return (g e) r \<Longrightarrow> may_return (JOp f g) r"
| now: "may_return (f t) r \<Longrightarrow> may_return (JNow f) r"
| ask: "may_return (f y) r \<Longrightarrow> may_return (JAsk x f) r"

inductive_simps may_return_simps [simp]:
  "may_return (JRet r') r" "may_return (JOp f g) r" "may_return (JNow f) r" "may_return (JAsk x f) r"

text \<open>A store call goes on with some answer.\<close>

lemma jop_returns: "may_return (jop f k) r \<Longrightarrow> \<exists>a. may_return (k a) r"
  by (auto simp: jop_def)

text \<open>A program that returned a value got an answer to each call whose failure it passes on.\<close>

lemma jop_answers:
  assumes "may_return (jop f (\<lambda>r. case h r of Inl e \<Rightarrow> JRet (Inl e) | Inr m \<Rightarrow> k m)) (Inr x)"
  shows "\<exists>m. may_return (k m) (Inr x)"
proof -
  obtain a where "may_return (case h a of Inl e \<Rightarrow> JRet (Inl e) | Inr m \<Rightarrow> k m) (Inr x)"
    using jop_returns[OF assms] by blast
  then show ?thesis by (cases "h a") auto
qed

lemmas jread_answers = jop_answers[of "\<lambda>t s. (f t s, s)" for f, folded jread_def]

section \<open>A program that runs alone\<close>

text \<open>At one instant, asked by \<open>env\<close>: the answer, the store and what was asked.\<close>

primrec jexec :: "('s, 'x, 'y, 'a) jprog \<Rightarrow> time \<Rightarrow> ('x \<Rightarrow> 'y) \<Rightarrow> 's \<Rightarrow> 'a \<times> 's \<times> 'x list" where
  "jexec (JRet a) = (\<lambda>t env s. (a, s, []))"
| "jexec (JOp f g) = (\<lambda>t env s. let (r, s') = map_prod jexec id (f t s) in r t env s')"
| "jexec (JNow f) = (\<lambda>t env s. jexec (f t) t env s)"
| "jexec (JAsk x f) = (\<lambda>t env s. let (a, s', asked) = jexec (f (env x)) t env s in (a, s', x # asked))"

lemma jexec_jop [simp]: "jexec (jop f k) t env s = (let (r, s') = f t s in jexec (k (Inr r)) t env s')"
  by (simp add: jop_def case_prod_unfold Let_def)

end
