(* ===== verification/Job_Runner.thy ===== *)
theory Job_Runner
  imports Jobs Programs
begin

text \<open>
  The job runner of \<open>meta-whatsapp-bot/src/jobs/runner.rs\<close>, as programs over the port: a pass over a
  claimed job (\<open>execute\<close>), a send with its marker (\<open>Durable::send\<close>) and a tick. The paced broadcast between a pass and its sends is outside: it is given the recipients to
  send to, calls \<open>Durable::send\<close> for them in any order, again for one whose error may be resent, and
  the pass is told each one's outcome. What concurrent sends of one pass write to the pass's shared
  memory (an outcome, a reason to stop) is part of a send's result, and the reason to stop set so
  far an argument. Logging is left out.
\<close>

section \<open>A send with its marker\<close>

datatype outcome = OutcomeSent | OutcomeFailed | OutcomeUnknown

record send_result =
  sr_answer :: "error + string option"
  sr_outcome :: "outcome option"
  sr_stop :: "job_halt option"

definition halted_error :: "job_halt \<Rightarrow> error" where
  "halted_error why =
     Validation (validation_new ''job''
       (case why of
          HaltCancelled \<Rightarrow> ''the job was cancelled: not sent''
        | HaltLost \<Rightarrow> ''another runner holds the job: not sent''))"

text \<open>A request to Meta: whose marker it is made under, and the message.\<close>

record 'm send_ask =
  sa_key :: mark_key
  sa_from :: string
  sa_message :: 'm

type_synonym ('s, 'm) send_prog =
  "('s, 'm send_ask, error + string option, send_result) jprog"

definition not_sent :: "error \<Rightarrow> ('s, 'm) send_prog" where
  "not_sent e = JRet \<lparr>sr_answer = Inl e, sr_outcome = None, sr_stop = None\<rparr>"

text \<open>Remove the marker of a recipient nothing was sent to; one that stays is an outcome unknown.\<close>

definition unmark_then ::
  "'s jobs_port \<Rightarrow> job_claim \<Rightarrow> nat \<Rightarrow> error \<Rightarrow> job_halt option \<Rightarrow> ('s, 'm) send_prog" where
  "unmark_then port c i e stop =
     jop (\<lambda>t s. jp_unmark port c i s)
       (\<lambda>r. JRet \<lparr>sr_answer = Inl e,
                   sr_outcome = (if r = Inr True then None else Some OutcomeUnknown), sr_stop = stop\<rparr>)"

definition sent :: "'s jobs_port \<Rightarrow> job_claim \<Rightarrow> nat \<Rightarrow> string option \<Rightarrow> ('s, 'm) send_prog" where
  "sent port c i mid =
     jop (\<lambda>t s. jp_mark_outcome port t c i (RecordSent mid) s)
       (\<lambda>_. JRet \<lparr>sr_answer = Inr mid, sr_outcome = Some OutcomeSent, sr_stop = None\<rparr>)"

text \<open>After the marker: the per-user marketing limit, then the outcome.\<close>

definition refused_limit :: "'s jobs_port \<Rightarrow> job_claim \<Rightarrow> nat \<Rightarrow> error \<Rightarrow> ('s, 'm) send_prog" where
  "refused_limit port c i e =
     (let done = JRet \<lparr>sr_answer = Inl e,
            sr_outcome = Some (if may_have_been_sent e then OutcomeUnknown else OutcomeFailed),
            sr_stop = None\<rparr>
      in if is_marketing_limit (error_kind_of e)
         then jop (\<lambda>t s. jp_limit_recipient port t c i s) (\<lambda>_. done)
         else done)"

definition refused :: "'s jobs_port \<Rightarrow> job_claim \<Rightarrow> nat \<Rightarrow> error \<Rightarrow> ('s, 'm) send_prog" where
  "refused port c i e =
     (let code = map_option ge_code (error_graph e);
          outcome = (if may_have_been_sent e then RecordUnknown code else RecordFailed code)
      in jop (\<lambda>t s. jp_mark_outcome port t c i outcome s) (\<lambda>_. refused_limit port c i e))"

definition answered ::
  "'s jobs_port \<Rightarrow> job_claim \<Rightarrow> nat \<Rightarrow> error + string option \<Rightarrow> ('s, 'm) send_prog" where
  "answered port c i y =
     (case y of
        Inr mid \<Rightarrow> sent port c i mid
      | Inl e \<Rightarrow> if may_resend e then unmark_then port c i e None else refused port c i e)"

definition request_send ::
  "'s jobs_port \<Rightarrow> job_claim \<Rightarrow> nat \<Rightarrow> 'm \<Rightarrow> ('s, 'm) send_prog" where
  "request_send port c i m =
     JAsk \<lparr>sa_key = claim_key_of c i, sa_from = sj_from (jc_job c), sa_message = m\<rparr> (answered port c i)"

text \<open>With the marker in place: is the job still in this run, and not cancelled?\<close>

definition send_marked :: "'s jobs_port \<Rightarrow> job_claim \<Rightarrow> nat \<Rightarrow> 'm \<Rightarrow> ('s, 'm) send_prog" where
  "send_marked port c i m =
     jread (\<lambda>t s. jp_check_run port c s)
       (\<lambda>verdict. case verdict of
          Inr None \<Rightarrow> request_send port c i m
        | Inr (Some why) \<Rightarrow> unmark_then port c i (halted_error why) (Some why)
        | Inl e \<Rightarrow> unmark_then port c i e None)"

definition mark_and_send :: "'s jobs_port \<Rightarrow> job_claim \<Rightarrow> nat \<Rightarrow> 'm \<Rightarrow> ('s, 'm) send_prog" where
  "mark_and_send port c i m =
     jop (\<lambda>t s. jp_mark_sending port c i s)
       (\<lambda>r. case flatten r of
          Inl e \<Rightarrow> not_sent e
        | Inr True \<Rightarrow> send_marked port c i m
        | Inr False \<Rightarrow>
            JRet \<lparr>sr_answer = Inl (Validation (validation_new ''recipient''
                     ''another runner holds this recipient: not sent'')),
                  sr_outcome = Some OutcomeUnknown, sr_stop = None\<rparr>)"

text \<open>Fail closed: no request unless the job is still this runner's.\<close>

definition check_and_send ::
  "'s jobs_port \<Rightarrow> duration \<Rightarrow> job_claim \<Rightarrow> nat \<Rightarrow> 'm \<Rightarrow> ('s, 'm) send_prog" where
  "check_and_send port lease c i m =
     jop (\<lambda>t s. jp_hold port t c lease s)
       (\<lambda>r. case r of
          Inl e \<Rightarrow> not_sent e
        | Inr (Halted why) \<Rightarrow>
            JRet \<lparr>sr_answer = Inl (halted_error why), sr_outcome = None, sr_stop = Some why\<rparr>
        | Inr (Held _) \<Rightarrow> mark_and_send port c i m)"

definition durable_send ::
  "'s jobs_port \<Rightarrow> duration \<Rightarrow> job_claim \<Rightarrow> (string, nat) hashmap \<Rightarrow> job_halt option
     \<Rightarrow> recipient \<Rightarrow> 'm \<Rightarrow> ('s, 'm) send_prog" where
  "durable_send port lease c by_key halt to m =
     (case map_of by_key (case recipient_key to of Some k \<Rightarrow> k | None \<Rightarrow> []) of
        None \<Rightarrow> not_sent (Validation (validation_new ''recipient'' ''not a recipient of this job''))
      | Some i \<Rightarrow>
          (case halt of
             Some why \<Rightarrow> not_sent (halted_error why)
           | None \<Rightarrow> check_and_send port lease c i m))"

section \<open>A pass\<close>

record runner_config =
  rc_id :: string
  rc_lease :: duration
  rc_max_retries :: nat
  rc_retry_delay :: duration
  rc_max_retry_delay :: duration

datatype job_end =
  EndDone job_summary
| EndStopped job_summary
| EndRetrying time job_summary
| EndCancelled
| EndLeaseLost

text \<open>
  What a pass asks of the broadcast: the recipients to send to and their keys; what it is told: the
  outcome of each it has one for, and why the sends stopped, or the error of a broadcast that could
  not be set up.
\<close>

record pass_ask =
  pa_claim :: job_claim
  pa_pending :: "nat list"
  pa_by_key :: "(string, nat) hashmap"

type_synonym ('s, 'a) pass_prog =
  "('s, pass_ask, error + (nat, outcome) hashmap \<times> job_halt option, error + 'a) jprog"

definition halt_end :: "job_halt \<Rightarrow> job_end" where
  "halt_end why = (case why of HaltCancelled \<Rightarrow> EndCancelled | HaltLost \<Rightarrow> EndLeaseLost)"

text \<open>The lease kept by the runner's own account, read again when less than half of it is left.\<close>

definition keep ::
  "'s jobs_port \<Rightarrow> duration \<Rightarrow> job_claim \<Rightarrow> int
     \<Rightarrow> (error + job_halt option \<times> int \<Rightarrow> ('s, 'a) pass_prog) \<Rightarrow> ('s, 'a) pass_prog" where
  "keep port lease c until_ms k =
     JNow (\<lambda>now.
       if i64_saturating_sub until_ms (millis now) \<ge> duration_ms lease div 2 then k (Inr (None, until_ms))
       else jop (\<lambda>t s. jp_hold port t c lease s)
              (\<lambda>r. case r of
                 Inl e \<Rightarrow> k (Inl e)
               | Inr (Held until) \<Rightarrow> k (Inr (None, millis until))
               | Inr (Halted why) \<Rightarrow> k (Inr (Some why, until_ms))))"

text \<open>The recipients met, counted or left to send to.\<close>

record pass =
  ps_summary :: job_summary
  ps_pending :: "nat list"
  ps_by_key :: "(string, nat) hashmap"

definition meet :: "recipient \<Rightarrow> nat \<Rightarrow> recipient_mark \<Rightarrow> pass \<Rightarrow> pass" where
  "meet r i mark p =
     (let su = ps_summary p
      in case mark of
           MarkedSent \<Rightarrow> p\<lparr>ps_summary := su\<lparr>jsu_sent := jsu_sent su + 1\<rparr>\<rparr>
         | MarkedFailed \<Rightarrow> p\<lparr>ps_summary := su\<lparr>jsu_failed := jsu_failed su + 1\<rparr>\<rparr>
         | MarkedLimited \<Rightarrow> p\<lparr>ps_summary := su\<lparr>jsu_limited := jsu_limited su @ [i]\<rparr>\<rparr>
         | MarkedNot \<Rightarrow>
             p\<lparr>ps_pending := ps_pending p @ [i],
               ps_by_key := AList.update (case recipient_key r of Some k \<Rightarrow> k | None \<Rightarrow> []) i (ps_by_key p)\<rparr>
         | MarkedUnknown \<Rightarrow> p\<lparr>ps_summary := su\<lparr>jsu_unknown := jsu_unknown su @ [i]\<rparr>\<rparr>)"

primrec scan ::
  "'s jobs_port \<Rightarrow> duration \<Rightarrow> job_claim \<Rightarrow> recipient list \<Rightarrow> nat \<Rightarrow> int \<Rightarrow> pass
     \<Rightarrow> (pass \<Rightarrow> ('s, job_end) pass_prog) \<Rightarrow> ('s, job_end) pass_prog" where
  "scan port lease c [] i until_ms p k = k p"
| "scan port lease c (r # rs) i until_ms p k =
     keep port lease c until_ms (\<lambda>kept. case kept of
        Inl e \<Rightarrow> JRet (Inl e)
      | Inr (Some why, _) \<Rightarrow> JRet (Inr (halt_end why))
      | Inr (None, until_ms) \<Rightarrow>
          jread (\<lambda>t s. jp_recipient port t c i s) (\<lambda>m. case flatten m of
             Inl e \<Rightarrow> JRet (Inl e)
           | Inr m \<Rightarrow> scan port lease c rs (i + 1) until_ms (meet r i m p) k))"

text \<open>What became of each recipient sent to, counted.\<close>

fun count_outcome :: "(nat, outcome) hashmap \<Rightarrow> nat \<Rightarrow> job_summary \<Rightarrow> job_summary" where
  "count_outcome outcomes i su =
     (case map_of outcomes i of
        Some OutcomeSent \<Rightarrow> su\<lparr>jsu_sent := jsu_sent su + 1\<rparr>
      | Some OutcomeFailed \<Rightarrow> su\<lparr>jsu_failed := jsu_failed su + 1\<rparr>
      | Some OutcomeUnknown \<Rightarrow> su\<lparr>jsu_unknown := jsu_unknown su @ [i]\<rparr>
      | None \<Rightarrow> su\<lparr>jsu_unsent := jsu_unsent su + 1\<rparr>)"

declare count_outcome.simps [simp del]

definition settle_job ::
  "'s jobs_port \<Rightarrow> job_claim \<Rightarrow> job_state \<Rightarrow> job_summary \<Rightarrow> ('s, job_end) pass_prog" where
  "settle_job port c state su =
     jop (\<lambda>t s. jp_settle port c state su s) (\<lambda>r. case flatten r of
        Inl e \<Rightarrow> JRet (Inl e)
      | Inr (Some why) \<Rightarrow> JRet (Inr (halt_end why))
      | Inr None \<Rightarrow> JRet (Inr (if state = JobDone then EndDone su else EndStopped su)))"

definition reschedule ::
  "'s jobs_port \<Rightarrow> job_claim \<Rightarrow> time \<Rightarrow> job_summary \<Rightarrow> ('s, job_end) pass_prog" where
  "reschedule port c at su =
     (let at = job_instant (millis at)
      in jop (\<lambda>t s. jp_retry port c at su s) (\<lambda>r. case r of
           Inl e \<Rightarrow> JRet (Inl e)
         | Inr (Some why) \<Rightarrow> JRet (Inr (halt_end why))
         | Inr None \<Rightarrow> JRet (Inr (EndRetrying at su))))"

text \<open>\<open>Duration\<close> saturates at the greatest it can hold.\<close>

definition DURATION_MAX :: duration where
  "DURATION_MAX = (2 ^ 64 - 1) * 1000000000 + 999999999"

definition backoff_delay :: "runner_config \<Rightarrow> nat \<Rightarrow> duration" where
  "backoff_delay rc retries =
     min (min DURATION_MAX (rc_retry_delay rc * min (2 ^ retries) (2 ^ 32 - 1))) (rc_max_retry_delay rc)"

definition finish_pass ::
  "'s jobs_port \<Rightarrow> runner_config \<Rightarrow> job_claim \<Rightarrow> job_summary \<Rightarrow> ('s, job_end) pass_prog" where
  "finish_pass port rc c su =
     (let su = su\<lparr>jsu_unknown := sort (jsu_unknown su)\<rparr>
      in if jsu_unsent su = 0 then settle_job port c JobDone su
         else if sj_retries (jc_job c) \<ge> rc_max_retries rc then settle_job port c JobStopped su
         else JNow (\<lambda>now.
           reschedule port c (after_time now (backoff_delay rc (sj_retries (jc_job c)))) su))"

definition execute :: "'s jobs_port \<Rightarrow> runner_config \<Rightarrow> job_claim \<Rightarrow> ('s, job_end) pass_prog" where
  "execute port rc c =
     scan port (rc_lease rc) c (sj_recipients (jc_job c)) 0 (millis (jc_until c))
       \<lparr>ps_summary = summary_default, ps_pending = [], ps_by_key = []\<rparr>
       (\<lambda>p. if ps_pending p = [] then finish_pass port rc c (ps_summary p)
             else JAsk \<lparr>pa_claim = c, pa_pending = ps_pending p, pa_by_key = ps_by_key p\<rparr>
               (\<lambda>y. case y of
                  Inl e \<Rightarrow> JRet (Inl e)
                | Inr (_, Some why) \<Rightarrow> JRet (Inr (halt_end why))
                | Inr (outcomes, None) \<Rightarrow>
                    finish_pass port rc c
                      (fold (count_outcome outcomes) (ps_pending p) (ps_summary p))))"

section \<open>A tick\<close>

record job_run =
  jr_id :: string
  jr_run :: nat
  jr_ended :: job_end

text \<open>The jobs found due are claimed one at a time; each claim is handed over before the next.\<close>

primrec claim_each ::
  "'s jobs_port \<Rightarrow> runner_config \<Rightarrow> string list \<Rightarrow> job_run list \<Rightarrow> ('s, job_run list) pass_prog" where
  "claim_each port rc [] report = JRet (Inr report)"
| "claim_each port rc (n # ns) report =
     jop (\<lambda>t s. jp_claim port t n (rc_id rc) (rc_lease rc) s) (\<lambda>r. case r of
        Inl e \<Rightarrow> JRet (Inl e)
      | Inr None \<Rightarrow> claim_each port rc ns report
      | Inr (Some c) \<Rightarrow>
          jbind (execute port rc c) (\<lambda>ended.
            claim_each port rc ns
              (report @ [\<lparr>jr_id = sj_id (jc_job c), jr_run = sj_run (jc_job c), jr_ended = ended\<rparr>])))"

definition tick :: "'s jobs_port \<Rightarrow> runner_config \<Rightarrow> ('s, job_run list) pass_prog" where
  "tick port rc =
     jread (\<lambda>t s. jp_due port t s) (\<lambda>r. case r of
        Inl e \<Rightarrow> JRet (Inl e)
      | Inr due \<Rightarrow> claim_each port rc due [])"

end
