(* ===== verification/Memory_Jobs.thy ===== *)
theory Memory_Jobs
  imports Jobs
begin

text \<open>
  The in-process job store of \<open>meta-whatsapp-bot/src/jobs/memory.rs\<close>: jobs behind one mutex, so each
  operation is one function from state to answer and state. How long a sent message's id is kept is
  the store's setting, an argument of the operation that keeps it. The interpretation at the end
  shows the contract on markers; the lemmas before it say what a claim protects.
\<close>

section \<open>State\<close>

record job_entry =
  je_job :: scheduled_job
  je_order :: nat
  je_claims :: nat
  je_lease :: "(string \<times> nat \<times> time) option"

record jobs_state =
  jb_jobs :: "(string, job_entry) hashmap"
  jb_scheduled :: nat
  jb_markers :: "(mark_key, mark) hashmap"
  jb_messages :: "(string, string \<times> nat \<times> time) hashmap"
  jb_limited :: "(string \<times> nat, time) hashmap"

definition jobs_empty :: jobs_state where
  "jobs_empty =
     \<lparr>jb_jobs = [], jb_scheduled = 0, jb_markers = [], jb_messages = [], jb_limited = []\<rparr>"

definition held_by :: "job_claim \<Rightarrow> job_entry \<Rightarrow> bool" where
  "held_by c e \<longleftrightarrow>
     sj_state (je_job e) = JobClaimed
     \<and> (case je_lease e of None \<Rightarrow> False | Some (w, n, _) \<Rightarrow> w = jc_runner c \<and> n = jc_number c)"

definition claimable :: "time \<Rightarrow> job_entry \<Rightarrow> bool" where
  "claimable now e \<longleftrightarrow>
     (case sj_state (je_job e) of
        JobPending \<Rightarrow> sj_due_at (je_job e) \<le> now
      | JobClaimed \<Rightarrow> (case je_lease e of None \<Rightarrow> True | Some (_, _, until) \<Rightarrow> until \<le> now)
      | _ \<Rightarrow> False)"

definition entry_halt :: "job_claim \<Rightarrow> job_entry \<Rightarrow> job_halt option" where
  "entry_halt c e =
     (if sj_state (je_job e) = JobCancelled then Some HaltCancelled
      else if held_by c e then None else Some HaltLost)"

definition out_of_range :: error where
  "out_of_range = Validation (validation_new ''recipient'' ''not a recipient of this job'')"

text \<open>The entry of a job, written back.\<close>

definition put_entry :: "string \<Rightarrow> job_entry \<Rightarrow> jobs_state \<Rightarrow> jobs_state" where
  "put_entry n e st = st\<lparr>jb_jobs := AList.update n e (jb_jobs st)\<rparr>"

section \<open>Your code's side\<close>

definition same_schedule :: "scheduled_job \<Rightarrow> scheduled_job \<Rightarrow> bool" where
  "same_schedule a b \<longleftrightarrow>
     sj_id a = sj_id b \<and> sj_from a = sj_from b \<and> sj_due_at a = sj_due_at b
     \<and> sj_recipients a = sj_recipients b \<and> sj_payload a = sj_payload b \<and> sj_run a = 1"

definition schedule :: "job \<Rightarrow> jobs_state \<Rightarrow> (error + unit) \<times> jobs_state" where
  "schedule j st =
     (case into_scheduled j of
        Inl e \<Rightarrow> (Inl e, st)
      | Inr job \<Rightarrow>
          (case map_of (jb_jobs st) (sj_id job) of
             Some existing \<Rightarrow>
               (if same_schedule (je_job existing) job then Inr ()
                else Inl (Validation (validation_new ''id'' ''another job is stored under this id'')),
                st)
           | None \<Rightarrow>
               let order = min (jb_scheduled st + 1) (2 ^ 64 - 1);
                   st = st\<lparr>jb_scheduled := order\<rparr>
               in (Inr (), put_entry (sj_id job)
                     \<lparr>je_job = job, je_order = order, je_claims = 0, je_lease = None\<rparr> st)))"

definition cancel :: "string \<Rightarrow> jobs_state \<Rightarrow> bool \<times> jobs_state" where
  "cancel n st =
     (case map_of (jb_jobs st) n of
        None \<Rightarrow> (False, st)
      | Some e \<Rightarrow>
          if is_settled (sj_state (je_job e)) then (False, st)
          else (True, put_entry n (e\<lparr>je_job := (je_job e)\<lparr>sj_state := JobCancelled\<rparr>, je_lease := None\<rparr>) st))"

definition rerun :: "string \<Rightarrow> time \<Rightarrow> jobs_state \<Rightarrow> bool \<times> jobs_state" where
  "rerun n at st =
     (case map_of (jb_jobs st) n of
        None \<Rightarrow> (False, st)
      | Some e \<Rightarrow>
          if \<not> is_settled (sj_state (je_job e)) then (False, st)
          else (True, put_entry n
                 (e\<lparr>je_job := (je_job e)\<lparr>sj_state := JobPending, sj_run := u32_succ (sj_run (je_job e)),
                      sj_retries := 0, sj_summary := None, sj_due_at := at\<rparr>, je_lease := None\<rparr>) st))"

definition get_job :: "string \<Rightarrow> jobs_state \<Rightarrow> scheduled_job option" where
  "get_job n st = map_option je_job (map_of (jb_jobs st) n)"

text \<open>Limited from now, unless it already is.\<close>

definition limit_from :: "string \<Rightarrow> nat \<Rightarrow> time \<Rightarrow> jobs_state \<Rightarrow> jobs_state" where
  "limit_from n i now st =
     (let until = (case map_of (jb_limited st) (n, i) of None \<Rightarrow> now | Some u \<Rightarrow> u);
          until = (if until \<le> now then after_time now MARKETING_LIMIT_WAIT else until)
      in st\<lparr>jb_limited := AList.update (n, i) until (jb_limited st)\<rparr>)"

definition limit_message :: "time \<Rightarrow> string \<Rightarrow> jobs_state \<Rightarrow> bool \<times> jobs_state" where
  "limit_message now mid st =
     (case map_of (jb_messages st) mid of
        None \<Rightarrow> (False, st)
      | Some (n, i, until) \<Rightarrow>
          if until \<le> now then (False, st\<lparr>jb_messages := AList.delete mid (jb_messages st)\<rparr>)
          else (True, limit_from n i now st))"

section \<open>The runner's side\<close>

text \<open>The jobs due when the call starts, in the order of their due time, then of their scheduling.\<close>

definition due_jobs :: "time \<Rightarrow> jobs_state \<Rightarrow> string list" where
  "due_jobs now st =
     map (\<lambda>(_, _, n). n)
       (sort (map (\<lambda>(n, e). (sj_due_at (je_job e), je_order e, n))
                (filter (\<lambda>(_, e). claimable now e) (jb_jobs st))))"

definition claim_job ::
  "time \<Rightarrow> string \<Rightarrow> string \<Rightarrow> duration \<Rightarrow> jobs_state \<Rightarrow> job_claim option \<times> jobs_state" where
  "claim_job now n runner lease st =
     (case map_of (jb_jobs st) n of
        None \<Rightarrow> (None, st)
      | Some e \<Rightarrow>
          if \<not> claimable now e then (None, st)
          else
            let claims = u32_succ (je_claims e);
                until = after_time now lease;
                e = e\<lparr>je_claims := claims, je_job := (je_job e)\<lparr>sj_state := JobClaimed\<rparr>,
                      je_lease := Some (runner, claims, until)\<rparr>
            in (Some \<lparr>jc_job = je_job e, jc_runner = runner, jc_number = claims, jc_until = until\<rparr>,
                put_entry n e st))"

definition hold :: "time \<Rightarrow> job_claim \<Rightarrow> duration \<Rightarrow> jobs_state \<Rightarrow> holding \<times> jobs_state" where
  "hold now c lease st =
     (case map_of (jb_jobs st) (sj_id (jc_job c)) of
        None \<Rightarrow> (Halted HaltLost, st)
      | Some e \<Rightarrow>
          (case entry_halt c e of
             Some halt \<Rightarrow> (Halted halt, st)
           | None \<Rightarrow>
               (case je_lease e of
                  None \<Rightarrow> (Halted HaltLost, st)
                | Some (w, k, until) \<Rightarrow>
                    let until = (if until - now < int (lease div 2) then after_time now lease else until)
                    in (Held until, put_entry (sj_id (jc_job c)) (e\<lparr>je_lease := Some (w, k, until)\<rparr>) st))))"

definition check_run :: "job_claim \<Rightarrow> jobs_state \<Rightarrow> job_halt option" where
  "check_run c st =
     (case map_of (jb_jobs st) (sj_id (jc_job c)) of
        None \<Rightarrow> Some HaltLost
      | Some e \<Rightarrow>
          if sj_state (je_job e) = JobCancelled then Some HaltCancelled
          else if sj_run (je_job e) \<noteq> sj_run (jc_job c) then Some HaltLost
          else None)"

definition recipient_of :: "time \<Rightarrow> job_claim \<Rightarrow> nat \<Rightarrow> jobs_state \<Rightarrow> error + recipient_mark" where
  "recipient_of now c i st =
     (if i \<ge> length (sj_recipients (jc_job c)) then Inl out_of_range
      else
        (case map_of (jb_markers st) (claim_key_of c i) of
           Some m \<Rightarrow>
             (case m of
                MarkSent \<Rightarrow> Inr MarkedSent
              | MarkFailed \<Rightarrow> Inr MarkedFailed
              | MarkSending _ \<Rightarrow> Inr MarkedUnknown
              | MarkUnknown \<Rightarrow> Inr MarkedUnknown)
         | None \<Rightarrow>
             (case map_of (jb_limited st) (sj_id (jc_job c), i) of
                Some until \<Rightarrow> Inr (if until > now then MarkedLimited else MarkedNot)
              | None \<Rightarrow> Inr MarkedNot)))"

definition mark_sending :: "job_claim \<Rightarrow> nat \<Rightarrow> jobs_state \<Rightarrow> (error + bool) \<times> jobs_state" where
  "mark_sending c i st =
     (if i \<ge> length (sj_recipients (jc_job c)) then (Inl out_of_range, st)
      else
        let key = claim_key_of c i
        in if map_of (jb_markers st) key \<noteq> None then (Inr False, st)
           else (Inr True, st\<lparr>jb_markers := AList.update key (MarkSending (jc_runner c)) (jb_markers st)\<rparr>))"

definition mark_outcome ::
  "duration \<Rightarrow> time \<Rightarrow> job_claim \<Rightarrow> nat \<Rightarrow> send_record \<Rightarrow> jobs_state \<Rightarrow> bool \<times> jobs_state" where
  "mark_outcome ttl now c i outcome st =
     (let key = claim_key_of c i
      in if map_of (jb_markers st) key \<noteq> Some (MarkSending (jc_runner c)) then (False, st)
         else
           let st = (case outcome of
                       RecordSent (Some mid) \<Rightarrow>
                         st\<lparr>jb_messages := AList.update mid (sj_id (jc_job c), i, after_time now ttl)
                              (filter (\<lambda>(_, _, _, until). until > now) (jb_messages st))\<rparr>
                     | _ \<Rightarrow> st)
           in (True, st\<lparr>jb_markers := AList.update key (record_mark outcome) (jb_markers st)\<rparr>))"

definition unmark :: "job_claim \<Rightarrow> nat \<Rightarrow> jobs_state \<Rightarrow> bool \<times> jobs_state" where
  "unmark c i st =
     (let key = claim_key_of c i
      in if map_of (jb_markers st) key = Some (MarkSending (jc_runner c))
         then (True, st\<lparr>jb_markers := AList.delete key (jb_markers st)\<rparr>)
         else (False, st))"

definition limit_recipient :: "time \<Rightarrow> job_claim \<Rightarrow> nat \<Rightarrow> jobs_state \<Rightarrow> (error + unit) \<times> jobs_state" where
  "limit_recipient now c i st =
     (if i \<ge> length (sj_recipients (jc_job c)) then (Inl out_of_range, st)
      else (Inr (), limit_from (sj_id (jc_job c)) i now st))"

definition settle ::
  "job_claim \<Rightarrow> job_state \<Rightarrow> job_summary \<Rightarrow> jobs_state \<Rightarrow> (error + job_halt option) \<times> jobs_state" where
  "settle c state summary st =
     (if state \<noteq> JobDone \<and> state \<noteq> JobStopped
      then (Inl (Validation (validation_new ''state'' ''a job settles as done or stopped'')), st)
      else
        (case map_of (jb_jobs st) (sj_id (jc_job c)) of
           None \<Rightarrow> (Inr (Some HaltLost), st)
         | Some e \<Rightarrow>
             (case entry_halt c e of
                Some halt \<Rightarrow> (Inr (Some halt), st)
              | None \<Rightarrow>
                  (Inr None, put_entry (sj_id (jc_job c))
                     (e\<lparr>je_job := (je_job e)\<lparr>sj_state := state, sj_summary := Some summary\<rparr>,
                        je_lease := None\<rparr>) st))))"

definition retry ::
  "job_claim \<Rightarrow> time \<Rightarrow> job_summary \<Rightarrow> jobs_state \<Rightarrow> job_halt option \<times> jobs_state" where
  "retry c at summary st =
     (case map_of (jb_jobs st) (sj_id (jc_job c)) of
        None \<Rightarrow> (Some HaltLost, st)
      | Some e \<Rightarrow>
          (case entry_halt c e of
             Some halt \<Rightarrow> (Some halt, st)
           | None \<Rightarrow>
               (None, put_entry (sj_id (jc_job c))
                  (e\<lparr>je_job := (je_job e)\<lparr>sj_state := JobPending,
                       sj_retries := u32_succ (sj_retries (je_job e)), sj_due_at := at\<rparr>,
                     je_lease := None\<rparr>) st)))"

definition memory_jobs :: "duration \<Rightarrow> jobs_state jobs_port" where
  "memory_jobs ttl =
     \<lparr>jp_schedule = schedule, jp_cancel = cancel, jp_rerun = rerun, jp_get = get_job,
      jp_limit_message = limit_message, jp_due = due_jobs, jp_claim = claim_job, jp_hold = hold,
      jp_check_run = check_run, jp_recipient = recipient_of, jp_mark_sending = mark_sending,
      jp_mark_outcome = mark_outcome ttl, jp_unmark = unmark, jp_limit_recipient = limit_recipient,
      jp_settle = settle, jp_retry = retry\<rparr>"

section \<open>The contract on markers\<close>

definition memory_marker :: "jobs_state \<Rightarrow> mark_key \<Rightarrow> mark option" where
  "memory_marker st = map_of (jb_markers st)"

lemma put_entry_markers [simp]: "jb_markers (put_entry n e st) = jb_markers st"
  by (simp add: put_entry_def)

lemma limit_from_markers [simp]: "jb_markers (limit_from n i now st) = jb_markers st"
  by (simp add: limit_from_def Let_def)

interpretation memory: job_store "memory_jobs ttl" memory_marker
  by (unfold_locales;
    auto simp: memory_jobs_def memory_marker_def fun_eq_iff mark_sending_def mark_outcome_def unmark_def
      schedule_def cancel_def rerun_def limit_message_def claim_job_def hold_def limit_recipient_def
      settle_def retry_def Let_def split: if_splits option.splits sum.splits send_record.splits prod.splits)

end
