(* ===== verification/Job_Sends.thy ===== *)
theory Job_Sends
  imports Job_Runner Memory_Jobs
begin

text \<open>
  Sends of any number of runners, interleaved. A pool holds the store, the time, the sends begun
  (each a \<open>Durable::send\<close> of some claim and recipient) and the log of requests made to Meta and
  their answers. Any send may take a step, stop for good (a crash), or have a store call fail, also
  after it took effect; new sends begin at any time, and everyone else may call the store. The
  invariant: at most one send owns a recipient's marker, and the log agrees with the markers.
\<close>

section \<open>The pool\<close>

text \<open>A send between its steps: running, or waiting for Meta's answer.\<close>

datatype ('s, 'm) send_state =
  Running "('s, 'm) send_prog"
| Waiting "error + string option \<Rightarrow> ('s, 'm) send_prog"

record ('s, 'm) send_proc =
  sp_claim :: job_claim
  sp_index :: nat
  sp_state :: "('s, 'm) send_state"

datatype send_event = Requested mark_key | Answered mark_key "error + string option"

record ('s, 'm) send_pool =
  sl_store :: 's
  sl_now :: time
  sl_procs :: "('s, 'm) send_proc list"
  sl_log :: "send_event list"

inductive send_step :: "('s, 'm) send_pool \<Rightarrow> nat \<Rightarrow> ('s, 'm) send_state \<Rightarrow> 's \<Rightarrow> send_event list \<Rightarrow> bool" where
  op: "sp_state (sl_procs P ! n) = Running (JOp f g) \<Longrightarrow> f (sl_now P) (sl_store P) = (p, s') \<Longrightarrow>
    send_step P n (Running p) s' []"
| op_refused: "sp_state (sl_procs P ! n) = Running (JOp f g) \<Longrightarrow>
    send_step P n (Running (g e)) (sl_store P) []"
| op_lost: "sp_state (sl_procs P ! n) = Running (JOp f g) \<Longrightarrow> f (sl_now P) (sl_store P) = (p, s') \<Longrightarrow>
    send_step P n (Running (g e)) s' []"
| request: "sp_state (sl_procs P ! n) = Running (JAsk x f) \<Longrightarrow>
    send_step P n (Waiting f) (sl_store P) [Requested (sa_key x)]"
| answer: "sp_state (sl_procs P ! n) = Waiting f \<Longrightarrow>
    send_step P n (Running (f y)) (sl_store P)
      [Answered (claim_key_of (sp_claim (sl_procs P ! n)) (sp_index (sl_procs P ! n))) y]"

text \<open>\<open>other\<close> is what everyone else may do to the store.\<close>

inductive send_run ::
  "'s jobs_port \<Rightarrow> (time \<Rightarrow> 's \<Rightarrow> 's \<Rightarrow> bool) \<Rightarrow> ('s, 'm) send_pool \<Rightarrow> ('s, 'm) send_pool \<Rightarrow> bool"
  for port :: "'s jobs_port" and other :: "time \<Rightarrow> 's \<Rightarrow> 's \<Rightarrow> bool" and P :: "('s, 'm) send_pool" where
  start: "send_run port other P P"
| pass_time: "send_run port other P Q \<Longrightarrow> sl_now Q \<le> t \<Longrightarrow> send_run port other P (Q\<lparr>sl_now := t\<rparr>)"
| begin_send: "send_run port other P Q \<Longrightarrow> map_of by_key (the (recipient_key to)) = Some i \<Longrightarrow>
    send_run port other P (Q\<lparr>sl_procs := sl_procs Q @
      [\<lparr>sp_claim = c, sp_index = i,
        sp_state = Running (durable_send port lease c by_key halt to m)\<rparr>]\<rparr>)"
| step: "send_run port other P Q \<Longrightarrow> n < length (sl_procs Q) \<Longrightarrow> send_step Q n st s' evs \<Longrightarrow>
    send_run port other P (Q\<lparr>sl_store := s', sl_log := sl_log Q @ evs,
      sl_procs := (sl_procs Q)[n := (sl_procs Q ! n)\<lparr>sp_state := st\<rparr>]\<rparr>)"
| others: "send_run port other P Q \<Longrightarrow> other (sl_now Q) (sl_store Q) s' \<Longrightarrow>
    send_run port other P (Q\<lparr>sl_store := s'\<rparr>)"

inductive_cases send_stepE: "send_step P n st s' evs"

definition requests :: "mark_key \<Rightarrow> send_event list \<Rightarrow> nat" where
  "requests k log = length (filter (\<lambda>e. e = Requested k) log)"

text \<open>The requests Meta answered with an error that proves it did nothing.\<close>

definition untouched :: "mark_key \<Rightarrow> send_event list \<Rightarrow> nat" where
  "untouched k log =
     length (filter (\<lambda>e. case e of Answered k' (Inl err) \<Rightarrow> k' = k \<and> may_resend err | _ \<Rightarrow> False) log)"

lemma counts_append [simp]:
  "requests k (a @ b) = requests k a + requests k b"
  "untouched k (a @ b) = untouched k a + untouched k b"
  by (simp_all add: requests_def untouched_def)

lemma counts_one [simp]:
  "requests k [] = 0" "untouched k [] = 0"
  "requests k [Requested k'] = (if k' = k then 1 else 0)" "untouched k [Requested k'] = 0"
  "requests k [Answered k' y] = 0"
  "untouched k [Answered k' (Inr mid)] = 0"
  "untouched k [Answered k' (Inl e)] = (if k' = k \<and> may_resend e then 1 else 0)"
  by (auto simp: requests_def untouched_def)

section \<open>Where a send is\<close>

datatype 'm place =
  AtStart duration 'm
| AtMark 'm
| AtCheck 'm
| AtRequest 'm
| AtAnswer
| AtSent "string option"
| AtRefused error
| AtUnmark error "job_halt option"
| AtLimit error
| AtEnd

fun owns :: "'m place \<Rightarrow> bool" where
  "owns (AtCheck _) \<longleftrightarrow> True"
| "owns (AtRequest _) \<longleftrightarrow> True"
| "owns AtAnswer \<longleftrightarrow> True"
| "owns (AtSent _) \<longleftrightarrow> True"
| "owns (AtRefused _) \<longleftrightarrow> True"
| "owns (AtUnmark _ _) \<longleftrightarrow> True"
| "owns _ \<longleftrightarrow> False"

text \<open>Whether the owner's last request may have done something.\<close>

fun may_have_done :: "'m place \<Rightarrow> bool" where
  "may_have_done AtAnswer \<longleftrightarrow> True"
| "may_have_done (AtSent _) \<longleftrightarrow> True"
| "may_have_done (AtRefused _) \<longleftrightarrow> True"
| "may_have_done _ \<longleftrightarrow> False"

fun at_place :: "'s jobs_port \<Rightarrow> job_claim \<Rightarrow> nat \<Rightarrow> 'm place \<Rightarrow> ('s, 'm) send_state \<Rightarrow> bool" where
  "at_place port c i (AtStart lease m) x \<longleftrightarrow> x = Running (check_and_send port lease c i m)"
| "at_place port c i (AtMark m) x \<longleftrightarrow> x = Running (mark_and_send port c i m)"
| "at_place port c i (AtCheck m) x \<longleftrightarrow> x = Running (send_marked port c i m)"
| "at_place port c i (AtRequest m) x \<longleftrightarrow> x = Running (request_send port c i m)"
| "at_place port c i AtAnswer x \<longleftrightarrow> x = Waiting (answered port c i)"
| "at_place port c i (AtSent mid) x \<longleftrightarrow> x = Running (sent port c i mid)"
| "at_place port c i (AtRefused e) x \<longleftrightarrow> x = Running (refused port c i e)"
| "at_place port c i (AtUnmark e stop) x \<longleftrightarrow> x = Running (unmark_then port c i e stop)"
| "at_place port c i (AtLimit e) x \<longleftrightarrow> x = Running (refused_limit port c i e)"
| "at_place port c i AtEnd x \<longleftrightarrow> (\<exists>r. x = Running (JRet r))"

lemma begins:
  assumes "map_of by_key (the (recipient_key to)) = Some i"
  shows "\<exists>pl. at_place port c i pl (Running (durable_send port lease c by_key halt to m)) \<and> \<not> owns pl"
proof -
  obtain k where "recipient_key to = Some k" by (cases to) auto
  then have "durable_send port lease c by_key halt to m
      = (case halt of Some why \<Rightarrow> not_sent (halted_error why) | None \<Rightarrow> check_and_send port lease c i m)"
    using assms by (simp add: durable_send_def)
  then show ?thesis
    by (cases halt) (auto simp: not_sent_def intro: exI[of _ "AtStart lease m"] exI[of _ AtEnd])
qed

definition proc_key :: "('s, 'm) send_proc \<Rightarrow> mark_key" where
  "proc_key x = claim_key_of (sp_claim x) (sp_index x)"

definition unsettled :: "'m place \<Rightarrow> nat" where
  "unsettled pl = (if may_have_done pl then 1 else 0)"

text \<open>
  What a step does to the markers and the log, when a send at \<open>pl\<close> for the key \<open>k\<close> and the runner
  \<open>w\<close> moves to \<open>pl'\<close>.
\<close>

definition moved ::
  "mark_key \<Rightarrow> string \<Rightarrow> 'm place \<Rightarrow> 'm place \<Rightarrow> (mark_key \<Rightarrow> mark option) \<Rightarrow> (mark_key \<Rightarrow> mark option)
     \<Rightarrow> send_event list \<Rightarrow> bool" where
  "moved k w pl pl' M M' evs \<longleftrightarrow>
     (\<forall>k'. k' \<noteq> k \<longrightarrow> M' k' = M k' \<and> requests k' evs = 0 \<and> untouched k' evs = 0)
     \<and> (if owns pl
        then M k = Some (MarkSending w) \<longrightarrow>
          (if owns pl'
           then M' k = M k \<and> requests k evs + unsettled pl = untouched k evs + unsettled pl'
           else evs = [] \<and> (M' k = None \<longrightarrow> \<not> may_have_done pl))
        else evs = [] \<and>
          (if owns pl' then M k = None \<and> M' k = Some (MarkSending w) \<and> \<not> may_have_done pl'
           else (M k \<noteq> None \<longrightarrow> M' k = M k) \<and> (M' k = None \<longrightarrow> M k = None)))"

lemma moved_same: "\<not> owns pl \<Longrightarrow> \<not> owns pl' \<Longrightarrow> moved k w pl pl' M M []"
  by (simp add: moved_def)

lemma moved_out:
  assumes "owns pl" "\<not> owns pl'" "\<forall>k'. k' \<noteq> k \<longrightarrow> M' k' = M k'"
    and "may_have_done pl \<Longrightarrow> M k \<noteq> None \<Longrightarrow> M' k \<noteq> None"
  shows "moved k w pl pl' M M' []"
proof -
  have "M k = Some (MarkSending w) \<Longrightarrow> M' k = None \<Longrightarrow> \<not> may_have_done pl" using assms(4) by auto
  then show ?thesis using assms(1-3) unfolding moved_def by simp
qed

lemma jop_step:
  assumes "send_step P n st s' evs" and "sp_state (sl_procs P ! n) = Running (jop h k)"
  obtains r where "h (sl_now P) (sl_store P) = (r, s')" "st = Running (k (Inr r))" "evs = []"
  | e where "s' = sl_store P" "st = Running (k (Inl e))" "evs = []"
  | e r where "h (sl_now P) (sl_store P) = (r, s')" "st = Running (k (Inl e))" "evs = []"
  using assms
proof (cases rule: send_step.cases)
  case (op f g p)
  then show ?thesis using assms(2) that(1)
    by (cases "h (sl_now P) (sl_store P)") (auto simp: jop_def)
next
  case (op_refused f g e)
  then show ?thesis using assms(2) that(2) by (auto simp: jop_def)
next
  case (op_lost f g p e)
  then show ?thesis using assms(2) that(3)
    by (cases "h (sl_now P) (sl_store P)") (auto simp: jop_def)
qed (use assms(2) in \<open>auto simp: jop_def\<close>)

lemma ends: "at_place port c i AtEnd (Running (JRet r))"
  by simp

context job_store
begin

text \<open>One step of a send at each place.\<close>

lemma step_start:
  assumes step: "send_step P n st s' evs"
    and at: "at_place port c i (AtStart lease m) (sp_state (sl_procs P ! n))"
  shows "\<exists>pl'. at_place port c i pl' st \<and> moved k w (AtStart lease m) pl' (marker (sl_store P)) (marker s') evs"
proof -
  have "sp_state (sl_procs P ! n) = Running (check_and_send port lease c i m)" using at by simp
  from jop_step[OF step this[unfolded check_and_send_def]] show ?thesis
  proof cases
    case (1 r)
    then have same: "marker s' = marker (sl_store P)" using hold_marker by blast
    show ?thesis
    proof (cases r)
      case (Held u)
      then show ?thesis using 1 same by (intro exI[of _ "AtMark m"]) (simp add: moved_same)
    qed (use 1 same in \<open>intro exI[of _ AtEnd], simp add: moved_same\<close>)
  next
    case (2 e)
    then show ?thesis by (intro exI[of _ AtEnd]) (simp add: not_sent_def moved_same)
  next
    case (3 e r)
    then have "marker s' = marker (sl_store P)" using hold_marker by blast
    then show ?thesis using 3 by (intro exI[of _ AtEnd]) (simp add: not_sent_def moved_same)
  qed
qed

lemma step_mark:
  assumes step: "send_step P n st s' evs" and at: "at_place port c i (AtMark m) (sp_state (sl_procs P ! n))"
  shows "\<exists>pl'. at_place port c i pl' st
    \<and> moved (claim_key_of c i) (jc_runner c) (AtMark m) pl' (marker (sl_store P)) (marker s') evs"
proof -
  have "sp_state (sl_procs P ! n) = Running (mark_and_send port c i m)" using at by simp
  from jop_step[OF step this[unfolded mark_and_send_def]] show ?thesis
  proof cases
    case (1 r)
    show ?thesis
    proof (cases "r = Inr True")
      case True
      with 1 show ?thesis
        using mark_sending_created[of c i "sl_store P" s']
        by (intro exI[of _ "AtCheck m"]) (simp add: moved_def)
    next
      case False
      then have "marker s' = marker (sl_store P)" using 1 mark_sending_refused by blast
      moreover obtain x where "st = Running (JRet x)"
        using False 1 by (cases r) (auto simp: not_sent_def split: bool.splits)
      ultimately show ?thesis using 1 by (intro exI[of _ AtEnd]) (simp add: moved_same)
    qed
  next
    case (2 e)
    then show ?thesis by (intro exI[of _ AtEnd]) (simp add: not_sent_def moved_same)
  next
    case (3 e r)
    then show ?thesis
      using mark_sending_created[of c i "sl_store P" s'] mark_sending_refused[of c i "sl_store P" r s']
      by (intro exI[of _ AtEnd]) (cases "r = Inr True"; simp add: not_sent_def moved_same; simp add: moved_def)
  qed
qed

lemma step_check:
  assumes step: "send_step P n st s' evs" and at: "at_place port c i (AtCheck m) (sp_state (sl_procs P ! n))"
  shows "\<exists>pl'. at_place port c i pl' st \<and> moved k w (AtCheck m) pl' (marker (sl_store P)) (marker s') evs"
proof -
  have "sp_state (sl_procs P ! n) = Running (send_marked port c i m)" using at by simp
  from jop_step[OF step this[unfolded send_marked_def jread_def]] show ?thesis
  proof cases
    case (1 r)
    show ?thesis
    proof (cases r)
      case None
      then show ?thesis using 1 by (intro exI[of _ "AtRequest m"]) (simp add: moved_def unsettled_def)
    next
      case (Some why)
      then show ?thesis using 1
        by (intro exI[of _ "AtUnmark (halted_error why) (Some why)"]) (simp add: moved_def unsettled_def)
    qed
  next
    case (2 e)
    then show ?thesis by (intro exI[of _ "AtUnmark e None"]) (simp add: moved_def unsettled_def)
  next
    case (3 e r)
    then show ?thesis by (intro exI[of _ "AtUnmark e None"]) (simp add: moved_def unsettled_def)
  qed
qed

lemma step_request:
  assumes step: "send_step P n st s' evs" and at: "at_place port c i (AtRequest m) (sp_state (sl_procs P ! n))"
  shows "\<exists>pl'. at_place port c i pl' st
    \<and> moved (claim_key_of c i) w (AtRequest m) pl' (marker (sl_store P)) (marker s') evs"
  using step
proof (cases rule: send_step.cases)
  case (request x f)
  then show ?thesis using at
    by (intro exI[of _ AtAnswer]) (auto simp: request_send_def moved_def unsettled_def)
qed (use at in \<open>auto simp: request_send_def\<close>)

lemma step_answer:
  assumes step: "send_step P n st s' evs" and at: "at_place port c i AtAnswer (sp_state (sl_procs P ! n))"
    and "sp_claim (sl_procs P ! n) = c" "sp_index (sl_procs P ! n) = i"
  shows "\<exists>pl'. at_place port c i pl' st
    \<and> moved (claim_key_of c i) w AtAnswer pl' (marker (sl_store P)) (marker s') evs"
  using step
proof (cases rule: send_step.cases)
  case (answer f y)
  then have st: "st = Running (answered port c i y)" using at by simp
  show ?thesis
  proof (cases y)
    case (Inl e)
    show ?thesis
    proof (cases "may_resend e")
      case True
      then show ?thesis using answer Inl st assms(3,4)
        by (intro exI[of _ "AtUnmark e None"]) (simp add: answered_def moved_def unsettled_def)
    next
      case False
      then show ?thesis using answer Inl st assms(3,4)
        by (intro exI[of _ "AtRefused e"]) (simp add: answered_def moved_def unsettled_def)
    qed
  next
    case (Inr mid)
    then show ?thesis using answer st assms(3,4)
      by (intro exI[of _ "AtSent mid"]) (simp add: answered_def moved_def unsettled_def)
  qed
qed (use at in auto)

lemma outcome_marker:
  assumes "jp_mark_outcome port t c i rec s = (b, s')"
  shows "(\<forall>k. k \<noteq> claim_key_of c i \<longrightarrow> marker s' k = marker s k)
    \<and> (marker s (claim_key_of c i) \<noteq> None \<longrightarrow> marker s' (claim_key_of c i) \<noteq> None)"
  using mark_outcome_written[of t c i rec s s'] mark_outcome_refused[of t c i rec s s'] assms
  by (cases b) auto

lemma unmark_marker:
  assumes "jp_unmark port c i s = (b, s')"
  shows "\<forall>k. k \<noteq> claim_key_of c i \<longrightarrow> marker s' k = marker s k"
  using unmark_removed[of c i s s'] unmark_refused[of c i s s'] assms by (cases b) auto

lemma step_sent:
  fixes P :: "('s, 'm) send_pool"
  assumes step: "send_step P n st s' evs" and at: "at_place port c i (AtSent mid) (sp_state (sl_procs P ! n))"
  shows "\<exists>pl'. at_place port c i pl' st
    \<and> moved (claim_key_of c i) w (AtSent mid) pl' (marker (sl_store P)) (marker s') evs"
proof -
  have "sp_state (sl_procs P ! n) = Running (sent port c i mid)" using at by simp
  from jop_step[OF step this[unfolded sent_def]] show ?thesis
  proof cases
    case (1 r)
    have "moved (claim_key_of c i) w (AtSent mid) (AtEnd :: 'm place) (marker (sl_store P)) (marker s') []"
      by (rule moved_out) (use outcome_marker[OF 1(1)] in \<open>(simp; fail | blast)\<close>)+
    then show ?thesis using 1 by (intro exI[of _ "AtEnd :: 'm place"] conjI) simp_all
  next
    case (2 e)
    then show ?thesis by (intro exI[of _ "AtEnd :: 'm place"] conjI) (simp_all add: moved_out)
  next
    case (3 e r)
    have "moved (claim_key_of c i) w (AtSent mid) (AtEnd :: 'm place) (marker (sl_store P)) (marker s') []"
      by (rule moved_out) (use outcome_marker[OF 3(1)] in \<open>(simp; fail | blast)\<close>)+
    then show ?thesis using 3 by (intro exI[of _ "AtEnd :: 'm place"] conjI) simp_all
  qed
qed

lemma step_refused:
  fixes P :: "('s, 'm) send_pool"
  assumes step: "send_step P n st s' evs" and at: "at_place port c i (AtRefused e) (sp_state (sl_procs P ! n))"
  shows "\<exists>pl'. at_place port c i pl' st
    \<and> moved (claim_key_of c i) w (AtRefused e) pl' (marker (sl_store P)) (marker s') evs"
proof -
  have "sp_state (sl_procs P ! n) = Running (refused port c i e)" using at by simp
  from jop_step[OF step this[unfolded refused_def Let_def]] show ?thesis
  proof cases
    case (1 r)
    have "moved (claim_key_of c i) w (AtRefused e) (AtLimit e :: 'm place) (marker (sl_store P)) (marker s') []"
      by (rule moved_out) (use outcome_marker[OF 1(1)] in \<open>(simp; fail | blast)\<close>)+
    then show ?thesis using 1 by (intro exI[of _ "AtLimit e :: 'm place"] conjI) simp_all
  next
    case (2 err)
    then show ?thesis by (intro exI[of _ "AtLimit e :: 'm place"] conjI) (simp_all add: moved_out)
  next
    case (3 err r)
    have "moved (claim_key_of c i) w (AtRefused e) (AtLimit e :: 'm place) (marker (sl_store P)) (marker s') []"
      by (rule moved_out) (use outcome_marker[OF 3(1)] in \<open>(simp; fail | blast)\<close>)+
    then show ?thesis using 3 by (intro exI[of _ "AtLimit e :: 'm place"] conjI) simp_all
  qed
qed

lemma step_unmark:
  fixes P :: "('s, 'm) send_pool"
  assumes step: "send_step P n st s' evs" and at: "at_place port c i (AtUnmark e stop) (sp_state (sl_procs P ! n))"
  shows "\<exists>pl'. at_place port c i pl' st
    \<and> moved (claim_key_of c i) w (AtUnmark e stop) pl' (marker (sl_store P)) (marker s') evs"
proof -
  have "sp_state (sl_procs P ! n) = Running (unmark_then port c i e stop)" using at by simp
  from jop_step[OF step this[unfolded unmark_then_def]] show ?thesis
  proof cases
    case (1 r)
    have "moved (claim_key_of c i) w (AtUnmark e stop) (AtEnd :: 'm place) (marker (sl_store P)) (marker s') []"
      by (rule moved_out) (use unmark_marker[OF 1(1)] in \<open>(simp; fail | blast)\<close>)+
    then show ?thesis using 1 by (intro exI[of _ "AtEnd :: 'm place"] conjI) simp_all
  next
    case (2 err)
    then show ?thesis by (intro exI[of _ "AtEnd :: 'm place"] conjI) (simp_all add: moved_out)
  next
    case (3 err r)
    have "moved (claim_key_of c i) w (AtUnmark e stop) (AtEnd :: 'm place) (marker (sl_store P)) (marker s') []"
      by (rule moved_out) (use unmark_marker[OF 3(1)] in \<open>(simp; fail | blast)\<close>)+
    then show ?thesis using 3 by (intro exI[of _ "AtEnd :: 'm place"] conjI) simp_all
  qed
qed

lemma step_limit:
  assumes step: "send_step P n st s' evs" and at: "at_place port c i (AtLimit e) (sp_state (sl_procs P ! n))"
  shows "\<exists>pl'. at_place port c i pl' st \<and> moved k w (AtLimit e) pl' (marker (sl_store P)) (marker s') evs"
proof (cases "is_marketing_limit (error_kind_of e)")
  case True
  then have "sp_state (sl_procs P ! n) = Running (jop (\<lambda>t s. jp_limit_recipient port t c i s)
      (\<lambda>_. JRet \<lparr>sr_answer = Inl e,
            sr_outcome = Some (if may_have_been_sent e then OutcomeUnknown else OutcomeFailed), sr_stop = None\<rparr>))"
    using at by (simp add: refused_limit_def Let_def)
  from jop_step[OF step this] show ?thesis
    by cases (use limit_recipient_marker in \<open>fastforce simp: moved_same intro: exI[of _ AtEnd]\<close>)+
next
  case False
  then show ?thesis using step at by (auto simp: refused_limit_def Let_def elim: send_step.cases)
qed

lemma step_end: "send_step P n st s' evs \<Longrightarrow> \<not> at_place port c i AtEnd (sp_state (sl_procs P ! n))"
  by (auto elim: send_step.cases)

lemma place_step:
  assumes "send_step P n st s' evs"
    and "at_place port (sp_claim (sl_procs P ! n)) (sp_index (sl_procs P ! n)) pl (sp_state (sl_procs P ! n))"
  shows "\<exists>pl'. at_place port (sp_claim (sl_procs P ! n)) (sp_index (sl_procs P ! n)) pl' st
    \<and> moved (proc_key (sl_procs P ! n)) (jc_runner (sp_claim (sl_procs P ! n))) pl pl'
        (marker (sl_store P)) (marker s') evs"
proof (cases pl)
  case AtStart
  then show ?thesis using step_start[OF assms(1)] assms(2) unfolding proc_key_def by blast
next
  case AtMark
  then show ?thesis using step_mark[OF assms(1)] assms(2) unfolding proc_key_def by blast
next
  case AtCheck
  then show ?thesis using step_check[OF assms(1)] assms(2) unfolding proc_key_def by blast
next
  case AtRequest
  then show ?thesis using step_request[OF assms(1)] assms(2) unfolding proc_key_def by blast
next
  case AtAnswer
  then show ?thesis using step_answer[OF assms(1) _ HOL.refl HOL.refl] assms(2) unfolding proc_key_def by blast
next
  case AtSent
  then show ?thesis using step_sent[OF assms(1)] assms(2) unfolding proc_key_def by blast
next
  case AtRefused
  then show ?thesis using step_refused[OF assms(1)] assms(2) unfolding proc_key_def by blast
next
  case AtUnmark
  then show ?thesis using step_unmark[OF assms(1)] assms(2) unfolding proc_key_def by blast
next
  case AtLimit
  then show ?thesis using step_limit[OF assms(1)] assms(2) unfolding proc_key_def by blast
next
  case AtEnd
  then show ?thesis using step_end[OF assms(1)] assms(2) unfolding proc_key_def by blast
qed

section \<open>The invariant\<close>

definition pool_ok :: "('s, 'm) send_pool \<Rightarrow> bool" where
  "pool_ok P \<longleftrightarrow> (\<exists>pls. length pls = length (sl_procs P)
     \<and> (\<forall>n<length pls. at_place port (sp_claim (sl_procs P ! n)) (sp_index (sl_procs P ! n)) (pls ! n)
          (sp_state (sl_procs P ! n)))
     \<and> (\<forall>n<length pls. \<forall>m<length pls. owns (pls ! n) \<and> owns (pls ! m)
          \<and> proc_key (sl_procs P ! n) = proc_key (sl_procs P ! m) \<longrightarrow> n = m)
     \<and> (\<forall>n<length pls. owns (pls ! n) \<longrightarrow>
          marker (sl_store P) (proc_key (sl_procs P ! n))
            = Some (MarkSending (jc_runner (sp_claim (sl_procs P ! n))))
          \<and> requests (proc_key (sl_procs P ! n)) (sl_log P)
            = untouched (proc_key (sl_procs P ! n)) (sl_log P) + unsettled (pls ! n))
     \<and> (\<forall>k. requests k (sl_log P) \<le> untouched k (sl_log P) + 1
          \<and> (marker (sl_store P) k = None \<longrightarrow> requests k (sl_log P) = untouched k (sl_log P))))"

lemma pool_ok_start: "sl_procs P = [] \<Longrightarrow> sl_log P = [] \<Longrightarrow> pool_ok P"
  by (simp add: pool_ok_def)

lemma pool_ok_begin:
  assumes "pool_ok P" and "map_of by_key (the (recipient_key to)) = Some i"
  shows "pool_ok (P\<lparr>sl_procs := sl_procs P @ [\<lparr>sp_claim = c, sp_index = i,
    sp_state = Running (durable_send port lease c by_key halt to m)\<rparr>]\<rparr>)"
proof -
  obtain pl where pl: "at_place port c i pl (Running (durable_send port lease c by_key halt to m))" "\<not> owns pl"
    using begins[OF assms(2), of port c lease halt m] by blast
  obtain pls where "length pls = length (sl_procs P)"
    and I: "\<forall>n<length pls. at_place port (sp_claim (sl_procs P ! n)) (sp_index (sl_procs P ! n)) (pls ! n)
          (sp_state (sl_procs P ! n))"
      "\<forall>n<length pls. \<forall>m<length pls. owns (pls ! n) \<and> owns (pls ! m)
          \<and> proc_key (sl_procs P ! n) = proc_key (sl_procs P ! m) \<longrightarrow> n = m"
      "\<forall>n<length pls. owns (pls ! n) \<longrightarrow>
          marker (sl_store P) (proc_key (sl_procs P ! n))
            = Some (MarkSending (jc_runner (sp_claim (sl_procs P ! n))))
          \<and> requests (proc_key (sl_procs P ! n)) (sl_log P)
            = untouched (proc_key (sl_procs P ! n)) (sl_log P) + unsettled (pls ! n)"
      "\<forall>k. requests k (sl_log P) \<le> untouched k (sl_log P) + 1
          \<and> (marker (sl_store P) k = None \<longrightarrow> requests k (sl_log P) = untouched k (sl_log P))"
    using assms(1) unfolding pool_ok_def by blast
  then show ?thesis
    unfolding pool_ok_def using pl
    by (intro exI[of _ "pls @ [pl]"]) (auto simp: nth_append less_Suc_eq)
qed

lemma pool_ok_step:
  assumes ok: "pool_ok P" and n: "n < length (sl_procs P)" and step: "send_step P n st s' evs"
  shows "pool_ok (P\<lparr>sl_store := s', sl_log := sl_log P @ evs,
      sl_procs := (sl_procs P)[n := (sl_procs P ! n)\<lparr>sp_state := st\<rparr>]\<rparr>)"
proof -
  obtain pls where len: "length pls = length (sl_procs P)"
    and at: "\<And>j. j < length pls \<Longrightarrow> at_place port (sp_claim (sl_procs P ! j)) (sp_index (sl_procs P ! j)) (pls ! j)
          (sp_state (sl_procs P ! j))"
    and one: "\<And>j j'. j < length pls \<Longrightarrow> j' < length pls \<Longrightarrow> owns (pls ! j) \<Longrightarrow> owns (pls ! j')
          \<Longrightarrow> proc_key (sl_procs P ! j) = proc_key (sl_procs P ! j') \<Longrightarrow> j = j'"
    and own: "\<And>j. j < length pls \<Longrightarrow> owns (pls ! j) \<Longrightarrow>
          marker (sl_store P) (proc_key (sl_procs P ! j))
            = Some (MarkSending (jc_runner (sp_claim (sl_procs P ! j))))
          \<and> requests (proc_key (sl_procs P ! j)) (sl_log P)
            = untouched (proc_key (sl_procs P ! j)) (sl_log P) + unsettled (pls ! j)"
    and log: "\<And>k. requests k (sl_log P) \<le> untouched k (sl_log P) + 1
          \<and> (marker (sl_store P) k = None \<longrightarrow> requests k (sl_log P) = untouched k (sl_log P))"
    using ok unfolding pool_ok_def by blast
  have n': "n < length pls" using n len by simp
  define k where "k = proc_key (sl_procs P ! n)"
  define w where "w = jc_runner (sp_claim (sl_procs P ! n))"
  obtain pl' where pl': "at_place port (sp_claim (sl_procs P ! n)) (sp_index (sl_procs P ! n)) pl' st"
    and mv: "moved k w (pls ! n) pl' (marker (sl_store P)) (marker s') evs"
    using place_step[OF step at[OF n']] unfolding k_def w_def by blast
  have keys: "proc_key ((sl_procs P)[n := (sl_procs P ! n)\<lparr>sp_state := st\<rparr>] ! j) = proc_key (sl_procs P ! j)"
    "sp_claim ((sl_procs P)[n := (sl_procs P ! n)\<lparr>sp_state := st\<rparr>] ! j) = sp_claim (sl_procs P ! j)"
    "sp_index ((sl_procs P)[n := (sl_procs P ! n)\<lparr>sp_state := st\<rparr>] ! j) = sp_index (sl_procs P ! j)"
    if "j < length pls" for j
    using that len by (cases "j = n"; simp add: proc_key_def)+
  have elsewhere: "marker s' k' = marker (sl_store P) k'" "requests k' evs = 0" "untouched k' evs = 0"
    if "k' \<noteq> k" for k'
    using mv that unfolding moved_def by blast+
  have mine: "marker (sl_store P) k = Some (MarkSending w)
      \<and> requests k (sl_log P) = untouched k (sl_log P) + unsettled (pls ! n)" if "owns (pls ! n)"
    using own[OF n' that] by (simp add: k_def w_def)
  have taken: "marker (sl_store P) k \<noteq> None" if "j < length pls" "owns (pls ! j)" "proc_key (sl_procs P ! j) = k" for j
    using own[OF that(1,2)] that(3) by simp
  have alone: "\<not> owns (pls ! j)" if "j < length pls" "j \<noteq> n" "proc_key (sl_procs P ! j) = k" "owns pl'" for j
  proof
    assume "owns (pls ! j)"
    show False
    proof (cases "owns (pls ! n)")
      case True
      then show ?thesis using one[OF that(1) n' \<open>owns (pls ! j)\<close>] that(2,3) by (simp add: k_def)
    next
      case False
      then show ?thesis using mv that(4) taken[OF that(1) \<open>owns (pls ! j)\<close> that(3)] by (simp add: moved_def)
    qed
  qed
  let ?pls = "pls[n := pl']"
  have new_own: "marker s' (proc_key (sl_procs P ! j)) = Some (MarkSending (jc_runner (sp_claim (sl_procs P ! j))))
      \<and> requests (proc_key (sl_procs P ! j)) (sl_log P @ evs)
        = untouched (proc_key (sl_procs P ! j)) (sl_log P @ evs) + unsettled (?pls ! j)"
    if j: "j < length pls" "owns (?pls ! j)" for j
  proof (cases "j = n")
    case True
    then have o': "owns pl'" using j n' by simp
    show ?thesis
    proof (cases "owns (pls ! n)")
      case True
      then have "marker s' k = marker (sl_store P) k \<and> requests k evs + unsettled (pls ! n) = untouched k evs + unsettled pl'"
        using mv mine o' by (simp add: moved_def)
      then show ?thesis using \<open>j = n\<close> n' mine[OF True] by (simp add: k_def[symmetric] w_def[symmetric])
    next
      case False
      then have "evs = []" "marker (sl_store P) k = None" "marker s' k = Some (MarkSending w)" "\<not> may_have_done pl'"
        using mv o' by (simp_all add: moved_def)
      then show ?thesis using \<open>j = n\<close> n' log[of k] by (simp add: k_def[symmetric] w_def[symmetric] unsettled_def)
    qed
  next
    case False
    then have o: "owns (pls ! j)" using j by simp
    show ?thesis
    proof (cases "proc_key (sl_procs P ! j) = k")
      case True
      then have no: "\<not> owns pl'" using alone[OF j(1) False] o by blast
      then have "\<not> owns (pls ! n)" using one[OF j(1) n' o] True False by (auto simp: k_def)
      then have "evs = []" "marker s' k = marker (sl_store P) k"
        using mv no taken[OF j(1) o True] by (simp_all add: moved_def)
      then show ?thesis using own[OF j(1) o] False True by simp
    next
      case False
      then show ?thesis using elsewhere[OF False] own[OF j(1) o] \<open>j \<noteq> n\<close> by simp
    qed
  qed
  have new_log: "requests k' (sl_log P @ evs) \<le> untouched k' (sl_log P @ evs) + 1
      \<and> (marker s' k' = None \<longrightarrow> requests k' (sl_log P @ evs) = untouched k' (sl_log P @ evs))" for k'
  proof (cases "k' = k")
    case True
    show ?thesis
    proof (cases "owns pl'")
      case o': True
      then have "owns (?pls ! n)" using n' by simp
      from new_own[OF n' this] show ?thesis using True n' by (simp add: k_def[symmetric] unsettled_def)
    next
      case False
      show ?thesis
      proof (cases "owns (pls ! n)")
        case o: True
        then have "evs = []" "marker s' k = None \<longrightarrow> \<not> may_have_done (pls ! n)"
          using mv mine False by (simp_all add: moved_def)
        then show ?thesis using True mine[OF o] by (simp add: unsettled_def)
      next
        case o: False
        then have "evs = []" "marker s' k = None \<longrightarrow> marker (sl_store P) k = None"
          using mv False by (simp_all add: moved_def)
        then show ?thesis using True log[of k] by simp
      qed
    qed
  next
    case False
    then show ?thesis using elsewhere[OF False] log[of k'] by simp
  qed
  show ?thesis
    unfolding pool_ok_def
  proof (intro exI[of _ ?pls] conjI allI impI, goal_cases)
    case 1 then show ?case using len by simp
  next
    case (2 j) then show ?case using at[of j] pl' keys len n' by (cases "j = n") simp_all
  next
    case (3 j j')
    then have jj: "j < length pls" "j' < length pls" "proc_key (sl_procs P ! j) = proc_key (sl_procs P ! j')"
      using keys by simp_all
    have o: "owns (?pls ! j)" "owns (?pls ! j')" using 3 by blast+
    consider "j = n" "j' = n" | "j = n" "j' \<noteq> n" | "j \<noteq> n" "j' = n" | "j \<noteq> n" "j' \<noteq> n" by blast
    then show ?case
    proof cases
      case 2
      then have "owns pl'" "owns (pls ! j')" using o n' by simp_all
      then show ?thesis using alone[OF jj(2) 2(2)] jj(3) 2(1) by (simp add: k_def)
    next
      case 3
      then have "owns pl'" "owns (pls ! j)" using o n' by simp_all
      then show ?thesis using alone[OF jj(1) 3(1)] jj(3) 3(2) by (simp add: k_def)
    next
      case 4
      then have "owns (pls ! j)" "owns (pls ! j')" using o by simp_all
      then show ?thesis using one[OF jj(1,2)] jj(3) by blast
    qed simp
  next
    case (4 j) then show ?case using new_own[of j] keys by simp
  next
    case (5 j) then show ?case using new_own[of j] keys by simp
  next
    case (6 k') show ?case using new_log[of k'] by simp
  next
    case (7 k') then show ?case using new_log[of k'] by simp
  qed
qed

lemma pool_ok_others:
  assumes "pool_ok P" and "marker s' = marker (sl_store P)"
  shows "pool_ok (P\<lparr>sl_store := s'\<rparr>)"
  using assms by (simp add: pool_ok_def)

text \<open>Of the requests for a recipient of a run, all but one were answered that nothing was done.\<close>

lemma requests_bounded:
  assumes "send_run port other P Q" and "sl_procs P = []" "sl_log P = []"
    and other: "\<And>t s s'. other t s s' \<Longrightarrow> marker s' = marker s"
  shows "requests k (sl_log Q) \<le> untouched k (sl_log Q) + 1"
proof -
  have "pool_ok Q"
    using assms(1)
  proof (induction rule: send_run.induct)
    case start show ?case using assms(2,3) by (rule pool_ok_start)
  next
    case (pass_time Q t) then show ?case by (simp add: pool_ok_def)
  next
    case begin_send then show ?case by (blast intro: pool_ok_begin)
  next
    case step then show ?case by (blast intro: pool_ok_step)
  next
    case others then show ?case by (blast intro: pool_ok_others other)
  qed
  then show ?thesis unfolding pool_ok_def by blast
qed

end

end
