(* ===== verification/Job_Claims.thy ===== *)
theory Job_Claims
  imports Memory_Jobs
begin

text \<open>
  Sequences of calls on the in-process job store, by any callers at any instants: what a claim holds
  until its lease ends, and that a cancelled job stays cancelled until it is run again.
\<close>

section \<open>Calls\<close>

datatype jobs_call =
  CallSchedule job
| CallCancel string
| CallRerun string time
| CallLimitMessage string
| CallClaim string string duration
| CallHold job_claim duration
| CallMarkSending job_claim nat
| CallMarkOutcome job_claim nat send_record
| CallUnmark job_claim nat
| CallLimitRecipient job_claim nat
| CallSettle job_claim job_state job_summary
| CallRetry job_claim time job_summary

fun jobs_step :: "duration \<Rightarrow> time \<times> jobs_call \<Rightarrow> jobs_state \<Rightarrow> jobs_state" where
  "jobs_step ttl (t, CallSchedule j) st = snd (schedule j st)"
| "jobs_step ttl (t, CallCancel n) st = snd (cancel n st)"
| "jobs_step ttl (t, CallRerun n at) st = snd (rerun n at st)"
| "jobs_step ttl (t, CallLimitMessage mid) st = snd (limit_message t mid st)"
| "jobs_step ttl (t, CallClaim n w lease) st = snd (claim_job t n w lease st)"
| "jobs_step ttl (t, CallHold c lease) st = snd (hold t c lease st)"
| "jobs_step ttl (t, CallMarkSending c i) st = snd (mark_sending c i st)"
| "jobs_step ttl (t, CallMarkOutcome c i r) st = snd (mark_outcome ttl t c i r st)"
| "jobs_step ttl (t, CallUnmark c i) st = snd (unmark c i st)"
| "jobs_step ttl (t, CallLimitRecipient c i) st = snd (limit_recipient t c i st)"
| "jobs_step ttl (t, CallSettle c s su) st = snd (settle c s su st)"
| "jobs_step ttl (t, CallRetry c at su) st = snd (retry c at su st)"

definition jobs_run :: "duration \<Rightarrow> (time \<times> jobs_call) list \<Rightarrow> jobs_state \<Rightarrow> jobs_state" where
  "jobs_run ttl calls st = fold (jobs_step ttl) calls st"

lemma jobs_run_Nil [simp]: "jobs_run ttl [] st = st"
  by (simp add: jobs_run_def)

lemma jobs_run_Cons [simp]: "jobs_run ttl (c # cs) st = jobs_run ttl cs (jobs_step ttl c st)"
  by (simp add: jobs_run_def)

text \<open>The calls that touch no marker, of everyone but the sends.\<close>

fun touches_marker :: "jobs_call \<Rightarrow> bool" where
  "touches_marker (CallMarkSending _ _) \<longleftrightarrow> True"
| "touches_marker (CallMarkOutcome _ _ _) \<longleftrightarrow> True"
| "touches_marker (CallUnmark _ _) \<longleftrightarrow> True"
| "touches_marker _ \<longleftrightarrow> False"

lemma other_calls_marker:
  "\<not> touches_marker c \<Longrightarrow> memory_marker (jobs_step ttl (t, c) st) = memory_marker st"
  by (cases c) (auto simp: memory_marker_def schedule_def cancel_def rerun_def limit_message_def
      claim_job_def hold_def limit_recipient_def settle_def retry_def Let_def
      split: if_splits option.splits sum.splits prod.splits)

section \<open>Entries\<close>

lemma put_entry_lookup [simp]:
  "map_of (jb_jobs (put_entry n e st)) n' = (if n' = n then Some e else map_of (jb_jobs st) n')"
  by (simp add: put_entry_def)

lemma limit_from_jobs [simp]: "jb_jobs (limit_from n i now st) = jb_jobs st"
  by (simp add: limit_from_def Let_def)

lemma mark_jobs [simp]:
  "jb_jobs (snd (mark_sending c i st)) = jb_jobs st"
  "jb_jobs (snd (mark_outcome ttl t c i r st)) = jb_jobs st"
  "jb_jobs (snd (unmark c i st)) = jb_jobs st"
  "jb_jobs (snd (limit_recipient t c i st)) = jb_jobs st"
  "jb_jobs (snd (limit_message t mid st)) = jb_jobs st"
  by (auto simp: mark_sending_def mark_outcome_def unmark_def limit_recipient_def limit_message_def Let_def
      split: option.splits send_record.splits prod.splits)

text \<open>Every entry is kept under its job's id.\<close>

definition entries_ok :: "jobs_state \<Rightarrow> bool" where
  "entries_ok st \<longleftrightarrow> (\<forall>n e. map_of (jb_jobs st) n = Some e \<longrightarrow> sj_id (je_job e) = n)"

lemma entries_ok_empty [simp]: "entries_ok jobs_empty"
  by (simp add: entries_ok_def jobs_empty_def)

lemma entries_ok_step:
  assumes "entries_ok st"
  shows "entries_ok (jobs_step ttl tc st)"
proof -
  obtain t c where "tc = (t, c)" by fastforce
  then show ?thesis
    using assms
    by (cases c) (auto simp: entries_ok_def schedule_def cancel_def rerun_def claim_job_def hold_def
        settle_def retry_def Let_def split: option.splits sum.splits prod.splits if_splits)
qed

lemma entries_ok_run: "entries_ok st \<Longrightarrow> entries_ok (jobs_run ttl calls st)"
  by (induction calls arbitrary: st) (simp_all add: entries_ok_step)

section \<open>Leases\<close>

lemma after_time_max: "after_time t d \<le> datetime_max"
  by (auto simp: after_time_def split: option.split)

lemma after_time_later:
  assumes "u \<le> datetime_max" and "u - t < int (lease div 2)"
  shows "u \<le> after_time t lease"
proof (cases "signed_duration lease")
  case (Some d)
  then have "d = int lease" by (simp add: signed_duration_def split: if_splits)
  moreover have "int (lease div 2) \<le> int lease" by simp
  ultimately show ?thesis using assms Some by (simp add: after_time_def)
qed (use assms in \<open>simp add: after_time_def\<close>)

text \<open>The claim \<open>(w, k)\<close> holds the job \<open>n\<close> until \<open>u\<close> at least.\<close>

definition protected :: "string \<Rightarrow> string \<Rightarrow> nat \<Rightarrow> time \<Rightarrow> jobs_state \<Rightarrow> bool" where
  "protected n w k u st \<longleftrightarrow>
     (\<exists>e u'. map_of (jb_jobs st) n = Some e \<and> sj_state (je_job e) = JobClaimed
        \<and> je_lease e = Some (w, k, u') \<and> u \<le> u' \<and> u' \<le> datetime_max)"

text \<open>The calls that end a claim before its lease does: a cancel, and its own settling or retry.\<close>

fun ends_claim :: "job_claim \<Rightarrow> jobs_call \<Rightarrow> bool" where
  "ends_claim c (CallCancel n) \<longleftrightarrow> n = sj_id (jc_job c)"
| "ends_claim c (CallSettle c' _ _) \<longleftrightarrow>
     sj_id (jc_job c') = sj_id (jc_job c) \<and> jc_runner c' = jc_runner c \<and> jc_number c' = jc_number c"
| "ends_claim c (CallRetry c' _ _) \<longleftrightarrow>
     sj_id (jc_job c') = sj_id (jc_job c) \<and> jc_runner c' = jc_runner c \<and> jc_number c' = jc_number c"
| "ends_claim c _ \<longleftrightarrow> False"

lemma protected_step:
  assumes "protected n w k u st" and "t < u" and "n = sj_id (jc_job c)" "w = jc_runner c" "k = jc_number c"
    and "\<not> ends_claim c call"
  shows "protected n w k u (jobs_step ttl (t, call) st)"
proof -
  obtain e u' where e: "map_of (jb_jobs st) n = Some e" "sj_state (je_job e) = JobClaimed"
      "je_lease e = Some (w, k, u')" "u \<le> u'" "u' \<le> datetime_max"
    using assms(1) by (auto simp: protected_def)
  have busy: "\<not> claimable t e" using e assms(2) by (simp add: claimable_def)
  have halt: "entry_halt c' e = None \<Longrightarrow> jc_runner c' = w \<and> jc_number c' = k" for c'
    using e by (auto simp: entry_halt_def held_by_def split: if_splits)
  show ?thesis
  proof (cases call)
    case (CallSchedule j)
    then show ?thesis using e by (auto simp: protected_def schedule_def Let_def split: sum.splits option.splits)
  next
    case (CallCancel n')
    then show ?thesis using e assms(3,6) by (auto simp: protected_def cancel_def split: option.splits)
  next
    case (CallRerun n' at)
    then show ?thesis using e by (auto simp: protected_def rerun_def is_settled_def split: option.splits)
  next
    case (CallClaim n' w' lease)
    then show ?thesis using e busy by (auto simp: protected_def claim_job_def Let_def split: option.splits)
  next
    case (CallHold c' lease)
    show ?thesis
    proof (cases "sj_id (jc_job c') = n \<and> entry_halt c' e = None")
      case True
      then show ?thesis
        using e CallHold after_time_later[of u' t lease] after_time_max[of t lease]
        by (auto simp: protected_def hold_def Let_def)
    next
      case False
      then show ?thesis
        using e CallHold by (auto simp: protected_def hold_def Let_def split: option.splits prod.splits)
    qed
  next
    case (CallSettle c' s su)
    then have "sj_id (jc_job c') \<noteq> n \<or> entry_halt c' e \<noteq> None"
      using assms(3-6) halt by auto
    then show ?thesis using e CallSettle by (auto simp: protected_def settle_def split: option.splits)
  next
    case (CallRetry c' at su)
    then have "sj_id (jc_job c') \<noteq> n \<or> entry_halt c' e \<noteq> None"
      using assms(3-6) halt by auto
    then show ?thesis using e CallRetry by (auto simp: protected_def retry_def split: option.splits)
  qed (use e in \<open>auto simp: protected_def\<close>)
qed

lemma protected_run:
  assumes "protected n w k u st" and "\<forall>(t, call)\<in>set calls. t < u \<and> \<not> ends_claim c call"
    and "n = sj_id (jc_job c)" "w = jc_runner c" "k = jc_number c"
  shows "protected n w k u (jobs_run ttl calls st)"
  using assms(1,2)
proof (induction calls arbitrary: st)
  case (Cons x calls)
  obtain t call where x: "x = (t, call)" by fastforce
  have "protected n w k u (jobs_step ttl (t, call) st)"
    using protected_step[OF Cons.prems(1) _ assms(3-5)] Cons.prems(2) x by auto
  then show ?case using Cons x by simp
qed simp

lemma claim_protects:
  assumes "entries_ok st" and "claim_job now n w lease st = (Some c, st')"
  shows "protected n w (jc_number c) (jc_until c) st' \<and> sj_id (jc_job c) = n \<and> jc_runner c = w"
  using assms after_time_max[of now lease]
  by (auto simp: claim_job_def protected_def entries_ok_def Let_def split: option.splits if_splits)

end
