(* ===== verification/Job_Safety.thy ===== *)
theory Job_Safety
  imports Job_Sends Job_Claims
begin

text \<open>
  What the scheduled sends guarantee, over the in-process store and over every answer a store, the
  clock and the broadcast can give: a recipient of a run gets at most one message that may have
  arrived, a claim keeps everyone else out until its lease ends, a cancel wins over the runner, an
  abandoned job comes back, and the summary of a pass accounts for every recipient.
\<close>

section \<open>What a claim and a cancel keep\<close>

lemma protected_claim:
  assumes "protected n w k u st" and "t < u"
  shows "claim_job t n w' lease st = (None, st)"
  using assms by (auto simp: protected_def claim_job_def claimable_def)

lemma protected_hold:
  assumes "protected (sj_id (jc_job c)) (jc_runner c) (jc_number c) u st"
  shows "\<exists>u'. fst (hold t c lease st) = Held u' \<and> u \<le> u'"
proof -
  obtain e u' where e: "map_of (jb_jobs st) (sj_id (jc_job c)) = Some e" "sj_state (je_job e) = JobClaimed"
      "je_lease e = Some (jc_runner c, jc_number c, u')" "u \<le> u'" "u' \<le> datetime_max"
    using assms by (auto simp: protected_def)
  then show ?thesis
    using after_time_later[of u' t lease]
    by (auto simp: hold_def entry_halt_def held_by_def Let_def)
qed

lemma protected_end:
  assumes "protected (sj_id (jc_job c)) (jc_runner c) (jc_number c) u st"
  shows "fst (settle c JobDone su st) = Inr None" "fst (retry c at su st) = None"
  using assms by (auto simp: protected_def settle_def retry_def entry_halt_def held_by_def)

definition cancelled_in :: "string \<Rightarrow> jobs_state \<Rightarrow> bool" where
  "cancelled_in n st \<longleftrightarrow> (\<exists>e. map_of (jb_jobs st) n = Some e \<and> sj_state (je_job e) = JobCancelled)"

fun reruns :: "string \<Rightarrow> jobs_call \<Rightarrow> bool" where
  "reruns n (CallRerun n' _) \<longleftrightarrow> n' = n"
| "reruns n _ \<longleftrightarrow> False"

lemma cancelled_step:
  assumes "cancelled_in n st" and "\<not> reruns n call"
  shows "cancelled_in n (jobs_step ttl (t, call) st)"
  using assms
  by (cases call) (auto simp: cancelled_in_def schedule_def cancel_def rerun_def claim_job_def hold_def
      settle_def retry_def claimable_def entry_halt_def is_settled_def Let_def
      split: option.splits sum.splits prod.splits if_splits)

lemma cancelled_run:
  assumes "cancelled_in n st" and "\<forall>(t, call)\<in>set calls. \<not> reruns n call"
  shows "cancelled_in n (jobs_run ttl calls st)"
  using assms
proof (induction calls arbitrary: st)
  case (Cons x calls)
  then show ?case using cancelled_step[of n st "snd x" ttl "fst x"] by (cases x) auto
qed simp

lemma cancelled_refuses:
  assumes "cancelled_in n st"
  shows "claim_job t n w lease st = (None, st)"
    and "sj_id (jc_job c) = n \<Longrightarrow> check_run c st = Some HaltCancelled"
    and "sj_id (jc_job c) = n \<Longrightarrow> hold t c lease st = (Halted HaltCancelled, st)"
    and "sj_id (jc_job c) = n \<Longrightarrow> settle c JobDone su st = (Inr (Some HaltCancelled), st)"
    and "sj_id (jc_job c) = n \<Longrightarrow> retry c at su st = (Some HaltCancelled, st)"
  using assms by (auto simp: cancelled_in_def claim_job_def claimable_def check_run_def hold_def settle_def
      retry_def entry_halt_def)

lemma in_due_jobs: "n \<in> set (due_jobs now st) \<longleftrightarrow> (\<exists>e. (n, e) \<in> set (jb_jobs st) \<and> claimable now e)"
  by (force simp: due_jobs_def image_iff)

definition leases_end :: "jobs_state \<Rightarrow> bool" where
  "leases_end st \<longleftrightarrow> (\<forall>n e w k u. map_of (jb_jobs st) n = Some e \<longrightarrow> je_lease e = Some (w, k, u) \<longrightarrow> u \<le> datetime_max)"

lemma leases_end_empty [simp]: "leases_end jobs_empty"
  by (simp add: leases_end_def jobs_empty_def)

lemma leases_end_step:
  assumes "leases_end st"
  shows "leases_end (jobs_step ttl tc st)"
proof -
  obtain t c where "tc = (t, c)" by fastforce
  then show ?thesis
    using assms after_time_max
    by (cases c) (auto simp: leases_end_def schedule_def cancel_def rerun_def claim_job_def hold_def
        settle_def retry_def Let_def split: option.splits sum.splits prod.splits if_splits)
qed

lemma leases_end_run: "leases_end st \<Longrightarrow> leases_end (jobs_run ttl calls st)"
  by (induction calls arbitrary: st) (simp_all add: leases_end_step)

lemma claimable_claimed:
  assumes "map_of (jb_jobs st) n = Some e" and "claimable t e"
  shows "n \<in> set (due_jobs t st) \<and> (\<exists>c st'. claim_job t n w lease st = (Some c, st')
    \<and> jc_job c = (je_job e)\<lparr>sj_state := JobClaimed\<rparr> \<and> jc_runner c = w)"
  using assms map_of_SomeD[OF assms(1)] by (auto simp: in_due_jobs claim_job_def Let_def)

section \<open>The summary of a pass\<close>

text \<open>Every recipient counted once, those named by their place in the list named once.\<close>

definition summary_of :: "nat \<Rightarrow> job_summary \<Rightarrow> bool" where
  "summary_of n su \<longleftrightarrow>
     jsu_sent su + jsu_failed su + length (jsu_unknown su) + length (jsu_limited su) + jsu_unsent su = n
     \<and> distinct (jsu_unknown su @ jsu_limited su)
     \<and> set (jsu_unknown su @ jsu_limited su) \<subseteq> {..<n}"

definition met :: "nat \<Rightarrow> pass \<Rightarrow> bool" where
  "met n p \<longleftrightarrow>
     (let su = ps_summary p
      in jsu_sent su + jsu_failed su + length (jsu_unknown su) + length (jsu_limited su)
           + length (ps_pending p) = n
         \<and> jsu_unsent su = 0
         \<and> distinct (jsu_unknown su @ jsu_limited su @ ps_pending p)
         \<and> set (jsu_unknown su @ jsu_limited su @ ps_pending p) \<subseteq> {..<n})"

lemma met_meet: "met n p \<Longrightarrow> met (n + 1) (meet r n m p)"
  by (cases m) (auto simp: met_def meet_def Let_def)

lemma keep_returns:
  assumes "may_return (keep port lease c u k) r"
  shows "(\<exists>e. may_return (k (Inl e)) r) \<or> (\<exists>x. may_return (k (Inr x)) r)"
proof -
  consider "may_return (k (Inr (None, u))) r"
    | a where "may_return (case a of Inl e \<Rightarrow> k (Inl e) | Inr (Held until) \<Rightarrow> k (Inr (None, millis until))
        | Inr (Halted why) \<Rightarrow> k (Inr (Some why, u))) r"
    using assms by (auto simp: keep_def split: if_split_asm dest: jop_returns)
  then show ?thesis
  proof cases
    case (2 a) then show ?thesis by (cases a) (auto split: holding.split_asm)
  qed blast
qed

lemma scan_returns:
  assumes "may_return (scan port lease c rs n u p k) (Inr ended)" and "met n p"
  shows "(\<exists>why. ended = halt_end why) \<or> (\<exists>p'. met (n + length rs) p' \<and> may_return (k p') (Inr ended))"
  using assms
proof (induction rs arbitrary: n u p)
  case Nil then show ?case by auto
next
  case (Cons r rs)
  from keep_returns[OF Cons.prems(1)[unfolded scan.simps]] show ?case
  proof (elim disjE exE)
    fix x
    assume kept: "may_return (case Inr x of Inl e \<Rightarrow> JRet (Inl e)
      | Inr (Some why, _) \<Rightarrow> JRet (Inr (halt_end why))
      | Inr (None, until_ms) \<Rightarrow>
          jread (\<lambda>t s. jp_recipient port t c n s) (\<lambda>m. case flatten m of
             Inl e \<Rightarrow> JRet (Inl e)
           | Inr m \<Rightarrow> scan port lease c rs (n + 1) until_ms (meet r n m p) k)) (Inr ended)"
    obtain why until' where x: "x = (why, until')" by fastforce
    show ?thesis
    proof (cases why)
      case None
      then obtain m where "may_return (scan port lease c rs (n + 1) until' (meet r n m p) k) (Inr ended)"
        using kept x by (auto dest: jread_answers)
      from Cons.IH[OF this met_meet[OF Cons.prems(2)]] show ?thesis by simp
    next
      case (Some halt) then show ?thesis using kept x by auto
    qed
  qed simp
qed

lemma count_outcomes:
  assumes "distinct (jsu_unknown su @ jsu_limited su @ is)"
  shows "distinct (jsu_unknown (fold (count_outcome os) is su) @ jsu_limited (fold (count_outcome os) is su))
    \<and> set (jsu_unknown (fold (count_outcome os) is su)) \<subseteq> set (jsu_unknown su) \<union> set is
    \<and> jsu_limited (fold (count_outcome os) is su) = jsu_limited su
    \<and> jsu_sent (fold (count_outcome os) is su) + jsu_failed (fold (count_outcome os) is su)
        + length (jsu_unknown (fold (count_outcome os) is su)) + jsu_unsent (fold (count_outcome os) is su)
      = jsu_sent su + jsu_failed su + length (jsu_unknown su) + jsu_unsent su + length is"
  using assms
proof (induction "is" arbitrary: su)
  case (Cons i "is")
  have "distinct (jsu_unknown (count_outcome os i su) @ jsu_limited (count_outcome os i su) @ is)"
    using Cons.prems by (auto simp: count_outcome.simps split: option.split outcome.split)
  from Cons.IH[OF this] show ?case
    by (auto simp: count_outcome.simps split: option.splits outcome.splits)
qed simp

lemma counted_summary:
  assumes "met n p"
  shows "summary_of n (fold (count_outcome os) (ps_pending p) (ps_summary p))"
  using assms count_outcomes[of "ps_summary p" "ps_pending p" os]
  by (auto simp: met_def summary_of_def Let_def)

lemma finish_returns:
  assumes "may_return (finish_pass port rc c su) (Inr ended)" and "summary_of n su"
  shows "(\<exists>su'. ended = EndDone su' \<and> summary_of n su' \<and> jsu_unsent su' = 0)
    \<or> (\<exists>su'. ended = EndStopped su' \<and> summary_of n su' \<and> 0 < jsu_unsent su'
         \<and> rc_max_retries rc \<le> sj_retries (jc_job c))
    \<or> (\<exists>su' now. ended = EndRetrying
           (job_instant (millis (after_time now (backoff_delay rc (sj_retries (jc_job c)))))) su'
         \<and> summary_of n su' \<and> 0 < jsu_unsent su' \<and> sj_retries (jc_job c) < rc_max_retries rc)
    \<or> (\<exists>why. ended = halt_end why)"
proof -
  let ?su = "su\<lparr>jsu_unknown := sort (jsu_unknown su)\<rparr>"
  have "summary_of n ?su" using assms(2) by (auto simp: summary_of_def)
  moreover have "ended = (if state = JobDone then EndDone ?su else EndStopped ?su) \<or> (\<exists>why. ended = halt_end why)"
    if "may_return (settle_job port c state ?su) (Inr ended)" for state
    using jop_answers[OF that[unfolded settle_job_def]] by (auto split: option.split_asm)
  moreover have "ended = EndRetrying (job_instant (millis at)) ?su \<or> (\<exists>why. ended = halt_end why)"
    if "may_return (reschedule port c at ?su) (Inr ended)" for at
    using jop_answers[where h = "\<lambda>r. r", OF that[unfolded reschedule_def Let_def]]
    by (auto simp: Let_def split: option.split_asm)
  ultimately show ?thesis
    using assms(1) by (fastforce simp: finish_pass_def Let_def split: if_split_asm)
qed

section \<open>An example\<close>

definition job_example :: job where
  "job_example = \<lparr>jo_id = ''j'', jo_from = ''1'', jo_at = 0, jo_recipients = [Phone ''5'', User ''u''],
     jo_payload = JNull\<rparr>"

definition claim_example :: job_claim where
  "claim_example = \<lparr>jc_job =
       \<lparr>sj_id = ''j'', sj_from = ''1'', sj_due_at = 0, sj_state = JobClaimed, sj_run = 1, sj_retries = 0,
        sj_recipients = [Phone ''5'', User ''u''], sj_payload = JNull, sj_summary = None\<rparr>,
     jc_runner = ''w'', jc_number = 1, jc_until = 10\<rparr>"

definition scheduled_example :: jobs_state where
  "scheduled_example = jobs_run 7 [(0, CallSchedule job_example)] jobs_empty"

definition claimed_example :: jobs_state where
  "claimed_example = \<lparr>jb_jobs = [(''j'', \<lparr>je_job = jc_job claim_example, je_order = 1, je_claims = 1,
       je_lease = Some (''w'', 1, 10)\<rparr>)],
     jb_scheduled = 1, jb_markers = [], jb_messages = [], jb_limited = []\<rparr>"

lemma claim_job_example: "claim_job 0 ''j'' ''w'' 10 scheduled_example = (Some claim_example, claimed_example)"
  by (simp add: scheduled_example_def claimed_example_def claim_example_def job_example_def schedule_def
      into_scheduled_def kept_listings_alt Let_def number_digits_def digit_char_def claim_job_def
      jobs_empty_def put_entry_def claimable_def after_time_def signed_duration_def datetime_max_def
      u32_succ_def)

section \<open>Theorems\<close>

text \<open>
  C23. Any number of runners sending, over the in-process store, with crashes at every step, store
  calls that fail before or after they took effect, new sends at any time and everyone else's calls
  (other claims, cancels, re-runs): of the requests made to Meta for one recipient of one run, all
  but one were answered by an error that proves Meta did nothing.
\<close>

theorem sends_at_most_once:
  assumes "send_run (memory_jobs ttl)
      (\<lambda>t s s'. \<exists>call. \<not> touches_marker call \<and> s' = jobs_step ttl (t, call) s) P Q"
    and "sl_procs P = []" "sl_log P = []"
  shows "requests k (sl_log Q) \<le> untouched k (sl_log Q) + 1"
  by (rule memory.requests_bounded[OF assms]) (auto simp: other_calls_marker)

definition example_pool ::
  "jobs_state \<Rightarrow> (jobs_state, unit) send_state \<Rightarrow> send_event list \<Rightarrow> (jobs_state, unit) send_pool" where
  "example_pool st x log = \<lparr>sl_store = st, sl_now = 0,
     sl_procs = [\<lparr>sp_claim = claim_example, sp_index = 0, sp_state = x\<rparr>], sl_log = log\<rparr>"

lemma example_op:
  assumes "send_run port oth P (example_pool st (Running (jop f k)) log)" and "f 0 st = (r, s')"
  shows "send_run port oth P (example_pool s' (Running (k (Inr r))) log)"
proof -
  let ?Q = "example_pool st (Running (jop f k)) log"
  have "send_step ?Q 0 (Running (k (Inr r))) s' []"
    by (rule send_step.op[where f = "\<lambda>t s. map_prod (\<lambda>r. k (Inr r)) id (f t s)"])
      (simp_all add: example_pool_def jop_def assms(2))
  from send_run.step[OF assms(1) _ this] show ?thesis by (simp add: example_pool_def)
qed

lemma example_request:
  assumes "send_run port oth P (example_pool st (Running (JAsk x f)) log)"
  shows "send_run port oth P (example_pool st (Waiting f) (log @ [Requested (sa_key x)]))"
proof -
  let ?Q = "example_pool st (Running (JAsk x f)) log"
  have "send_step ?Q 0 (Waiting f) st [Requested (sa_key x)]"
    using send_step.request[of ?Q 0 x f] by (simp add: example_pool_def)
  from send_run.step[OF assms(1) _ this] show ?thesis by (simp add: example_pool_def)
qed

lemma sends_at_most_once_witness:
  "\<exists>Q. send_run (memory_jobs 7)
      (\<lambda>t s s'. \<exists>call. \<not> touches_marker call \<and> s' = jobs_step 7 (t, call) s)
      \<lparr>sl_store = claimed_example, sl_now = 0, sl_procs = [], sl_log = []\<rparr> (Q :: (jobs_state, unit) send_pool)
    \<and> requests (''j'', 1, 0) (sl_log Q) = 1
    \<and> requests (''j'', 1, 0) (sl_log Q) \<le> untouched (''j'', 1, 0) (sl_log Q) + 1"
proof -
  define port where "port = memory_jobs 7"
  define oth where "oth = (\<lambda>t s s'. \<exists>call. \<not> touches_marker call \<and> s' = jobs_step 7 (t, call) s)"
  define P :: "(jobs_state, unit) send_pool"
    where "P = \<lparr>sl_store = claimed_example, sl_now = 0, sl_procs = [], sl_log = []\<rparr>"
  define marked where "marked = claimed_example\<lparr>jb_markers := [((''j'', 1, 0), MarkSending ''w'')]\<rparr>"
  note eval = port_def memory_jobs_def claimed_example_def claim_example_def hold_def entry_halt_def held_by_def
    mark_sending_def check_run_def claim_key_of_def put_entry_def marked_def
  have 1: "jp_hold port 0 claim_example 10 claimed_example = (Held 10, claimed_example)"
    by (simp add: eval)
  have 2: "jp_mark_sending port claim_example 0 claimed_example = (Inr True, marked)" by (simp add: eval)
  have 3: "jp_check_run port claim_example marked = None" by (simp add: eval)
  have key: "claim_key_of claim_example 0 = (''j'', 1, 0)" by (simp add: eval)
  have "send_run port oth P P" by (rule send_run.start)
  from send_run.begin_send[OF this, where by_key = "[(''phone:5'', 0)]" and to = "Phone ''5''" and c = claim_example
      and lease = 10 and halt = None and m = "()"]
  have "send_run port oth P (example_pool claimed_example (Running (check_and_send port 10 claim_example 0 ())) [])"
    by (simp add: P_def durable_send_def digit_char_def example_pool_def)
  from example_op[OF this[unfolded check_and_send_def], OF 1]
  have "send_run port oth P (example_pool claimed_example (Running (mark_and_send port claim_example 0 ())) [])"
    by simp
  from example_op[OF this[unfolded mark_and_send_def], OF 2]
  have "send_run port oth P (example_pool marked (Running (send_marked port claim_example 0 ())) [])"
    by simp
  from example_op[OF this[unfolded send_marked_def jread_def] HOL.refl]
  have "send_run port oth P (example_pool marked (Running (request_send port claim_example 0 ())) [])"
    by (simp add: 3)
  from example_request[OF this[unfolded request_send_def]]
  have run: "send_run port oth P
      (example_pool marked (Waiting (answered port claim_example 0)) [Requested (''j'', 1, 0)])"
    by (simp add: key)
  have "requests (''j'', 1, 0) (sl_log (example_pool marked x [Requested (''j'', 1, 0)])) = 1" for x
    by (simp add: example_pool_def)
  moreover note sends_at_most_once[OF run[unfolded port_def oth_def], of "(''j'', 1, 0)"]
  ultimately show ?thesis
    using run unfolding P_def port_def oth_def by (force simp: P_def)
qed

text \<open>
  C24. A claim the store gave keeps its job until its lease ends, whatever anyone calls meanwhile
  (other runners, extensions of the lease, sends, re-runs), but for a cancel and its own settling or
  retry: nobody else claims the job, the runner that asks still holds it, for no less than the lease
  it was given, and its settling and its retry are accepted.
\<close>

theorem lease_protects:
  assumes "claim_job now n w lease (jobs_run ttl before jobs_empty) = (Some c, st)"
    and "\<forall>(t, call)\<in>set calls. t < jc_until c \<and> \<not> ends_claim c call" and "t < jc_until c"
  shows "claim_job t n w' lease' (jobs_run ttl calls st) = (None, jobs_run ttl calls st)
    \<and> (\<exists>u. fst (hold t c lease' (jobs_run ttl calls st)) = Held u \<and> jc_until c \<le> u)
    \<and> fst (settle c JobDone su (jobs_run ttl calls st)) = Inr None
    \<and> fst (retry c at su (jobs_run ttl calls st)) = None"
proof -
  have c: "protected n w (jc_number c) (jc_until c) st" "sj_id (jc_job c) = n" "jc_runner c = w"
    using claim_protects[OF entries_ok_run[OF entries_ok_empty] assms(1)] by simp_all
  have p: "protected n w (jc_number c) (jc_until c) (jobs_run ttl calls st)"
    by (rule protected_run[OF c(1) assms(2)]) (simp_all add: c)
  with protected_claim[OF p assms(3)] show ?thesis
    using protected_hold[of c "jc_until c" "jobs_run ttl calls st" t lease'] protected_end[of c "jc_until c"] c
    by simp
qed

lemma lease_protects_witness:
  "claim_job 9 ''j'' ''v'' 10 (jobs_run 7 [(5, CallClaim ''j'' ''v'' 10), (6, CallHold claim_example 10),
       (7, CallRerun ''j'' 8)] claimed_example)
     = (None, jobs_run 7 [(5, CallClaim ''j'' ''v'' 10), (6, CallHold claim_example 10),
       (7, CallRerun ''j'' 8)] claimed_example)"
  using lease_protects[OF claim_job_example[unfolded scheduled_example_def], of
      "[(5, CallClaim ''j'' ''v'' 10), (6, CallHold claim_example 10), (7, CallRerun ''j'' 8)]" 9 "''v''" 10]
  by (simp add: claim_example_def)

text \<open>
  C25. A cancel that was accepted wins: whatever is called afterwards, until the job is run again, no
  runner claims it, and a runner that held it is told so by its next extension, by the check before
  its next send, and when it settles or retries, which change nothing.
\<close>

theorem cancel_wins:
  assumes "cancel n before = (True, st)"
    and "\<forall>(t, call)\<in>set calls. \<not> reruns n call" and "sj_id (jc_job c) = n"
  shows "claim_job t n w lease (jobs_run ttl calls st) = (None, jobs_run ttl calls st)
    \<and> check_run c (jobs_run ttl calls st) = Some HaltCancelled
    \<and> hold t c lease (jobs_run ttl calls st) = (Halted HaltCancelled, jobs_run ttl calls st)
    \<and> settle c JobDone su (jobs_run ttl calls st) = (Inr (Some HaltCancelled), jobs_run ttl calls st)
    \<and> retry c at su (jobs_run ttl calls st) = (Some HaltCancelled, jobs_run ttl calls st)"
proof -
  have "cancelled_in n st" using assms(1) by (auto simp: cancel_def cancelled_in_def split: option.splits if_splits)
  note refused = cancelled_refuses[OF cancelled_run[OF this assms(2)]]
  show ?thesis
    by (intro conjI refused(1) refused(2-5)[OF assms(3)])
qed

lemma cancel_wins_witness:
  "check_run claim_example (jobs_run 7 [(20, CallClaim ''j'' ''v'' 10)] (snd (cancel ''j'' claimed_example)))
     = Some HaltCancelled"
proof -
  have "cancel ''j'' claimed_example = (True, snd (cancel ''j'' claimed_example))"
    by (simp add: claimed_example_def cancel_def is_settled_def claim_example_def)
  from cancel_wins[OF this, of "[(20, CallClaim ''j'' ''v'' 10)]" claim_example 0 "''v''" 10 7] show ?thesis
    by (simp add: claim_example_def)
qed

text \<open>
  C26. However the store, the clock and the broadcast answer, a pass that ends with a summary counted
  every recipient exactly once, naming the limited and the unknown by their places, each once. It is
  done only with nobody unsent, stopped only with somebody unsent and the retries used up, and it
  retries only otherwise, at the backoff's time.
\<close>

theorem pass_adds_up:
  assumes "may_return (execute port rc c) (Inr ended)"
  shows "(\<exists>su. ended = EndDone su \<and> summary_of (length (sj_recipients (jc_job c))) su \<and> jsu_unsent su = 0)
    \<or> (\<exists>su. ended = EndStopped su \<and> summary_of (length (sj_recipients (jc_job c))) su \<and> 0 < jsu_unsent su
         \<and> rc_max_retries rc \<le> sj_retries (jc_job c))
    \<or> (\<exists>su now. ended = EndRetrying
           (job_instant (millis (after_time now (backoff_delay rc (sj_retries (jc_job c)))))) su
         \<and> summary_of (length (sj_recipients (jc_job c))) su \<and> 0 < jsu_unsent su
         \<and> sj_retries (jc_job c) < rc_max_retries rc)
    \<or> (\<exists>why. ended = halt_end why)"
proof -
  let ?n = "length (sj_recipients (jc_job c))"
  have "met 0 \<lparr>ps_summary = summary_default, ps_pending = [], ps_by_key = []\<rparr>"
    by (simp add: met_def summary_default_def)
  from scan_returns[OF assms[unfolded execute_def] this] show ?thesis
  proof (elim disjE exE conjE)
    fix p
    assume p: "met (0 + ?n) p"
      and run: "may_return (if ps_pending p = [] then finish_pass port rc c (ps_summary p)
           else JAsk \<lparr>pa_claim = c, pa_pending = ps_pending p, pa_by_key = ps_by_key p\<rparr>
             (\<lambda>y. case y of
                Inl e \<Rightarrow> JRet (Inl e)
              | Inr (_, Some why) \<Rightarrow> JRet (Inr (halt_end why))
              | Inr (outcomes, None) \<Rightarrow>
                  finish_pass port rc c (fold (count_outcome outcomes) (ps_pending p) (ps_summary p))))
          (Inr ended)"
    have counted: "summary_of ?n (fold (count_outcome os) (ps_pending p) (ps_summary p))" for os
      using counted_summary[OF p] by simp
    show ?thesis
    proof (cases "ps_pending p = []")
      case True
      with counted[of "[]"] run show ?thesis by (intro finish_returns[of port]) simp_all
    next
      case False
      with run obtain y where y: "may_return (case y of Inl e \<Rightarrow> JRet (Inl e)
          | Inr (_, Some why) \<Rightarrow> JRet (Inr (halt_end why))
          | Inr (outcomes, None) \<Rightarrow>
              finish_pass port rc c (fold (count_outcome outcomes) (ps_pending p) (ps_summary p))) (Inr ended)"
        by auto
      consider why where "ended = halt_end why"
        | os where "may_return (finish_pass port rc c (fold (count_outcome os) (ps_pending p) (ps_summary p))) (Inr ended)"
        using y by (cases y) (auto split: option.split_asm)
      then show ?thesis by cases (blast, rule finish_returns[OF _ counted])
    qed
  qed blast
qed

lemma scan_reads:
  assumes "may_return (scan port lease c rs (i + 1) u (meet r i m p) k) x"
    and "jp_recipient port t c i s = Inr m" and "duration_ms lease div 2 \<le> i64_saturating_sub u (millis 0)"
  shows "may_return (scan port lease c (r # rs) i u p k) x"
proof -
  have "\<exists>t s. may_return (case flatten (Inr (jp_recipient port t c i s)) of Inl e \<Rightarrow> JRet (Inl e)
      | Inr m \<Rightarrow> scan port lease c rs (i + 1) u (meet r i m p) k) x"
    by (rule exI[of _ t], rule exI[of _ s]) (use assms(1,2) in simp)
  then have "may_return (jread (\<lambda>t s. jp_recipient port t c i s) (\<lambda>m. case flatten m of
      Inl e \<Rightarrow> JRet (Inl e) | Inr m \<Rightarrow> scan port lease c rs (i + 1) u (meet r i m p) k)) x"
    by (auto simp: jread_def jop_def)
  then show ?thesis
    unfolding scan.simps keep_def may_return_simps by (intro exI[of _ 0]) (simp add: assms(3))
qed

lemma halt_end_no_summary [simp]: "EndStopped su \<noteq> halt_end why"
  by (cases why) (simp_all add: halt_end_def)

lemma stops:
  assumes "0 < jsu_unsent su" "rc_max_retries rc \<le> sj_retries (jc_job c)" "jsu_unknown su = []"
    and "fst (jp_settle port c JobStopped su s) = Inr None"
  shows "may_return (finish_pass port rc c su) (Inr (EndStopped su))"
proof -
  have "may_return (case flatten (Inr (fst (jp_settle port c JobStopped su s))) of Inl e \<Rightarrow> JRet (Inl e)
      | Inr (Some why) \<Rightarrow> JRet (Inr (halt_end why))
      | Inr None \<Rightarrow> JRet (Inr (EndStopped su))) (Inr (EndStopped su))"
    by (simp add: assms(4))
  moreover have eq: "su\<lparr>jsu_unknown := []\<rparr> = su" using assms(3) by (cases su) simp
  ultimately show ?thesis
    using assms(1-3) by (auto simp: finish_pass_def settle_job_def jop_def Let_def eq)
qed

lemma pass_adds_up_witness:
  "\<exists>su. may_return (execute (memory_jobs 7) \<lparr>rc_id = ''w'', rc_lease = 10, rc_max_retries = 0,
        rc_retry_delay = 1, rc_max_retry_delay = 1\<rparr> claim_example) (Inr (EndStopped su))
     \<and> summary_of 2 su"
proof -
  let ?rc = "\<lparr>rc_id = ''w'', rc_lease = 10, rc_max_retries = 0, rc_retry_delay = 1, rc_max_retry_delay = 1\<rparr>"
  let ?su = "\<lparr>jsu_sent = 1, jsu_failed = 0, jsu_unknown = [], jsu_limited = [], jsu_unsent = 1\<rparr>"
  have rs: "sj_recipients (jc_job claim_example) = [Phone ''5'', User ''u'']" by (simp add: claim_example_def)
  have "may_return (execute (memory_jobs 7) ?rc claim_example) (Inr (EndStopped ?su))"
    unfolding execute_def rs
    by (intro scan_reads[where m = MarkedNot and s = jobs_empty and t = 0])
      (simp_all add: claim_example_def jobs_empty_def recipient_of_def memory_jobs_def meet_def digit_char_def
        duration_ms_def I64_MAX_def I64_MIN_def i64_saturating_sub_def millis_def to_ms_def,
       rule exI[of _ "Inr ([(0, OutcomeSent)], None)"],
       simp add: count_outcome.simps summary_default_def, rule stops[where s = claimed_example],
       simp_all add: settle_def claimed_example_def entry_halt_def held_by_def claim_example_def)
  moreover from pass_adds_up[OF this] have "summary_of 2 ?su"
    unfolding rs by (auto simp: numeral_2_eq_2)
  ultimately show ?thesis by blast
qed

text \<open>
  C27. No unsettled job is stuck: whatever was called before, there is an instant from which on it is
  found due and can be claimed by any runner, in the run and with the recipients it has, so the
  markers of that run still say who was sent to. For a job waiting it is its due time; for one held by
  a runner that stopped, the end of its lease.
\<close>

theorem unsettled_job_is_claimed_again:
  assumes "get_job n (jobs_run ttl calls jobs_empty) = Some j" and "\<not> is_settled (sj_state j)"
  shows "\<exists>T. (sj_state j = JobPending \<longrightarrow> T = sj_due_at j) \<and> (sj_state j = JobClaimed \<longrightarrow> T \<le> datetime_max)
    \<and> (\<forall>t\<ge>T. n \<in> set (due_jobs t (jobs_run ttl calls jobs_empty))
        \<and> (\<exists>c st. claim_job t n w lease (jobs_run ttl calls jobs_empty) = (Some c, st)
             \<and> jc_job c = j\<lparr>sj_state := JobClaimed\<rparr> \<and> jc_runner c = w))"
proof -
  let ?st = "jobs_run ttl calls jobs_empty"
  obtain e where e: "map_of (jb_jobs ?st) n = Some e" "j = je_job e"
    using assms(1) by (auto simp: get_job_def)
  have ends: "je_lease e = Some (w', k, u) \<Longrightarrow> u \<le> datetime_max" for w' k u
    using leases_end_run[OF leases_end_empty, of ttl calls] e(1) unfolding leases_end_def by blast
  define T where "T = (if sj_state j = JobPending then sj_due_at j
     else case je_lease e of None \<Rightarrow> datetime_max | Some (_, _, u) \<Rightarrow> u)"
  have "claimable t e" if "T \<le> t" for t
    using that assms(2) e(2)
    by (cases "sj_state j") (auto simp: T_def claimable_def is_settled_def split: option.splits)
  moreover have "sj_state j = JobClaimed \<longrightarrow> T \<le> datetime_max"
    using ends by (auto simp: T_def split: option.splits)
  ultimately show ?thesis
    using claimable_claimed[OF e(1)] e(2) by (intro exI[of _ T]) (auto simp: T_def)
qed

lemma unsettled_job_is_claimed_again_witness:
  "\<exists>T. \<forall>t\<ge>T. ''j'' \<in> set (due_jobs t (jobs_run 7
       [(0, CallSchedule job_example), (0, CallClaim ''j'' ''w'' 10)] jobs_empty))"
proof -
  have "jobs_run 7 [(0, CallSchedule job_example), (0, CallClaim ''j'' ''w'' 10)] jobs_empty = claimed_example"
    using claim_job_example by (simp add: scheduled_example_def)
  then have "get_job ''j'' (jobs_run 7 [(0, CallSchedule job_example), (0, CallClaim ''j'' ''w'' 10)] jobs_empty)
      = Some (jc_job claim_example)"
    by (simp add: claimed_example_def get_job_def)
  from unsettled_job_is_claimed_again[OF this] show ?thesis
    by (simp only: claim_example_def is_settled_def) (simp, blast)
qed

text \<open>
  A job that is accepted sends to each person once: its recipients are a non-empty part of those
  it was given, no two of them share an identity or the key their markers are kept under, and one that
  was left out shares an identity with a listing before it.
\<close>

theorem each_person_once:
  assumes "into_scheduled j = Inr s"
  shows "sj_recipients s \<noteq> [] \<and> subseq (sj_recipients s) (jo_recipients j)
    \<and> sorted_wrt (\<lambda>a b. set (recipient_identities a) \<inter> set (recipient_identities b) = {}) (sj_recipients s)
    \<and> distinct (map recipient_key (sj_recipients s))
    \<and> (\<forall>i<length (jo_recipients j). jo_recipients j ! i \<notin> set (sj_recipients s) \<longrightarrow>
         (\<exists>i'<i. set (recipient_identities (jo_recipients j ! i'))
            \<inter> set (recipient_identities (jo_recipients j ! i)) \<noteq> {}))"
proof -
  have s: "sj_recipients s = keep_new (jo_recipients j) {}" and "jo_recipients j \<noteq> []"
    using assms by (auto simp: into_scheduled_def kept_listings_alt split: if_splits)
  then show ?thesis
    using keep_new_nonempty keep_new_apart[of "jo_recipients j" "{}"] keep_new_keys keep_new_subseq
      left_out[of _ "jo_recipients j" "{}"]
    by auto
qed

lemma each_person_once_witness:
  "\<exists>s. into_scheduled (job_example\<lparr>jo_recipients := [Phone ''+5'', PhoneAndUser ''5'' ''u'', User ''u'']\<rparr>) = Inr s
     \<and> distinct (map recipient_key (sj_recipients s))"
proof -
  let ?j = "job_example\<lparr>jo_recipients := [Phone ''+5'', PhoneAndUser ''5'' ''u'', User ''u'']\<rparr>"
  obtain s where "into_scheduled ?j = Inr s" by (simp add: into_scheduled_def)
  with each_person_once[OF this] show ?thesis by blast
qed

end
