(* ===== verification/Service_Error.thy ===== *)
theory Service_Error
  imports Error_Tree
begin

text \<open>
  The service's errors (\<open>meta-whatsapp-server-core/src/error.rs\<close>): the table of codes with their HTTP
  statuses, the error an API answers as data, and how a library error becomes one. The service's
  sentence of each code and logging are left out; how Meta's details are bounded for an answer is a
  parameter (it reads Unicode categories).
\<close>

section \<open>The table\<close>

record error_code =
  ec_code :: string
  ec_status :: nat

definition CODES :: "error_code list" where
  "CODES = map (\<lambda>(code, status). \<lparr>ec_code = code, ec_status = status\<rparr>)
    [(''unauthenticated'', 401),
     (''method_not_allowed'', 405),
     (''invalid_request'', 422),
     (''invalid_parameter'', 422),
     (''unsupported_message_type'', 422),
     (''recipient_not_supported'', 422),
     (''undeliverable'', 422),
     (''template_parameter_mismatch'', 422),
     (''template_not_found'', 422),
     (''template_text_too_long'', 422),
     (''template_policy_violation'', 422),
     (''template_rejected'', 422),
     (''sample_template_not_allowed'', 422),
     (''idempotency_key_reused'', 422),
     (''invalid_cursor'', 422),
     (''group_participant_not_found'', 422),
     (''join_request_not_found'', 422),
     (''customer_service_window_closed'', 409),
     (''thread_owned_elsewhere'', 409),
     (''marketing_opted_out'', 409),
     (''blocked_by_business'', 409),
     (''experiment_holdout'', 409),
     (''template_paused'', 409),
     (''template_disabled'', 409),
     (''template_syncing'', 409),
     (''template_unavailable'', 409),
     (''template_limit_reached'', 409),
     (''flow_unavailable'', 409),
     (''group_limit_reached'', 409),
     (''group_creation_disabled'', 409),
     (''group_partially_applied'', 409),
     (''calling_not_enabled'', 409),
     (''call_permission_missing'', 409),
     (''call_permission_already_granted'', 409),
     (''call_already_ongoing'', 409),
     (''recipient_terms_not_accepted'', 409),
     (''registration'', 409),
     (''two_step_verification'', 409),
     (''sync_not_allowed'', 409),
     (''duplicate_onboarding'', 409),
     (''number_not_connected'', 409),
     (''reconnect_required'', 409),
     (''waba_owned_by_another_tenant'', 409),
     (''number_still_bound'', 409),
     (''tenant_exists'', 409),
     (''idempotency_in_progress'', 409),
     (''outcome_unknown'', 409),
     (''otp_not_configured'', 409),
     (''signup_not_configured'', 409),
     (''erasure_not_configured'', 409),
     (''erasure_crosses_binding'', 409),
     (''resumable_upload_not_configured'', 409),
     (''webhooks_not_configured'', 409),
     (''webhook_endpoint_limit_reached'', 409),
     (''permission'', 403),
     (''account_restricted'', 403),
     (''country_restricted'', 403),
     (''payment'', 403),
     (''feature_not_available'', 403),
     (''calling_temporarily_disabled'', 403),
     (''group_suspended'', 403),
     (''marketing_not_allowed'', 403),
     (''forbidden'', 403),
     (''tenant_suspended'', 403),
     (''stale_attempt'', 403),
     (''rate_limited'', 429),
     (''pair_rate_limited'', 429),
     (''spam_rate_limited'', 429),
     (''ecosystem_engagement_limit'', 429),
     (''classification_limit_reached'', 429),
     (''group_rate_limited'', 429),
     (''call_limit_reached'', 429),
     (''too_many_requests'', 429),
     (''too_many_streams'', 429),
     (''idempotency_key_required'', 428),
     (''not_found'', 404),
     (''nothing_to_resume'', 404),
     (''cursor_expired'', 410),
     (''payload_too_large'', 413),
     (''media_too_large'', 413),
     (''service_unavailable'', 502),
     (''unknown'', 502),
     (''upstream'', 502),
     (''integrity'', 502),
     (''call_connection_failed'', 502),
     (''call_media_timeout'', 502),
     (''media_download_failed'', 502),
     (''media_upload_failed'', 502),
     (''onboarding_failed'', 502),
     (''media_conversion_failed'', 502),
     (''timeout'', 504),
     (''storage_unavailable'', 503),
     (''shutting_down'', 503),
     (''internal'', 500)]"

definition error_code_of :: "string \<Rightarrow> error_code option" where
  "error_code_of code = List.find (\<lambda>known. ec_code known = code) CODES"

definition code_info :: "string \<Rightarrow> nat option" where
  "code_info code = map_option ec_status (error_code_of code)"

text \<open>A code the source names is a row of the table.\<close>

definition named_code :: "string \<Rightarrow> error_code" where
  "named_code code = the (error_code_of code)"

definition kind_code :: "error_kind \<Rightarrow> string" where
  "kind_code kind = (if kind = Authentication then ''reconnect_required'' else kind_as_str kind)"

section \<open>Errors\<close>

record graph_error_info =
  gi_code :: int
  gi_subcode :: "int option"
  gi_fbtrace_id :: "string option"
  gi_details :: "string option"

record service_error =
  se_code :: error_code
  se_retryable :: bool
  se_may_have_been_sent :: bool
  se_field :: "string option"
  se_step :: "string option"
  se_resumable :: "bool option"
  se_graph :: "graph_error_info option"
  se_retry_after :: "nat option"

definition service_error_new :: "string \<Rightarrow> service_error" where
  "service_error_new code =
     \<lparr>se_code = named_code code, se_retryable = False, se_may_have_been_sent = False, se_field = None,
      se_step = None, se_resumable = None, se_graph = None, se_retry_after = None\<rparr>"

definition se_status :: "service_error \<Rightarrow> nat" where
  "se_status e = ec_status (se_code e)"

definition too_many_requests :: "nat \<Rightarrow> service_error" where
  "too_many_requests seconds =
     (service_error_new ''too_many_requests'')\<lparr>se_retryable := True, se_retry_after := Some seconds\<rparr>"

definition too_many_streams :: "nat \<Rightarrow> service_error" where
  "too_many_streams seconds =
     (service_error_new ''too_many_streams'')\<lparr>se_retryable := True, se_retry_after := Some seconds\<rparr>"

definition invalid_request :: "string \<Rightarrow> service_error" where
  "invalid_request field = (service_error_new ''invalid_request'')\<lparr>se_field := Some field\<rparr>"

definition as_invalid :: "string \<Rightarrow> service_error \<Rightarrow> service_error" where
  "as_invalid field e = e\<lparr>se_code := se_code (invalid_request field), se_field := Some field\<rparr>"

definition as_onboarding_failed :: "bool \<Rightarrow> service_error \<Rightarrow> service_error" where
  "as_onboarding_failed resumable e =
     e\<lparr>se_code := named_code ''onboarding_failed'', se_field := None, se_resumable := Some resumable,
       se_graph := map_option (\<lambda>g. g\<lparr>gi_details := None\<rparr>) (se_graph e)\<rparr>"

definition without_details :: "service_error \<Rightarrow> service_error" where
  "without_details e = e\<lparr>se_graph := map_option (\<lambda>g. g\<lparr>gi_details := None\<rparr>) (se_graph e)\<rparr>"

section \<open>From a library error\<close>

text \<open>A kind without a code would be a bug, answered as \<open>internal\<close>.\<close>

definition kind_error :: "error_kind \<Rightarrow> service_error" where
  "kind_error kind =
     (case error_code_of (kind_code kind) of
        Some code \<Rightarrow> (service_error_new ''internal'')\<lparr>se_code := code\<rparr>
      | None \<Rightarrow> service_error_new ''internal'')"

fun classify :: "error \<Rightarrow> service_error" where
  "classify (Api graph) = kind_error (graph_kind graph)"
| "classify (Http _ _) = service_error_new ''upstream''"
| "classify (Decode _ _ _) = service_error_new ''upstream''"
| "classify (Transport transport_error.Timeout) = service_error_new ''timeout''"
| "classify (Transport (Integrity _)) = service_error_new ''integrity''"
| "classify (Transport _) = service_error_new ''service_unavailable''"
| "classify (Validation v) =
     (if is_customer_service_window_closed v then service_error_new ''customer_service_window_closed''
      else if is_thread_owned_elsewhere v then service_error_new ''thread_owned_elsewhere''
      else invalid_request (ve_field v))"
| "classify (Storage _) = service_error_new ''storage_unavailable''"
| "classify (Step step source) = (classify source)\<lparr>se_step := Some step\<rparr>"
| "classify (Credit credit) = kind_error (credit_kind credit)"
| "classify (Conversion (InputRejected _)) = invalid_request ''file''"
| "classify (Conversion _) = service_error_new ''media_conversion_failed''"
| "classify _ = service_error_new ''internal''"

definition from_library :: "error \<Rightarrow> service_error" where
  "from_library e =
     (classify e)\<lparr>se_retryable := is_retryable e, se_may_have_been_sent := may_have_been_sent e,
       se_graph := map_option (\<lambda>graph. \<lparr>gi_code = ge_code graph, gi_subcode = ge_error_subcode graph,
         gi_fbtrace_id = ge_fbtrace_id graph, gi_details = None\<rparr>) (error_graph e)\<rparr>"

definition with_details :: "(string \<Rightarrow> string) \<Rightarrow> error \<Rightarrow> service_error \<Rightarrow> service_error" where
  "with_details bounded e se =
     (case (se_graph se, error_graph e) of
        (Some info, Some graph) \<Rightarrow> se\<lparr>se_graph := Some (info\<lparr>gi_details := map_option bounded (graph_details graph)\<rparr>)\<rparr>
      | _ \<Rightarrow> se)"

section \<open>Every code is in the table\<close>

definition known_codes :: "string list" where "known_codes = map ec_code CODES"

lemma error_code_of_known:
  assumes "code \<in> set known_codes"
  shows "\<exists>c\<in>set CODES. error_code_of code = Some c \<and> ec_code c = code"
proof (cases "error_code_of code")
  case None
  then show ?thesis using assms by (auto simp: error_code_of_def find_None_iff known_codes_def)
next
  case (Some c)
  then show ?thesis by (auto simp: error_code_of_def find_Some_iff)
qed

lemma named_code_known:
  assumes "code \<in> set known_codes"
  shows "named_code code \<in> set CODES \<and> ec_code (named_code code) = code"
  using error_code_of_known[OF assms] by (auto simp: named_code_def)

lemma known_codes_names:
  "known_codes =
    [''unauthenticated'', ''method_not_allowed'', ''invalid_request'', ''invalid_parameter'',
     ''unsupported_message_type'', ''recipient_not_supported'', ''undeliverable'',
     ''template_parameter_mismatch'', ''template_not_found'', ''template_text_too_long'',
     ''template_policy_violation'', ''template_rejected'', ''sample_template_not_allowed'',
     ''idempotency_key_reused'', ''invalid_cursor'', ''group_participant_not_found'',
     ''join_request_not_found'', ''customer_service_window_closed'', ''thread_owned_elsewhere'',
     ''marketing_opted_out'', ''blocked_by_business'', ''experiment_holdout'', ''template_paused'',
     ''template_disabled'', ''template_syncing'', ''template_unavailable'', ''template_limit_reached'',
     ''flow_unavailable'', ''group_limit_reached'', ''group_creation_disabled'',
     ''group_partially_applied'', ''calling_not_enabled'', ''call_permission_missing'',
     ''call_permission_already_granted'', ''call_already_ongoing'', ''recipient_terms_not_accepted'',
     ''registration'', ''two_step_verification'', ''sync_not_allowed'', ''duplicate_onboarding'',
     ''number_not_connected'', ''reconnect_required'', ''waba_owned_by_another_tenant'',
     ''number_still_bound'', ''tenant_exists'', ''idempotency_in_progress'', ''outcome_unknown'',
     ''otp_not_configured'', ''signup_not_configured'', ''erasure_not_configured'',
     ''erasure_crosses_binding'', ''resumable_upload_not_configured'', ''webhooks_not_configured'',
     ''webhook_endpoint_limit_reached'', ''permission'', ''account_restricted'', ''country_restricted'',
     ''payment'', ''feature_not_available'', ''calling_temporarily_disabled'', ''group_suspended'',
     ''marketing_not_allowed'', ''forbidden'', ''tenant_suspended'', ''stale_attempt'', ''rate_limited'',
     ''pair_rate_limited'', ''spam_rate_limited'', ''ecosystem_engagement_limit'',
     ''classification_limit_reached'', ''group_rate_limited'', ''call_limit_reached'',
     ''too_many_requests'', ''too_many_streams'', ''idempotency_key_required'', ''not_found'',
     ''nothing_to_resume'', ''cursor_expired'', ''payload_too_large'', ''media_too_large'',
     ''service_unavailable'', ''unknown'', ''upstream'', ''integrity'', ''call_connection_failed'',
     ''call_media_timeout'', ''media_download_failed'', ''media_upload_failed'', ''onboarding_failed'',
     ''media_conversion_failed'', ''timeout'', ''storage_unavailable'', ''shutting_down'', ''internal'']"
  by (simp add: known_codes_def CODES_def)

lemma kind_codes:
  "map kind_code all_kinds =
    [''reconnect_required'', ''permission'', ''rate_limited'', ''spam_rate_limited'',
     ''pair_rate_limited'', ''classification_limit_reached'', ''account_restricted'',
     ''country_restricted'', ''invalid_parameter'', ''unsupported_message_type'',
     ''customer_service_window_closed'', ''thread_owned_elsewhere'', ''ecosystem_engagement_limit'',
     ''marketing_opted_out'', ''marketing_not_allowed'', ''undeliverable'', ''blocked_by_business'',
     ''experiment_holdout'', ''recipient_not_supported'', ''media_download_failed'',
     ''media_upload_failed'', ''template_parameter_mismatch'', ''template_not_found'',
     ''template_text_too_long'', ''template_policy_violation'', ''template_paused'',
     ''template_disabled'', ''template_syncing'', ''template_unavailable'', ''template_limit_reached'',
     ''template_rejected'', ''sample_template_not_allowed'', ''flow_unavailable'', ''registration'',
     ''two_step_verification'', ''sync_not_allowed'', ''duplicate_onboarding'', ''not_found'',
     ''feature_not_available'', ''group_partially_applied'', ''recipient_terms_not_accepted'',
     ''group_suspended'', ''group_rate_limited'', ''group_limit_reached'', ''group_creation_disabled'',
     ''group_participant_not_found'', ''join_request_not_found'', ''invalid_cursor'',
     ''calling_not_enabled'', ''calling_temporarily_disabled'', ''call_permission_missing'',
     ''call_permission_already_granted'', ''call_already_ongoing'', ''call_limit_reached'',
     ''call_connection_failed'', ''call_media_timeout'', ''payment'', ''service_unavailable'',
     ''unknown'']"
  by (simp add: all_kinds_def kind_code_def)

lemma kinds_at:
  "map kind_code all_kinds = map ((!) known_codes)
    [41, 54, 65, 67, 66, 69, 55, 56, 3, 4, 17, 18, 68, 19, 61, 6, 20, 21, 5, 86, 87, 7, 8, 9, 10, 22, 23,
     24, 25, 26, 11, 12, 27, 36, 37, 38, 39, 75, 58, 30, 35, 60, 70, 28, 29, 15, 16, 14, 31, 59, 32, 33,
     34, 71, 84, 85, 57, 80, 81]"
  unfolding kind_codes known_codes_names by simp

lemma kinds_known: "set (map kind_code all_kinds) \<subseteq> set known_codes"
proof -
  have "length known_codes = 94" unfolding known_codes_names by simp
  then show ?thesis unfolding kinds_at by (auto intro!: nth_mem)
qed

lemma kinds_not_internal: "''internal'' \<notin> set (map kind_code all_kinds)"
  unfolding kind_codes by simp

lemma kind_code_known: "kind_code kind \<in> set known_codes" and kind_code_not_internal: "kind_code kind \<noteq> ''internal''"
  using kinds_known kinds_not_internal all_kinds_complete[of kind] by force+

lemma literals_known [simp]:
  "''upstream'' \<in> set known_codes" "''timeout'' \<in> set known_codes" "''integrity'' \<in> set known_codes"
  "''service_unavailable'' \<in> set known_codes" "''customer_service_window_closed'' \<in> set known_codes"
  "''thread_owned_elsewhere'' \<in> set known_codes" "''invalid_request'' \<in> set known_codes"
  "''storage_unavailable'' \<in> set known_codes" "''media_conversion_failed'' \<in> set known_codes"
  "''internal'' \<in> set known_codes" "''onboarding_failed'' \<in> set known_codes"
  "''too_many_requests'' \<in> set known_codes" "''too_many_streams'' \<in> set known_codes"
  "''idempotency_key_reused'' \<in> set known_codes" "''idempotency_in_progress'' \<in> set known_codes"
  "''outcome_unknown'' \<in> set known_codes" "''forbidden'' \<in> set known_codes" "''not_found'' \<in> set known_codes"
  by (simp_all add: known_codes_names)

lemma new_code [simp]: "se_code (service_error_new code) = named_code code"
  by (simp add: service_error_new_def)

text \<open>What an error is once its steps are taken off.\<close>

fun unstepped :: "error \<Rightarrow> error" where
  "unstepped (Step _ source) = unstepped source"
| "unstepped e = e"

lemma kind_error_code: "se_code (kind_error kind) \<in> set CODES \<and> ec_code (se_code (kind_error kind)) = kind_code kind"
  using error_code_of_known[OF kind_code_known[of kind]] by (auto simp: kind_error_def)

lemma classified_code:
  "se_code (classify e) \<in> set CODES
    \<and> (ec_code (se_code (classify e)) = ''internal'' \<longleftrightarrow>
        (case unstepped e of Webhook _ \<Rightarrow> True | Sink _ \<Rightarrow> True | Crypto _ \<Rightarrow> True | Config _ \<Rightarrow> True
         | Other _ \<Rightarrow> True | _ \<Rightarrow> False))"
proof -
  have known: "code \<in> set known_codes \<Longrightarrow> named_code code \<in> set CODES \<and> ec_code (named_code code) = code" for code
    using named_code_known by simp
  show ?thesis
    by (induction e rule: classify.induct)
      (simp_all add: kind_error_code kind_code_not_internal known invalid_request_def)
qed

text \<open>
  C28. Every library error is answered with a code of the table, a Graph error with its kind's, and
  \<open>internal\<close> is answered only for the errors of the service's own parts. The two flags a caller acts
  on, whether a repeat may succeed and whether the request may have been sent, are the library's.
\<close>

theorem library_errors_answered:
  "se_code (from_library e) \<in> set CODES
    \<and> ec_code (se_code (from_library (Api graph))) = kind_code (graph_kind graph)
    \<and> (ec_code (se_code (from_library e)) = ''internal'' \<longleftrightarrow>
        (case unstepped e of Webhook _ \<Rightarrow> True | Sink _ \<Rightarrow> True | Crypto _ \<Rightarrow> True | Config _ \<Rightarrow> True
         | Other _ \<Rightarrow> True | _ \<Rightarrow> False))
    \<and> se_retryable (from_library e) = is_retryable e
    \<and> se_may_have_been_sent (from_library e) = may_have_been_sent e"
  using classified_code[of e] kind_error_code[of "graph_kind graph"] by (simp add: from_library_def)

end
