(* ===== verification/Fingerprints.thy ===== *)
theory Fingerprints
  imports Prelude
begin

text \<open>
  What an idempotency key is bound to: the fingerprint of a request
  (\<open>meta-whatsapp-server-core/src/idempotency.rs\<close>), the SHA-256 of its operation and its canonical
  input. \<open>asked\<close> is what is hashed, by the kinds of input the code hashes, one constructor of a
  fingerprint per idempotent operation; \<open>preimage\<close> is the bytes. An operation is named by its id.
  The theorem: the bytes determine the request, whatever the order of a JSON object's members and of
  the parameters.
\<close>

section \<open>Bytes\<close>

text \<open>Big-endian, \<open>k\<close> bytes: \<open>(n as u64).to_be_bytes()\<close> is \<open>be_bytes 8\<close>.\<close>

primrec be_bytes :: "nat \<Rightarrow> nat \<Rightarrow> string" where
  "be_bytes 0 n = []"
| "be_bytes (Suc k) n = be_bytes k (n div 256) @ [char_of (n mod 256)]"

definition u64_be :: "nat \<Rightarrow> string" where "u64_be n = be_bytes 8 n"

definition framed :: "string \<Rightarrow> string" where
  "framed bytes = u64_be (length bytes) @ bytes"

function canonical :: "json \<Rightarrow> string" where
  "canonical JNull = ''n''"
| "canonical (JBool b) = (if b then ''t'' else ''f'')"
| "canonical (JNumber n) = ''#'' @ framed n"
| "canonical (JString s) = ''s'' @ framed s"
| "canonical (JArray items) = ''['' @ u64_be (length items) @ concat (map canonical items)"
| "canonical (JObject members) =
     ''{'' @ u64_be (length members)
     @ concat (map (\<lambda>(k, v). framed k @ canonical v) (sort_key fst members))"
  by pat_completeness auto

termination
  by (relation "measure size") (auto dest: member_smaller item_smaller)

section \<open>What is hashed\<close>

datatype asked =
  AskJson string "(string \<times> string) list" json
| AskParts string "(string \<times> string) list" "(string \<times> string) list"
| AskAdmin string json
| AskAdminFor string string json

definition pairs_bytes :: "(string \<times> string) list \<Rightarrow> string" where
  "pairs_bytes ps = u64_be (length ps) @ concat (map (\<lambda>(n, v). framed n @ framed v) ps)"

text \<open>The kind, the operation's id and the parameters, sorted by name, each framed.\<close>

definition fp_begin :: "string \<Rightarrow> string \<Rightarrow> (string \<times> string) list \<Rightarrow> string" where
  "fp_begin kind operation params = framed kind @ framed operation @ pairs_bytes (sort params)"

fun preimage :: "asked \<Rightarrow> string" where
  "preimage (AskJson operation params body) = fp_begin ''json'' operation params @ canonical body"
| "preimage (AskParts operation params parts) = fp_begin ''parts'' operation params @ pairs_bytes parts"
| "preimage (AskAdmin operation body) = framed ''admin-json'' @ framed operation @ canonical body"
| "preimage (AskAdminFor operation target body) =
     framed ''admin-json-for'' @ framed operation @ framed target @ canonical body"

section \<open>Fingerprints\<close>

record fingerprint =
  fp_digest :: string
  fp_legacy :: "string option"

definition fingerprint_of :: "(string \<Rightarrow> string) \<Rightarrow> asked \<Rightarrow> fingerprint" where
  "fingerprint_of sha a = \<lparr>fp_digest = sha (preimage a), fp_legacy = None\<rparr>"

text \<open>A passcode's is keyed: its body names a phone number.\<close>

definition issue_otp_fingerprint :: "(string \<Rightarrow> string) \<Rightarrow> (string \<Rightarrow> string) \<Rightarrow> asked \<Rightarrow> fingerprint" where
  "issue_otp_fingerprint sha keyed a = \<lparr>fp_digest = keyed (sha (preimage a)), fp_legacy = None\<rparr>"

text \<open>What a release before stored: the method and the path as sent.\<close>

definition legacy_v1_json :: "(string \<Rightarrow> string) \<Rightarrow> string \<Rightarrow> string \<Rightarrow> json \<Rightarrow> fingerprint" where
  "legacy_v1_json sha http_method path body =
     \<lparr>fp_digest = sha (framed ''json'' @ framed http_method @ framed path @ canonical body), fp_legacy = None\<rparr>"

definition legacy_v1_parts ::
  "(string \<Rightarrow> string) \<Rightarrow> string \<Rightarrow> string \<Rightarrow> (string \<times> string) list \<Rightarrow> fingerprint" where
  "legacy_v1_parts sha http_method path parts =
     \<lparr>fp_digest = sha (framed ''parts'' @ framed http_method @ framed path
        @ concat (map (\<lambda>(n, v). framed n @ framed v) parts)), fp_legacy = None\<rparr>"

record upload =
  up_mime_type :: string
  up_filename :: string
  up_data :: string

definition legacy_v1_upload :: "(string \<Rightarrow> string) \<Rightarrow> string \<Rightarrow> string \<Rightarrow> upload \<Rightarrow> fingerprint" where
  "legacy_v1_upload sha http_method path upload =
     legacy_v1_parts sha http_method path
       [(''type'', up_mime_type upload), (''filename'', up_filename upload), (''file'', sha (up_data upload))]"

definition or_legacy :: "fingerprint \<Rightarrow> fingerprint \<Rightarrow> fingerprint" where
  "or_legacy legacy f = f\<lparr>fp_legacy := Some (fp_digest legacy)\<rparr>"

definition fp_matches :: "fingerprint \<Rightarrow> string \<Rightarrow> bool" where
  "fp_matches f stored \<longleftrightarrow> fp_digest f = stored \<or> fp_legacy f = Some stored"

section \<open>One per idempotent operation\<close>

record conversion_upload =
  cv_target_name :: string
  cv_file_name :: string
  cv_data :: string

record new_upload =
  nu_file_name :: string
  nu_file_length :: nat
  nu_file_type :: string

text \<open>A hosted claim's PIN is no input, only its presence.\<close>

definition hide_pin :: "json \<Rightarrow> json" where
  "hide_pin body =
     (case body of
        JObject members \<Rightarrow>
          JObject (map (\<lambda>(k, v). if k = ''pin'' \<and> (case v of JString _ \<Rightarrow> True | _ \<Rightarrow> False)
                                 then (k, JBool True) else (k, v)) members)
      | _ \<Rightarrow> body)"

definition ask_send_message :: "string \<Rightarrow> json \<Rightarrow> asked" where
  "ask_send_message number body =
     AskJson ''send_message'' [(''pn'', number)] body"

definition ask_upload_media :: "(string \<Rightarrow> string) \<Rightarrow> string \<Rightarrow> upload \<Rightarrow> asked" where
  "ask_upload_media sha number upload =
     AskParts ''upload_media'' [(''pn'', number)]
       [(''type'', up_mime_type upload), (''filename'', up_filename upload), (''file'', sha (up_data upload))]"

definition ask_upload_converted_media :: "(string \<Rightarrow> string) \<Rightarrow> string \<Rightarrow> conversion_upload \<Rightarrow> asked" where
  "ask_upload_converted_media sha number conversion =
     AskParts ''upload_media'' [(''pn'', number)]
       [(''convert'', cv_target_name conversion), (''filename'', cv_file_name conversion), (''file'', sha (cv_data conversion))]"

definition ask_start_media_upload :: "string \<Rightarrow> new_upload \<Rightarrow> asked" where
  "ask_start_media_upload number upload =
     AskJson ''start_media_upload'' [(''pn'', number)]
       (JObject [(''file_name'', JString (nu_file_name upload)), (''file_length'', JNumber (show_nat (nu_file_length upload))),
         (''file_type'', JString (nu_file_type upload))])"

definition ask_create_template :: "string \<Rightarrow> json \<Rightarrow> asked" where
  "ask_create_template waba body =
     AskJson ''create_template'' [(''waba_id'', waba)] body"

definition ask_reply_to_conversation :: "string \<Rightarrow> string \<Rightarrow> json \<Rightarrow> asked" where
  "ask_reply_to_conversation number contact body =
     AskJson ''reply_to_conversation'' [(''pn'', number), (''contact'', contact)] body"

definition ask_mark_conversation_read :: "string \<Rightarrow> string \<Rightarrow> json \<Rightarrow> asked" where
  "ask_mark_conversation_read number contact body =
     AskJson ''mark_conversation_read'' [(''pn'', number), (''contact'', contact)] body"

definition ask_create_authentication_template :: "string \<Rightarrow> json \<Rightarrow> asked" where
  "ask_create_authentication_template waba body =
     AskJson ''create_authentication_template'' [(''waba_id'', waba)] body"

definition ask_issue_otp :: "json \<Rightarrow> asked" where
  "ask_issue_otp body =
     AskJson ''issue_otp'' [] body"

definition ask_request_verification_code :: "string \<Rightarrow> string \<Rightarrow> string \<Rightarrow> asked" where
  "ask_request_verification_code number method language =
     AskJson ''request_verification_code'' [(''pn'', number)] (JObject [(''code_method'', JString method), (''language'', JString language)])"

definition ask_register_number :: "string \<Rightarrow> string option \<Rightarrow> asked" where
  "ask_register_number number region =
     AskJson ''register_number'' [(''pn'', number)] (JObject [(''data_localization_region'', case region of None \<Rightarrow> JNull | Some r \<Rightarrow> JString r)])"

definition ask_deregister_number :: "string \<Rightarrow> asked" where
  "ask_deregister_number number =
     AskJson ''deregister_number'' [(''pn'', number)] (JObject [])"

definition ask_create_payment_configuration :: "string \<Rightarrow> json \<Rightarrow> asked" where
  "ask_create_payment_configuration waba body =
     AskJson ''create_payment_configuration'' [(''waba_id'', waba)] body"

definition ask_regenerate_payment_oauth_link :: "string \<Rightarrow> string \<Rightarrow> json \<Rightarrow> asked" where
  "ask_regenerate_payment_oauth_link waba configuration_name body =
     AskJson ''regenerate_payment_oauth_link'' [(''waba_id'', waba), (''configuration_name'', configuration_name)] body"

definition ask_refund_payment :: "string \<Rightarrow> json \<Rightarrow> asked" where
  "ask_refund_payment number body =
     AskJson ''refund_payment'' [(''pn'', number)] body"

definition ask_create_library_template :: "string \<Rightarrow> json \<Rightarrow> asked" where
  "ask_create_library_template waba body =
     AskJson ''create_library_template'' [(''waba_id'', waba)] body"

definition ask_migrate_templates :: "string \<Rightarrow> json \<Rightarrow> asked" where
  "ask_migrate_templates waba body =
     AskJson ''migrate_templates'' [(''waba_id'', waba)] body"

definition ask_create_template_group :: "string \<Rightarrow> json \<Rightarrow> asked" where
  "ask_create_template_group waba body =
     AskJson ''create_template_group'' [(''waba_id'', waba)] body"

definition ask_create_qr_code :: "string \<Rightarrow> json \<Rightarrow> asked" where
  "ask_create_qr_code number body =
     AskJson ''create_qr_code'' [(''pn'', number)] body"

definition ask_block_users :: "string \<Rightarrow> json \<Rightarrow> asked" where
  "ask_block_users number body =
     AskJson ''block_users'' [(''pn'', number)] body"

definition ask_unblock_users :: "string \<Rightarrow> json \<Rightarrow> asked" where
  "ask_unblock_users number body =
     AskJson ''unblock_users'' [(''pn'', number)] body"

definition ask_pass_thread :: "string \<Rightarrow> json \<Rightarrow> asked" where
  "ask_pass_thread number body =
     AskJson ''pass_thread'' [(''pn'', number)] body"

definition ask_take_thread :: "string \<Rightarrow> json \<Rightarrow> asked" where
  "ask_take_thread number body =
     AskJson ''take_thread'' [(''pn'', number)] body"

definition ask_release_thread :: "string \<Rightarrow> json \<Rightarrow> asked" where
  "ask_release_thread number body =
     AskJson ''release_thread'' [(''pn'', number)] body"

definition ask_create_group :: "string \<Rightarrow> json \<Rightarrow> asked" where
  "ask_create_group number body =
     AskJson ''create_group'' [(''pn'', number)] body"

definition ask_connect_call :: "string \<Rightarrow> json \<Rightarrow> asked" where
  "ask_connect_call number body =
     AskJson ''connect_call'' [(''pn'', number)] body"

definition ask_create_solution_migration_intent :: "string \<Rightarrow> json \<Rightarrow> asked" where
  "ask_create_solution_migration_intent waba body =
     AskJson ''create_solution_migration_intent'' [(''waba_id'', waba)] body"

definition ask_create_billing_migration :: "string \<Rightarrow> json \<Rightarrow> asked" where
  "ask_create_billing_migration waba body =
     AskJson ''create_billing_migration'' [(''waba_id'', waba)] body"

definition ask_request_display_name_change :: "string \<Rightarrow> json \<Rightarrow> asked" where
  "ask_request_display_name_change number body =
     AskJson ''request_display_name_change'' [(''pn'', number)] body"

definition ask_request_official_business_account :: "string \<Rightarrow> json \<Rightarrow> asked" where
  "ask_request_official_business_account number body =
     AskJson ''request_official_business_account'' [(''pn'', number)] body"

definition ask_send_marketing_message :: "string \<Rightarrow> json \<Rightarrow> asked" where
  "ask_send_marketing_message number body =
     AskJson ''send_marketing_message'' [(''pn'', number)] body"

definition ask_enable_template_insights :: "string \<Rightarrow> asked" where
  "ask_enable_template_insights waba =
     AskJson ''enable_template_insights'' [(''waba_id'', waba)] JNull"

definition ask_set_template_click_tracking :: "string \<Rightarrow> string \<Rightarrow> json \<Rightarrow> asked" where
  "ask_set_template_click_tracking waba template body =
     AskJson ''set_template_click_tracking'' [(''waba_id'', waba), (''template_id'', template)] body"

definition ask_duplicate_marketing_template :: "string \<Rightarrow> json \<Rightarrow> asked" where
  "ask_duplicate_marketing_template waba body =
     AskJson ''duplicate_marketing_template'' [(''waba_id'', waba)] body"

definition ask_create_welcome_sequence :: "string \<Rightarrow> json \<Rightarrow> asked" where
  "ask_create_welcome_sequence waba body =
     AskJson ''create_welcome_sequence'' [(''waba_id'', waba)] body"

definition ask_create_flow :: "string \<Rightarrow> json \<Rightarrow> asked" where
  "ask_create_flow waba body =
     AskJson ''create_flow'' [(''waba_id'', waba)] body"

definition ask_set_flow_key :: "string \<Rightarrow> string \<Rightarrow> asked" where
  "ask_set_flow_key waba public_key_sha256 =
     AskJson ''set_flow_key'' [(''waba_id'', waba)] (JObject [(''public_key_sha256'', JString public_key_sha256)])"

definition ask_submit_business_verification :: "json \<Rightarrow> asked" where
  "ask_submit_business_verification body =
     AskAdmin ''submit_business_verification'' body"

definition ask_create_partner_solution :: "json \<Rightarrow> asked" where
  "ask_create_partner_solution body =
     AskAdmin ''create_partner_solution'' body"

definition ask_add_pre_verified_number :: "json \<Rightarrow> asked" where
  "ask_add_pre_verified_number body =
     AskAdmin ''add_pre_verified_number'' body"

definition ask_request_pre_verified_code :: "string \<Rightarrow> json \<Rightarrow> asked" where
  "ask_request_pre_verified_code i body =
     AskAdminFor ''request_pre_verified_code'' i body"

definition ask_complete_hosted_signup :: "json \<Rightarrow> asked" where
  "ask_complete_hosted_signup body =
     AskAdmin ''complete_hosted_signup'' (hide_pin body)"

section \<open>The bytes determine the request\<close>

lemma length_be_bytes [simp]: "length (be_bytes k n) = k"
  by (induction k arbitrary: n) simp_all

lemma be_bytes_inj: "n < 256 ^ k \<Longrightarrow> m < 256 ^ k \<Longrightarrow> be_bytes k n = be_bytes k m \<Longrightarrow> n = m"
proof (induction k arbitrary: n m)
  case (Suc k)
  have "(of_char (char_of (n mod 256)) :: nat) = of_char (char_of (m mod 256))" using Suc.prems(3) by simp
  then have "n mod 256 = m mod 256" by simp
  moreover have "n div 256 = m div 256"
    using Suc.prems by (intro Suc.IH) (auto simp: less_mult_imp_div_less mult.commute)
  ultimately show ?case by (metis div_mult_mod_eq)
qed simp

lemma u64_be_apart:
  assumes "u64_be n @ x = u64_be m @ y" and "n < 2 ^ 64" "m < 2 ^ 64"
  shows "n = m \<and> x = y"
proof -
  have "be_bytes 8 n = be_bytes 8 m" "x = y" using assms(1) by (simp_all add: u64_be_def)
  then show ?thesis using be_bytes_inj[of n 8 m] assms(2,3) by simp
qed

lemma framed_apart:
  assumes "framed a @ x = framed b @ y" and "length a < 2 ^ 64" "length b < 2 ^ 64"
  shows "a = b \<and> x = y"
  using assms u64_be_apart[of "length a" "a @ x" "length b" "b @ y"]
  by (auto simp: framed_def append_eq_append_conv)

text \<open>A list of codes, each followed by the rest, is read back code by code.\<close>

lemma concat_apart:
  assumes "\<And>a b x y. a \<in> set as \<Longrightarrow> b \<in> set bs \<Longrightarrow> f a @ x = f b @ y \<Longrightarrow> g a = g b \<and> x = y"
    and "length as = length bs" and "concat (map f as) @ x = concat (map f bs) @ y"
  shows "map g as = map g bs \<and> x = y"
  using assms
proof (induction as arbitrary: bs)
  case (Cons a as)
  then obtain b bs' where bs: "bs = b # bs'" by (cases bs) auto
  have "f a @ concat (map f as) @ x = f b @ concat (map f bs') @ y" using Cons.prems(3) bs by simp
  with Cons.prems(1)[of a b] bs have ab: "g a = g b" "concat (map f as) @ x = concat (map f bs') @ y" by auto
  have "map g as = map g bs' \<and> x = y"
    by (rule Cons.IH[OF _ _ ab(2)]) (use Cons.prems(1,2) bs in auto)
  then show ?case using ab(1) bs by simp
qed simp

text \<open>Values up to the order of the members of an object.\<close>

function norm :: "json \<Rightarrow> json" where
  "norm (JArray items) = JArray (map norm items)"
| "norm (JObject members) = JObject (map (\<lambda>(k, v). (k, norm v)) (sort_key fst members))"
| "norm JNull = JNull"
| "norm (JBool b) = JBool b"
| "norm (JNumber n) = JNumber n"
| "norm (JString s) = JString s"
  by pat_completeness auto

termination by (relation "measure size") (auto dest: member_smaller item_smaller)

text \<open>Lengths fit in 64 bits, as they do in memory.\<close>

function sized_json :: "json \<Rightarrow> bool" where
  "sized_json (JArray items) \<longleftrightarrow> length items < 2 ^ 64 \<and> (\<forall>v\<in>set items. sized_json v)"
| "sized_json (JObject members) \<longleftrightarrow>
     length members < 2 ^ 64 \<and> (\<forall>(k, v)\<in>set members. length k < 2 ^ 64 \<and> sized_json v)"
| "sized_json JNull \<longleftrightarrow> True"
| "sized_json (JBool _) \<longleftrightarrow> True"
| "sized_json (JNumber n) \<longleftrightarrow> length n < 2 ^ 64"
| "sized_json (JString s) \<longleftrightarrow> length s < 2 ^ 64"
  by pat_completeness auto

termination by (relation "measure size") (auto dest: member_smaller item_smaller)

lemma canonical_apart:
  assumes "sized_json u" "sized_json v" and "canonical u @ x = canonical v @ y"
  shows "norm u = norm v \<and> x = y"
  using assms
proof (induction u arbitrary: v x y)
  case (JNumber n) then show ?case by (cases v) (auto split: if_splits dest: framed_apart)
next
  case (JString s) then show ?case by (cases v) (auto split: if_splits dest: framed_apart)
next
  case (JArray items)
  then obtain items' where v: "v = JArray items'" by (cases v) (auto split: if_splits)
  have l: "length items = length items'"
    and rest: "concat (map canonical items) @ x = concat (map canonical items') @ y"
    using JArray.prems v u64_be_apart[of "length items" _ "length items'"] by auto
  have "map norm items = map norm items' \<and> x = y"
    by (rule concat_apart[OF _ l rest]) (use JArray.IH JArray.prems(1,2) v in auto)
  then show ?case using v by simp
next
  case (JObject ms)
  then obtain ms' where v: "v = JObject ms'" by (cases v) (auto split: if_splits)
  let ?f = "\<lambda>(k, v). framed k @ canonical v" and ?g = "\<lambda>(k, v). (k, norm v)"
  have "length ms = length ms'" and rest:
      "concat (map ?f (sort_key fst ms)) @ x = concat (map ?f (sort_key fst ms')) @ y"
    using JObject.prems v u64_be_apart[of "length ms" _ "length ms'"] by auto
  then have l: "length (sort_key fst ms) = length (sort_key fst ms')" by simp
  have "map ?g (sort_key fst ms) = map ?g (sort_key fst ms') \<and> x = y"
  proof (rule concat_apart[OF _ l rest])
    fix a b x' y'
    assume ab: "a \<in> set (sort_key fst ms)" "b \<in> set (sort_key fst ms')" "?f a @ x' = ?f b @ y'"
    obtain k v1 k' v2 where kv: "a = (k, v1)" "b = (k', v2)" by fastforce
    have s: "length k < 2 ^ 64" "length k' < 2 ^ 64" "sized_json v1" "sized_json v2"
      using ab(1,2) kv JObject.prems(1,2) v by auto
    have "k = k'" "canonical v1 @ x' = canonical v2 @ y'"
      using framed_apart[OF _ s(1,2), of "canonical v1 @ x'" "canonical v2 @ y'"] ab(3) kv by simp_all
    moreover have "norm v1 = norm v2 \<and> x' = y'"
      by (rule JObject.IH[OF _ _ s(3,4)]) (use ab(1) kv calculation(2) in auto)
    ultimately show "?g a = ?g b \<and> x' = y'" using kv by simp
  qed
  then show ?case using v by simp
qed (case_tac [!] v, auto split: if_splits)

lemma pairs_apart:
  assumes "pairs_bytes ps @ x = pairs_bytes qs @ y"
    and "length ps < 2 ^ 64" "length qs < 2 ^ 64"
    and "\<forall>(n, v)\<in>set ps. length n < 2 ^ 64 \<and> length v < 2 ^ 64"
    and "\<forall>(n, v)\<in>set qs. length n < 2 ^ 64 \<and> length v < 2 ^ 64"
  shows "ps = qs \<and> x = y"
proof -
  let ?f = "\<lambda>(n, v). framed n @ framed v"
  have l: "length ps = length qs" and rest: "concat (map ?f ps) @ x = concat (map ?f qs) @ y"
    using assms(1-3) u64_be_apart[of "length ps" _ "length qs"] by (auto simp: pairs_bytes_def)
  have "map (\<lambda>p. p) ps = map (\<lambda>p. p) qs \<and> x = y"
  proof (rule concat_apart[OF _ l rest])
    fix a b x' y'
    assume ab: "a \<in> set ps" "b \<in> set qs" "?f a @ x' = ?f b @ y'"
    obtain n v n' v' where nv: "a = (n, v)" "b = (n', v')" by fastforce
    have s: "length n < 2 ^ 64" "length n' < 2 ^ 64" "length v < 2 ^ 64" "length v' < 2 ^ 64"
      using ab(1,2) nv assms(4,5) by auto
    show "a = b \<and> x' = y'"
      using framed_apart[OF _ s(1,2), of "framed v @ x'" "framed v' @ y'"] framed_apart[OF _ s(3,4), of x' y'] ab(3) nv
      by simp
  qed
  then show ?thesis by simp
qed

fun sized :: "asked \<Rightarrow> bool" where
  "sized (AskJson operation params body) \<longleftrightarrow> length operation < 2 ^ 64 \<and> length params < 2 ^ 64
     \<and> (\<forall>(n, v)\<in>set params. length n < 2 ^ 64 \<and> length v < 2 ^ 64) \<and> sized_json body"
| "sized (AskParts operation params parts) \<longleftrightarrow> length operation < 2 ^ 64 \<and> length params < 2 ^ 64
     \<and> (\<forall>(n, v)\<in>set params. length n < 2 ^ 64 \<and> length v < 2 ^ 64) \<and> length parts < 2 ^ 64
     \<and> (\<forall>(n, v)\<in>set parts. length n < 2 ^ 64 \<and> length v < 2 ^ 64)"
| "sized (AskAdmin operation body) \<longleftrightarrow> length operation < 2 ^ 64 \<and> sized_json body"
| "sized (AskAdminFor operation target body) \<longleftrightarrow>
     length operation < 2 ^ 64 \<and> length target < 2 ^ 64 \<and> sized_json body"

text \<open>Two requests that ask the same: the order of parameters and of object members left aside.\<close>

fun same_request :: "asked \<Rightarrow> asked \<Rightarrow> bool" where
  "same_request (AskJson o1 ps b) (AskJson o2 qs c) \<longleftrightarrow> o1 = o2 \<and> sort ps = sort qs \<and> norm b = norm c"
| "same_request (AskParts o1 ps xs) (AskParts o2 qs ys) \<longleftrightarrow> o1 = o2 \<and> sort ps = sort qs \<and> xs = ys"
| "same_request (AskAdmin o1 b) (AskAdmin o2 c) \<longleftrightarrow> o1 = o2 \<and> norm b = norm c"
| "same_request (AskAdminFor o1 t b) (AskAdminFor o2 u c) \<longleftrightarrow> o1 = o2 \<and> t = u \<and> norm b = norm c"
| "same_request _ _ \<longleftrightarrow> False"

lemma canonical_norm: "canonical (norm v) = canonical v"
proof (induction v)
  case (JArray items)
  have "map (\<lambda>v. canonical (norm v)) items = map canonical items"
    by (rule map_cong) (simp_all add: JArray)
  then have "concat (map (\<lambda>v. canonical (norm v)) items) = concat (map canonical items)" by (rule arg_cong)
  then show ?case by (simp add: comp_def del: map_eq_conv)
next
  case (JObject ms)
  let ?s = "sort_key fst ms"
  have keys: "sort_key fst (map (\<lambda>(k, v). (k, norm v)) ?s) = map (\<lambda>(k, v). (k, norm v)) ?s"
    by (rule sort_key_id_if_sorted) (simp add: case_prod_unfold comp_def)
  have "map (\<lambda>(k, v). framed k @ canonical v) (map (\<lambda>(k, v). (k, norm v)) ?s)
      = map (\<lambda>(k, v). framed k @ canonical v) ?s"
    using JObject by (fastforce simp: snds.simps)
  then show ?case using keys by (simp del: map_map)
qed simp_all

lemma same_canonical: "norm u = norm v \<Longrightarrow> canonical u = canonical v"
  by (metis canonical_norm)

lemma begin_apart:
  assumes "fp_begin kind o1 ps @ x = fp_begin kind' o2 qs @ y" and "length kind < 2 ^ 64" "length kind' < 2 ^ 64"
    and "length o1 < 2 ^ 64" "length o2 < 2 ^ 64" "length ps < 2 ^ 64" "length qs < 2 ^ 64"
    and "\<forall>(n, v)\<in>set ps. length n < 2 ^ 64 \<and> length v < 2 ^ 64"
    and "\<forall>(n, v)\<in>set qs. length n < 2 ^ 64 \<and> length v < 2 ^ 64"
  shows "kind = kind' \<and> o1 = o2 \<and> sort ps = sort qs \<and> x = y"
proof -
  have k: "kind = kind' \<and> framed o1 @ pairs_bytes (sort ps) @ x = framed o2 @ pairs_bytes (sort qs) @ y"
    by (rule framed_apart[OF _ assms(2,3)]) (use assms(1) in \<open>simp add: fp_begin_def\<close>)
  have ops: "o1 = o2 \<and> pairs_bytes (sort ps) @ x = pairs_bytes (sort qs) @ y"
    by (rule framed_apart[OF _ assms(4,5)]) (rule k[THEN conjunct2])
  have "sort ps = sort qs \<and> x = y"
    by (rule pairs_apart[OF ops[THEN conjunct2]]) (use assms(6-9) in simp_all)
  then show ?thesis using k ops by blast
qed

text \<open>The kind of a request's bytes: what they begin with.\<close>

fun kind_of :: "asked \<Rightarrow> string" where
  "kind_of (AskJson _ _ _) = ''json''"
| "kind_of (AskParts _ _ _) = ''parts''"
| "kind_of (AskAdmin _ _) = ''admin-json''"
| "kind_of (AskAdminFor _ _ _) = ''admin-json-for''"

lemma preimage_kind: "\<exists>rest. preimage a = framed (kind_of a) @ rest"
  by (cases a) (auto simp: fp_begin_def)

lemma same_kind:
  assumes "preimage a = preimage b"
  shows "kind_of a = kind_of b"
proof -
  obtain x y where "framed (kind_of a) @ x = framed (kind_of b) @ y"
    using assms preimage_kind[of a] preimage_kind[of b] by metis
  then show ?thesis by (rule framed_apart[THEN conjunct1]) (cases a; cases b; simp)+
qed

lemma preimage_determines:
  assumes "preimage a = preimage b" and "sized a" "sized b"
  shows "same_request a b"
proof (cases a)
  case (AskJson o1 ps u)
  then obtain o2 qs v where b: "b = AskJson o2 qs v" using same_kind[OF assms(1)] by (cases b) auto
  have "o1 = o2 \<and> sort ps = sort qs \<and> canonical u = canonical v"
    using begin_apart[of "''json''" o1 ps "canonical u" "''json''" o2 qs "canonical v"] assms AskJson b by simp
  then show ?thesis using canonical_apart[of u v "[]" "[]"] assms(2,3) AskJson b by simp
next
  case (AskParts o1 ps xs)
  then obtain o2 qs ys where b: "b = AskParts o2 qs ys" using same_kind[OF assms(1)] by (cases b) auto
  have "o1 = o2 \<and> sort ps = sort qs \<and> pairs_bytes xs = pairs_bytes ys"
    using begin_apart[of "''parts''" o1 ps "pairs_bytes xs" "''parts''" o2 qs "pairs_bytes ys"] assms AskParts b by simp
  then show ?thesis using pairs_apart[of xs "[]" ys "[]"] assms(2,3) AskParts b by simp
next
  case (AskAdmin o1 u)
  then obtain o2 v where b: "b = AskAdmin o2 v" using same_kind[OF assms(1)] by (cases b) auto
  have "o1 = o2 \<and> canonical u = canonical v"
    using framed_apart[of o1 "canonical u" o2 "canonical v"] assms AskAdmin b by simp
  then show ?thesis using canonical_apart[of u v "[]" "[]"] assms(2,3) AskAdmin b by simp
next
  case (AskAdminFor o1 s u)
  then obtain o2 r v where b: "b = AskAdminFor o2 r v" using same_kind[OF assms(1)] by (cases b) auto
  have "o1 = o2 \<and> s = r \<and> canonical u = canonical v"
    using framed_apart[of o1 "framed s @ canonical u" o2 "framed r @ canonical v"]
      framed_apart[of s "canonical u" r "canonical v"] assms AskAdminFor b by simp
  then show ?thesis using canonical_apart[of u v "[]" "[]"] assms(2,3) AskAdminFor b by simp
qed

lemma same_request_preimage: "same_request a b \<Longrightarrow> preimage a = preimage b"
  by (cases a; cases b) (auto simp: fp_begin_def dest: same_canonical)

lemma hide_pin_value:
  "hide_pin (JObject (xs @ (''pin'', JString p) # ys)) = hide_pin (JObject (xs @ (''pin'', JString q) # ys))"
  by (simp add: hide_pin_def)

text \<open>
  C29. The bytes a fingerprint hashes determine the request: two requests have the same bytes exactly
  when they name the same operation, with the same parameters and parts and the same JSON up to the
  order of its objects' members. A hosted claim's bytes say whether a PIN was given, never which.
\<close>

theorem fingerprint_determines_request:
  assumes "sized a" "sized b"
  shows "(preimage a = preimage b \<longleftrightarrow> same_request a b)
    \<and> ask_complete_hosted_signup (JObject (xs @ (''pin'', JString p) # ys))
        = ask_complete_hosted_signup (JObject (xs @ (''pin'', JString q) # ys))"
  using preimage_determines[OF _ assms] same_request_preimage[of a b] hide_pin_value[of xs p ys q]
  by (auto simp: ask_complete_hosted_signup_def)

lemma fingerprint_determines_request_witness:
  "preimage (ask_send_message ''1'' (JObject [(''to'', JString ''2''), (''body'', JString ''hi'')]))
      = preimage (ask_send_message ''1'' (JObject [(''body'', JString ''hi''), (''to'', JString ''2'')]))
    \<and> preimage (ask_send_message ''1'' (JObject [(''to'', JString ''2'')]))
        \<noteq> preimage (ask_mark_conversation_read ''1'' ''2'' JNull)"
proof -
  let ?a = "ask_send_message ''1'' (JObject [(''to'', JString ''2''), (''body'', JString ''hi'')])"
  let ?b = "ask_send_message ''1'' (JObject [(''body'', JString ''hi''), (''to'', JString ''2'')])"
  let ?c = "ask_send_message ''1'' (JObject [(''to'', JString ''2'')])"
  let ?d = "ask_mark_conversation_read ''1'' ''2'' JNull"
  have "sized ?a" "sized ?b" "sized ?c" "sized ?d"
    by (simp_all add: ask_send_message_def ask_mark_conversation_read_def)
  moreover have "same_request ?a ?b" by code_simp
  moreover have "\<not> same_request ?c ?d" by (simp add: ask_send_message_def ask_mark_conversation_read_def)
  ultimately show ?thesis
    using fingerprint_determines_request[of ?a ?b "[]" "[]" "[]" "[]"]
      fingerprint_determines_request[of ?c ?d "[]" "[]" "[]" "[]"] by blast
qed

end
