(* ===== verification/Server_Model.thy ===== *)
theory Server_Model
  imports Ordered_Index
begin

text \<open>
  The server's own records (\<open>meta-whatsapp-server-core/src/model.rs\<close>): tenants, API keys, the bindings
  of WABAs and phone numbers to tenants, the tombstones their unbindings leave, the records of an
  idempotency key, OTP settings and their stored form, signup attempts and vault entries. A text is
  a list of bytes and a length counts bytes. An id of a WABA, a number or a business is a text of
  digits (\<open>meta-whatsapp-core/src/ids.rs\<close>).
\<close>

section \<open>Ids\<close>

definition MAX_NUMERIC_ID_LEN :: nat where "MAX_NUMERIC_ID_LEN = 64"

definition is_numeric_id :: "string \<Rightarrow> bool" where
  "is_numeric_id i \<longleftrightarrow> i \<noteq> [] \<and> length i \<le> MAX_NUMERIC_ID_LEN \<and> list_all digit_char i"

definition numeric_id :: "string \<Rightarrow> string option" where
  "numeric_id i = (if is_numeric_id i then Some i else None)"

definition MAX_TENANT_ID_LEN :: nat where "MAX_TENANT_ID_LEN = 64"

definition alphanumeric_char :: "char \<Rightarrow> bool" where
  "alphanumeric_char c \<longleftrightarrow>
     digit_char c
     \<or> 65 \<le> (of_char c :: nat) \<and> (of_char c :: nat) \<le> 90
     \<or> 97 \<le> (of_char c :: nat) \<and> (of_char c :: nat) \<le> 122"

definition tenant_id_parse :: "string \<Rightarrow> string option" where
  "tenant_id_parse i =
     (if i \<noteq> [] \<and> length i \<le> MAX_TENANT_ID_LEN \<and> list_all (\<lambda>c. alphanumeric_char c \<or> c \<in> set ''._:-'') i
      then Some i else None)"

definition admin_scope :: "string \<Rightarrow> string" where
  "admin_scope key_id = ''admin/'' @ key_id"

definition MAX_IDEMPOTENCY_KEY_LEN :: nat where "MAX_IDEMPOTENCY_KEY_LEN = 255"

definition idempotency_key_parse :: "string \<Rightarrow> string option" where
  "idempotency_key_parse key =
     (if key \<noteq> [] \<and> length key \<le> MAX_IDEMPOTENCY_KEY_LEN
         \<and> list_all (\<lambda>c. 33 \<le> (of_char c :: nat) \<and> (of_char c :: nat) \<le> 126) key
      then Some key else None)"

text \<open>The \<open>/\<close> keeps the scopes of admin keys apart from the tenants.\<close>

lemma admin_scope_no_tenant: "tenant_id_parse (admin_scope key_id) = None"
  by (auto simp: tenant_id_parse_def admin_scope_def alphanumeric_char_def digit_char_def)

lemma tenant_id_parse_same: "tenant_id_parse i = Some t \<Longrightarrow> t = i"
  by (simp add: tenant_id_parse_def split: if_splits)

section \<open>Tenants and keys\<close>

datatype tenant_status = TenantActive | TenantSuspended

definition tenant_status_as_str :: "tenant_status \<Rightarrow> string" where
  "tenant_status_as_str s = (case s of TenantActive \<Rightarrow> ''active'' | TenantSuspended \<Rightarrow> ''suspended'')"

definition tenant_status_parse :: "string \<Rightarrow> tenant_status option" where
  "tenant_status_parse s =
     (if s = ''active'' then Some TenantActive else if s = ''suspended'' then Some TenantSuspended else None)"

record tenant =
  tn_id :: string
  tn_name :: string
  tn_status :: tenant_status
  tn_created_at :: time
  tn_updated_at :: time

datatype scope =
  ScopeSend | ScopeMedia | ScopeTemplates | ScopeInbox | ScopeEvents | ScopeWebhooks | ScopeSignup
| ScopeOtp | ScopeNumbers | ScopePayments | ScopeFlows | ScopeErasure | ScopeCommerce | ScopeQrCodes
| ScopeAnalytics | ScopeContacts | ScopeGroups | ScopeMarketing | ScopeRouting | ScopeCalls
| ScopePartners

definition SCOPES :: "scope list" where
  "SCOPES =
     [ScopeSend, ScopeMedia, ScopeTemplates, ScopeInbox, ScopeEvents, ScopeWebhooks, ScopeSignup,
      ScopeOtp, ScopeNumbers, ScopePayments, ScopeFlows, ScopeErasure, ScopeCommerce, ScopeQrCodes,
      ScopeAnalytics, ScopeContacts, ScopeGroups, ScopeMarketing, ScopeRouting, ScopeCalls,
      ScopePartners]"

fun scope_as_str :: "scope \<Rightarrow> string" where
  "scope_as_str ScopeSend = ''send''"
| "scope_as_str ScopeMedia = ''media''"
| "scope_as_str ScopeTemplates = ''templates''"
| "scope_as_str ScopeInbox = ''inbox''"
| "scope_as_str ScopeEvents = ''events''"
| "scope_as_str ScopeWebhooks = ''webhooks''"
| "scope_as_str ScopeSignup = ''signup''"
| "scope_as_str ScopeOtp = ''otp''"
| "scope_as_str ScopeNumbers = ''numbers''"
| "scope_as_str ScopePayments = ''payments''"
| "scope_as_str ScopeFlows = ''flows''"
| "scope_as_str ScopeErasure = ''erasure''"
| "scope_as_str ScopeCommerce = ''commerce''"
| "scope_as_str ScopeQrCodes = ''qr_codes''"
| "scope_as_str ScopeAnalytics = ''analytics''"
| "scope_as_str ScopeContacts = ''contacts''"
| "scope_as_str ScopeGroups = ''groups''"
| "scope_as_str ScopeMarketing = ''marketing''"
| "scope_as_str ScopeRouting = ''routing''"
| "scope_as_str ScopeCalls = ''calls''"
| "scope_as_str ScopePartners = ''partners''"

definition scope_parse :: "string \<Rightarrow> scope option" where
  "scope_parse s = find (\<lambda>scope. scope_as_str scope = s) SCOPES"

datatype key_kind = KeyKindTenant | KeyKindPlatform | KeyKindAdmin

definition key_kind_as_str :: "key_kind \<Rightarrow> string" where
  "key_kind_as_str k =
     (case k of KeyKindTenant \<Rightarrow> ''tenant'' | KeyKindPlatform \<Rightarrow> ''platform'' | KeyKindAdmin \<Rightarrow> ''admin'')"

definition key_kind_parse :: "string \<Rightarrow> key_kind option" where
  "key_kind_parse s =
     (if s = ''tenant'' then Some KeyKindTenant
      else if s = ''platform'' then Some KeyKindPlatform
      else if s = ''admin'' then Some KeyKindAdmin
      else None)"

datatype allowed_tenants = AllTenants | OnlyTenants "string list"

definition allows :: "allowed_tenants \<Rightarrow> string \<Rightarrow> bool" where
  "allows a tenant = (case a of AllTenants \<Rightarrow> True | OnlyTenants tenants \<Rightarrow> tenant \<in> set tenants)"

datatype key_owner = OwnerTenant string | OwnerPlatform allowed_tenants | OwnerAdmin

definition key_owner_kind :: "key_owner \<Rightarrow> key_kind" where
  "key_owner_kind ow =
     (case ow of
        OwnerTenant _ \<Rightarrow> KeyKindTenant
      | OwnerPlatform _ \<Rightarrow> KeyKindPlatform
      | OwnerAdmin \<Rightarrow> KeyKindAdmin)"

record api_key =
  ak_key_id :: string
  ak_secret_sha256 :: string
  ak_owner :: key_owner
  ak_scopes :: "scope list"
  ak_name :: string
  ak_created_at :: time
  ak_expires_at :: "time option"
  ak_revoked_at :: "time option"
  ak_last_used_at :: "time option"

definition is_usable :: "time \<Rightarrow> api_key \<Rightarrow> bool" where
  "is_usable now key \<longleftrightarrow>
     ak_revoked_at key = None \<and> (case ak_expires_at key of None \<Rightarrow> True | Some at \<Rightarrow> now < at)"

record new_api_key =
  nk_key_id :: string
  nk_secret_sha256 :: string
  nk_owner :: key_owner
  nk_scopes :: "scope list"
  nk_name :: string
  nk_expires_at :: "time option"

datatype key_scope = KeysOfTenant string | KeysOfPlatform | KeysOfAdmin

section \<open>Bindings\<close>

definition UNRECORDED_MOVE :: time where "UNRECORDED_MOVE = 0"

record binding_epoch =
  ep_waba_id :: string
  ep_tenant_id :: string
  ep_attached_at :: time
  ep_generation :: int

record waba_binding =
  wb_waba_id :: string
  wb_tenant_id :: string
  wb_credit_allocation_id :: "string option"
  wb_attached_at :: time
  wb_generation :: int
  wb_previous_tenant_unbound_at :: "time option"

definition epoch_of :: "waba_binding \<Rightarrow> binding_epoch" where
  "epoch_of w =
     \<lparr>ep_waba_id = wb_waba_id w, ep_tenant_id = wb_tenant_id w, ep_attached_at = wb_attached_at w,
      ep_generation = wb_generation w\<rparr>"

record waba_tombstone =
  wt_tenant_id :: "string option"
  wt_unbound_at :: time
  wt_previous_tenant_unbound_at :: "time option"

definition waba_tombstone_of :: "waba_binding \<Rightarrow> time \<Rightarrow> waba_tombstone" where
  "waba_tombstone_of w at =
     \<lparr>wt_tenant_id = Some (wb_tenant_id w), wt_unbound_at = at,
      wt_previous_tenant_unbound_at = wb_previous_tenant_unbound_at w\<rparr>"

definition waba_previous_for :: "waba_tombstone \<Rightarrow> string \<Rightarrow> time option" where
  "waba_previous_for t tenant =
     (if wt_tenant_id t = Some tenant then wt_previous_tenant_unbound_at t else Some (wt_unbound_at t))"

definition waba_forget_tenant :: "string \<Rightarrow> waba_tombstone \<Rightarrow> waba_tombstone" where
  "waba_forget_tenant tenant t = (if wt_tenant_id t = Some tenant then t\<lparr>wt_tenant_id := None\<rparr> else t)"

datatype number_status = NumberConnected | NumberReconnectRequired | NumberDisconnected

definition number_status_as_str :: "number_status \<Rightarrow> string" where
  "number_status_as_str s =
     (case s of
        NumberConnected \<Rightarrow> ''connected''
      | NumberReconnectRequired \<Rightarrow> ''reconnect_required''
      | NumberDisconnected \<Rightarrow> ''disconnected'')"

definition number_status_parse :: "string \<Rightarrow> number_status option" where
  "number_status_parse s =
     (if s = ''connected'' then Some NumberConnected
      else if s = ''reconnect_required'' then Some NumberReconnectRequired
      else if s = ''disconnected'' then Some NumberDisconnected
      else None)"

record number_tombstone =
  nt_tenant_id :: "string option"
  nt_released_at :: time
  nt_previous_tenant_released_at :: "time option"

record number_binding =
  nb_phone_number_id :: string
  nb_waba_id :: string
  nb_tenant_id :: string
  nb_status :: number_status
  nb_updated_at :: time
  nb_attached_at :: time
  nb_previous_tenant_released_at :: "time option"

definition number_tombstone_of :: "number_binding \<Rightarrow> time \<Rightarrow> number_tombstone" where
  "number_tombstone_of b at =
     \<lparr>nt_tenant_id = Some (nb_tenant_id b), nt_released_at = at,
      nt_previous_tenant_released_at = nb_previous_tenant_released_at b\<rparr>"

definition number_previous_for :: "number_tombstone \<Rightarrow> string \<Rightarrow> time option" where
  "number_previous_for t tenant =
     (if nt_tenant_id t = Some tenant then nt_previous_tenant_released_at t else Some (nt_released_at t))"

definition number_forget_tenant :: "string \<Rightarrow> number_tombstone \<Rightarrow> number_tombstone" where
  "number_forget_tenant tenant t = (if nt_tenant_id t = Some tenant then t\<lparr>nt_tenant_id := None\<rparr> else t)"

definition newly_bound ::
  "string \<Rightarrow> string \<Rightarrow> string \<Rightarrow> time \<Rightarrow> number_tombstone option \<Rightarrow> number_binding" where
  "newly_bound phone_number_id waba_id tenant now released =
     \<lparr>nb_phone_number_id = phone_number_id, nb_waba_id = waba_id, nb_tenant_id = tenant,
      nb_status = NumberConnected, nb_updated_at = now,
      nb_attached_at = (case released of None \<Rightarrow> now | Some t \<Rightarrow> max now (nt_released_at t)),
      nb_previous_tenant_released_at = Option.bind released (\<lambda>t. number_previous_for t tenant)\<rparr>"

section \<open>Pages and outcomes\<close>

record page_request =
  pr_after :: "string option"
  pr_limit :: nat

record 'a listing =
  li_items :: "'a list"
  li_next_after :: "string option"

datatype bind_outcome = Bound | OwnedByAnotherTenant | NoSuchTenant

datatype delete_tenant_outcome = TenantDeleted | TenantNotFound | TenantHasWabas

section \<open>Signup attempts and vault entries\<close>

record new_signup_attempt =
  na_tenant_id :: string
  na_waba_id :: string
  na_failed_step :: string
  na_session :: json
  na_finish_kind :: "string option"

record signup_attempt =
  sa_tenant_id :: string
  sa_waba_id :: string
  sa_failed_step :: string
  sa_session :: json
  sa_finish_kind :: "string option"
  sa_created_at :: time
  sa_updated_at :: time

datatype vault_entry = VaultWaba string | VaultBusiness string

definition vault_entry_kind :: "vault_entry \<Rightarrow> string" where
  "vault_entry_kind e = (case e of VaultWaba _ \<Rightarrow> ''waba'' | VaultBusiness _ \<Rightarrow> ''business'')"

definition vault_entry_id :: "vault_entry \<Rightarrow> string" where
  "vault_entry_id e = (case e of VaultWaba i \<Rightarrow> i | VaultBusiness i \<Rightarrow> i)"

definition vault_entry_key :: "vault_entry \<Rightarrow> string" where
  "vault_entry_key e = vault_entry_kind e @ ''/'' @ vault_entry_id e"

definition vault_entry_parse :: "string \<Rightarrow> string \<Rightarrow> vault_entry option" where
  "vault_entry_parse kind i =
     (if kind = ''waba'' then map_option VaultWaba (numeric_id i)
      else if kind = ''business'' then map_option VaultBusiness (numeric_id i)
      else None)"

lemma vault_entry_key_inj: "vault_entry_key e = vault_entry_key e' \<Longrightarrow> e = e'"
  by (cases e; cases e') (auto simp: vault_entry_key_def vault_entry_kind_def vault_entry_id_def)

section \<open>Idempotency records\<close>

datatype idem_state = InProgress bool | Completed nat string

record idem_record =
  ir_fingerprint :: string
  ir_state :: idem_state

datatype idem_claim = IdemClaimed | IdemExisting idem_record

section \<open>OTP settings\<close>

record otp_settings =
  os_phone_number_id :: string
  os_template_name :: string
  os_template_language :: string
  os_code_length :: nat
  os_ttl_seconds :: nat
  os_max_attempts :: nat
  os_resend_cooldown_seconds :: nat
  os_max_issues :: nat
  os_issue_window_seconds :: nat

definition otp_settings_new :: "string \<Rightarrow> string \<Rightarrow> string \<Rightarrow> otp_settings" where
  "otp_settings_new phone_number_id name language =
     \<lparr>os_phone_number_id = phone_number_id, os_template_name = name, os_template_language = language,
      os_code_length = 6, os_ttl_seconds = 600, os_max_attempts = 5, os_resend_cooldown_seconds = 30,
      os_max_issues = 5, os_issue_window_seconds = 3600\<rparr>"

definition to_stored :: "otp_settings \<Rightarrow> json" where
  "to_stored s =
     JObject
       [(''v'', JNumber (show_nat 1)),
        (''phone_number_id'', JString (os_phone_number_id s)),
        (''template'', JObject
           [(''name'', JString (os_template_name s)), (''language'', JString (os_template_language s))]),
        (''code_length'', JNumber (show_nat (os_code_length s))),
        (''ttl_seconds'', JNumber (show_nat (os_ttl_seconds s))),
        (''max_attempts'', JNumber (show_nat (os_max_attempts s))),
        (''resend_cooldown_seconds'', JNumber (show_nat (os_resend_cooldown_seconds s))),
        (''issue_limit'', JObject
           [(''max_issues'', JNumber (show_nat (os_max_issues s))),
            (''window_seconds'', JNumber (show_nat (os_issue_window_seconds s)))])]"

text \<open>
  What \<open>serde\<close> reads a field of a struct from: an object's member of that name, or, of an array as
  long as the struct, the element at its place. An unsigned integer of \<open>w\<close> bits is a number of digits
  alone.
\<close>

definition struct_field :: "string list \<Rightarrow> string \<Rightarrow> json \<Rightarrow> json option" where
  "struct_field names n v =
     (case v of
        JObject members \<Rightarrow> map_of members n
      | JArray items \<Rightarrow> if length items = length names then map_of (zip names items) n else None
      | _ \<Rightarrow> None)"

definition json_as_unsigned :: "nat \<Rightarrow> json \<Rightarrow> nat option" where
  "json_as_unsigned w v =
     (case v of
        JNumber s \<Rightarrow>
          let n = foldl (\<lambda>n c. 10 * n + (of_char c - 48)) 0 s
          in if s \<noteq> [] \<and> list_all digit_char s \<and> n < 2 ^ w then Some n else None
      | _ \<Rightarrow> None)"

definition STORED_FIELDS :: "string list" where
  "STORED_FIELDS =
     [''v'', ''phone_number_id'', ''template'', ''code_length'', ''ttl_seconds'', ''max_attempts'',
      ''resend_cooldown_seconds'', ''issue_limit'']"

definition from_stored :: "json \<Rightarrow> otp_settings option" where
  "from_stored value =
     (let field = (\<lambda>n. struct_field STORED_FIELDS n value);
          text_of = (\<lambda>f. Option.bind f json_as_str);
          int_of = (\<lambda>w f. Option.bind f (json_as_unsigned w))
      in Option.bind (int_of 8 (field ''v'')) (\<lambda>v.
         Option.bind (text_of (field ''phone_number_id'')) (\<lambda>pn.
         Option.bind (field ''template'') (\<lambda>template.
         Option.bind (text_of (struct_field [''name'', ''language''] ''name'' template)) (\<lambda>name.
         Option.bind (text_of (struct_field [''name'', ''language''] ''language'' template)) (\<lambda>language.
         Option.bind (int_of 8 (field ''code_length'')) (\<lambda>code_length.
         Option.bind (int_of 32 (field ''ttl_seconds'')) (\<lambda>ttl.
         Option.bind (int_of 32 (field ''max_attempts'')) (\<lambda>attempts.
         Option.bind (int_of 32 (field ''resend_cooldown_seconds'')) (\<lambda>cooldown.
         Option.bind (field ''issue_limit'') (\<lambda>issue_limit.
         Option.bind (int_of 32 (struct_field [''max_issues'', ''window_seconds''] ''max_issues'' issue_limit)) (\<lambda>issues.
         Option.bind (int_of 32 (struct_field [''max_issues'', ''window_seconds''] ''window_seconds'' issue_limit)) (\<lambda>window.
           if v \<noteq> 1 then None
           else map_option (\<lambda>pn.
             \<lparr>os_phone_number_id = pn, os_template_name = name, os_template_language = language,
              os_code_length = code_length, os_ttl_seconds = ttl, os_max_attempts = attempts,
              os_resend_cooldown_seconds = cooldown, os_max_issues = issues,
              os_issue_window_seconds = window\<rparr>) (numeric_id pn))))))))))))))"

text \<open>The integers the fields can hold, and an id that is one.\<close>

definition otp_settings_ok :: "otp_settings \<Rightarrow> bool" where
  "otp_settings_ok s \<longleftrightarrow>
     is_numeric_id (os_phone_number_id s) \<and> os_code_length s < 2 ^ 8 \<and> os_ttl_seconds s < 2 ^ 32
     \<and> os_max_attempts s < 2 ^ 32 \<and> os_resend_cooldown_seconds s < 2 ^ 32
     \<and> os_max_issues s < 2 ^ 32 \<and> os_issue_window_seconds s < 2 ^ 32"

lemma struct_field_object [simp]: "struct_field names n (JObject ms) = map_of ms n"
  by (simp add: struct_field_def)

lemma json_as_unsigned_bound: "json_as_unsigned w v = Some n \<Longrightarrow> n < 2 ^ w"
  by (auto simp: json_as_unsigned_def Let_def split: json.splits if_splits)

lemma read_show_nat: "foldl (\<lambda>n c. 10 * n + (of_char c - 48)) 0 (show_nat n) = n"
  by (induction n rule: show_nat.induct) (subst show_nat.simps, auto)

lemma json_as_unsigned_show [simp]: "n < 2 ^ w \<Longrightarrow> json_as_unsigned w (JNumber (show_nat n)) = Some n"
  using show_nat_digits[of _ n] show_nat_nonempty[of n]
  by (simp add: json_as_unsigned_def read_show_nat list_all_iff)

lemma from_stored_to_stored: "otp_settings_ok s \<Longrightarrow> from_stored (to_stored s) = Some s"
  unfolding otp_settings_ok_def from_stored_def to_stored_def Let_def
  by (simp add: numeric_id_def del: show_nat.simps)

lemma from_stored_ok: "from_stored v = Some s \<Longrightarrow> otp_settings_ok s"
  unfolding from_stored_def Let_def otp_settings_ok_def
  by (clarsimp simp: bind_eq_Some_conv numeric_id_def split: if_split_asm
      dest!: json_as_unsigned_bound)

section \<open>The stored names\<close>

lemma tenant_status_names: "tenant_status_parse s = Some x \<longleftrightarrow> s = tenant_status_as_str x"
  by (cases x) (auto simp: tenant_status_parse_def tenant_status_as_str_def)

lemma key_kind_names: "key_kind_parse s = Some x \<longleftrightarrow> s = key_kind_as_str x"
  by (cases x) (auto simp: key_kind_parse_def key_kind_as_str_def)

lemma number_status_names: "number_status_parse s = Some x \<longleftrightarrow> s = number_status_as_str x"
  by (cases x) (auto simp: number_status_parse_def number_status_as_str_def)

lemma find_named:
  assumes "distinct (map f xs)" and "x \<in> set xs"
  shows "find (\<lambda>y. f y = s) xs = Some x \<longleftrightarrow> s = f x"
  using assms
proof (induction xs)
  case (Cons a xs)
  show ?case
  proof (cases "x = a")
    case True
    then show ?thesis using Cons.prems by (auto simp: find_Some_iff)
  next
    case False
    then have "x \<in> set xs" "f a \<noteq> f x" using Cons.prems by auto
    then show ?thesis using Cons by auto
  qed
qed simp

lemma scope_names: "scope_parse s = Some x \<longleftrightarrow> s = scope_as_str x"
proof -
  have "distinct (map scope_as_str SCOPES)" by code_simp
  moreover have "x \<in> set SCOPES" by (cases x) (simp_all add: SCOPES_def)
  ultimately show ?thesis by (simp add: scope_parse_def find_named)
qed

lemma vault_entry_names:
  "is_numeric_id (vault_entry_id e) \<Longrightarrow> vault_entry_parse (vault_entry_kind e) (vault_entry_id e) = Some e"
  by (cases e) (auto simp: vault_entry_parse_def vault_entry_kind_def vault_entry_id_def numeric_id_def)

end
