(* ===== verification/Server_Records.thy ===== *)
theory Server_Records
  imports Server_Model Error_Tree
begin

text \<open>
  The server's records in memory (\<open>meta-whatsapp-server-store-memory/src/memory.rs\<close>): ordered maps
  behind one lock, so each operation is one function from state to answer and state. \<open>now\<close> is what
  \<open>OffsetDateTime::now_utc\<close> answers inside it. Deleting a tenant also reaches the event outbox and the
  webhook records, which are stores of their own: \<open>delete_records\<close> is its part on these records.
\<close>

section \<open>Ordered maps\<close>

definition map_values :: "('v \<Rightarrow> 'v) \<Rightarrow> ('k, 'v) btreemap \<Rightarrow> ('k, 'v) btreemap" where
  "map_values f m = map (\<lambda>(k, v). (k, f v)) m"

lemma keys_map_values [simp]: "fst ` set (map_values f m) = fst ` set m"
  by (force simp: map_values_def)

lemma omap_ok_map_values [simp, intro]: "omap_ok m \<Longrightarrow> omap_ok (map_values f m)"
  by (auto simp: map_values_def omap_ok_def sorted_wrt_map case_prod_unfold)

lemma map_of_map_values [simp]: "map_of (map_values f m) k = map_option f (map_of m k)"
  by (induction m) (auto simp: map_values_def)

lemma omap_ok_delete [simp, intro]: "omap_ok m \<Longrightarrow> omap_ok (AList.delete k m)"
  by (simp add: AList.delete_eq)

lemma map_of_filter_values:
  "omap_ok m \<Longrightarrow> map_of (filter (\<lambda>(k, v). P k v) m) k
     = (case map_of m k of None \<Rightarrow> None | Some v \<Rightarrow> if P k v then Some v else None)"
proof (induction m)
  case (Cons e m)
  then show ?case
    by (cases e) (auto simp: omap_ok_Cons split: option.splits dest!: map_of_SomeD bspec)
qed simp

lemma omap_mem: "omap_ok m \<Longrightarrow> (k, v) \<in> set m \<longleftrightarrow> map_of m k = Some v"
  using omap_keys_distinct[of m] by (auto simp: keys_distinct_def map_of_eq_Some_iff)

section \<open>State\<close>

record idem_entry =
  ie_fingerprint :: string
  ie_claim :: string
  ie_completed :: "(nat \<times> string) option"
  ie_lease_until :: time
  ie_expires_at :: time

record srv_state =
  ss_tenants :: "(string, tenant) btreemap"
  ss_keys :: "(string, api_key) btreemap"
  ss_wabas :: "(string, waba_binding) btreemap"
  ss_numbers :: "(string, number_binding) btreemap"
  ss_tombstones :: "(string, waba_tombstone) btreemap"
  ss_number_tombstones :: "(string, number_tombstone) btreemap"
  ss_idempotency :: "(string \<times> string, idem_entry) btreemap"
  ss_otp_settings :: "(string, json) btreemap"
  ss_signup_attempts :: "(string, signup_attempt) btreemap"
  ss_vault_entries :: "(string, vault_entry) btreemap"

definition srv_empty :: srv_state where
  "srv_empty =
     \<lparr>ss_tenants = [], ss_keys = [], ss_wabas = [], ss_numbers = [], ss_tombstones = [],
      ss_number_tombstones = [], ss_idempotency = [], ss_otp_settings = [], ss_signup_attempts = [],
      ss_vault_entries = []\<rparr>"

text \<open>\<open>now + by\<close>, saturating.\<close>

definition after :: "time \<Rightarrow> duration \<Rightarrow> time" where
  "after now by' =
     (case signed_duration by' of None \<Rightarrow> datetime_max | Some d \<Rightarrow> min datetime_max (now + d))"

definition idempotency_id :: "string \<Rightarrow> string \<Rightarrow> string \<times> string" where
  "idempotency_id tenant key = (tenant, key)"

text \<open>The items past the cursor that \<open>keep\<close> keeps, one more than a page.\<close>

definition page_of :: "(string, 'a) btreemap \<Rightarrow> page_request \<Rightarrow> ('a \<Rightarrow> bool) \<Rightarrow> (string \<times> 'a) list" where
  "page_of m r keep =
     take (pr_limit r + 1)
       (filter (\<lambda>(_, item). keep item)
         (filter (\<lambda>(k, _). case pr_after r of None \<Rightarrow> True | Some a \<Rightarrow> a < k) m))"

definition listing_of :: "'a list \<Rightarrow> nat \<Rightarrow> ('a \<Rightarrow> string) \<Rightarrow> 'a listing" where
  "listing_of items limit key =
     (let page = take limit items
      in \<lparr>li_items = page,
          li_next_after = (if limit < length items \<and> page \<noteq> [] then Some (key (last page)) else None)\<rparr>)"

definition list_page ::
  "(string, 'a) btreemap \<Rightarrow> page_request \<Rightarrow> ('a \<Rightarrow> bool) \<Rightarrow> ('a \<Rightarrow> string) \<Rightarrow> 'a listing" where
  "list_page m r keep key = listing_of (map snd (page_of m r keep)) (pr_limit r) key"

definition key_in_scope :: "api_key \<Rightarrow> key_scope \<Rightarrow> bool" where
  "key_in_scope key sc =
     (case (sc, ak_owner key) of
        (KeysOfTenant tenant, OwnerTenant ow) \<Rightarrow> tenant = ow
      | (KeysOfPlatform, OwnerPlatform _) \<Rightarrow> True
      | (KeysOfAdmin, OwnerAdmin) \<Rightarrow> True
      | _ \<Rightarrow> False)"

section \<open>Tenants\<close>

definition create_tenant :: "time \<Rightarrow> string \<Rightarrow> string \<Rightarrow> srv_state \<Rightarrow> tenant option \<times> srv_state" where
  "create_tenant now i name st =
     (if map_of (ss_tenants st) i \<noteq> None then (None, st)
      else
        let tenant = \<lparr>tn_id = i, tn_name = name, tn_status = TenantActive, tn_created_at = now,
                       tn_updated_at = now\<rparr>
        in (Some tenant, st\<lparr>ss_tenants := omap_insert i tenant (ss_tenants st)\<rparr>))"

definition tenant_get :: "string \<Rightarrow> srv_state \<Rightarrow> tenant option" where
  "tenant_get i st = map_of (ss_tenants st) i"

definition tenants :: "page_request \<Rightarrow> srv_state \<Rightarrow> tenant listing" where
  "tenants r st = list_page (ss_tenants st) r (\<lambda>_. True) tn_id"

definition update_tenant ::
  "time \<Rightarrow> string \<Rightarrow> string option \<Rightarrow> tenant_status option \<Rightarrow> srv_state \<Rightarrow> tenant option \<times> srv_state" where
  "update_tenant now i name status st =
     (case map_of (ss_tenants st) i of
        None \<Rightarrow> (None, st)
      | Some tenant \<Rightarrow>
          let tenant = (case name of None \<Rightarrow> tenant | Some n \<Rightarrow> tenant\<lparr>tn_name := n\<rparr>);
              tenant = (case status of None \<Rightarrow> tenant | Some s \<Rightarrow> tenant\<lparr>tn_status := s\<rparr>);
              tenant = tenant\<lparr>tn_updated_at := now\<rparr>
          in (Some tenant, st\<lparr>ss_tenants := omap_insert i tenant (ss_tenants st)\<rparr>))"

definition unread_settings :: error where
  "unread_settings =
     Storage (storage_error.Backend ''a tenant's OTP settings are not in a layout this release reads'')"

definition otp_settings_get :: "string \<Rightarrow> srv_state \<Rightarrow> error + otp_settings option" where
  "otp_settings_get i st =
     (case map_of (ss_otp_settings st) i of
        None \<Rightarrow> Inr None
      | Some stored \<Rightarrow>
          (case from_stored stored of None \<Rightarrow> Inl unread_settings | Some s \<Rightarrow> Inr (Some s)))"

definition set_otp_settings ::
  "time \<Rightarrow> string \<Rightarrow> otp_settings option \<Rightarrow> srv_state \<Rightarrow> bool \<times> srv_state" where
  "set_otp_settings now i settings st =
     (case map_of (ss_tenants st) i of
        None \<Rightarrow> (False, st)
      | Some tenant \<Rightarrow>
          let st = st\<lparr>ss_tenants := omap_insert i (tenant\<lparr>tn_updated_at := now\<rparr>) (ss_tenants st)\<rparr>
          in (True,
              (case settings of
                 Some s \<Rightarrow> st\<lparr>ss_otp_settings := omap_insert i (to_stored s) (ss_otp_settings st)\<rparr>
               | None \<Rightarrow> st\<lparr>ss_otp_settings := AList.delete i (ss_otp_settings st)\<rparr>)))"

definition disallow :: "string \<Rightarrow> api_key \<Rightarrow> api_key" where
  "disallow i key =
     (case ak_owner key of
        OwnerPlatform (OnlyTenants ts) \<Rightarrow>
          key\<lparr>ak_owner := OwnerPlatform (OnlyTenants (filter (\<lambda>t. t \<noteq> i) ts))\<rparr>
      | _ \<Rightarrow> key)"

definition delete_records :: "string \<Rightarrow> srv_state \<Rightarrow> delete_tenant_outcome \<times> srv_state" where
  "delete_records i st =
     (if map_of (ss_tenants st) i = None then (TenantNotFound, st)
      else if (\<exists>(_, w)\<in>set (ss_wabas st). wb_tenant_id w = i) then (TenantHasWabas, st)
      else
        (TenantDeleted,
         st\<lparr>ss_tenants := AList.delete i (ss_tenants st),
            ss_otp_settings := AList.delete i (ss_otp_settings st),
            ss_keys := map_values (disallow i)
              (filter (\<lambda>(_, key). ak_owner key \<noteq> OwnerTenant i) (ss_keys st)),
            ss_idempotency := filter (\<lambda>((tenant, _), _). tenant \<noteq> i) (ss_idempotency st),
            ss_tombstones := map_values (waba_forget_tenant i) (ss_tombstones st),
            ss_number_tombstones := map_values (number_forget_tenant i) (ss_number_tombstones st)\<rparr>))"

section \<open>Keys\<close>

definition no_such_tenant :: error where
  "no_such_tenant = Storage (storage_error.Backend ''no such tenant'')"

definition insert_key ::
  "time \<Rightarrow> new_api_key \<Rightarrow> srv_state \<Rightarrow> (error + api_key option) \<times> srv_state" where
  "insert_key now key st =
     (if map_of (ss_keys st) (nk_key_id key) \<noteq> None then (Inr None, st)
      else if (case nk_owner key of OwnerTenant t \<Rightarrow> map_of (ss_tenants st) t = None | _ \<Rightarrow> False)
      then (Inl no_such_tenant, st)
      else
        let r = \<lparr>ak_key_id = nk_key_id key, ak_secret_sha256 = nk_secret_sha256 key,
                 ak_owner = nk_owner key, ak_scopes = nk_scopes key, ak_name = nk_name key,
                 ak_created_at = now, ak_expires_at = nk_expires_at key, ak_revoked_at = None,
                 ak_last_used_at = None\<rparr>
        in (Inr (Some r), st\<lparr>ss_keys := omap_insert (nk_key_id key) r (ss_keys st)\<rparr>))"

definition key_get :: "string \<Rightarrow> srv_state \<Rightarrow> api_key option" where
  "key_get key_id st = map_of (ss_keys st) key_id"

definition keys :: "key_scope \<Rightarrow> page_request \<Rightarrow> srv_state \<Rightarrow> api_key listing" where
  "keys sc r st = list_page (ss_keys st) r (\<lambda>k. key_in_scope k sc) ak_key_id"

definition revoke_key :: "time \<Rightarrow> key_scope \<Rightarrow> string \<Rightarrow> srv_state \<Rightarrow> bool \<times> srv_state" where
  "revoke_key now sc key_id st =
     (case map_of (ss_keys st) key_id of
        None \<Rightarrow> (False, st)
      | Some key \<Rightarrow>
          if key_in_scope key sc
          then (True,
            st\<lparr>ss_keys := omap_insert key_id
                 (key\<lparr>ak_revoked_at := Some (case ak_revoked_at key of None \<Rightarrow> now | Some at \<Rightarrow> at)\<rparr>)
                 (ss_keys st)\<rparr>)
          else (False, st))"

definition touch_key :: "time \<Rightarrow> string \<Rightarrow> srv_state \<Rightarrow> srv_state" where
  "touch_key now key_id st =
     (case map_of (ss_keys st) key_id of
        None \<Rightarrow> st
      | Some key \<Rightarrow>
          if (case ak_last_used_at key of None \<Rightarrow> True | Some at \<Rightarrow> at < now - int (mins 1))
          then st\<lparr>ss_keys := omap_insert key_id (key\<lparr>ak_last_used_at := Some now\<rparr>) (ss_keys st)\<rparr>
          else st)"

section \<open>Bindings\<close>

text \<open>The numbers' bindings removed, each leaving its tombstone.\<close>

definition release_number :: "time \<Rightarrow> string \<Rightarrow> srv_state \<Rightarrow> srv_state" where
  "release_number at pn st =
     (case map_of (ss_numbers st) pn of
        None \<Rightarrow> st
      | Some b \<Rightarrow>
          st\<lparr>ss_numbers := AList.delete pn (ss_numbers st),
             ss_number_tombstones := omap_insert pn (number_tombstone_of b at) (ss_number_tombstones st)\<rparr>)"

definition release_numbers :: "string list \<Rightarrow> time \<Rightarrow> srv_state \<Rightarrow> srv_state" where
  "release_numbers pns at st = fold (release_number at) pns st"

definition bind_number :: "time \<Rightarrow> string \<Rightarrow> string \<Rightarrow> string \<Rightarrow> srv_state \<Rightarrow> srv_state" where
  "bind_number now tenant waba_id pn st =
     (let bound =
        (case map_of (ss_numbers st) pn of
           Some held \<Rightarrow>
             held\<lparr>nb_waba_id := waba_id, nb_status := NumberConnected, nb_updated_at := now\<rparr>
         | None \<Rightarrow> newly_bound pn waba_id tenant now (map_of (ss_number_tombstones st) pn))
      in st\<lparr>ss_numbers := omap_insert pn bound (ss_numbers st)\<rparr>)"

definition bind_waba ::
  "time \<Rightarrow> string \<Rightarrow> string \<Rightarrow> string list \<Rightarrow> srv_state \<Rightarrow> bind_outcome \<times> srv_state" where
  "bind_waba now tenant waba_id pns st =
     (if map_of (ss_tenants st) tenant = None then (NoSuchTenant, st)
      else if (case map_of (ss_wabas st) waba_id of None \<Rightarrow> False | Some w \<Rightarrow> wb_tenant_id w \<noteq> tenant)
           \<or> (\<exists>n\<in>set pns.
                case map_of (ss_numbers st) n of None \<Rightarrow> False | Some b \<Rightarrow> nb_tenant_id b \<noteq> tenant)
      then (OwnedByAnotherTenant, st)
      else
        let previous = Option.bind (map_of (ss_tombstones st) waba_id) (\<lambda>t. waba_previous_for t tenant);
            binding =
              (case map_of (ss_wabas st) waba_id of
                 Some w \<Rightarrow> w\<lparr>wb_generation := min I64_MAX (wb_generation w + 1)\<rparr>
               | None \<Rightarrow>
                   \<lparr>wb_waba_id = waba_id, wb_tenant_id = tenant, wb_credit_allocation_id = None,
                    wb_attached_at = now, wb_generation = 1,
                    wb_previous_tenant_unbound_at = previous\<rparr>);
            st = st\<lparr>ss_wabas := omap_insert waba_id binding (ss_wabas st)\<rparr>;
            dropped =
              map fst (filter (\<lambda>(pn, b). nb_waba_id b = waba_id \<and> pn \<notin> set pns) (ss_numbers st));
            st = release_numbers dropped now st
        in (Bound, fold (bind_number now tenant waba_id) pns st))"

definition unbind :: "time \<Rightarrow> string \<Rightarrow> srv_state \<Rightarrow> bool \<times> srv_state" where
  "unbind now waba_id st =
     (case map_of (ss_wabas st) waba_id of
        None \<Rightarrow> (False, st)
      | Some binding \<Rightarrow>
          let st = st\<lparr>ss_wabas := AList.delete waba_id (ss_wabas st)\<rparr>;
              pns = map fst (filter (\<lambda>(_, b). nb_waba_id b = waba_id) (ss_numbers st));
              st = release_numbers pns now st
          in (True,
              st\<lparr>ss_signup_attempts := AList.delete waba_id (ss_signup_attempts st),
                 ss_tombstones := omap_insert waba_id (waba_tombstone_of binding now) (ss_tombstones st)\<rparr>))"

definition epoch_holds :: "srv_state \<Rightarrow> binding_epoch \<Rightarrow> bool" where
  "epoch_holds st ep =
     (case map_of (ss_wabas st) (ep_waba_id ep) of None \<Rightarrow> False | Some w \<Rightarrow> epoch_of w = ep)"

definition unbind_waba :: "time \<Rightarrow> string \<Rightarrow> srv_state \<Rightarrow> bool \<times> srv_state" where
  "unbind_waba now waba_id st = unbind now waba_id st"

definition unbind_waba_if :: "time \<Rightarrow> binding_epoch \<Rightarrow> srv_state \<Rightarrow> bool \<times> srv_state" where
  "unbind_waba_if now ep st =
     (if \<not> epoch_holds st ep then (False, st) else unbind now (ep_waba_id ep) st)"

definition waba_get :: "string \<Rightarrow> srv_state \<Rightarrow> waba_binding option" where
  "waba_get waba_id st = map_of (ss_wabas st) waba_id"

definition number_get :: "string \<Rightarrow> srv_state \<Rightarrow> number_binding option" where
  "number_get pn st = map_of (ss_numbers st) pn"

definition all_wabas :: "page_request \<Rightarrow> srv_state \<Rightarrow> waba_binding listing" where
  "all_wabas r st = list_page (ss_wabas st) r (\<lambda>_. True) wb_waba_id"

definition wabas :: "string \<Rightarrow> page_request \<Rightarrow> srv_state \<Rightarrow> waba_binding listing" where
  "wabas tenant r st = list_page (ss_wabas st) r (\<lambda>w. wb_tenant_id w = tenant) wb_waba_id"

definition waba_numbers :: "string \<Rightarrow> srv_state \<Rightarrow> number_binding list" where
  "waba_numbers waba_id st = filter (\<lambda>n. nb_waba_id n = waba_id) (map snd (ss_numbers st))"

definition numbers :: "string \<Rightarrow> page_request \<Rightarrow> srv_state \<Rightarrow> number_binding listing" where
  "numbers tenant r st = list_page (ss_numbers st) r (\<lambda>n. nb_tenant_id n = tenant) nb_phone_number_id"

definition status_of_waba :: "time \<Rightarrow> string \<Rightarrow> number_status \<Rightarrow> number_binding \<Rightarrow> number_binding" where
  "status_of_waba now waba_id status n =
     (if nb_waba_id n = waba_id then n\<lparr>nb_status := status, nb_updated_at := now\<rparr> else n)"

definition set_waba_status :: "time \<Rightarrow> string \<Rightarrow> number_status \<Rightarrow> srv_state \<Rightarrow> srv_state" where
  "set_waba_status now waba_id status st =
     st\<lparr>ss_numbers := map_values (status_of_waba now waba_id status) (ss_numbers st)\<rparr>"

definition set_waba_status_if ::
  "time \<Rightarrow> binding_epoch \<Rightarrow> number_status \<Rightarrow> srv_state \<Rightarrow> bool \<times> srv_state" where
  "set_waba_status_if now ep status st =
     (if \<not> epoch_holds st ep then (False, st)
      else (True, st\<lparr>ss_numbers := map_values (status_of_waba now (ep_waba_id ep) status) (ss_numbers st)\<rparr>))"

definition set_credit_allocation_if ::
  "binding_epoch \<Rightarrow> string \<Rightarrow> srv_state \<Rightarrow> bool \<times> srv_state" where
  "set_credit_allocation_if ep allocation st =
     (if \<not> epoch_holds st ep then (False, st)
      else (True,
        (case map_of (ss_wabas st) (ep_waba_id ep) of
           None \<Rightarrow> st
         | Some w \<Rightarrow>
             st\<lparr>ss_wabas := omap_insert (ep_waba_id ep) (w\<lparr>wb_credit_allocation_id := Some allocation\<rparr>)
                  (ss_wabas st)\<rparr>)))"

section \<open>Signup attempts and vault entries\<close>

definition save_signup_attempt :: "time \<Rightarrow> new_signup_attempt \<Rightarrow> srv_state \<Rightarrow> bool \<times> srv_state" where
  "save_signup_attempt now a st =
     (if (case map_of (ss_wabas st) (na_waba_id a) of None \<Rightarrow> True | Some w \<Rightarrow> wb_tenant_id w \<noteq> na_tenant_id a)
      then (False, st)
      else
        let created_at =
          (case map_of (ss_signup_attempts st) (na_waba_id a) of
             None \<Rightarrow> now
           | Some kept \<Rightarrow> if sa_tenant_id kept = na_tenant_id a then sa_created_at kept else now)
        in (True,
            st\<lparr>ss_signup_attempts := omap_insert (na_waba_id a)
                 \<lparr>sa_tenant_id = na_tenant_id a, sa_waba_id = na_waba_id a,
                  sa_failed_step = na_failed_step a, sa_session = na_session a,
                  sa_finish_kind = na_finish_kind a, sa_created_at = created_at, sa_updated_at = now\<rparr>
                 (ss_signup_attempts st)\<rparr>))"

definition signup_attempt_get :: "string \<Rightarrow> string \<Rightarrow> srv_state \<Rightarrow> signup_attempt option" where
  "signup_attempt_get tenant waba_id st =
     (case map_of (ss_signup_attempts st) waba_id of
        None \<Rightarrow> None
      | Some a \<Rightarrow> if sa_tenant_id a = tenant then Some a else None)"

definition signup_attempts :: "string \<Rightarrow> page_request \<Rightarrow> srv_state \<Rightarrow> signup_attempt listing" where
  "signup_attempts tenant r st =
     list_page (ss_signup_attempts st) r (\<lambda>a. sa_tenant_id a = tenant) sa_waba_id"

definition delete_signup_attempt :: "string \<Rightarrow> string \<Rightarrow> srv_state \<Rightarrow> bool \<times> srv_state" where
  "delete_signup_attempt tenant waba_id st =
     (case map_of (ss_signup_attempts st) waba_id of
        None \<Rightarrow> (False, st)
      | Some a \<Rightarrow>
          if sa_tenant_id a = tenant
          then (True, st\<lparr>ss_signup_attempts := AList.delete waba_id (ss_signup_attempts st)\<rparr>)
          else (False, st))"

definition record_vault_entry :: "vault_entry \<Rightarrow> srv_state \<Rightarrow> srv_state" where
  "record_vault_entry e st =
     (case map_of (ss_vault_entries st) (vault_entry_key e) of
        Some _ \<Rightarrow> st
      | None \<Rightarrow> st\<lparr>ss_vault_entries := omap_insert (vault_entry_key e) e (ss_vault_entries st)\<rparr>)"

definition vault_entries :: "page_request \<Rightarrow> srv_state \<Rightarrow> vault_entry listing" where
  "vault_entries r st = list_page (ss_vault_entries st) r (\<lambda>_. True) vault_entry_key"

section \<open>Idempotency keys\<close>

definition claim_idempotency_key ::
  "time \<Rightarrow> string \<Rightarrow> string \<Rightarrow> string \<Rightarrow> string \<Rightarrow> duration \<Rightarrow> duration \<Rightarrow> srv_state
     \<Rightarrow> idem_claim \<times> srv_state" where
  "claim_idempotency_key now tenant key fingerprint claim lease ttl st =
     (let i = idempotency_id tenant key;
          fresh = (IdemClaimed,
            st\<lparr>ss_idempotency := omap_insert i
                 \<lparr>ie_fingerprint = fingerprint, ie_claim = claim, ie_completed = None,
                  ie_lease_until = after now lease, ie_expires_at = after now ttl\<rparr>
                 (ss_idempotency st)\<rparr>)
      in case map_of (ss_idempotency st) i of
           None \<Rightarrow> fresh
         | Some e \<Rightarrow>
             if now < ie_expires_at e
             then (IdemExisting
                     \<lparr>ir_fingerprint = ie_fingerprint e,
                      ir_state = (case ie_completed e of
                          Some (status, body) \<Rightarrow> Completed status body
                        | None \<Rightarrow> InProgress (ie_lease_until e \<le> now))\<rparr>, st)
             else fresh)"

definition complete_idempotency_key ::
  "string \<Rightarrow> string \<Rightarrow> string \<Rightarrow> nat \<Rightarrow> string \<Rightarrow> srv_state \<Rightarrow> bool \<times> srv_state" where
  "complete_idempotency_key tenant key claim status body st =
     (case map_of (ss_idempotency st) (idempotency_id tenant key) of
        None \<Rightarrow> (False, st)
      | Some e \<Rightarrow>
          if ie_claim e = claim
          then (True, st\<lparr>ss_idempotency := omap_insert (idempotency_id tenant key)
                 (e\<lparr>ie_completed := Some (status, body)\<rparr>) (ss_idempotency st)\<rparr>)
          else (False, st))"

definition release_idempotency_key ::
  "string \<Rightarrow> string \<Rightarrow> string \<Rightarrow> srv_state \<Rightarrow> bool \<times> srv_state" where
  "release_idempotency_key tenant key claim st =
     (case map_of (ss_idempotency st) (idempotency_id tenant key) of
        None \<Rightarrow> (False, st)
      | Some e \<Rightarrow>
          if ie_claim e = claim
          then (True, st\<lparr>ss_idempotency := AList.delete (idempotency_id tenant key) (ss_idempotency st)\<rparr>)
          else (False, st))"

definition purge_idempotency_keys :: "time \<Rightarrow> srv_state \<Rightarrow> nat \<times> srv_state" where
  "purge_idempotency_keys now st =
     (let kept = filter (\<lambda>(_, e). now < ie_expires_at e) (ss_idempotency st)
      in (length (ss_idempotency st) - length kept, st\<lparr>ss_idempotency := kept\<rparr>))"

end
