(* ===== verification/Server_Invariant.thy ===== *)
theory Server_Invariant
  imports Server_Records
begin

text \<open>
  What the server's records keep: every map is ordered and keyed by its items' own ids, a key and a
  binding name a tenant that exists, a number is bound under a WABA of its own tenant, and a signup
  attempt belongs to the tenant its WABA is bound to. \<open>srv_step\<close> is any call of the store.
\<close>

section \<open>Calls\<close>

datatype srv_call =
  CreateTenant string string
| UpdateTenant string "string option" "tenant_status option"
| SetOtpSettings string "otp_settings option"
| DeleteTenant string
| InsertKey new_api_key
| RevokeKey key_scope string
| TouchKey string
| BindWaba string string "string list"
| UnbindWaba string
| UnbindWabaIf binding_epoch
| SetWabaStatus string number_status
| SetWabaStatusIf binding_epoch number_status
| SetCreditAllocationIf binding_epoch string
| SaveSignupAttempt new_signup_attempt
| DeleteSignupAttempt string string
| RecordVaultEntry vault_entry
| ClaimKey string string string string duration duration
| CompleteKey string string string nat string
| ReleaseKey string string string
| PurgeKeys

fun srv_step :: "time \<times> srv_call \<Rightarrow> srv_state \<Rightarrow> srv_state" where
  "srv_step (now, CreateTenant i name) st = snd (create_tenant now i name st)"
| "srv_step (now, UpdateTenant i name status) st = snd (update_tenant now i name status st)"
| "srv_step (now, SetOtpSettings i settings) st = snd (set_otp_settings now i settings st)"
| "srv_step (now, DeleteTenant i) st = snd (delete_records i st)"
| "srv_step (now, InsertKey key) st = snd (insert_key now key st)"
| "srv_step (now, RevokeKey sc k) st = snd (revoke_key now sc k st)"
| "srv_step (now, TouchKey k) st = touch_key now k st"
| "srv_step (now, BindWaba tenant w pns) st = snd (bind_waba now tenant w pns st)"
| "srv_step (now, UnbindWaba w) st = snd (unbind_waba now w st)"
| "srv_step (now, UnbindWabaIf ep) st = snd (unbind_waba_if now ep st)"
| "srv_step (now, SetWabaStatus w s) st = set_waba_status now w s st"
| "srv_step (now, SetWabaStatusIf ep s) st = snd (set_waba_status_if now ep s st)"
| "srv_step (now, SetCreditAllocationIf ep a) st = snd (set_credit_allocation_if ep a st)"
| "srv_step (now, SaveSignupAttempt a) st = snd (save_signup_attempt now a st)"
| "srv_step (now, DeleteSignupAttempt tenant w) st = snd (delete_signup_attempt tenant w st)"
| "srv_step (now, RecordVaultEntry e) st = record_vault_entry e st"
| "srv_step (now, ClaimKey tenant k fp c lease ttl) st =
     snd (claim_idempotency_key now tenant k fp c lease ttl st)"
| "srv_step (now, CompleteKey tenant k c status body) st =
     snd (complete_idempotency_key tenant k c status body st)"
| "srv_step (now, ReleaseKey tenant k c) st = snd (release_idempotency_key tenant k c st)"
| "srv_step (now, PurgeKeys) st = snd (purge_idempotency_keys now st)"

definition srv_run :: "(time \<times> srv_call) list \<Rightarrow> srv_state \<Rightarrow> srv_state" where
  "srv_run calls st = fold srv_step calls st"

lemma srv_run_simps [simp]:
  "srv_run [] st = st"
  "srv_run (c # cs) st = srv_run cs (srv_step c st)"
  "srv_run (cs @ ds) st = srv_run ds (srv_run cs st)"
  by (simp_all add: srv_run_def)

lemma srv_run_keeps:
  assumes "\<And>c st. c \<in> set calls \<Longrightarrow> P st \<Longrightarrow> P (srv_step c st)" and "P st"
  shows "P (srv_run calls st)"
  using assms by (induction calls arbitrary: st) auto

section \<open>What a release and a bind do to the numbers\<close>

lemma release_number_same [simp]:
  "ss_tenants (release_number at pn st) = ss_tenants st"
  "ss_keys (release_number at pn st) = ss_keys st"
  "ss_wabas (release_number at pn st) = ss_wabas st"
  "ss_tombstones (release_number at pn st) = ss_tombstones st"
  "ss_idempotency (release_number at pn st) = ss_idempotency st"
  "ss_otp_settings (release_number at pn st) = ss_otp_settings st"
  "ss_signup_attempts (release_number at pn st) = ss_signup_attempts st"
  "ss_vault_entries (release_number at pn st) = ss_vault_entries st"
  by (simp_all add: release_number_def split: option.split)

lemma release_numbers_Nil [simp]: "release_numbers [] at st = st"
  by (simp add: release_numbers_def)

lemma release_numbers_Cons: "release_numbers (pn # pns) at st = release_numbers pns at (release_number at pn st)"
  by (simp add: release_numbers_def)

lemma release_numbers_same [simp]:
  "ss_tenants (release_numbers pns at st) = ss_tenants st"
  "ss_keys (release_numbers pns at st) = ss_keys st"
  "ss_wabas (release_numbers pns at st) = ss_wabas st"
  "ss_tombstones (release_numbers pns at st) = ss_tombstones st"
  "ss_idempotency (release_numbers pns at st) = ss_idempotency st"
  "ss_otp_settings (release_numbers pns at st) = ss_otp_settings st"
  "ss_signup_attempts (release_numbers pns at st) = ss_signup_attempts st"
  "ss_vault_entries (release_numbers pns at st) = ss_vault_entries st"
  by (induction pns arbitrary: st) (simp_all add: release_numbers_Cons)

lemma release_numbers_ok [simp]:
  "omap_ok (ss_numbers st) \<Longrightarrow> omap_ok (ss_numbers (release_numbers pns at st))"
  "omap_ok (ss_number_tombstones st) \<Longrightarrow> omap_ok (ss_number_tombstones (release_numbers pns at st))"
  by (induction pns arbitrary: st) (simp_all add: release_numbers_Cons release_number_def split: option.split)

lemma release_numbers_numbers [simp]:
  "map_of (ss_numbers (release_numbers pns at st)) pn = (if pn \<in> set pns then None else map_of (ss_numbers st) pn)"
  by (induction pns arbitrary: st) (auto simp: release_numbers_Cons release_number_def split: option.split)

lemma release_numbers_tombstones [simp]:
  assumes "omap_ok (ss_number_tombstones st)"
  shows "map_of (ss_number_tombstones (release_numbers pns at st)) pn =
    (case map_of (ss_numbers st) pn of
       Some b \<Rightarrow> if pn \<in> set pns then Some (number_tombstone_of b at) else map_of (ss_number_tombstones st) pn
     | None \<Rightarrow> map_of (ss_number_tombstones st) pn)"
  using assms
  by (induction pns arbitrary: st) (auto simp: release_numbers_Cons release_number_def split: option.splits)

text \<open>The binding a number gets.\<close>

definition bound_number ::
  "time \<Rightarrow> string \<Rightarrow> string \<Rightarrow> string \<Rightarrow> srv_state \<Rightarrow> number_binding" where
  "bound_number now tenant waba_id pn st =
     (case map_of (ss_numbers st) pn of
        Some held \<Rightarrow> held\<lparr>nb_waba_id := waba_id, nb_status := NumberConnected, nb_updated_at := now\<rparr>
      | None \<Rightarrow> newly_bound pn waba_id tenant now (map_of (ss_number_tombstones st) pn))"

lemma bind_number_alt:
  "bind_number now tenant waba_id pn st =
     st\<lparr>ss_numbers := omap_insert pn (bound_number now tenant waba_id pn st) (ss_numbers st)\<rparr>"
  by (simp add: bind_number_def bound_number_def Let_def)

lemma bind_number_same [simp]:
  "ss_tenants (bind_number now tenant w pn st) = ss_tenants st"
  "ss_keys (bind_number now tenant w pn st) = ss_keys st"
  "ss_wabas (bind_number now tenant w pn st) = ss_wabas st"
  "ss_tombstones (bind_number now tenant w pn st) = ss_tombstones st"
  "ss_number_tombstones (bind_number now tenant w pn st) = ss_number_tombstones st"
  "ss_idempotency (bind_number now tenant w pn st) = ss_idempotency st"
  "ss_otp_settings (bind_number now tenant w pn st) = ss_otp_settings st"
  "ss_signup_attempts (bind_number now tenant w pn st) = ss_signup_attempts st"
  "ss_vault_entries (bind_number now tenant w pn st) = ss_vault_entries st"
  by (simp_all add: bind_number_alt)

lemma bind_numbers_same [simp]:
  "ss_tenants (fold (bind_number now tenant w) pns st) = ss_tenants st"
  "ss_keys (fold (bind_number now tenant w) pns st) = ss_keys st"
  "ss_wabas (fold (bind_number now tenant w) pns st) = ss_wabas st"
  "ss_tombstones (fold (bind_number now tenant w) pns st) = ss_tombstones st"
  "ss_number_tombstones (fold (bind_number now tenant w) pns st) = ss_number_tombstones st"
  "ss_idempotency (fold (bind_number now tenant w) pns st) = ss_idempotency st"
  "ss_otp_settings (fold (bind_number now tenant w) pns st) = ss_otp_settings st"
  "ss_signup_attempts (fold (bind_number now tenant w) pns st) = ss_signup_attempts st"
  "ss_vault_entries (fold (bind_number now tenant w) pns st) = ss_vault_entries st"
  by (induction pns arbitrary: st) simp_all

lemma bind_numbers_ok [simp]:
  "omap_ok (ss_numbers st) \<Longrightarrow> omap_ok (ss_numbers (fold (bind_number now tenant w) pns st))"
  by (induction pns arbitrary: st) (simp_all add: bind_number_alt)

lemma bind_numbers_numbers [simp]:
  assumes "omap_ok (ss_numbers st)"
  shows "map_of (ss_numbers (fold (bind_number now tenant w) pns st)) pn =
    (if pn \<in> set pns then Some (bound_number now tenant w pn st) else map_of (ss_numbers st) pn)"
  using assms
proof (induction pns arbitrary: st)
  case (Cons q pns)
  have "bound_number now tenant w pn (bind_number now tenant w q st) = bound_number now tenant w pn st"
    using Cons.prems by (auto simp: bind_number_alt bound_number_def newly_bound_def split: option.splits)
  then show ?case using Cons by (auto simp: bind_number_alt)
qed simp

text \<open>A bind that was accepted.\<close>

definition may_bind :: "string \<Rightarrow> string \<Rightarrow> string list \<Rightarrow> srv_state \<Rightarrow> bool" where
  "may_bind tenant waba_id pns st \<longleftrightarrow>
     map_of (ss_tenants st) tenant \<noteq> None
     \<and> (\<forall>w. map_of (ss_wabas st) waba_id = Some w \<longrightarrow> wb_tenant_id w = tenant)
     \<and> (\<forall>n\<in>set pns. \<forall>b. map_of (ss_numbers st) n = Some b \<longrightarrow> nb_tenant_id b = tenant)"

definition bound_waba :: "time \<Rightarrow> string \<Rightarrow> string \<Rightarrow> srv_state \<Rightarrow> waba_binding" where
  "bound_waba now tenant waba_id st =
     (case map_of (ss_wabas st) waba_id of
        Some w \<Rightarrow> w\<lparr>wb_generation := min I64_MAX (wb_generation w + 1)\<rparr>
      | None \<Rightarrow>
          \<lparr>wb_waba_id = waba_id, wb_tenant_id = tenant, wb_credit_allocation_id = None,
           wb_attached_at = now, wb_generation = 1,
           wb_previous_tenant_unbound_at =
             Option.bind (map_of (ss_tombstones st) waba_id) (\<lambda>t. waba_previous_for t tenant)\<rparr>)"

definition dropped_numbers :: "string \<Rightarrow> string list \<Rightarrow> srv_state \<Rightarrow> string list" where
  "dropped_numbers waba_id pns st =
     map fst (filter (\<lambda>(pn, b). nb_waba_id b = waba_id \<and> pn \<notin> set pns) (ss_numbers st))"

lemma bind_waba_refused: "\<not> may_bind tenant w pns st \<Longrightarrow> snd (bind_waba now tenant w pns st) = st
    \<and> fst (bind_waba now tenant w pns st) \<noteq> Bound"
  by (auto simp: bind_waba_def may_bind_def Let_def split: option.splits if_splits)

lemma bind_waba_alt:
  assumes "may_bind tenant w pns st"
  shows "bind_waba now tenant w pns st =
    (Bound, fold (bind_number now tenant w) pns
      (release_numbers (dropped_numbers w pns st) now
        (st\<lparr>ss_wabas := omap_insert w (bound_waba now tenant w st) (ss_wabas st)\<rparr>)))"
  using assms unfolding may_bind_def bind_waba_def dropped_numbers_def bound_waba_def Let_def
  by (auto split: option.splits)

lemma in_dropped:
  "omap_ok (ss_numbers st) \<Longrightarrow> pn \<in> set (dropped_numbers w pns st)
     \<longleftrightarrow> (\<exists>b. map_of (ss_numbers st) pn = Some b \<and> nb_waba_id b = w \<and> pn \<notin> set pns)"
  by (force simp: dropped_numbers_def omap_mem image_iff)

lemma bind_waba_numbers:
  assumes "may_bind tenant w pns st" "omap_ok (ss_numbers st)" "omap_ok (ss_number_tombstones st)"
  shows "map_of (ss_numbers (snd (bind_waba now tenant w pns st))) pn =
    (if pn \<in> set pns then Some (bound_number now tenant w pn st)
     else case map_of (ss_numbers st) pn of
       None \<Rightarrow> None
     | Some b \<Rightarrow> if nb_waba_id b = w then None else Some b)"
  using assms by (auto simp: bind_waba_alt in_dropped bound_number_def split: option.splits)

lemma bind_waba_tombstones:
  assumes "may_bind tenant w pns st" "omap_ok (ss_numbers st)" "omap_ok (ss_number_tombstones st)"
  shows "map_of (ss_number_tombstones (snd (bind_waba now tenant w pns st))) pn =
    (case map_of (ss_numbers st) pn of
       Some b \<Rightarrow> if nb_waba_id b = w \<and> pn \<notin> set pns then Some (number_tombstone_of b now)
                 else map_of (ss_number_tombstones st) pn
     | None \<Rightarrow> map_of (ss_number_tombstones st) pn)"
  using assms by (auto simp: bind_waba_alt in_dropped split: option.splits)

lemma bind_waba_wabas:
  assumes "may_bind tenant w pns st" "omap_ok (ss_wabas st)"
  shows "map_of (ss_wabas (snd (bind_waba now tenant w pns st))) =
    (map_of (ss_wabas st))(w \<mapsto> bound_waba now tenant w st)"
  using assms by (auto simp: bind_waba_alt)

text \<open>An unbind.\<close>

lemma unbind_none: "map_of (ss_wabas st) w = None \<Longrightarrow> unbind now w st = (False, st)"
  by (simp add: unbind_def)

lemma unbind_alt:
  assumes "map_of (ss_wabas st) w = Some b"
  shows "unbind now w st = (True,
    (release_numbers (dropped_numbers w [] st) now (st\<lparr>ss_wabas := AList.delete w (ss_wabas st)\<rparr>))
      \<lparr>ss_signup_attempts := AList.delete w (ss_signup_attempts st),
       ss_tombstones := omap_insert w (waba_tombstone_of b now) (ss_tombstones st)\<rparr>)"
  using assms by (simp add: unbind_def Let_def dropped_numbers_def case_prod_unfold)

lemma unbind_same [simp]:
  "ss_tenants (snd (unbind now w st)) = ss_tenants st"
  "ss_keys (snd (unbind now w st)) = ss_keys st"
  "ss_idempotency (snd (unbind now w st)) = ss_idempotency st"
  "ss_otp_settings (snd (unbind now w st)) = ss_otp_settings st"
  "ss_vault_entries (snd (unbind now w st)) = ss_vault_entries st"
  by (simp_all add: unbind_def Let_def split: option.split)

lemma unbind_numbers:
  assumes "omap_ok (ss_numbers st)" "omap_ok (ss_number_tombstones st)"
  shows "map_of (ss_numbers (snd (unbind now w st))) pn =
      (case map_of (ss_numbers st) pn of
         None \<Rightarrow> None
       | Some b \<Rightarrow> if nb_waba_id b = w \<and> map_of (ss_wabas st) w \<noteq> None then None else Some b)"
    and "map_of (ss_number_tombstones (snd (unbind now w st))) pn =
      (case map_of (ss_numbers st) pn of
         Some b \<Rightarrow> if nb_waba_id b = w \<and> map_of (ss_wabas st) w \<noteq> None then Some (number_tombstone_of b now)
                   else map_of (ss_number_tombstones st) pn
       | None \<Rightarrow> map_of (ss_number_tombstones st) pn)"
  using assms
  by (cases "map_of (ss_wabas st) w"; auto simp: unbind_none unbind_alt in_dropped split: option.splits)+

section \<open>The invariant\<close>

definition maps_ok :: "srv_state \<Rightarrow> bool" where
  "maps_ok st \<longleftrightarrow>
     omap_ok (ss_tenants st) \<and> omap_ok (ss_keys st) \<and> omap_ok (ss_wabas st) \<and> omap_ok (ss_numbers st)
     \<and> omap_ok (ss_tombstones st) \<and> omap_ok (ss_number_tombstones st) \<and> omap_ok (ss_idempotency st)
     \<and> omap_ok (ss_otp_settings st) \<and> omap_ok (ss_signup_attempts st) \<and> omap_ok (ss_vault_entries st)"

definition keyed_by :: "('v \<Rightarrow> 'k) \<Rightarrow> ('k, 'v) btreemap \<Rightarrow> bool" where
  "keyed_by key m \<longleftrightarrow> (\<forall>k v. map_of m k = Some v \<longrightarrow> key v = k)"

definition ids_ok :: "srv_state \<Rightarrow> bool" where
  "ids_ok st \<longleftrightarrow>
     keyed_by tn_id (ss_tenants st) \<and> keyed_by ak_key_id (ss_keys st) \<and> keyed_by wb_waba_id (ss_wabas st)
     \<and> keyed_by nb_phone_number_id (ss_numbers st) \<and> keyed_by sa_waba_id (ss_signup_attempts st)
     \<and> keyed_by vault_entry_key (ss_vault_entries st)"

text \<open>The tenant a WABA is bound to.\<close>

definition holder :: "string \<Rightarrow> srv_state \<Rightarrow> string option" where
  "holder w st = map_option wb_tenant_id (map_of (ss_wabas st) w)"

definition refs_ok :: "srv_state \<Rightarrow> bool" where
  "refs_ok st \<longleftrightarrow>
     (\<forall>k key t. map_of (ss_keys st) k = Some key \<longrightarrow> ak_owner key = OwnerTenant t
        \<longrightarrow> map_of (ss_tenants st) t \<noteq> None)
     \<and> (\<forall>i v. map_of (ss_otp_settings st) i = Some v \<longrightarrow> map_of (ss_tenants st) i \<noteq> None)
     \<and> (\<forall>w b. map_of (ss_wabas st) w = Some b
        \<longrightarrow> map_of (ss_tenants st) (wb_tenant_id b) \<noteq> None \<and> 1 \<le> wb_generation b)
     \<and> (\<forall>pn b. map_of (ss_numbers st) pn = Some b \<longrightarrow> holder (nb_waba_id b) st = Some (nb_tenant_id b))
     \<and> (\<forall>w a. map_of (ss_signup_attempts st) w = Some a \<longrightarrow> holder w st = Some (sa_tenant_id a))"

definition srv_ok :: "srv_state \<Rightarrow> bool" where
  "srv_ok st \<longleftrightarrow> maps_ok st \<and> ids_ok st \<and> refs_ok st"

lemma srv_ok_empty [simp]: "srv_ok srv_empty"
  by (simp add: srv_ok_def maps_ok_def ids_ok_def refs_ok_def keyed_by_def srv_empty_def)

lemma keyed_by_insert [simp]:
  "omap_ok m \<Longrightarrow> keyed_by key m \<Longrightarrow> keyed_by key (omap_insert k v m) \<longleftrightarrow> key v = k"
  by (auto simp: keyed_by_def)

lemma keyed_by_delete [simp]: "keyed_by key m \<Longrightarrow> keyed_by key (AList.delete k m)"
  by (simp add: keyed_by_def)

lemma keyed_by_map_values [simp]:
  "keyed_by key m \<Longrightarrow> (\<And>v. key (f v) = key v) \<Longrightarrow> keyed_by key (map_values f m)"
  by (auto simp: keyed_by_def)

lemma keyed_by_filter [simp]:
  "omap_ok m \<Longrightarrow> keyed_by key m \<Longrightarrow> keyed_by key (filter P m)"
  by (auto simp: keyed_by_def omap_mem[symmetric])

lemma keyed_byD: "keyed_by key m \<Longrightarrow> map_of m k = Some v \<Longrightarrow> key v = k"
  by (simp add: keyed_by_def)

lemma disallow_same [simp]: "ak_key_id (disallow i key) = ak_key_id key"
  by (simp add: disallow_def split: key_owner.split allowed_tenants.split)

lemma disallow_owner [simp]: "ak_owner (disallow i key) = OwnerTenant t \<longleftrightarrow> ak_owner key = OwnerTenant t"
  by (auto simp: disallow_def split: key_owner.split allowed_tenants.split)

lemma status_of_waba_same [simp]:
  "nb_phone_number_id (status_of_waba now w s b) = nb_phone_number_id b"
  "nb_waba_id (status_of_waba now w s b) = nb_waba_id b"
  "nb_tenant_id (status_of_waba now w s b) = nb_tenant_id b"
  "nb_attached_at (status_of_waba now w s b) = nb_attached_at b"
  "nb_previous_tenant_released_at (status_of_waba now w s b) = nb_previous_tenant_released_at b"
  by (simp_all add: status_of_waba_def)

lemmas srv_op_defs =
  create_tenant_def update_tenant_def set_otp_settings_def delete_records_def insert_key_def
  revoke_key_def touch_key_def set_waba_status_def set_waba_status_if_def set_credit_allocation_if_def
  save_signup_attempt_def delete_signup_attempt_def record_vault_entry_def claim_idempotency_key_def
  complete_idempotency_key_def release_idempotency_key_def purge_idempotency_keys_def

text \<open>Every call keeps the maps ordered.\<close>

lemma unbind_maps: "maps_ok st \<Longrightarrow> maps_ok (snd (unbind now w st))"
  by (cases "map_of (ss_wabas st) w") (auto simp: unbind_none unbind_alt maps_ok_def)

lemma bind_maps: "maps_ok st \<Longrightarrow> maps_ok (snd (bind_waba now tenant w pns st))"
  by (cases "may_bind tenant w pns st") (auto simp: bind_waba_refused bind_waba_alt maps_ok_def)

lemma maps_step: "maps_ok st \<Longrightarrow> maps_ok (srv_step c st)"
proof (induction c st rule: srv_step.induct)
qed (simp_all add: unbind_waba_def unbind_waba_if_def unbind_maps bind_maps,
    auto simp: srv_op_defs maps_ok_def Let_def split: option.split)

text \<open>Every call keeps them keyed by their items' ids.\<close>

lemma unbind_ids: "maps_ok st \<Longrightarrow> ids_ok st \<Longrightarrow> ids_ok (snd (unbind now w st))"
  by (auto simp: ids_ok_def keyed_by_def unbind_numbers maps_ok_def)
    (auto simp: unbind_def Let_def split: option.splits if_splits)

lemma bind_ids: "maps_ok st \<Longrightarrow> ids_ok st \<Longrightarrow> ids_ok (snd (bind_waba now tenant w pns st))"
proof (cases "may_bind tenant w pns st")
  case True
  assume ok: "maps_ok st" "ids_ok st"
  have "nb_phone_number_id (bound_number now tenant w pn st) = pn" for pn
    using ok(2) by (auto simp: bound_number_def newly_bound_def ids_ok_def keyed_by_def split: option.split)
  then have "keyed_by nb_phone_number_id (ss_numbers (snd (bind_waba now tenant w pns st)))"
    using ok True by (auto simp: keyed_by_def bind_waba_numbers maps_ok_def ids_ok_def split: option.split_asm if_split_asm)
  moreover have "wb_waba_id (bound_waba now tenant w st) = w"
    using ok(2) by (auto simp: bound_waba_def ids_ok_def keyed_by_def split: option.split)
  ultimately show ?thesis
    using ok True by (simp add: ids_ok_def bind_waba_alt maps_ok_def)
qed (simp add: bind_waba_refused)

lemma ids_step: "maps_ok st \<Longrightarrow> ids_ok st \<Longrightarrow> ids_ok (srv_step c st)"
proof (induction c st rule: srv_step.induct)
qed (simp_all add: unbind_waba_def unbind_waba_if_def unbind_ids bind_ids,
    auto simp: srv_op_defs maps_ok_def ids_ok_def Let_def dest: keyed_byD split: option.split)

text \<open>Every call keeps what the records refer to.\<close>

lemma unbind_refs: "maps_ok st \<Longrightarrow> refs_ok st \<Longrightarrow> refs_ok (snd (unbind now w st))"
proof (cases "map_of (ss_wabas st) w")
  case (Some b)
  assume ok: "maps_ok st" "refs_ok st"
  then have "omap_ok (ss_numbers st)" "omap_ok (ss_number_tombstones st)" by (auto simp: maps_ok_def)
  then show ?thesis
    using ok Some unfolding refs_ok_def holder_def
    by (simp add: unbind_alt in_dropped)
qed (simp add: unbind_none)

lemma bind_refs: "maps_ok st \<Longrightarrow> refs_ok st \<Longrightarrow> refs_ok (snd (bind_waba now tenant w pns st))"
proof (cases "may_bind tenant w pns st")
  case True
  assume ok: "maps_ok st" "refs_ok st"
  then have maps: "omap_ok (ss_numbers st)" "omap_ok (ss_number_tombstones st)" "omap_ok (ss_wabas st)"
    by (auto simp: maps_ok_def)
  have w: "wb_tenant_id (bound_waba now tenant w st) = tenant" "1 \<le> wb_generation (bound_waba now tenant w st)"
    using True ok(2) by (auto simp: bound_waba_def may_bind_def refs_ok_def I64_MAX_def
        split: option.split dest!: spec[of _ w])
  have n: "nb_tenant_id (bound_number now tenant w pn st) = tenant"
      "nb_waba_id (bound_number now tenant w pn st) = w" if "pn \<in> set pns" for pn
    using True that by (auto simp: bound_number_def newly_bound_def may_bind_def split: option.split)
  let ?st = "snd (bind_waba now tenant w pns st)"
  have same: "ss_tenants ?st = ss_tenants st" "ss_keys ?st = ss_keys st" "ss_otp_settings ?st = ss_otp_settings st"
      "ss_signup_attempts ?st = ss_signup_attempts st"
    using True by (simp_all add: bind_waba_alt)
  have h: "holder x ?st = (if x = w then Some tenant else holder x st)" for x
    using True maps w by (simp add: holder_def bind_waba_wabas)
  have old: "holder w st = None \<or> holder w st = Some tenant"
    using True by (auto simp: holder_def may_bind_def)
  show ?thesis
    using ok(2) True w n old unfolding refs_ok_def h same
    by (simp add: bind_waba_wabas bind_waba_numbers maps split: option.split)
      (auto simp: may_bind_def split: if_split_asm option.split_asm)
qed (simp add: bind_waba_refused)

lemma set_credit_holder [simp]: "holder x (snd (set_credit_allocation_if ep a st)) = holder x st" if "omap_ok (ss_wabas st)"
  using that by (auto simp: set_credit_allocation_if_def holder_def split: option.split)

lemma delete_refs: "maps_ok st \<Longrightarrow> refs_ok st \<Longrightarrow> refs_ok (snd (delete_records i st))"
proof (cases "map_of (ss_tenants st) i = None \<or> (\<exists>(_, w)\<in>set (ss_wabas st). wb_tenant_id w = i)")
  case False
  assume ok: "maps_ok st" "refs_ok st"
  have w: "wb_tenant_id b \<noteq> i" if "map_of (ss_wabas st) w = Some b" for w b
    using False map_of_SomeD[OF that] by auto
  have k: "ak_owner key \<noteq> OwnerTenant i \<and> map_of (ss_keys st) k = Some key"
    if "map_of (filter (\<lambda>(_, key). ak_owner key \<noteq> OwnerTenant i) (ss_keys st)) k = Some key" for k key
    using that ok(1) by (auto simp: map_of_filter_values maps_ok_def split: option.split_asm if_split_asm)
  show ?thesis
    using ok(2) False unfolding refs_ok_def holder_def
    by (simp add: delete_records_def) (auto dest!: k dest: w)
qed (auto simp: delete_records_def)

lemma credit_refs: "maps_ok st \<Longrightarrow> refs_ok st \<Longrightarrow> refs_ok (snd (set_credit_allocation_if ep a st))"
proof -
  assume ok: "maps_ok st" "refs_ok st"
  let ?st = "snd (set_credit_allocation_if ep a st)"
  have same: "ss_tenants ?st = ss_tenants st" "ss_keys ?st = ss_keys st" "ss_otp_settings ?st = ss_otp_settings st"
      "ss_numbers ?st = ss_numbers st" "ss_signup_attempts ?st = ss_signup_attempts st"
    by (simp_all add: set_credit_allocation_if_def split: option.split)
  have h: "holder x ?st = holder x st" for x using ok(1) by (simp add: maps_ok_def)
  have "map_of (ss_tenants st) (wb_tenant_id b) \<noteq> None \<and> 1 \<le> wb_generation b"
    if "map_of (ss_wabas ?st) w = Some b" for w b
    using that ok by (auto simp: set_credit_allocation_if_def maps_ok_def refs_ok_def
        split: option.split_asm if_split_asm)
  then show ?thesis using ok(2) unfolding refs_ok_def h same by blast
qed

lemma refs_step: "maps_ok st \<Longrightarrow> refs_ok st \<Longrightarrow> refs_ok (srv_step c st)"
proof (induction c st rule: srv_step.induct)
qed (simp_all add: unbind_waba_def unbind_waba_if_def unbind_refs bind_refs delete_refs credit_refs,
    auto simp: create_tenant_def update_tenant_def set_otp_settings_def insert_key_def
      revoke_key_def touch_key_def set_waba_status_def set_waba_status_if_def
      save_signup_attempt_def delete_signup_attempt_def record_vault_entry_def claim_idempotency_key_def
      complete_idempotency_key_def release_idempotency_key_def purge_idempotency_keys_def
      maps_ok_def refs_ok_def holder_def Let_def split: option.split option.split_asm if_split_asm)

lemma srv_ok_step: "srv_ok st \<Longrightarrow> srv_ok (srv_step c st)"
  by (simp add: srv_ok_def maps_step ids_step refs_step)

lemma srv_ok_run: "srv_ok st \<Longrightarrow> srv_ok (srv_run calls st)"
  by (rule srv_run_keeps) (simp_all add: srv_ok_step)

end
