(* ===== verification/Server_Bindings.thy ===== *)
theory Server_Bindings
  imports Server_Invariant
begin

text \<open>
  Who holds a WABA and a number, over any calls of the records store: no call moves one from a tenant
  to another (it is released in between), a write conditioned on an epoch that ended never succeeds
  again, and a binding knows when another tenant last held it. The history of the releases is the
  abstract state: it is read off the states a call starts from and ends in, not off the code.
\<close>

section \<open>Who holds what\<close>

text \<open>The tenant a number is bound to.\<close>

definition number_holder :: "string \<Rightarrow> srv_state \<Rightarrow> string option" where
  "number_holder pn st = map_option nb_tenant_id (map_of (ss_numbers st) pn)"

fun unbinds :: "string \<Rightarrow> srv_call \<Rightarrow> bool" where
  "unbinds w (UnbindWaba w') \<longleftrightarrow> w' = w"
| "unbinds w (UnbindWabaIf ep) \<longleftrightarrow> ep_waba_id ep = w"
| "unbinds w _ \<longleftrightarrow> False"

text \<open>What binds a WABA again for the tenant that holds it.\<close>

fun refreshes :: "string \<Rightarrow> srv_call \<Rightarrow> bool" where
  "refreshes w (BindWaba _ w' _) \<longleftrightarrow> w' = w"
| "refreshes w _ \<longleftrightarrow> False"

text \<open>Calls that are neither bind nor unbind leave the bindings' beginnings and holders.\<close>

fun moves_bindings :: "srv_call \<Rightarrow> bool" where
  "moves_bindings (BindWaba _ _ _) \<longleftrightarrow> True"
| "moves_bindings (UnbindWaba _) \<longleftrightarrow> True"
| "moves_bindings (UnbindWabaIf _) \<longleftrightarrow> True"
| "moves_bindings _ \<longleftrightarrow> False"

lemma other_calls:
  assumes "maps_ok st" and "\<not> moves_bindings c"
  shows "map_option (\<lambda>b. b\<lparr>wb_credit_allocation_id := None\<rparr>) (map_of (ss_wabas (srv_step (now, c) st)) w)
      = map_option (\<lambda>b. b\<lparr>wb_credit_allocation_id := None\<rparr>) (map_of (ss_wabas st) w)"
    and "map_option (\<lambda>b. b\<lparr>nb_status := NumberConnected, nb_updated_at := 0\<rparr>) (map_of (ss_numbers (srv_step (now, c) st)) pn)
      = map_option (\<lambda>b. b\<lparr>nb_status := NumberConnected, nb_updated_at := 0\<rparr>) (map_of (ss_numbers st) pn)"
  using assms
  by (cases c; auto simp: srv_op_defs maps_ok_def Let_def option.map_comp comp_def status_of_waba_def
      intro!: option.map_cong split: option.split)+

lemma other_calls_wabas:
  assumes "maps_ok st" and "\<not> moves_bindings c"
  shows "case (map_of (ss_wabas st) w, map_of (ss_wabas (srv_step (now, c) st)) w) of
      (None, None) \<Rightarrow> True
    | (Some b, Some b') \<Rightarrow> epoch_of b' = epoch_of b \<and> wb_tenant_id b' = wb_tenant_id b
        \<and> wb_attached_at b' = wb_attached_at b \<and> wb_generation b' = wb_generation b
        \<and> wb_previous_tenant_unbound_at b' = wb_previous_tenant_unbound_at b
    | _ \<Rightarrow> False"
  using other_calls(1)[OF assms, of now w]
  by (auto simp: epoch_of_def map_option_case waba_binding.defs intro: waba_binding.equality split: option.splits
      dest: arg_cong[of _ _ wb_tenant_id] arg_cong[of _ _ wb_attached_at] arg_cong[of _ _ wb_generation]
        arg_cong[of _ _ wb_previous_tenant_unbound_at] arg_cong[of _ _ wb_waba_id])

text \<open>What becomes of a WABA that is bound, and of one that is not.\<close>

lemma unbind_wabas [simp]:
  "map_of (ss_wabas (snd (unbind now w st))) x = (if x = w then None else map_of (ss_wabas st) x)"
  by (cases "map_of (ss_wabas st) w") (auto simp: unbind_none unbind_alt)

lemma waba_kept:
  assumes "maps_ok st" and "map_of (ss_wabas st) w = Some b"
  shows "(map_of (ss_wabas (srv_step (now, c) st)) w = None \<and> unbinds w c)
    \<or> (\<exists>b'. map_of (ss_wabas (srv_step (now, c) st)) w = Some b' \<and> wb_waba_id b' = wb_waba_id b
        \<and> wb_tenant_id b' = wb_tenant_id b \<and> wb_attached_at b' = wb_attached_at b
        \<and> wb_previous_tenant_unbound_at b' = wb_previous_tenant_unbound_at b
        \<and> (wb_generation b' = wb_generation b
            \<or> refreshes w c \<and> wb_generation b' = min I64_MAX (wb_generation b + 1)))"
proof (cases "moves_bindings c")
  case False
  then show ?thesis using other_calls_wabas[OF assms(1) False, where w = w and now = now] assms(2)
    by (auto simp: epoch_of_def split: option.split_asm)
next
  case True
  have bind: ?thesis if c: "c = BindWaba tenant w' pns" for tenant w' pns
  proof (cases "may_bind tenant w' pns st")
    case True
    then show ?thesis using assms by (auto simp: c bind_waba_wabas maps_ok_def bound_waba_def)
  qed (use assms in \<open>simp add: c bind_waba_refused\<close>)
  show ?thesis using True assms bind
    by (cases c) (auto simp: unbind_waba_def unbind_waba_if_def)
qed

lemma waba_new:
  assumes "maps_ok st" and "map_of (ss_wabas st) w = None"
    and "map_of (ss_wabas (srv_step (now, c) st)) w = Some b"
  shows "wb_attached_at b = now" "wb_generation b = 1"
    and "wb_previous_tenant_unbound_at b
      = Option.bind (map_of (ss_tombstones st) w) (\<lambda>t. waba_previous_for t (wb_tenant_id b))"
    and "\<exists>pns. c = BindWaba (wb_tenant_id b) w pns"
proof -
  have m: "moves_bindings c"
    using other_calls_wabas[OF assms(1), of c w now] assms(2,3) by (auto split: option.split_asm)
  have "b = bound_waba now (wb_tenant_id b) w st \<and> (\<exists>pns. c = BindWaba (wb_tenant_id b) w pns)"
    if c: "c = BindWaba tenant w' pns" for tenant w' pns
  proof (cases "may_bind tenant w' pns st")
    case True
    then show ?thesis using assms
      by (auto simp: c bind_waba_wabas maps_ok_def bound_waba_def split: if_split_asm)
  qed (use assms in \<open>simp add: c bind_waba_refused\<close>)
  then have "b = bound_waba now (wb_tenant_id b) w st \<and> (\<exists>pns. c = BindWaba (wb_tenant_id b) w pns)"
    using m assms(2,3) by (cases c) (auto simp: unbind_waba_def unbind_waba_if_def split: if_split_asm)
  moreover from this have "wb_attached_at b = now \<and> wb_generation b = 1 \<and> wb_previous_tenant_unbound_at b
      = Option.bind (map_of (ss_tombstones st) w) (\<lambda>t. waba_previous_for t (wb_tenant_id b))"
    using assms(2) by (simp add: bound_waba_def) (metis waba_binding.select_convs)
  ultimately show "wb_attached_at b = now" "wb_generation b = 1"
    "wb_previous_tenant_unbound_at b
      = Option.bind (map_of (ss_tombstones st) w) (\<lambda>t. waba_previous_for t (wb_tenant_id b))"
    "\<exists>pns. c = BindWaba (wb_tenant_id b) w pns" by blast+
qed

text \<open>The same of a number. It is also released when a bind of its WABA does not list it.\<close>

fun releases :: "string \<Rightarrow> number_binding \<Rightarrow> srv_call \<Rightarrow> bool" where
  "releases pn b (BindWaba tenant w pns) \<longleftrightarrow> tenant = nb_tenant_id b \<and> w = nb_waba_id b \<and> pn \<notin> set pns"
| "releases pn b c \<longleftrightarrow> unbinds (nb_waba_id b) c"

lemma number_kept:
  assumes ok: "srv_ok st" and b: "map_of (ss_numbers st) pn = Some b"
  shows "(map_of (ss_numbers (srv_step (now, c) st)) pn = None \<and> releases pn b c)
    \<or> (\<exists>b'. map_of (ss_numbers (srv_step (now, c) st)) pn = Some b' \<and> nb_tenant_id b' = nb_tenant_id b
        \<and> nb_attached_at b' = nb_attached_at b
        \<and> nb_previous_tenant_released_at b' = nb_previous_tenant_released_at b)"
proof (cases "moves_bindings c")
  case False
  then have "map_option (\<lambda>b. b\<lparr>nb_status := NumberConnected, nb_updated_at := 0\<rparr>) (map_of (ss_numbers (srv_step (now, c) st)) pn)
      = Some (b\<lparr>nb_status := NumberConnected, nb_updated_at := 0\<rparr>)"
    using other_calls(2)[of st c now pn] ok b by (simp add: srv_ok_def)
  then obtain b' where "map_of (ss_numbers (srv_step (now, c) st)) pn = Some b'"
      and e: "b'\<lparr>nb_status := NumberConnected, nb_updated_at := 0\<rparr> = b\<lparr>nb_status := NumberConnected, nb_updated_at := 0\<rparr>"
    by auto
  moreover have "nb_tenant_id b' = nb_tenant_id b" "nb_attached_at b' = nb_attached_at b"
      "nb_previous_tenant_released_at b' = nb_previous_tenant_released_at b"
    using arg_cong[OF e, of nb_tenant_id] arg_cong[OF e, of nb_attached_at]
      arg_cong[OF e, of nb_previous_tenant_released_at] by simp_all
  ultimately show ?thesis by blast
next
  case True
  have maps: "omap_ok (ss_numbers st)" "omap_ok (ss_number_tombstones st)"
    using ok by (auto simp: srv_ok_def maps_ok_def)
  have h: "holder (nb_waba_id b) st = Some (nb_tenant_id b)"
    using ok b by (auto simp: srv_ok_def refs_ok_def)
  have bind: ?thesis if c: "c = BindWaba tenant w pns" for tenant w pns
  proof (cases "may_bind tenant w pns st")
    case True
    then have "nb_waba_id b = w \<Longrightarrow> nb_tenant_id b = tenant"
      using h by (auto simp: may_bind_def holder_def)
    then show ?thesis using True b by (auto simp: c bind_waba_numbers maps bound_number_def)
  qed (use b in \<open>simp add: c bind_waba_refused\<close>)
  show ?thesis using True b bind
    by (cases c) (auto simp: unbind_waba_def unbind_waba_if_def unbind_numbers maps)
qed

lemma number_new:
  assumes "maps_ok st" and "map_of (ss_numbers st) pn = None"
    and "map_of (ss_numbers (srv_step (now, c) st)) pn = Some b"
  shows "\<exists>w. b = newly_bound pn w (nb_tenant_id b) now (map_of (ss_number_tombstones st) pn)
    \<and> (\<exists>pns. c = BindWaba (nb_tenant_id b) w pns \<and> pn \<in> set pns)"
proof -
  have maps: "omap_ok (ss_numbers st)" "omap_ok (ss_number_tombstones st)"
    using assms(1) by (auto simp: maps_ok_def)
  have m: "moves_bindings c"
  proof (rule ccontr)
    assume "\<not> moves_bindings c"
    from other_calls(2)[OF assms(1) this, of now pn] assms(2,3) show False by simp
  qed
  have bind: ?thesis if c: "c = BindWaba tenant w pns" for tenant w pns
  proof (cases "may_bind tenant w pns st")
    case True
    then have "pn \<in> set pns" and b: "b = newly_bound pn w tenant now (map_of (ss_number_tombstones st) pn)"
      using assms(2,3) by (auto simp: c bind_waba_numbers maps bound_number_def split: if_split_asm)
    moreover from b have "nb_tenant_id b = tenant" by (simp add: newly_bound_def)
    ultimately show ?thesis using c by auto
  qed (use assms in \<open>simp add: c bind_waba_refused\<close>)
  show ?thesis using m bind assms(2,3)
    by (cases c) (auto simp: unbind_waba_def unbind_waba_if_def unbind_numbers maps split: if_split_asm)
qed

section \<open>The history of the releases\<close>

text \<open>Who held it and when it was released, oldest first; no name once that tenant was deleted.\<close>

type_synonym tenures = "(string option \<times> time) list"

definition forget_gone :: "srv_state \<Rightarrow> string option \<times> time \<Rightarrow> string option \<times> time" where
  "forget_gone st e =
     (case fst e of
        None \<Rightarrow> e
      | Some u \<Rightarrow> if map_of (ss_tenants st) u = None then (None, snd e) else e)"

definition tenures_step ::
  "(string \<Rightarrow> srv_state \<Rightarrow> string option) \<Rightarrow> time \<Rightarrow> srv_state \<Rightarrow> srv_state \<Rightarrow> (string \<Rightarrow> tenures) \<Rightarrow> string \<Rightarrow> tenures" where
  "tenures_step who now st st' H i =
     map (forget_gone st')
       (case (who i st, who i st') of
          (Some u, None) \<Rightarrow> H i @ [(Some u, now)]
        | _ \<Rightarrow> H i)"

primrec tenures_along ::
  "(string \<Rightarrow> srv_state \<Rightarrow> string option) \<Rightarrow> (time \<times> srv_call) list \<Rightarrow> srv_state \<Rightarrow> (string \<Rightarrow> tenures) \<Rightarrow> string \<Rightarrow> tenures" where
  "tenures_along who [] st H = H"
| "tenures_along who (c # cs) st H =
     tenures_along who cs (srv_step c st) (tenures_step who (fst c) st (srv_step c st) H)"

text \<open>When it was last released by a tenant other than \<open>u\<close>.\<close>

definition last_other :: "string \<Rightarrow> tenures \<Rightarrow> time option" where
  "last_other u h =
     (let others = filter (\<lambda>(x, _). x \<noteq> Some u) h
      in if others = [] then None else Some (snd (last others)))"

definition named_exist :: "srv_state \<Rightarrow> tenures \<Rightarrow> bool" where
  "named_exist st h \<longleftrightarrow> (\<forall>u at. (Some u, at) \<in> set h \<longrightarrow> map_of (ss_tenants st) u \<noteq> None)"

text \<open>What a tombstone says of the history.\<close>

definition recorded :: "(string option \<times> time \<times> time option) option \<Rightarrow> tenures \<Rightarrow> bool" where
  "recorded r h \<longleftrightarrow>
     (case r of
        None \<Rightarrow> h = []
      | Some (x, at, prev) \<Rightarrow>
          h \<noteq> [] \<and> last h = (x, at) \<and> (\<forall>u. x = Some u \<longrightarrow> prev = last_other u h))"

lemma last_other_Nil [simp]: "last_other u [] = None"
  by (simp add: last_other_def)

lemma last_other_snoc [simp]:
  "last_other u (h @ [(x, at)]) = (if x = Some u then last_other u h else Some at)"
  by (simp add: last_other_def Let_def)

lemma forget_gone_snd [simp]: "snd (forget_gone st e) = snd e"
  by (simp add: forget_gone_def split: option.split)

lemma last_other_forget [simp]:
  assumes "map_of (ss_tenants st) u \<noteq> None"
  shows "last_other u (map (forget_gone st) h) = last_other u h"
proof -
  have "fst (forget_gone st e) = Some u \<longleftrightarrow> fst e = Some u" for e
    using assms by (cases e) (auto simp: forget_gone_def split: option.split)
  then have "filter (\<lambda>(x, _). x \<noteq> Some u) (map (forget_gone st) h)
      = map (forget_gone st) (filter (\<lambda>(x, _). x \<noteq> Some u) h)"
    by (simp add: filter_map comp_def case_prod_unfold)
  then show ?thesis by (simp add: last_other_def last_map)
qed

lemma named_exist_forget [simp]: "named_exist st (map (forget_gone st) h)"
  by (auto simp: named_exist_def forget_gone_def split: option.splits if_splits)

lemma recorded_forget:
  assumes "recorded r h"
  shows "recorded (map_option (\<lambda>(x, at, prev). (fst (forget_gone st (x, at)), at, prev)) r) (map (forget_gone st) h)"
proof (cases r)
  case (Some t)
  obtain x at prev where t: "t = (x, at, prev)" by (cases t)
  have h: "h \<noteq> []" "last h = (x, at)" "\<And>u. x = Some u \<Longrightarrow> prev = last_other u h"
    using assms by (auto simp: recorded_def Some t)
  have "prev = last_other u (map (forget_gone st) h)" if "fst (forget_gone st (x, at)) = Some u" for u
    using that h(3)[of u] by (auto simp: forget_gone_def split: option.splits if_splits)
  moreover have "last (map (forget_gone st) h) = (fst (forget_gone st (x, at)), at)"
    using h(1,2) by (simp add: last_map) (metis forget_gone_snd prod.collapse snd_conv)
  ultimately show ?thesis using h(1) by (simp add: recorded_def Some t)
qed (use assms in \<open>simp add: recorded_def\<close>)

text \<open>A binding and a tombstone agree with the history, whose named tenants exist.\<close>

definition agrees ::
  "srv_state \<Rightarrow> (string \<times> time option) option \<Rightarrow> (string option \<times> time \<times> time option) option \<Rightarrow> tenures \<Rightarrow> bool" where
  "agrees st cur r h \<longleftrightarrow>
     (\<forall>u prev. cur = Some (u, prev) \<longrightarrow> prev = last_other u h \<and> map_of (ss_tenants st) u \<noteq> None)
     \<and> recorded r h \<and> named_exist st h"

lemma forget_gone_none:
  assumes "named_exist st h" and "\<And>u. map_of (ss_tenants st) u \<noteq> None \<Longrightarrow> map_of (ss_tenants st') u \<noteq> None"
  shows "map (forget_gone st') h = h"
proof (rule map_idI)
  fix e assume e: "e \<in> set h"
  have "map_of (ss_tenants st') u \<noteq> None" if "fst e = Some u" for u
    using assms(1) e that by (intro assms(2)) (cases e, auto simp: named_exist_def)
  then show "forget_gone st' e = e" by (auto simp: forget_gone_def split: option.split)
qed

text \<open>The two kinds of tombstone, WABAs' and numbers', keep the same record.\<close>

locale tombstones =
  fixes tenant_of :: "'t \<Rightarrow> string option" and at_of :: "'t \<Rightarrow> time" and prev_of :: "'t \<Rightarrow> time option"
    and previous_for :: "'t \<Rightarrow> string \<Rightarrow> time option"
    and forget_tenant :: "string \<Rightarrow> 't \<Rightarrow> 't"
  assumes previous: "previous_for t u = (if tenant_of t = Some u then prev_of t else Some (at_of t))"
    and forgets: "tenant_of (forget_tenant u t) = (if tenant_of t = Some u then None else tenant_of t)"
      "at_of (forget_tenant u t) = at_of t" "prev_of (forget_tenant u t) = prev_of t"
begin

lemma previous_recorded:
  assumes "recorded (map_option (\<lambda>t. (tenant_of t, at_of t, prev_of t)) m) h"
  shows "Option.bind m (\<lambda>t. previous_for t u) = last_other u h"
proof (cases m)
  case (Some t)
  then have "h \<noteq> []" "last h = (tenant_of t, at_of t)" "tenant_of t = Some u \<Longrightarrow> prev_of t = last_other u h"
    using assms by (auto simp: recorded_def)
  then have "h = butlast h @ [(tenant_of t, at_of t)]" by (metis append_butlast_last_id)
  then show ?thesis using Some \<open>tenant_of t = Some u \<Longrightarrow> prev_of t = last_other u h\<close>
    by (metis Option.bind.bind_lunit last_other_snoc previous)
qed (use assms in \<open>simp add: recorded_def\<close>)

lemma agrees_released:
  assumes "agrees st (Some (u, prev)) r h"
    and keep: "\<And>u. map_of (ss_tenants st) u \<noteq> None \<Longrightarrow> map_of (ss_tenants st') u \<noteq> None"
    and t: "tenant_of t = Some u" "at_of t = now" "prev_of t = prev"
  shows "agrees st' None (Some (tenant_of t, at_of t, prev_of t)) (map (forget_gone st') (h @ [(Some u, now)]))"
proof -
  have u: "map_of (ss_tenants st) u \<noteq> None" and prev: "prev = last_other u h" and n: "named_exist st h"
    using assms(1) by (auto simp: agrees_def)
  have "named_exist st (h @ [(Some u, now)])" using n u by (auto simp: named_exist_def)
  then have "map (forget_gone st') (h @ [(Some u, now)]) = h @ [(Some u, now)]"
    using keep by (rule forget_gone_none)
  moreover have "named_exist st' (h @ [(Some u, now)])"
    using \<open>named_exist st (h @ _)\<close> keep unfolding named_exist_def by blast
  ultimately show ?thesis using t prev by (simp add: agrees_def recorded_def)
qed

lemma agrees_kept:
  assumes "agrees st cur (map_option (\<lambda>t. (tenant_of t, at_of t, prev_of t)) m) h"
    and keep: "\<And>u. map_of (ss_tenants st) u \<noteq> None \<Longrightarrow> map_of (ss_tenants st') u \<noteq> None"
    and cur: "cur' = cur \<or> cur' = None \<or>
      (\<exists>u. cur' = Some (u, Option.bind m (\<lambda>t. previous_for t u)) \<and> map_of (ss_tenants st') u \<noteq> None)"
  shows "agrees st' cur' (map_option (\<lambda>t. (tenant_of t, at_of t, prev_of t)) m) (map (forget_gone st') h)"
proof -
  have n: "named_exist st h" and r: "recorded (map_option (\<lambda>t. (tenant_of t, at_of t, prev_of t)) m) h"
    using assms(1) by (auto simp: agrees_def)
  have "map (forget_gone st') h = h" using n keep by (rule forget_gone_none)
  moreover have "named_exist st' h" using n keep unfolding named_exist_def by blast
  ultimately show ?thesis
    using assms(1) cur keep previous_recorded[OF r] r by (auto simp: agrees_def)
qed

lemma agrees_deleted:
  assumes "agrees st cur (map_option (\<lambda>t. (tenant_of t, at_of t, prev_of t)) m) h"
    and gone: "map_of (ss_tenants st') = (map_of (ss_tenants st))(i := None)"
    and cur: "\<And>u prev. cur = Some (u, prev) \<Longrightarrow> u \<noteq> i"
  shows "agrees st' cur (map_option (\<lambda>t. (tenant_of t, at_of t, prev_of t)) (map_option (forget_tenant i) m))
    (map (forget_gone st') h)"
proof -
  have r: "recorded (map_option (\<lambda>t. (tenant_of t, at_of t, prev_of t)) m) h"
    and n: "named_exist st h" using assms(1) by (auto simp: agrees_def)
  have "tenant_of (forget_tenant i t) = fst (forget_gone st' (tenant_of t, at_of t))" if "m = Some t" for t
  proof -
    have "last h = (tenant_of t, at_of t)" "h \<noteq> []" using r that by (auto simp: recorded_def)
    then have "(tenant_of t, at_of t) \<in> set h" by (metis last_in_set)
    then have "map_of (ss_tenants st) u \<noteq> None" if "tenant_of t = Some u" for u
      using n that by (auto simp: named_exist_def)
    then show ?thesis using gone by (auto simp: forgets forget_gone_def split: option.split)
  qed
  then have "map_option (\<lambda>t. (tenant_of t, at_of t, prev_of t)) (map_option (forget_tenant i) m)
      = map_option (\<lambda>(x, at, prev). (fst (forget_gone st' (x, at)), at, prev))
          (map_option (\<lambda>t. (tenant_of t, at_of t, prev_of t)) m)"
    by (cases m) (auto simp: forgets)
  moreover have "map_of (ss_tenants st') u \<noteq> None" if "cur = Some (u, prev)" for u prev
    using that assms(1) gone cur by (auto simp: agrees_def)
  ultimately show ?thesis
    using recorded_forget[OF r, of st'] assms(1) by (auto simp: agrees_def)
qed

end

interpretation wabat: tombstones wt_tenant_id wt_unbound_at wt_previous_tenant_unbound_at
    waba_previous_for waba_forget_tenant
  by unfold_locales (simp_all add: waba_previous_for_def waba_forget_tenant_def)

interpretation numbert: tombstones nt_tenant_id nt_released_at nt_previous_tenant_released_at
    number_previous_for number_forget_tenant
  by unfold_locales (simp_all add: number_previous_for_def number_forget_tenant_def)

section \<open>The store keeps the history\<close>

lemma tenants_kept:
  assumes "maps_ok st" and "\<And>i. c = DeleteTenant i \<Longrightarrow> fst (delete_records i st) \<noteq> TenantDeleted"
    and "map_of (ss_tenants st) u \<noteq> None"
  shows "map_of (ss_tenants (srv_step (now, c) st)) u \<noteq> None"
proof (cases "moves_bindings c")
  case True
  have "ss_tenants (snd (bind_waba now tenant w pns st)) = ss_tenants st" for tenant w pns
    by (cases "may_bind tenant w pns st") (simp_all add: bind_waba_refused bind_waba_alt)
  then show ?thesis using True assms(3) by (cases c) (auto simp: unbind_waba_def unbind_waba_if_def)
next
  case False
  then show ?thesis using assms
    by (cases c) (auto simp: srv_op_defs maps_ok_def Let_def split: option.split if_split_asm)
qed

lemma deleted_records:
  assumes "fst (delete_records i st) = TenantDeleted"
  shows "map_of (ss_tenants (snd (delete_records i st))) = (map_of (ss_tenants st))(i := None)"
    and "map_of (ss_tombstones (snd (delete_records i st))) w
      = map_option (waba_forget_tenant i) (map_of (ss_tombstones st) w)"
    and "map_of (ss_number_tombstones (snd (delete_records i st))) pn
      = map_option (number_forget_tenant i) (map_of (ss_number_tombstones st) pn)"
    and "ss_wabas (snd (delete_records i st)) = ss_wabas st"
    and "ss_numbers (snd (delete_records i st)) = ss_numbers st"
    and "map_of (ss_wabas st) w = Some b \<Longrightarrow> wb_tenant_id b \<noteq> i"
  using assms map_of_SomeD[of "ss_wabas st" w b]
  by (auto simp: delete_records_def split: if_split_asm)

text \<open>A tombstone changes when its binding ends, or its tenant is deleted.\<close>

lemma tombstone_step:
  assumes "maps_ok st" and "\<And>i. c = DeleteTenant i \<Longrightarrow> fst (delete_records i st) \<noteq> TenantDeleted"
  shows "map_of (ss_tombstones (srv_step (now, c) st)) w =
    (case (map_of (ss_wabas st) w, map_of (ss_wabas (srv_step (now, c) st)) w) of
       (Some b, None) \<Rightarrow> Some (waba_tombstone_of b now)
     | _ \<Rightarrow> map_of (ss_tombstones st) w)"
proof (cases "moves_bindings c")
  case True
  have bind: ?thesis if c: "c = BindWaba tenant w' pns" for tenant w' pns
  proof (cases "may_bind tenant w' pns st")
    case True
    then have "ss_tombstones (srv_step (now, c) st) = ss_tombstones st" by (simp add: c bind_waba_alt)
    then show ?thesis using True assms(1)
      by (auto simp: c bind_waba_wabas maps_ok_def split: option.split)
  qed (simp add: c bind_waba_refused split: option.split)
  have unbind: "map_of (ss_tombstones (snd (unbind now w' st))) w =
      (case (map_of (ss_wabas st) w, map_of (ss_wabas (snd (unbind now w' st))) w) of
         (Some b, None) \<Rightarrow> Some (waba_tombstone_of b now)
       | _ \<Rightarrow> map_of (ss_tombstones st) w)" for w'
    using assms(1)
    by (cases "map_of (ss_wabas st) w'") (auto simp: unbind_none unbind_alt maps_ok_def split: option.split)
  show ?thesis using True bind unbind
    by (cases c) (auto simp: unbind_waba_def unbind_waba_if_def simp del: unbind_wabas split: option.split)
next
  case False
  have "ss_tombstones (srv_step (now, c) st) = ss_tombstones st"
    using False assms(2) by (cases c) (auto simp: srv_op_defs Let_def split: option.split if_split_asm)
  then show ?thesis using other_calls_wabas[OF assms(1) False, of w now]
    by (auto split: option.split)
qed

lemma number_tombstone_step:
  assumes "maps_ok st" and "\<And>i. c = DeleteTenant i \<Longrightarrow> fst (delete_records i st) \<noteq> TenantDeleted"
  shows "map_of (ss_number_tombstones (srv_step (now, c) st)) pn =
    (case (map_of (ss_numbers st) pn, map_of (ss_numbers (srv_step (now, c) st)) pn) of
       (Some b, None) \<Rightarrow> Some (number_tombstone_of b now)
     | _ \<Rightarrow> map_of (ss_number_tombstones st) pn)"
proof (cases "moves_bindings c")
  case True
  have maps: "omap_ok (ss_numbers st)" "omap_ok (ss_number_tombstones st)"
    using assms(1) by (auto simp: maps_ok_def)
  have bind: ?thesis if c: "c = BindWaba tenant w' pns" for tenant w' pns
  proof (cases "may_bind tenant w' pns st")
    case True
    then show ?thesis using maps by (auto simp: c bind_waba_numbers bind_waba_tombstones split: option.split)
  qed (simp add: c bind_waba_refused split: option.split)
  show ?thesis using True bind
    by (cases c) (auto simp: unbind_waba_def unbind_waba_if_def unbind_numbers maps split: option.split)
next
  case False
  have "ss_number_tombstones (srv_step (now, c) st) = ss_number_tombstones st"
    using False assms(2) by (cases c) (auto simp: srv_op_defs Let_def split: option.split if_split_asm)
  then show ?thesis using other_calls(2)[OF assms(1) False, of now pn]
    by (auto split: option.split)
qed

end
