(* ===== verification/Server_Safety.thy ===== *)
theory Server_Safety
  imports Server_Bindings
begin

text \<open>
  The theorems on the server's records: they stay consistent, no call takes a WABA or a number over
  from its holder, a write conditioned on an epoch that ended is refused for good, and every binding
  knows when another tenant last held it.
\<close>

section \<open>The history, call by call\<close>

abbreviation waba_record :: "string \<Rightarrow> srv_state \<Rightarrow> (string option \<times> time \<times> time option) option" where
  "waba_record w st \<equiv>
     map_option (\<lambda>t. (wt_tenant_id t, wt_unbound_at t, wt_previous_tenant_unbound_at t)) (map_of (ss_tombstones st) w)"

abbreviation number_record :: "string \<Rightarrow> srv_state \<Rightarrow> (string option \<times> time \<times> time option) option" where
  "number_record pn st \<equiv>
     map_option (\<lambda>t. (nt_tenant_id t, nt_released_at t, nt_previous_tenant_released_at t))
       (map_of (ss_number_tombstones st) pn)"

definition waba_cur :: "string \<Rightarrow> srv_state \<Rightarrow> (string \<times> time option) option" where
  "waba_cur w st = map_option (\<lambda>b. (wb_tenant_id b, wb_previous_tenant_unbound_at b)) (map_of (ss_wabas st) w)"

definition number_cur :: "string \<Rightarrow> srv_state \<Rightarrow> (string \<times> time option) option" where
  "number_cur pn st =
     map_option (\<lambda>b. (nb_tenant_id b, nb_previous_tenant_released_at b)) (map_of (ss_numbers st) pn)"

lemma holder_cur: "holder w st = map_option fst (waba_cur w st)"
  by (simp add: holder_def waba_cur_def option.map_comp comp_def)

lemma number_holder_cur: "number_holder pn st = map_option fst (number_cur pn st)"
  by (simp add: number_holder_def number_cur_def option.map_comp comp_def)

lemma tenant_of_bound: "srv_ok st \<Longrightarrow> map_of (ss_wabas st) w = Some b \<Longrightarrow> map_of (ss_tenants st) (wb_tenant_id b) \<noteq> None"
  by (auto simp: srv_ok_def refs_ok_def)

lemma number_waba:
  assumes "srv_ok st" and "map_of (ss_numbers st) pn = Some b"
  shows "\<exists>b'. map_of (ss_wabas st) (nb_waba_id b) = Some b' \<and> wb_tenant_id b' = nb_tenant_id b"
proof -
  have "holder (nb_waba_id b) st = Some (nb_tenant_id b)" using assms by (simp add: srv_ok_def refs_ok_def)
  then show ?thesis by (auto simp: holder_def)
qed

lemma tenant_of_number: "srv_ok st \<Longrightarrow> map_of (ss_numbers st) pn = Some b \<Longrightarrow> map_of (ss_tenants st) (nb_tenant_id b) \<noteq> None"
  using number_waba tenant_of_bound by metis

lemma waba_agrees_step:
  fixes c :: srv_call and now :: time
  assumes ok: "srv_ok st" and ag: "agrees st (waba_cur w st) (waba_record w st) (H w)"
  defines "st' \<equiv> srv_step (now, c) st"
  shows "agrees st' (waba_cur w st') (waba_record w st') (tenures_step holder now st st' H w)"
proof (cases "\<exists>i. c = DeleteTenant i \<and> fst (delete_records i st) = TenantDeleted")
  case True
  then obtain i where i: "c = DeleteTenant i" "fst (delete_records i st) = TenantDeleted" by blast
  note d = deleted_records[OF i(2)]
  have same: "ss_wabas st' = ss_wabas st" by (simp add: st'_def i(1) d(4))
  have "waba_record w st' = map_option (\<lambda>t. (wt_tenant_id t, wt_unbound_at t, wt_previous_tenant_unbound_at t))
      (map_option (waba_forget_tenant i) (map_of (ss_tombstones st) w))"
    by (simp add: st'_def i(1) d(2))
  moreover have "tenures_step holder now st st' H w = map (forget_gone st') (H w)"
    by (simp add: tenures_step_def holder_def same split: option.split)
  moreover have "waba_cur w st' = waba_cur w st" by (simp add: waba_cur_def same)
  moreover have "map_of (ss_tenants st') = (map_of (ss_tenants st))(i := None)" by (simp add: st'_def i(1) d(1))
  moreover have "u \<noteq> i" if "waba_cur w st = Some (u, prev)" for u prev
    using that d(6) by (auto simp: waba_cur_def)
  ultimately show ?thesis using wabat.agrees_deleted[OF ag] by simp
next
  case False
  have maps: "maps_ok st" using ok by (simp add: srv_ok_def)
  have del: "fst (delete_records i st) \<noteq> TenantDeleted" if "c = DeleteTenant i" for i using False that by blast
  have keep: "map_of (ss_tenants st') u \<noteq> None" if "map_of (ss_tenants st) u \<noteq> None" for u
    unfolding st'_def using tenants_kept[OF maps del that] by blast
  have tomb: "map_of (ss_tombstones st') w =
      (case (map_of (ss_wabas st) w, map_of (ss_wabas st') w) of
         (Some b, None) \<Rightarrow> Some (waba_tombstone_of b now) | _ \<Rightarrow> map_of (ss_tombstones st) w)"
    unfolding st'_def using tombstone_step[OF maps del] by blast
  show ?thesis
  proof (cases "map_of (ss_wabas st) w")
    case None
    have "waba_cur w st' = None \<or> (\<exists>u. waba_cur w st' = Some (u, Option.bind (map_of (ss_tombstones st) w)
        (\<lambda>t. waba_previous_for t u)) \<and> map_of (ss_tenants st') u \<noteq> None)"
      using waba_new(3)[OF maps None] tenant_of_bound[OF srv_ok_step[OF ok]]
      by (cases "map_of (ss_wabas st') w") (auto simp: waba_cur_def st'_def)
    from wabat.agrees_kept[OF ag keep disjI2[OF this]] show ?thesis
      using None by (simp add: tomb tenures_step_def holder_def)
  next
    case (Some b)
    have cur: "waba_cur w st = Some (wb_tenant_id b, wb_previous_tenant_unbound_at b)"
      by (simp add: waba_cur_def Some)
    from waba_kept[OF maps Some, of now c, folded st'_def]
    have "map_of (ss_wabas st') w = None \<or> (\<exists>b'. map_of (ss_wabas st') w = Some b'
        \<and> wb_tenant_id b' = wb_tenant_id b
        \<and> wb_previous_tenant_unbound_at b' = wb_previous_tenant_unbound_at b)" by blast
    then show ?thesis
    proof (elim disjE exE conjE)
      assume none: "map_of (ss_wabas st') w = None"
      from wabat.agrees_released[OF ag[unfolded cur] keep, of "waba_tombstone_of b now" now]
      show ?thesis using Some none
        by (simp add: tomb tenures_step_def holder_def waba_cur_def waba_tombstone_of_def)
    next
      fix b' assume b': "map_of (ss_wabas st') w = Some b'" "wb_tenant_id b' = wb_tenant_id b"
        "wb_previous_tenant_unbound_at b' = wb_previous_tenant_unbound_at b"
      then have "waba_cur w st' = waba_cur w st" by (simp add: waba_cur_def Some)
      from wabat.agrees_kept[OF ag keep disjI1[OF this]] show ?thesis
        using Some b' by (simp add: tomb tenures_step_def holder_def)
    qed
  qed
qed

lemma number_agrees_step:
  fixes c :: srv_call and now :: time
  assumes ok: "srv_ok st" and ag: "agrees st (number_cur pn st) (number_record pn st) (H pn)"
  defines "st' \<equiv> srv_step (now, c) st"
  shows "agrees st' (number_cur pn st') (number_record pn st') (tenures_step number_holder now st st' H pn)"
proof (cases "\<exists>i. c = DeleteTenant i \<and> fst (delete_records i st) = TenantDeleted")
  case True
  then obtain i where i: "c = DeleteTenant i" "fst (delete_records i st) = TenantDeleted" by blast
  note d = deleted_records[OF i(2)]
  have same: "ss_numbers st' = ss_numbers st" by (simp add: st'_def i(1) d(5))
  have "number_record pn st' = map_option (\<lambda>t. (nt_tenant_id t, nt_released_at t, nt_previous_tenant_released_at t))
      (map_option (number_forget_tenant i) (map_of (ss_number_tombstones st) pn))"
    by (simp add: st'_def i(1) d(3))
  moreover have "tenures_step number_holder now st st' H pn = map (forget_gone st') (H pn)"
    by (simp add: tenures_step_def number_holder_def same split: option.split)
  moreover have "number_cur pn st' = number_cur pn st" by (simp add: number_cur_def same)
  moreover have gone: "map_of (ss_tenants st') = (map_of (ss_tenants st))(i := None)" by (simp add: st'_def i(1) d(1))
  moreover have "u \<noteq> i" if cur: "number_cur pn st = Some (u, prev)" for u prev
  proof -
    obtain b where "map_of (ss_numbers st) pn = Some b" "nb_tenant_id b = u" using cur by (auto simp: number_cur_def)
    then obtain b' where "map_of (ss_wabas st) (nb_waba_id b) = Some b'" "wb_tenant_id b' = u"
      using number_waba[OF ok] by blast
    then show ?thesis using d(6) by blast
  qed
  ultimately show ?thesis using numbert.agrees_deleted[OF ag] by simp
next
  case False
  have maps: "maps_ok st" using ok by (simp add: srv_ok_def)
  have del: "fst (delete_records i st) \<noteq> TenantDeleted" if "c = DeleteTenant i" for i using False that by blast
  have keep: "map_of (ss_tenants st') u \<noteq> None" if "map_of (ss_tenants st) u \<noteq> None" for u
    unfolding st'_def using tenants_kept[OF maps del that] by blast
  have tomb: "map_of (ss_number_tombstones st') pn =
      (case (map_of (ss_numbers st) pn, map_of (ss_numbers st') pn) of
         (Some b, None) \<Rightarrow> Some (number_tombstone_of b now) | _ \<Rightarrow> map_of (ss_number_tombstones st) pn)"
    unfolding st'_def using number_tombstone_step[OF maps del] by blast
  show ?thesis
  proof (cases "map_of (ss_numbers st) pn")
    case None
    have "nb_previous_tenant_released_at b
        = Option.bind (map_of (ss_number_tombstones st) pn) (\<lambda>t. number_previous_for t (nb_tenant_id b))"
      if "map_of (ss_numbers st') pn = Some b" for b
      using number_new[OF maps None that[unfolded st'_def]] by (elim exE conjE) (subst (asm) newly_bound_def, metis number_binding.select_convs(7))
    then have "number_cur pn st' = None \<or> (\<exists>u. number_cur pn st' = Some (u, Option.bind (map_of (ss_number_tombstones st) pn)
        (\<lambda>t. number_previous_for t u)) \<and> map_of (ss_tenants st') u \<noteq> None)"
      using tenant_of_number[OF srv_ok_step[OF ok, of "(now, c)"], folded st'_def]
      by (cases "map_of (ss_numbers st') pn") (auto simp: number_cur_def)
    from numbert.agrees_kept[OF ag keep disjI2[OF this]] show ?thesis
      using None by (simp add: tomb tenures_step_def number_holder_def)
  next
    case (Some b)
    have cur: "number_cur pn st = Some (nb_tenant_id b, nb_previous_tenant_released_at b)"
      by (simp add: number_cur_def Some)
    from number_kept[OF ok Some, of now c, folded st'_def] show ?thesis
    proof (elim disjE exE conjE)
      assume none: "map_of (ss_numbers st') pn = None"
      from numbert.agrees_released[OF ag[unfolded cur] keep, of "number_tombstone_of b now" now]
      show ?thesis using Some none
        by (simp add: tomb tenures_step_def number_holder_def number_cur_def number_tombstone_of_def)
    next
      fix b' assume b': "map_of (ss_numbers st') pn = Some b'" "nb_tenant_id b' = nb_tenant_id b"
        "nb_previous_tenant_released_at b' = nb_previous_tenant_released_at b"
      then have "number_cur pn st' = number_cur pn st" by (simp add: number_cur_def Some)
      from numbert.agrees_kept[OF ag keep disjI1[OF this]] show ?thesis
        using Some b' by (simp add: tomb tenures_step_def number_holder_def)
    qed
  qed
qed

lemma histories_agree:
  assumes "srv_ok st"
    and "\<And>w. agrees st (waba_cur w st) (waba_record w st) (HW w)"
    and "\<And>pn. agrees st (number_cur pn st) (number_record pn st) (HN pn)"
  shows "agrees (srv_run calls st) (waba_cur w (srv_run calls st)) (waba_record w (srv_run calls st))
      (tenures_along holder calls st HW w)
    \<and> agrees (srv_run calls st) (number_cur pn (srv_run calls st)) (number_record pn (srv_run calls st))
      (tenures_along number_holder calls st HN pn)"
  using assms
proof (induction calls arbitrary: st HW HN)
  case (Cons c calls)
  obtain now c' where c: "c = (now, c')" by (cases c)
  have A: "agrees (srv_step c st) (waba_cur w (srv_step c st)) (waba_record w (srv_step c st))
      (tenures_step holder now st (srv_step c st) HW w)" for w
    unfolding c by (rule waba_agrees_step[OF Cons.prems(1,2)])
  have B: "agrees (srv_step c st) (number_cur pn (srv_step c st)) (number_record pn (srv_step c st))
      (tenures_step number_holder now st (srv_step c st) HN pn)" for pn
    unfolding c by (rule number_agrees_step[OF Cons.prems(1,3)])
  from Cons.IH[OF srv_ok_step[OF Cons.prems(1), of c],
      where HW = "tenures_step holder now st (srv_step c st) HW"
        and HN = "tenures_step number_holder now st (srv_step c st) HN", OF A B]
  show ?case by (simp add: c)
qed simp

lemma agrees_empty:
  "agrees srv_empty (waba_cur w srv_empty) (waba_record w srv_empty) []"
  "agrees srv_empty (number_cur pn srv_empty) (number_record pn srv_empty) []"
  by (simp_all add: agrees_def waba_cur_def number_cur_def recorded_def named_exist_def srv_empty_def)

section \<open>An epoch that ended\<close>

text \<open>The binding is gone, or began later, or was refreshed since.\<close>

definition ended :: "binding_epoch \<Rightarrow> srv_state \<Rightarrow> bool" where
  "ended ep st \<longleftrightarrow>
     (case map_of (ss_wabas st) (ep_waba_id ep) of
        None \<Rightarrow> True
      | Some b \<Rightarrow>
          ep_attached_at ep < wb_attached_at b
          \<or> wb_attached_at b = ep_attached_at ep \<and> ep_generation ep < wb_generation b)"

lemma ended_refused: "ended ep st \<Longrightarrow> \<not> epoch_holds st ep"
  by (auto simp: ended_def epoch_holds_def epoch_of_def split: option.split)

lemma ended_step:
  assumes "maps_ok st" and "ended ep st" and "ep_attached_at ep < now" and "ep_generation ep < I64_MAX"
  shows "ended ep (srv_step (now, c) st)"
proof (cases "map_of (ss_wabas st) (ep_waba_id ep)")
  case None
  then show ?thesis using waba_new(1)[OF assms(1) None, of now c] assms(3)
    by (auto simp: ended_def split: option.split)
next
  case (Some b)
  from waba_kept[OF assms(1) Some, of now c] show ?thesis
    using assms(2,4) Some by (auto simp: ended_def)
qed

lemma ended_run:
  assumes "srv_ok st" and "ended ep st" and "\<forall>(now, _)\<in>set calls. ep_attached_at ep < now"
    and "ep_generation ep < I64_MAX"
  shows "ended ep (srv_run calls st)"
  using assms
proof (induction calls arbitrary: st)
  case (Cons c calls)
  then show ?case
    using ended_step[of st ep "fst c" "snd c"] srv_ok_step[of st c] by (cases c) (auto simp: srv_ok_def)
qed simp

lemma ended_now:
  assumes "maps_ok st" and "epoch_holds st ep" and "ep_generation ep < I64_MAX"
    and "c = UnbindWaba (ep_waba_id ep) \<or> c = UnbindWabaIf ep
      \<or> (\<exists>pns. c = BindWaba (ep_tenant_id ep) (ep_waba_id ep) pns
            \<and> fst (bind_waba now (ep_tenant_id ep) (ep_waba_id ep) pns st) = Bound)"
  shows "ended ep (srv_step (now, c) st)"
proof -
  obtain b where b: "map_of (ss_wabas st) (ep_waba_id ep) = Some b" "epoch_of b = ep"
    using assms(2) by (auto simp: epoch_holds_def split: option.splits)
  show ?thesis
  proof (cases "\<exists>pns. c = BindWaba (ep_tenant_id ep) (ep_waba_id ep) pns")
    case True
    then obtain pns where c: "c = BindWaba (ep_tenant_id ep) (ep_waba_id ep) pns" by blast
    have "may_bind (ep_tenant_id ep) (ep_waba_id ep) pns st"
      using assms(4) c bind_waba_refused[of "ep_tenant_id ep" "ep_waba_id ep" pns st now] by auto
    then show ?thesis using b assms(1,3)
      by (auto simp: c ended_def bind_waba_wabas maps_ok_def bound_waba_def epoch_of_def)
  next
    case False
    then show ?thesis using assms(2,4) by (auto simp: ended_def unbind_waba_def unbind_waba_if_def)
  qed
qed

section \<open>An example\<close>

definition calls_example :: "(time \<times> srv_call) list" where
  "calls_example =
     [(1, CreateTenant ''a'' ''A''), (2, CreateTenant ''b'' ''B''), (3, BindWaba ''a'' ''1'' [''5'', ''6''])]"

definition binding_example :: waba_binding where
  "binding_example =
     \<lparr>wb_waba_id = ''1'', wb_tenant_id = ''a'', wb_credit_allocation_id = None, wb_attached_at = 3,
      wb_generation = 1, wb_previous_tenant_unbound_at = None\<rparr>"

definition number_example :: "string \<Rightarrow> number_binding" where
  "number_example pn =
     \<lparr>nb_phone_number_id = pn, nb_waba_id = ''1'', nb_tenant_id = ''a'', nb_status = NumberConnected,
      nb_updated_at = 3, nb_attached_at = 3, nb_previous_tenant_released_at = None\<rparr>"

lemma calls_example:
  "ss_wabas (srv_run calls_example srv_empty) = [(''1'', binding_example)]"
  "ss_numbers (srv_run calls_example srv_empty) = [(''5'', number_example ''5''), (''6'', number_example ''6'')]"
  "map (\<lambda>(k, _). k) (ss_tenants (srv_run calls_example srv_empty)) = [''a'', ''b'']"
  by (simp_all add: calls_example_def binding_example_def number_example_def srv_empty_def create_tenant_def
      bind_waba_def bind_number_def newly_bound_def release_numbers_def Let_def)

section \<open>Theorems\<close>

text \<open>
  C30. Whatever calls the store was given, at whatever times: its maps are ordered and keyed by their
  items' ids, every tenant key, OTP setting and binding names a tenant that exists, every number is
  bound under a WABA its own tenant holds, every signup attempt is its WABA's holder's, and a
  binding's generation is at least 1.
\<close>

theorem records_stay_consistent: "srv_ok (srv_run calls srv_empty)"
  by (rule srv_ok_run) simp

text \<open>
  C31. A WABA stays with the tenant it is bound to, since the instant it was bound, until it is
  unbound: meanwhile another tenant's attach of it is refused and changes nothing, whatever numbers
  it lists, and the tenant cannot be deleted.
\<close>

theorem waba_not_taken_over:
  assumes "srv_ok st" and "map_of (ss_wabas st) w = Some b" and "\<forall>(_, c)\<in>set calls. \<not> unbinds w c"
  shows "(\<exists>b'. map_of (ss_wabas (srv_run calls st)) w = Some b' \<and> wb_tenant_id b' = wb_tenant_id b
      \<and> wb_attached_at b' = wb_attached_at b)
    \<and> (tenant \<noteq> wb_tenant_id b \<longrightarrow>
        fst (bind_waba now tenant w pns (srv_run calls st)) \<in> {OwnedByAnotherTenant, NoSuchTenant}
        \<and> snd (bind_waba now tenant w pns (srv_run calls st)) = srv_run calls st)
    \<and> delete_records (wb_tenant_id b) (srv_run calls st) = (TenantHasWabas, srv_run calls st)"
proof -
  have "\<exists>b'. map_of (ss_wabas (srv_run calls st)) w = Some b' \<and> wb_tenant_id b' = wb_tenant_id b
      \<and> wb_attached_at b' = wb_attached_at b" if "srv_ok st" "map_of (ss_wabas st) w = Some b" for st b
    using that assms(3)
  proof (induction calls arbitrary: st b)
    case (Cons c calls)
    obtain now c' where c: "c = (now, c')" by (cases c)
    have "\<exists>b'. map_of (ss_wabas (srv_step c st)) w = Some b' \<and> wb_tenant_id b' = wb_tenant_id b
        \<and> wb_attached_at b' = wb_attached_at b"
      using waba_kept[of st w b now c'] Cons.prems by (auto simp: c srv_ok_def)
    then show ?case using Cons.IH[OF srv_ok_step[OF Cons.prems(1)]] Cons.prems(3) by fastforce
  qed simp
  from this[OF assms(1,2)] obtain b' where b': "map_of (ss_wabas (srv_run calls st)) w = Some b'"
    "wb_tenant_id b' = wb_tenant_id b" "wb_attached_at b' = wb_attached_at b" by blast
  have "map_of (ss_tenants (srv_run calls st)) (wb_tenant_id b) \<noteq> None"
    using tenant_of_bound[OF srv_ok_run[OF assms(1)] b'(1)] b'(2) by simp
  then have "delete_records (wb_tenant_id b) (srv_run calls st) = (TenantHasWabas, srv_run calls st)"
    using map_of_SomeD[OF b'(1)] b'(2) by (auto simp: delete_records_def)
  moreover have "\<not> may_bind tenant w pns (srv_run calls st)" if "tenant \<noteq> wb_tenant_id b"
    using that b' by (auto simp: may_bind_def)
  ultimately show ?thesis
    using b' bind_waba_refused[of tenant w pns "srv_run calls st" now]
    by (cases "fst (bind_waba now tenant w pns (srv_run calls st))") auto
qed

lemma waba_not_taken_over_witness:
  "(\<exists>b'. map_of (ss_wabas (srv_run [(4, SetWabaStatus ''1'' NumberDisconnected)] (srv_run calls_example srv_empty))) ''1''
      = Some b' \<and> wb_tenant_id b' = ''a'' \<and> wb_attached_at b' = 3)
   \<and> fst (bind_waba 5 ''b'' ''1'' [''9''] (srv_run [(4, SetWabaStatus ''1'' NumberDisconnected)] (srv_run calls_example srv_empty)))
      \<in> {OwnedByAnotherTenant, NoSuchTenant}"
  using waba_not_taken_over[OF srv_ok_run[OF srv_ok_empty], of calls_example "''1''" binding_example
      "[(4, SetWabaStatus ''1'' NumberDisconnected)]" "''b''" 5 "[''9'']"]
  unfolding calls_example(1) by (simp add: binding_example_def)

text \<open>
  A number never passes from one tenant to another in one call: after any call it is still its
  tenant's, under the same beginning and record of its last move, or it is released, by an unbind of
  its WABA or by a bind of its WABA for the same tenant that does not list it. The release leaves its
  tombstone, so the next tenant to bind the number begins no earlier and reads the move from it.
\<close>

theorem number_not_taken_over:
  assumes "srv_ok st" and "map_of (ss_numbers st) pn = Some b"
  shows "(\<exists>b'. map_of (ss_numbers (srv_step (now, c) st)) pn = Some b' \<and> nb_tenant_id b' = nb_tenant_id b
        \<and> nb_attached_at b' = nb_attached_at b
        \<and> nb_previous_tenant_released_at b' = nb_previous_tenant_released_at b)
    \<or> releases pn b c \<and> map_of (ss_numbers (srv_step (now, c) st)) pn = None
      \<and> map_of (ss_number_tombstones (srv_step (now, c) st)) pn = Some (number_tombstone_of b now)
      \<and> (\<forall>later tenant w. tenant \<noteq> nb_tenant_id b \<longrightarrow>
           nb_attached_at (bound_number later tenant w pn (srv_step (now, c) st)) = max later now
           \<and> nb_previous_tenant_released_at (bound_number later tenant w pn (srv_step (now, c) st)) = Some now)"
  using number_kept[OF assms(1,2), of now c]
proof (elim disjE)
  assume gone: "map_of (ss_numbers (srv_step (now, c) st)) pn = None \<and> releases pn b c"
  then have "map_of (ss_number_tombstones (srv_step (now, c) st)) pn = Some (number_tombstone_of b now)"
    using number_tombstone_step[of st c now pn] assms by (cases c) (auto simp: srv_ok_def)
  then show ?thesis using gone
    by (auto simp: bound_number_def newly_bound_def number_tombstone_of_def number_previous_for_def)
qed blast

lemma number_not_taken_over_witness:
  "releases ''5'' (number_example ''5'') (BindWaba ''a'' ''1'' [''6''])
   \<and> map_of (ss_numbers (srv_step (7, BindWaba ''a'' ''1'' [''6'']) (srv_run calls_example srv_empty))) ''5'' = None
   \<and> nb_previous_tenant_released_at (bound_number 6 ''b'' ''2'' ''5''
       (srv_step (7, BindWaba ''a'' ''1'' [''6'']) (srv_run calls_example srv_empty))) = Some 7"
proof -
  let ?st = "srv_run calls_example srv_empty"
  have b: "map_of (ss_numbers ?st) ''5'' = Some (number_example ''5'')" by (simp add: calls_example)
  have t: "map_of (ss_tenants ?st) ''a'' \<noteq> None"
    using calls_example(3) by (auto simp: map_eq_Cons_conv)
  have "may_bind ''a'' ''1'' [''6''] ?st"
    using t by (simp add: may_bind_def calls_example number_example_def binding_example_def)
  then have none: "map_of (ss_numbers (srv_step (7, BindWaba ''a'' ''1'' [''6'']) ?st)) ''5'' = None"
    using srv_ok_run[OF srv_ok_empty, of calls_example] b
    by (simp add: bind_waba_numbers srv_ok_def maps_ok_def number_example_def)
  show ?thesis
    using number_not_taken_over[OF srv_ok_run[OF srv_ok_empty] b, of 7 "BindWaba ''a'' ''1'' [''6'']"] none
    by (auto simp: number_example_def)
qed

text \<open>
  C32. A write conditioned on an epoch that ended never succeeds again: once the WABA was unbound, or
  attached again by its holder, then whatever happens later (unbound, bound again to any tenant,
  refreshed), the conditional unbind, status and credit writes answer that the epoch is over and
  change nothing. The clock must have moved past the binding's beginning.
\<close>

theorem ended_epoch_refused:
  assumes "srv_ok st" and "epoch_holds st ep" and "ep_generation ep < I64_MAX"
    and "c = UnbindWaba (ep_waba_id ep) \<or> c = UnbindWabaIf ep
      \<or> (\<exists>pns. c = BindWaba (ep_tenant_id ep) (ep_waba_id ep) pns
            \<and> fst (bind_waba at (ep_tenant_id ep) (ep_waba_id ep) pns st) = Bound)"
    and "\<forall>(t, _)\<in>set calls. ep_attached_at ep < t"
  shows "unbind_waba_if now ep (srv_run ((at, c) # calls) st) = (False, srv_run ((at, c) # calls) st)
    \<and> set_waba_status_if now ep status (srv_run ((at, c) # calls) st) = (False, srv_run ((at, c) # calls) st)
    \<and> set_credit_allocation_if ep allocation (srv_run ((at, c) # calls) st) = (False, srv_run ((at, c) # calls) st)"
proof -
  have "ended ep (srv_step (at, c) st)"
    using ended_now[OF _ assms(2-4)] assms(1) by (simp add: srv_ok_def)
  from ended_run[OF srv_ok_step[OF assms(1)] this assms(5,3)]
  have "\<not> epoch_holds (srv_run ((at, c) # calls) st) ep" by (simp add: ended_refused)
  then show ?thesis by (simp add: unbind_waba_if_def set_waba_status_if_def set_credit_allocation_if_def)
qed

lemma ended_epoch_refused_witness:
  "unbind_waba_if 9 (epoch_of binding_example)
      (srv_run [(5, UnbindWaba ''1''), (6, BindWaba ''a'' ''1'' [])] (srv_run calls_example srv_empty))
    = (False, srv_run [(5, UnbindWaba ''1''), (6, BindWaba ''a'' ''1'' [])] (srv_run calls_example srv_empty))"
  using ended_epoch_refused[OF srv_ok_run[OF srv_ok_empty], of calls_example "epoch_of binding_example"
      "UnbindWaba ''1''" 5 "[(6, BindWaba ''a'' ''1'' [])]" 9]
  by (simp add: epoch_holds_def calls_example epoch_of_def binding_example_def I64_MAX_def)

text \<open>
  C33. Every binding knows when another tenant last held it: what a WABA's binding and a number's
  carry is, after any calls, the last release by another tenant in the history of all of them, where
  a tenant deleted since counts as another, even if one was created again under its name.
\<close>

theorem last_move_recorded:
  fixes calls :: "(time \<times> srv_call) list"
  defines "st \<equiv> srv_run calls srv_empty"
  shows "map_option wb_previous_tenant_unbound_at (map_of (ss_wabas st) w)
      = map_option (\<lambda>u. last_other u (tenures_along holder calls srv_empty (\<lambda>_. []) w)) (holder w st)
    \<and> map_option nb_previous_tenant_released_at (map_of (ss_numbers st) pn)
      = map_option (\<lambda>u. last_other u (tenures_along number_holder calls srv_empty (\<lambda>_. []) pn)) (number_holder pn st)"
  using histories_agree[OF srv_ok_empty agrees_empty, of calls w pn]
  by (cases "map_of (ss_wabas st) w"; cases "map_of (ss_numbers st) pn")
    (simp_all add: st_def agrees_def waba_cur_def number_cur_def holder_def number_holder_def)

end
