(* ===== verification/Idempotency.thy ===== *)
theory Idempotency
  imports Programs Service_Error Fingerprints Server_Records
begin

text \<open>
  Running an operation under an idempotency key (\<open>meta-whatsapp-server-core/src/idempotency.rs\<close>): a
  request claims its key, runs, and keeps its answer or releases the key; a repeat is answered by the
  record it meets. The records are a port, with the laws a claim rests on as the locale
  \<open>idempotency_records\<close>, interpreted on the server's records in memory.

  A request is a program. It asks the outside for a claim id, for the operation's result and for the
  observer; a request may be cut, its future dropped, wherever it awaits. That matters once it has
  claimed the key, while the operation runs and while the key is settled: the answer to these asks says
  whether it was cut, and then the claim's \<open>Drop\<close> settles the key. A cut before has the effect of a
  request that stops for good. The answer of a cut request is \<open>None\<close>.
\<close>

section \<open>Answers\<close>

datatype repeat = Reused | RepeatInProgress | OutcomeUnknown | Replay nat string

definition repeat_of :: "idem_record \<Rightarrow> fingerprint \<Rightarrow> repeat" where
  "repeat_of r fp =
     (if \<not> fp_matches fp (ir_fingerprint r) then Reused
      else
        (case ir_state r of
           InProgress lease_expired \<Rightarrow> if lease_expired then OutcomeUnknown else RepeatInProgress
         | Completed status body \<Rightarrow> Replay status body))"

definition repeat_outcome :: "repeat \<Rightarrow> string" where
  "repeat_outcome r =
     (case r of
        Reused \<Rightarrow> ''reused''
      | RepeatInProgress \<Rightarrow> ''in_progress''
      | OutcomeUnknown \<Rightarrow> ''outcome_unknown''
      | Replay _ _ \<Rightarrow> ''replayed'')"

definition into_answer :: "repeat \<Rightarrow> service_error + nat \<times> string" where
  "into_answer r =
     (case r of
        Reused \<Rightarrow> Inl (service_error_new ''idempotency_key_reused'')
      | RepeatInProgress \<Rightarrow>
          Inl ((service_error_new ''idempotency_in_progress'')\<lparr>se_retryable := True, se_may_have_been_sent := True\<rparr>)
      | OutcomeUnknown \<Rightarrow> Inl ((service_error_new ''outcome_unknown'')\<lparr>se_may_have_been_sent := True\<rparr>)
      | Replay status body \<Rightarrow> Inr (status, body))"

record answer =
  an_status :: nat
  an_body :: string
  an_kept :: "string option"
  an_replayed :: bool

definition answer_new :: "nat \<Rightarrow> string \<Rightarrow> answer" where
  "answer_new status body = \<lparr>an_status = status, an_body = body, an_kept = None, an_replayed = False\<rparr>"

definition keeping :: "string \<Rightarrow> answer \<Rightarrow> answer" where
  "keeping kept a = a\<lparr>an_kept := Some kept\<rparr>"

section \<open>The port\<close>

record 's idem_port =
  ip_claim :: "time \<Rightarrow> string \<Rightarrow> string \<Rightarrow> string \<Rightarrow> string \<Rightarrow> duration \<Rightarrow> duration \<Rightarrow> 's \<Rightarrow> idem_claim \<times> 's"
  ip_complete :: "string \<Rightarrow> string \<Rightarrow> string \<Rightarrow> nat \<Rightarrow> string \<Rightarrow> 's \<Rightarrow> bool \<times> 's"
  ip_release :: "string \<Rightarrow> string \<Rightarrow> string \<Rightarrow> 's \<Rightarrow> bool \<times> 's"

definition memory_idem :: "srv_state idem_port" where
  "memory_idem =
     \<lparr>ip_claim = claim_idempotency_key, ip_complete = complete_idempotency_key,
      ip_release = release_idempotency_key\<rparr>"

section \<open>Requests\<close>

datatype run_ask = AskClaimId | AskObserver string | AskOperation | AskCut

record run_reply =
  rr_claim_id :: "string option"
  rr_operation :: "service_error + answer"
  rr_cut :: bool

type_synonym 's run_prog = "('s, run_ask, run_reply, (service_error + answer) option) jprog"

record held_claim =
  hc_scope :: string
  hc_key :: string
  hc_id :: string

datatype admission = AdmissionClaimed held_claim | AdmissionRepeat repeat

datatype outcome_of_run = AnsweredWith nat string | FailedWith service_error

record keeper =
  kp_lease :: duration
  kp_ttl :: duration

text \<open>A claim dropped before it settled: a timeout that may have been sent.\<close>

definition cut_answer :: service_error where
  "cut_answer = (service_error_new ''timeout'')\<lparr>se_retryable := True, se_may_have_been_sent := True\<rparr>"

definition complete_then :: "'s idem_port \<Rightarrow> held_claim \<Rightarrow> nat \<Rightarrow> string \<Rightarrow> 's run_prog \<Rightarrow> 's run_prog" where
  "complete_then port c status body k =
     jop (\<lambda>_. ip_complete port (hc_scope c) (hc_key c) (hc_id c) status body) (\<lambda>_. k)"

definition release_then :: "'s idem_port \<Rightarrow> held_claim \<Rightarrow> 's run_prog \<Rightarrow> 's run_prog" where
  "release_then port c k = jop (\<lambda>_. ip_release port (hc_scope c) (hc_key c) (hc_id c)) (\<lambda>_. k)"

definition drop_claim :: "'s idem_port \<Rightarrow> (service_error \<Rightarrow> string) \<Rightarrow> held_claim \<Rightarrow> 's run_prog" where
  "drop_claim port render c = complete_then port c (se_status cut_answer) (render cut_answer) (JRet None)"

text \<open>Cut while the key was settled, the call sent or not: the claim is still armed.\<close>

definition unless_cut ::
  "'s idem_port \<Rightarrow> (service_error \<Rightarrow> string) \<Rightarrow> held_claim \<Rightarrow> service_error + answer \<Rightarrow> run_reply \<Rightarrow> 's run_prog" where
  "unless_cut port render c r y = (if rr_cut y then drop_claim port render c else JRet (Some r))"

definition settled ::
  "'s idem_port \<Rightarrow> (service_error \<Rightarrow> string) \<Rightarrow> held_claim \<Rightarrow> service_error + answer \<Rightarrow> 's run_prog" where
  "settled port render c r = JAsk AskCut (unless_cut port render c r)"

definition settle_key ::
  "'s idem_port \<Rightarrow> (service_error \<Rightarrow> string) \<Rightarrow> held_claim \<Rightarrow> outcome_of_run \<Rightarrow> service_error + answer \<Rightarrow> 's run_prog" where
  "settle_key port render c outcome r =
     (case outcome of
        AnsweredWith status body \<Rightarrow> complete_then port c status body (settled port render c r)
      | FailedWith e \<Rightarrow>
          if se_may_have_been_sent e
          then complete_then port c (se_status e) (render e) (settled port render c r)
          else release_then port c (settled port render c r))"

definition operated ::
  "'s idem_port \<Rightarrow> (service_error \<Rightarrow> string) \<Rightarrow> held_claim \<Rightarrow> run_reply \<Rightarrow> 's run_prog" where
  "operated port render c y =
     (if rr_cut y then drop_claim port render c
      else
        (case rr_operation y of
           Inr a \<Rightarrow>
             settle_key port render c
               (AnsweredWith (an_status a) (case an_kept a of Some kept \<Rightarrow> kept | None \<Rightarrow> an_body a))
               (Inr (a\<lparr>an_kept := None, an_replayed := False\<rparr>))
         | Inl e \<Rightarrow> settle_key port render c (FailedWith e) (Inl e)))"

definition repeated :: "repeat \<Rightarrow> 's run_prog" where
  "repeated r =
     JAsk (AskObserver (repeat_outcome r))
       (\<lambda>_. JRet (Some (case into_answer r of
          Inl e \<Rightarrow> Inl e
        | Inr (status, body) \<Rightarrow>
            Inr \<lparr>an_status = status, an_body = body, an_kept = None, an_replayed = True\<rparr>)))"

definition admitted ::
  "'s idem_port \<Rightarrow> (service_error \<Rightarrow> string) \<Rightarrow> admission \<Rightarrow> 's run_prog" where
  "admitted port render a =
     (case a of
        AdmissionRepeat r \<Rightarrow> repeated r
      | AdmissionClaimed c \<Rightarrow> JAsk AskOperation (operated port render c))"

definition claim_as ::
  "'s idem_port \<Rightarrow> string \<Rightarrow> string \<Rightarrow> fingerprint \<Rightarrow> duration \<Rightarrow> duration \<Rightarrow> string
     \<Rightarrow> (admission \<Rightarrow> 's run_prog) \<Rightarrow> 's run_prog" where
  "claim_as port sc key fp lease ttl i k =
     jop (\<lambda>now. ip_claim port now sc key (fp_digest fp) i lease ttl)
       (\<lambda>r. case r of
          Inl e \<Rightarrow> JRet (Some (Inl (from_library e)))
        | Inr (IdemExisting found) \<Rightarrow> k (AdmissionRepeat (repeat_of found fp))
        | Inr IdemClaimed \<Rightarrow> k (AdmissionClaimed \<lparr>hc_scope = sc, hc_key = key, hc_id = i\<rparr>))"

definition id_given ::
  "'s idem_port \<Rightarrow> string \<Rightarrow> string \<Rightarrow> fingerprint \<Rightarrow> duration \<Rightarrow> duration
     \<Rightarrow> (admission \<Rightarrow> 's run_prog) \<Rightarrow> run_reply \<Rightarrow> 's run_prog" where
  "id_given port sc key fp lease ttl k y =
     (case rr_claim_id y of
        None \<Rightarrow> JRet (Some (Inl (service_error_new ''internal'')))
      | Some i \<Rightarrow> claim_as port sc key fp lease ttl i k)"

definition claim_for ::
  "'s idem_port \<Rightarrow> string \<Rightarrow> string \<Rightarrow> fingerprint \<Rightarrow> duration \<Rightarrow> duration
     \<Rightarrow> (admission \<Rightarrow> 's run_prog) \<Rightarrow> 's run_prog" where
  "claim_for port sc key fp lease ttl k = JAsk AskClaimId (id_given port sc key fp lease ttl k)"

definition run_scoped ::
  "'s idem_port \<Rightarrow> keeper \<Rightarrow> (service_error \<Rightarrow> string) \<Rightarrow> string \<Rightarrow> string option \<Rightarrow> fingerprint \<Rightarrow> 's run_prog" where
  "run_scoped port keeper render sc key fp =
     (case key of
        None \<Rightarrow> JAsk AskOperation (\<lambda>y. JRet (if rr_cut y then None else Some (rr_operation y)))
      | Some key \<Rightarrow> claim_for port sc key fp (kp_lease keeper) (kp_ttl keeper) (admitted port render))"

text \<open>A capability is accepted by the authorizer that made it, an allocation of its own.\<close>

record caller =
  ca_key_id :: string
  ca_tenant :: string
  ca_platform :: "allowed_tenants option"
  ca_issuer :: nat

record admin_caller =
  ad_key_id :: string
  ad_issuer :: nat

definition check_issuer :: "nat \<Rightarrow> nat \<Rightarrow> service_error option" where
  "check_issuer authz issuer = (if authz = issuer then None else Some (service_error_new ''forbidden''))"

definition run_keyed ::
  "'s idem_port \<Rightarrow> keeper \<Rightarrow> (service_error \<Rightarrow> string) \<Rightarrow> nat \<Rightarrow> caller \<Rightarrow> string option \<Rightarrow> fingerprint \<Rightarrow> 's run_prog" where
  "run_keyed port keeper render authz caller key fp =
     (case check_issuer authz (ca_issuer caller) of
        Some e \<Rightarrow> JRet (Some (Inl e))
      | None \<Rightarrow> run_scoped port keeper render (ca_tenant caller) key fp)"

definition run_admin ::
  "'s idem_port \<Rightarrow> keeper \<Rightarrow> (service_error \<Rightarrow> string) \<Rightarrow> nat \<Rightarrow> admin_caller \<Rightarrow> string option \<Rightarrow> fingerprint \<Rightarrow> 's run_prog" where
  "run_admin port keeper render authz admin key fp =
     (case check_issuer authz (ad_issuer admin) of
        Some e \<Rightarrow> JRet (Some (Inl e))
      | None \<Rightarrow> run_scoped port keeper render (admin_scope (ad_key_id admin)) key fp)"

section \<open>The laws of the records\<close>

text \<open>\<open>holds s (sc, key) i t\<close>: the claim \<open>i\<close> has the key, at least until \<open>t\<close>.\<close>

locale idempotency_records =
  fixes port :: "'s idem_port"
    and ok :: "'s \<Rightarrow> bool"
    and holds :: "'s \<Rightarrow> string \<times> string \<Rightarrow> string \<Rightarrow> time \<Rightarrow> bool"
  assumes one_holder: "holds s K i x \<Longrightarrow> holds s K j y \<Longrightarrow> i = j"
    and holds_less: "holds s K i x \<Longrightarrow> y \<le> x \<Longrightarrow> holds s K i y"
    and claim_ok: "ok s \<Longrightarrow> ok (snd (ip_claim port t a k f i l ttl s))"
    and complete_ok: "ok s \<Longrightarrow> ok (snd (ip_complete port a k i status body s))"
    and release_ok: "ok s \<Longrightarrow> ok (snd (ip_release port a k i s))"
    and claim_claims: "ok s \<Longrightarrow> ip_claim port t a k f i l ttl s = (IdemClaimed, s') \<Longrightarrow> holds s' (a, k) i (after t ttl)"
    and claim_keeps: "ok s \<Longrightarrow> holds s K j x \<Longrightarrow> t < x \<Longrightarrow> holds (snd (ip_claim port t a k f i l ttl s)) K j x"
    and complete_keeps: "ok s \<Longrightarrow> holds s K j x \<Longrightarrow> holds (snd (ip_complete port a k i status body s)) K j x"
    and release_keeps: "ok s \<Longrightarrow> holds s K j x \<Longrightarrow> j \<noteq> i \<Longrightarrow> holds (snd (ip_release port a k i s)) K j x"

definition claim_held :: "srv_state \<Rightarrow> string \<times> string \<Rightarrow> string \<Rightarrow> time \<Rightarrow> bool" where
  "claim_held s K i t \<longleftrightarrow> (\<exists>e. map_of (ss_idempotency s) K = Some e \<and> ie_claim e = i \<and> t \<le> ie_expires_at e)"

abbreviation idem_ok :: "srv_state \<Rightarrow> bool" where
  "idem_ok s \<equiv> omap_ok (ss_idempotency s)"

interpretation memory_claims: idempotency_records memory_idem idem_ok claim_held
proof
  fix s :: srv_state and K i x j y t a k f l ttl s' status body
  show "claim_held s K i x \<Longrightarrow> claim_held s K j y \<Longrightarrow> i = j"
    by (auto simp: claim_held_def)
  show "claim_held s K i x \<Longrightarrow> y \<le> x \<Longrightarrow> claim_held s K i y"
    by (fastforce simp: claim_held_def)
  show "idem_ok s \<Longrightarrow> idem_ok (snd (ip_claim memory_idem t a k f i l ttl s))"
    by (auto simp: memory_idem_def claim_idempotency_key_def Let_def split: option.split)
  show "idem_ok s \<Longrightarrow> idem_ok (snd (ip_complete memory_idem a k i status body s))"
    by (auto simp: memory_idem_def complete_idempotency_key_def split: option.split)
  show "idem_ok s \<Longrightarrow> idem_ok (snd (ip_release memory_idem a k i s))"
    by (auto simp: memory_idem_def release_idempotency_key_def split: option.split)
  show "idem_ok s \<Longrightarrow> ip_claim memory_idem t a k f i l ttl s = (IdemClaimed, s') \<Longrightarrow> claim_held s' (a, k) i (after t ttl)"
    by (auto simp: memory_idem_def claim_idempotency_key_def Let_def claim_held_def idempotency_id_def
        split: option.splits if_splits)
  show "idem_ok s \<Longrightarrow> claim_held s K j x \<Longrightarrow> t < x \<Longrightarrow> claim_held (snd (ip_claim memory_idem t a k f i l ttl s)) K j x"
    by (auto simp: memory_idem_def claim_idempotency_key_def Let_def claim_held_def idempotency_id_def
        split: option.splits)
  show "idem_ok s \<Longrightarrow> claim_held s K j x \<Longrightarrow> claim_held (snd (ip_complete memory_idem a k i status body s)) K j x"
    by (auto simp: memory_idem_def complete_idempotency_key_def claim_held_def idempotency_id_def
        split: option.splits)
  show "idem_ok s \<Longrightarrow> claim_held s K j x \<Longrightarrow> j \<noteq> i \<Longrightarrow> claim_held (snd (ip_release memory_idem a k i s)) K j x"
    by (auto simp: memory_idem_def release_idempotency_key_def claim_held_def idempotency_id_def
        split: option.splits)
qed

end
