(* ===== verification/Idempotency_Runs.thy ===== *)
theory Idempotency_Runs
  imports Idempotency
begin

text \<open>
  Requests under idempotency keys, interleaved. A pool holds the records, the time, the requests begun
  and the log of the operations run and of those that proved nothing was sent. A request may step, stop
  for good, have a store call fail, also after it took effect, or be cut; the records may change beside
  them by whatever keeps the keys that have not expired.
\<close>

section \<open>The pool\<close>

datatype 's run_state =
  RunNext "'s run_prog"
| RunWaiting run_ask "run_reply \<Rightarrow> 's run_prog"

record 's run_proc =
  rp_scope :: string
  rp_key :: string
  rp_begun :: time
  rp_ttl :: duration
  rp_id :: "string option"
  rp_state :: "'s run_state"

datatype run_event = Ran nat | Unsent nat

record 's run_pool =
  po_store :: 's
  po_now :: time
  po_procs :: "'s run_proc list"
  po_log :: "run_event list"

definition ids_given :: "'s run_pool \<Rightarrow> string set" where
  "ids_given P = {i. \<exists>x\<in>set (po_procs P). rp_id x = Some i}"

text \<open>The operation ended with an error that proves nothing was sent.\<close>

definition proves_unsent :: "run_ask \<Rightarrow> run_reply \<Rightarrow> bool" where
  "proves_unsent x y \<longleftrightarrow> x = AskOperation \<and> \<not> rr_cut y
     \<and> (case rr_operation y of Inl e \<Rightarrow> \<not> se_may_have_been_sent e | Inr _ \<Rightarrow> False)"

text \<open>A step of the request \<open>n\<close>: its next state, its claim id, the records and what is logged.\<close>

inductive run_step ::
  "'s run_pool \<Rightarrow> nat \<Rightarrow> 's run_state \<Rightarrow> string option \<Rightarrow> 's \<Rightarrow> run_event list \<Rightarrow> bool" where
  op: "rp_state (po_procs P ! n) = RunNext (JOp f g) \<Longrightarrow> f (po_now P) (po_store P) = (p, s') \<Longrightarrow>
    run_step P n (RunNext p) (rp_id (po_procs P ! n)) s' []"
| op_refused: "rp_state (po_procs P ! n) = RunNext (JOp f g) \<Longrightarrow>
    run_step P n (RunNext (g e)) (rp_id (po_procs P ! n)) (po_store P) []"
| op_lost: "rp_state (po_procs P ! n) = RunNext (JOp f g) \<Longrightarrow> f (po_now P) (po_store P) = (p, s') \<Longrightarrow>
    run_step P n (RunNext (g e)) (rp_id (po_procs P ! n)) s' []"
| ask: "rp_state (po_procs P ! n) = RunNext (JAsk x f) \<Longrightarrow>
    run_step P n (RunWaiting x f) (rp_id (po_procs P ! n)) (po_store P) (if x = AskOperation then [Ran n] else [])"
| answer_id: "rp_state (po_procs P ! n) = RunWaiting AskClaimId f \<Longrightarrow>
    (\<And>i. rr_claim_id y = Some i \<Longrightarrow> i \<notin> ids_given P) \<Longrightarrow>
    run_step P n (RunNext (f y)) (rr_claim_id y) (po_store P) []"
| answer: "rp_state (po_procs P ! n) = RunWaiting x f \<Longrightarrow> x \<noteq> AskClaimId \<Longrightarrow>
    run_step P n (RunNext (f y)) (rp_id (po_procs P ! n)) (po_store P) (if proves_unsent x y then [Unsent n] else [])"

inductive runs ::
  "'s idem_port \<Rightarrow> (time \<Rightarrow> 's \<Rightarrow> 's \<Rightarrow> bool) \<Rightarrow> 's run_pool \<Rightarrow> 's run_pool \<Rightarrow> bool"
  for port :: "'s idem_port" and other :: "time \<Rightarrow> 's \<Rightarrow> 's \<Rightarrow> bool" and P :: "'s run_pool" where
  start: "runs port other P P"
| pass_time: "runs port other P Q \<Longrightarrow> po_now Q \<le> t \<Longrightarrow> runs port other P (Q\<lparr>po_now := t\<rparr>)"
| begin_run: "runs port other P Q \<Longrightarrow>
    runs port other P (Q\<lparr>po_procs := po_procs Q @
      [\<lparr>rp_scope = sc, rp_key = key, rp_begun = po_now Q, rp_ttl = kp_ttl keeper, rp_id = None,
        rp_state = RunNext (run_scoped port keeper render sc (Some key) fp)\<rparr>]\<rparr>)"
| step: "runs port other P Q \<Longrightarrow> n < length (po_procs Q) \<Longrightarrow> run_step Q n st i s' evs \<Longrightarrow>
    runs port other P (Q\<lparr>po_store := s', po_log := po_log Q @ evs,
      po_procs := (po_procs Q)[n := (po_procs Q ! n)\<lparr>rp_id := i, rp_state := st\<rparr>]\<rparr>)"
| others: "runs port other P Q \<Longrightarrow> other (po_now Q) (po_store Q) s' \<Longrightarrow> runs port other P (Q\<lparr>po_store := s'\<rparr>)"

section \<open>Where a request is\<close>

datatype run_place = AtBegin | AtId | AtClaim | AtRepeat | AtPoll | AtOperation | AtKeep | AtRelease | AtSettled | AtEnd

text \<open>\<open>c\<close> is the claim of the request's scope, key and claim id.\<close>

definition claim_of :: "'s run_proc \<Rightarrow> held_claim \<Rightarrow> bool" where
  "claim_of x c \<longleftrightarrow> hc_scope c = rp_scope x \<and> hc_key c = rp_key x \<and> rp_id x = Some (hc_id c)"

definition after_settling :: "'s idem_port \<Rightarrow> held_claim \<Rightarrow> 's run_prog \<Rightarrow> bool" where
  "after_settling port c k \<longleftrightarrow> k = JRet None \<or> (\<exists>render r. k = settled port render c r)"

fun run_at :: "'s idem_port \<Rightarrow> 's run_proc \<Rightarrow> run_place \<Rightarrow> bool" where
  "run_at port x AtBegin \<longleftrightarrow> rp_id x = None \<and> (\<exists>fp lease render.
     rp_state x = RunNext (claim_for port (rp_scope x) (rp_key x) fp lease (rp_ttl x) (admitted port render)))"
| "run_at port x AtId \<longleftrightarrow> rp_id x = None \<and> (\<exists>fp lease render.
     rp_state x = RunWaiting AskClaimId (id_given port (rp_scope x) (rp_key x) fp lease (rp_ttl x) (admitted port render)))"
| "run_at port x AtClaim \<longleftrightarrow> (\<exists>fp lease render i. rp_id x = Some i \<and>
     rp_state x = RunNext (claim_as port (rp_scope x) (rp_key x) fp lease (rp_ttl x) i (admitted port render)))"
| "run_at port x AtRepeat \<longleftrightarrow> (\<exists>r. rp_state x = RunNext (repeated r))
     \<or> (\<exists>name r. rp_state x = RunWaiting (AskObserver name) (\<lambda>_. JRet r))"
| "run_at port x AtPoll \<longleftrightarrow> (\<exists>render c. claim_of x c \<and> rp_state x = RunNext (JAsk AskOperation (operated port render c)))"
| "run_at port x AtOperation \<longleftrightarrow> (\<exists>render c. claim_of x c \<and> rp_state x = RunWaiting AskOperation (operated port render c))"
| "run_at port x AtKeep \<longleftrightarrow> (\<exists>c status body k. claim_of x c \<and> after_settling port c k
     \<and> rp_state x = RunNext (complete_then port c status body k))"
| "run_at port x AtRelease \<longleftrightarrow> (\<exists>c k. claim_of x c \<and> after_settling port c k \<and> rp_state x = RunNext (release_then port c k))"
| "run_at port x AtSettled \<longleftrightarrow> (\<exists>c render r. claim_of x c
     \<and> (rp_state x = RunNext (settled port render c r)
        \<or> rp_state x = RunWaiting AskCut (unless_cut port render c r)))"
| "run_at port x AtEnd \<longleftrightarrow> (\<exists>r. rp_state x = RunNext (JRet r))"

text \<open>The places before the operation.\<close>

definition not_yet :: "run_place \<Rightarrow> bool" where
  "not_yet pl \<longleftrightarrow> pl \<in> {AtBegin, AtId, AtClaim, AtRepeat, AtPoll}"

text \<open>A store call is answered, or fails before or after it took effect.\<close>

lemma run_op:
  assumes "run_step P n st i s' evs" and "rp_state (po_procs P ! n) = RunNext (jop h k)"
  shows "i = rp_id (po_procs P ! n) \<and> evs = [] \<and>
    ((\<exists>r. h (po_now P) (po_store P) = (r, s') \<and> st = RunNext (k (Inr r)))
     \<or> (\<exists>e. s' = po_store P \<and> st = RunNext (k (Inl e)))
     \<or> (\<exists>e. s' = snd (h (po_now P) (po_store P)) \<and> st = RunNext (k (Inl e))))"
  using assms
proof (cases rule: run_step.cases)
  case (op f g p)
  then show ?thesis using assms(2)
    by (cases "h (po_now P) (po_store P)") (auto simp: jop_def)
next
  case (op_lost f g p e)
  then show ?thesis using assms(2)
    by (cases "h (po_now P) (po_store P)") (auto simp: jop_def)
qed (use assms(2) in \<open>auto simp: jop_def\<close>)

text \<open>What a step of \<open>n\<close> from \<open>pl\<close> to \<open>pl'\<close> does to the records, the log and its claim id.\<close>

definition moves ::
  "('s \<Rightarrow> bool) \<Rightarrow> ('s \<Rightarrow> string \<times> string \<Rightarrow> string \<Rightarrow> time \<Rightarrow> bool) \<Rightarrow> 's run_pool \<Rightarrow> nat \<Rightarrow> run_place \<Rightarrow> run_place
     \<Rightarrow> string option \<Rightarrow> 's \<Rightarrow> run_event list \<Rightarrow> bool" where
  "moves ok holds P n pl pl' i s' evs \<longleftrightarrow>
     ok s' \<and> set evs \<subseteq> {Ran n, Unsent n} \<and> (Ran n \<in> set evs \<longleftrightarrow> pl = AtPoll)
     \<and> (not_yet pl' \<longrightarrow> not_yet pl \<and> evs = [])
     \<and> (pl' = AtPoll \<longrightarrow> (\<exists>i'. i = Some i' \<and> holds s' (rp_scope (po_procs P ! n), rp_key (po_procs P ! n)) i'
          (after (po_now P) (rp_ttl (po_procs P ! n)))))
     \<and> (pl' = AtRelease \<longrightarrow> Unsent n \<in> set evs)
     \<and> (\<forall>K j x. holds (po_store P) K j x \<longrightarrow> po_now P < x \<longrightarrow> (pl = AtRelease \<longrightarrow> i \<noteq> Some j) \<longrightarrow> holds s' K j x)
     \<and> (i = rp_id (po_procs P ! n) \<or> rp_id (po_procs P ! n) = None \<and> (\<forall>i'. i = Some i' \<longrightarrow> i' \<notin> ids_given P))"

context idempotency_records
begin

text \<open>Steps that leave the records and the claim id alone.\<close>

lemma moves_same:
  assumes "ok (po_store P)" and "set evs \<subseteq> {Ran n, Unsent n}" "Ran n \<in> set evs \<longleftrightarrow> pl = AtPoll"
    "not_yet pl' \<Longrightarrow> not_yet pl \<and> evs = []" "pl' \<noteq> AtPoll" "pl' = AtRelease \<Longrightarrow> Unsent n \<in> set evs"
  shows "moves ok holds P n pl pl' (rp_id (po_procs P ! n)) (po_store P) evs"
  using assms by (auto simp: moves_def)

lemma step_begin:
  assumes step: "run_step P n st i s' evs" and at: "run_at port (po_procs P ! n) AtBegin" and ok: "ok (po_store P)"
  shows "run_at port ((po_procs P ! n)\<lparr>rp_id := i, rp_state := st\<rparr>) AtId \<and> moves ok holds P n AtBegin AtId i s' evs"
  using step
proof (cases rule: run_step.cases)
  case (ask x f)
  then show ?thesis using at ok
    by (auto simp: claim_for_def not_yet_def moves_def)
qed (use at in \<open>auto simp: claim_for_def\<close>)

lemma step_id:
  assumes step: "run_step P n st i s' evs" and at: "run_at port (po_procs P ! n) AtId" and ok: "ok (po_store P)"
  shows "\<exists>pl'. run_at port ((po_procs P ! n)\<lparr>rp_id := i, rp_state := st\<rparr>) pl' \<and> moves ok holds P n AtId pl' i s' evs"
  using step
proof (cases rule: run_step.cases)
  case (answer_id f y)
  obtain fp lease render where f: "rp_id (po_procs P ! n) = None"
    "f = id_given port (rp_scope (po_procs P ! n)) (rp_key (po_procs P ! n)) fp lease (rp_ttl (po_procs P ! n))
      (admitted port render)"
    using at answer_id by auto
  show ?thesis
  proof (cases "rr_claim_id y")
    case None
    then show ?thesis using answer_id f ok by (intro exI[of _ AtEnd]) (simp add: moves_def not_yet_def id_given_def)
  next
    case (Some i')
    then show ?thesis using answer_id f ok by (intro exI[of _ AtClaim]) (auto simp: moves_def not_yet_def id_given_def)
  qed
qed (use at in auto)

lemma step_claim:
  assumes step: "run_step P n st i s' evs" and at: "run_at port (po_procs P ! n) AtClaim" and ok: "ok (po_store P)"
  shows "\<exists>pl'. run_at port ((po_procs P ! n)\<lparr>rp_id := i, rp_state := st\<rparr>) pl' \<and> moves ok holds P n AtClaim pl' i s' evs"
proof -
  let ?x = "po_procs P ! n"
  obtain fp lease render i' where x: "rp_id ?x = Some i'"
    "rp_state ?x = RunNext (claim_as port (rp_scope ?x) (rp_key ?x) fp lease (rp_ttl ?x) i' (admitted port render))"
    using at by auto
  define call where "call = ip_claim port (po_now P) (rp_scope ?x) (rp_key ?x) (fp_digest fp) i' lease (rp_ttl ?x) (po_store P)"
  have kept: "ok (snd call)" "\<And>K j y. holds (po_store P) K j y \<Longrightarrow> po_now P < y \<Longrightarrow> holds (snd call) K j y"
    unfolding call_def using claim_ok claim_keeps ok by blast+
  note o = run_op[OF step x(2)[unfolded claim_as_def]]
  from o have i: "i = Some i'" "evs = []" using x(1) by auto
  from o consider (answered) r where "call = (r, s')" "st = RunNext (case r of
        IdemExisting found \<Rightarrow> admitted port render (AdmissionRepeat (repeat_of found fp))
      | IdemClaimed \<Rightarrow> admitted port render (AdmissionClaimed \<lparr>hc_scope = rp_scope ?x, hc_key = rp_key ?x, hc_id = i'\<rparr>))"
    | (failed) e where "s' = po_store P \<or> s' = snd call" "st = RunNext (JRet (Some (Inl (from_library e))))"
    unfolding call_def by fastforce
  then show ?thesis
  proof cases
    case (answered r)
    show ?thesis
    proof (cases r)
      case IdemClaimed
      then have "holds s' (rp_scope ?x, rp_key ?x) i' (after (po_now P) (rp_ttl ?x))"
        using claim_claims[OF ok] answered(1) unfolding call_def by blast
      moreover have "run_at port (?x\<lparr>rp_id := i, rp_state := st\<rparr>) AtPoll"
        using answered IdemClaimed i
        by (simp add: admitted_def claim_of_def)
          (intro exI[of _ render] exI[of _ "\<lparr>hc_scope = rp_scope ?x, hc_key = rp_key ?x, hc_id = i'\<rparr>"], simp)
      ultimately show ?thesis using answered IdemClaimed kept i x(1)
        by (intro exI[of _ AtPoll]) (auto simp: moves_def not_yet_def simp del: run_at.simps)
    next
      case (IdemExisting found)
      then show ?thesis using answered kept i x(1)
        by (intro exI[of _ AtRepeat]) (auto simp: moves_def not_yet_def admitted_def)
    qed
  next
    case (failed e)
    then show ?thesis using kept ok i x(1) by (intro exI[of _ AtEnd]) (auto simp: moves_def not_yet_def)
  qed
qed

lemma step_repeat:
  assumes step: "run_step P n st i s' evs" and at: "run_at port (po_procs P ! n) AtRepeat" and ok: "ok (po_store P)"
  shows "\<exists>pl'. run_at port ((po_procs P ! n)\<lparr>rp_id := i, rp_state := st\<rparr>) pl' \<and> moves ok holds P n AtRepeat pl' i s' evs"
  using step
proof (cases rule: run_step.cases)
  case (ask x f)
  then show ?thesis using at ok
    by (intro exI[of _ AtRepeat]) (auto simp: repeated_def not_yet_def intro!: moves_same)
next
  case (answer x f y)
  then show ?thesis using at ok
    by (intro exI[of _ AtEnd]) (auto simp: not_yet_def proves_unsent_def intro!: moves_same)
qed (use at in \<open>auto simp: repeated_def\<close>)

lemma step_poll:
  assumes step: "run_step P n st i s' evs" and at: "run_at port (po_procs P ! n) AtPoll" and ok: "ok (po_store P)"
  shows "run_at port ((po_procs P ! n)\<lparr>rp_id := i, rp_state := st\<rparr>) AtOperation \<and> moves ok holds P n AtPoll AtOperation i s' evs"
  using step
proof (cases rule: run_step.cases)
  case (ask x f)
  then show ?thesis using at ok by (auto simp: not_yet_def claim_of_def intro!: moves_same)
qed (use at in auto)

lemma step_operation:
  assumes step: "run_step P n st i s' evs" and at: "run_at port (po_procs P ! n) AtOperation" and ok: "ok (po_store P)"
  shows "\<exists>pl'. run_at port ((po_procs P ! n)\<lparr>rp_id := i, rp_state := st\<rparr>) pl' \<and> moves ok holds P n AtOperation pl' i s' evs"
  using step
proof (cases rule: run_step.cases)
  case (answer x f y)
  obtain render c where c: "claim_of (po_procs P ! n) c" "x = AskOperation" "f = operated port render c"
    using at answer by auto
  have claim: "claim_of ((po_procs P ! n)\<lparr>rp_id := i, rp_state := st\<rparr>) c" using c(1) answer by (simp add: claim_of_def)
  have after: "after_settling port c (JRet None)" "\<And>r. after_settling port c (settled port render c r)"
    by (auto simp: after_settling_def)
  show ?thesis
  proof (cases "proves_unsent x y")
    case True
    then obtain e where e: "rr_operation y = Inl e" "\<not> se_may_have_been_sent e" "\<not> rr_cut y"
      by (auto simp: proves_unsent_def split: sum.splits)
    then have "f y = release_then port c (settled port render c (Inl e))" by (simp add: c operated_def settle_key_def)
    then show ?thesis using answer True claim after ok
      by (intro exI[of _ AtRelease]) (auto simp: not_yet_def intro!: moves_same)
  next
    case False
    have "\<exists>status body k. f y = complete_then port c status body k \<and> after_settling port c k"
    proof (cases "rr_cut y")
      case True
      then show ?thesis using after by (auto simp: c operated_def drop_claim_def)
    next
      case notcut: False
      then show ?thesis using False after
        by (cases "rr_operation y") (auto simp: c operated_def settle_key_def proves_unsent_def)
    qed
    then show ?thesis using answer False claim ok
      by (intro exI[of _ AtKeep]) (auto simp: not_yet_def intro!: moves_same)
  qed
qed (use at in auto)

lemma run_at_after:
  assumes "after_settling port c k" and "claim_of x c"
  shows "\<exists>pl'. run_at port (x\<lparr>rp_state := RunNext k\<rparr>) pl' \<and> pl' \<in> {AtEnd, AtSettled}"
  using assms unfolding after_settling_def
  by (elim disjE exE) (intro exI[of _ AtEnd], simp, intro exI[of _ AtSettled], auto simp: claim_of_def)

lemma step_keep:
  assumes step: "run_step P n st i s' evs" and at: "run_at port (po_procs P ! n) AtKeep" and ok: "ok (po_store P)"
  shows "\<exists>pl'. run_at port ((po_procs P ! n)\<lparr>rp_id := i, rp_state := st\<rparr>) pl' \<and> moves ok holds P n AtKeep pl' i s' evs"
proof -
  let ?x = "po_procs P ! n"
  obtain c status body k where x: "claim_of ?x c" "after_settling port c k"
    "rp_state ?x = RunNext (complete_then port c status body k)"
    using at by auto
  let ?call = "ip_complete port (hc_scope c) (hc_key c) (hc_id c) status body (po_store P)"
  have kept: "ok (snd ?call)" "\<And>K j y. holds (po_store P) K j y \<Longrightarrow> holds (snd ?call) K j y"
    using complete_ok complete_keeps ok by blast+
  from run_op[OF step x(3)[unfolded complete_then_def]]
  have o: "i = rp_id ?x" "evs = []" "s' = po_store P \<or> s' = snd ?call" "st = RunNext k" by auto
  obtain pl' where pl': "run_at port (?x\<lparr>rp_state := RunNext k\<rparr>) pl'" "pl' \<in> {AtEnd, AtSettled}"
    using run_at_after[OF x(2,1)] by blast
  have "?x\<lparr>rp_id := i, rp_state := st\<rparr> = ?x\<lparr>rp_state := RunNext k\<rparr>" using o by simp
  then show ?thesis using pl' o kept ok by (intro exI[of _ pl']) (auto simp: moves_def not_yet_def)
qed

lemma step_release:
  assumes step: "run_step P n st i s' evs" and at: "run_at port (po_procs P ! n) AtRelease" and ok: "ok (po_store P)"
  shows "\<exists>pl'. run_at port ((po_procs P ! n)\<lparr>rp_id := i, rp_state := st\<rparr>) pl' \<and> moves ok holds P n AtRelease pl' i s' evs"
proof -
  let ?x = "po_procs P ! n"
  obtain c k where x: "claim_of ?x c" "after_settling port c k" "rp_state ?x = RunNext (release_then port c k)"
    using at by auto
  let ?call = "ip_release port (hc_scope c) (hc_key c) (hc_id c) (po_store P)"
  have kept: "ok (snd ?call)" "\<And>K j y. holds (po_store P) K j y \<Longrightarrow> j \<noteq> hc_id c \<Longrightarrow> holds (snd ?call) K j y"
    using release_ok release_keeps ok by blast+
  from run_op[OF step x(3)[unfolded release_then_def]]
  have o: "i = rp_id ?x" "evs = []" "s' = po_store P \<or> s' = snd ?call" "st = RunNext k" by auto
  obtain pl' where pl': "run_at port (?x\<lparr>rp_state := RunNext k\<rparr>) pl'" "pl' \<in> {AtEnd, AtSettled}"
    using run_at_after[OF x(2,1)] by blast
  have "?x\<lparr>rp_id := i, rp_state := st\<rparr> = ?x\<lparr>rp_state := RunNext k\<rparr>" using o by simp
  then show ?thesis using pl' o kept ok x(1) by (intro exI[of _ pl']) (auto simp: moves_def not_yet_def claim_of_def)
qed

lemma step_settled:
  assumes step: "run_step P n st i s' evs" and at: "run_at port (po_procs P ! n) AtSettled" and ok: "ok (po_store P)"
  shows "\<exists>pl'. run_at port ((po_procs P ! n)\<lparr>rp_id := i, rp_state := st\<rparr>) pl' \<and> moves ok holds P n AtSettled pl' i s' evs"
  using step
proof (cases rule: run_step.cases)
  case (ask x f)
  then show ?thesis using at ok
    by (intro exI[of _ AtSettled]) (auto simp: settled_def not_yet_def claim_of_def intro!: moves_same)
next
  case (answer x f y)
  obtain c render r where c: "claim_of (po_procs P ! n) c" "x = AskCut"
      "f = unless_cut port render c r"
    using at answer by (auto simp: settled_def)
  show ?thesis
  proof (cases "rr_cut y")
    case True
    then show ?thesis using answer c ok
      by (intro exI[of _ AtKeep])
        (auto simp: unless_cut_def drop_claim_def after_settling_def claim_of_def not_yet_def proves_unsent_def moves_def)
  next
    case False
    then show ?thesis using answer c ok
      by (intro exI[of _ AtEnd]) (auto simp: unless_cut_def not_yet_def proves_unsent_def intro!: moves_same)
  qed
qed (use at in \<open>auto simp: settled_def\<close>)

lemma step_place:
  assumes "run_step P n st i s' evs" and "run_at port (po_procs P ! n) pl" and "ok (po_store P)"
  shows "\<exists>pl'. run_at port ((po_procs P ! n)\<lparr>rp_id := i, rp_state := st\<rparr>) pl' \<and> moves ok holds P n pl pl' i s' evs"
proof (cases pl)
  case AtBegin
  then show ?thesis using step_begin assms by blast
next
  case AtId
  then show ?thesis using step_id assms by blast
next
  case AtClaim
  then show ?thesis using step_claim assms by blast
next
  case AtRepeat
  then show ?thesis using step_repeat assms by blast
next
  case AtPoll
  then show ?thesis using step_poll assms by blast
next
  case AtOperation
  then show ?thesis using step_operation assms by blast
next
  case AtKeep
  then show ?thesis using step_keep assms by blast
next
  case AtRelease
  then show ?thesis using step_release assms by blast
next
  case AtSettled
  then show ?thesis using step_settled assms by blast
next
  case AtEnd
  then obtain r where r: "rp_state (po_procs P ! n) = RunNext (JRet r)" using assms(2) by auto
  from assms(1) show ?thesis by (cases rule: run_step.cases) (use r in auto)
qed

end

section \<open>The invariant\<close>

definition deadline :: "'s run_proc \<Rightarrow> time" where
  "deadline x = after (rp_begun x) (rp_ttl x)"

lemma after_mono: "s \<le> t \<Longrightarrow> after s d \<le> after t d"
  by (auto simp: after_def split: option.split)

text \<open>Its operation runs next, or ran and did not prove that nothing was sent.\<close>

definition owns_key :: "'s run_pool \<Rightarrow> nat \<Rightarrow> run_place \<Rightarrow> bool" where
  "owns_key P n pl \<longleftrightarrow> pl = AtPoll \<or> Ran n \<in> set (po_log P) \<and> Unsent n \<notin> set (po_log P)"

definition proc_ok ::
  "'s idem_port \<Rightarrow> ('s \<Rightarrow> string \<times> string \<Rightarrow> string \<Rightarrow> time \<Rightarrow> bool) \<Rightarrow> 's run_pool \<Rightarrow> nat \<Rightarrow> run_place \<Rightarrow> bool" where
  "proc_ok port holds P n pl \<longleftrightarrow>
     run_at port (po_procs P ! n) pl \<and> rp_begun (po_procs P ! n) \<le> po_now P
     \<and> (not_yet pl \<longrightarrow> Ran n \<notin> set (po_log P)) \<and> (pl = AtRelease \<longrightarrow> Unsent n \<in> set (po_log P))
     \<and> (owns_key P n pl \<longrightarrow> po_now P < deadline (po_procs P ! n) \<longrightarrow>
          (\<exists>i. rp_id (po_procs P ! n) = Some i
             \<and> holds (po_store P) (rp_scope (po_procs P ! n), rp_key (po_procs P ! n)) i (deadline (po_procs P ! n))))"

definition ids_apart :: "'s run_pool \<Rightarrow> bool" where
  "ids_apart P \<longleftrightarrow> (\<forall>n m i. n < length (po_procs P) \<longrightarrow> m < length (po_procs P) \<longrightarrow>
     rp_id (po_procs P ! n) = Some i \<longrightarrow> rp_id (po_procs P ! m) = Some i \<longrightarrow> n = m)"

definition run_pool_ok ::
  "'s idem_port \<Rightarrow> ('s \<Rightarrow> bool) \<Rightarrow> ('s \<Rightarrow> string \<times> string \<Rightarrow> string \<Rightarrow> time \<Rightarrow> bool) \<Rightarrow> 's run_pool \<Rightarrow> bool" where
  "run_pool_ok port ok holds P \<longleftrightarrow>
     ok (po_store P) \<and> ids_apart P
     \<and> (\<forall>n. Ran n \<in> set (po_log P) \<or> Unsent n \<in> set (po_log P) \<longrightarrow> n < length (po_procs P))
     \<and> (\<forall>n<length (po_procs P). \<exists>pl. proc_ok port holds P n pl)"

lemma ids_given_nth: "n < length (po_procs P) \<Longrightarrow> rp_id (po_procs P ! n) = Some i \<Longrightarrow> i \<in> ids_given P"
  by (auto simp: ids_given_def)

context idempotency_records
begin

lemma stepped_itself:
  assumes at: "proc_ok port holds P n pl" and m: "moves ok holds P n pl pl' i s' evs"
    and n: "n < length (po_procs P)"
    and at': "run_at port ((po_procs P ! n)\<lparr>rp_id := i, rp_state := st\<rparr>) pl'"
  shows "proc_ok port holds (P\<lparr>po_store := s', po_log := po_log P @ evs,
      po_procs := (po_procs P)[n := (po_procs P ! n)\<lparr>rp_id := i, rp_state := st\<rparr>]\<rparr>) n pl'"
proof -
  let ?x = "po_procs P ! n"
  let ?K = "(rp_scope ?x, rp_key ?x)"
  have "\<exists>i'. i = Some i' \<and> holds s' ?K i' (deadline ?x)"
    if own: "pl' = AtPoll \<or> Ran n \<in> set (po_log P @ evs) \<and> Unsent n \<notin> set (po_log P @ evs)" and now: "po_now P < deadline ?x"
  proof (cases "pl' = AtPoll")
    case True
    then obtain i' where i': "i = Some i'" "holds s' ?K i' (after (po_now P) (rp_ttl ?x))"
      using m by (auto simp: moves_def)
    moreover have "deadline ?x \<le> after (po_now P) (rp_ttl ?x)"
      using at by (simp add: deadline_def proc_ok_def after_mono)
    ultimately show ?thesis using holds_less by blast
  next
    case False
    with own have log: "Ran n \<in> set (po_log P @ evs)" "Unsent n \<notin> set (po_log P)" by auto
    then have "owns_key P n pl" using m by (auto simp: moves_def owns_key_def)
    then obtain j where j: "rp_id ?x = Some j" "holds (po_store P) ?K j (deadline ?x)"
      using at now by (auto simp: proc_ok_def)
    then have i: "i = Some j" using m by (simp add: moves_def)
    have "pl \<noteq> AtRelease" using at log(2) by (auto simp: proc_ok_def)
    then have "holds s' ?K j (deadline ?x)" using m j(2) now unfolding moves_def by blast
    then show ?thesis using i by blast
  qed
  moreover have "not_yet pl' \<Longrightarrow> Ran n \<notin> set (po_log P @ evs)" using at m by (auto simp: proc_ok_def moves_def)
  moreover have "pl' = AtRelease \<Longrightarrow> Unsent n \<in> set (po_log P @ evs)" using m by (auto simp: moves_def)
  ultimately show ?thesis using at at' n by (simp add: proc_ok_def owns_key_def deadline_def)
qed

lemma stepped_other:
  assumes at: "proc_ok port holds P k plk" and m: "moves ok holds P n pl pl' i s' evs" and apart: "ids_apart P"
    and n: "n < length (po_procs P)" and k: "k < length (po_procs P)" "k \<noteq> n"
  shows "proc_ok port holds (P\<lparr>po_store := s', po_log := po_log P @ evs,
      po_procs := (po_procs P)[n := (po_procs P ! n)\<lparr>rp_id := i, rp_state := st\<rparr>]\<rparr>) k plk"
proof -
  let ?x = "po_procs P ! k"
  have log: "Ran k \<in> set (po_log P @ evs) \<longleftrightarrow> Ran k \<in> set (po_log P)" "Unsent k \<in> set (po_log P @ evs) \<longleftrightarrow> Unsent k \<in> set (po_log P)"
    using m k(2) by (auto simp: moves_def)
  have "holds s' K j y" if "rp_id ?x = Some j" "holds (po_store P) K j y" "po_now P < y" for K j y
  proof -
    have "i \<noteq> Some j"
      using m apart[unfolded ids_apart_def, rule_format, OF k(1) n that(1)] ids_given_nth[OF k(1) that(1)] k(2)
      by (auto simp: moves_def)
    then show ?thesis using m that unfolding moves_def by blast
  qed
  then show ?thesis using at k n log by (auto simp: proc_ok_def owns_key_def)
qed

lemma stepped_apart:
  assumes apart: "ids_apart P" and m: "moves ok holds P n pl pl' i s' evs" and n: "n < length (po_procs P)"
  shows "ids_apart (P\<lparr>po_store := s', po_log := po_log P @ evs,
      po_procs := (po_procs P)[n := (po_procs P ! n)\<lparr>rp_id := i, rp_state := st\<rparr>]\<rparr>)"
proof -
  have "rp_id (po_procs P ! k) \<noteq> Some j" if "i = Some j" "k \<noteq> n" "k < length (po_procs P)" for j k
    using m that apart n ids_given_nth[OF that(3)] unfolding moves_def ids_apart_def by metis
  then show ?thesis using apart n by (auto simp: ids_apart_def nth_list_update)
qed

lemma run_pool_begin:
  assumes q: "run_pool_ok port ok holds Q" and x: "run_at port x AtBegin" "rp_begun x = po_now Q"
  shows "run_pool_ok port ok holds (Q\<lparr>po_procs := po_procs Q @ [x]\<rparr>)" (is "run_pool_ok port ok holds ?Q")
proof -
  have log: "n < length (po_procs Q)" if "Ran n \<in> set (po_log Q) \<or> Unsent n \<in> set (po_log Q)" for n
    using q that by (auto simp: run_pool_ok_def)
  then have "Ran (length (po_procs Q)) \<notin> set (po_log Q)" by blast
  then have new: "proc_ok port holds ?Q (length (po_procs Q)) AtBegin"
    using x by (simp add: proc_ok_def owns_key_def)
  have old: "proc_ok port holds ?Q n pl" if "proc_ok port holds Q n pl" "n < length (po_procs Q)" for n pl
    using that by (simp add: proc_ok_def owns_key_def nth_append)
  have "\<exists>pl. proc_ok port holds ?Q n pl" if n: "n < length (po_procs ?Q)" for n
  proof (cases "n = length (po_procs Q)")
    case True
    then show ?thesis using new by blast
  next
    case False
    with n have "n < length (po_procs Q)" by simp
    then show ?thesis using q old unfolding run_pool_ok_def by blast
  qed
  moreover have "ids_apart ?Q"
    using q x(1) by (auto simp: run_pool_ok_def ids_apart_def nth_append less_Suc_eq)
  moreover have "n < length (po_procs ?Q)" if "Ran n \<in> set (po_log Q) \<or> Unsent n \<in> set (po_log Q)" for n
    using log[OF that] by simp
  ultimately show ?thesis using q unfolding run_pool_ok_def by simp
qed

lemma run_pool_runs:
  assumes keep: "\<And>t s s'. other t s s' \<Longrightarrow> ok s \<Longrightarrow>
      ok s' \<and> (\<forall>K j x. holds s K j x \<longrightarrow> t < x \<longrightarrow> holds s' K j x)"
  shows "runs port other P Q \<Longrightarrow> run_pool_ok port ok holds P \<Longrightarrow> run_pool_ok port ok holds Q"
proof (induction rule: runs.induct)
  case (pass_time Q t)
  then have q: "run_pool_ok port ok holds Q" by blast
  have "proc_ok port holds (Q\<lparr>po_now := t\<rparr>) n pl" if "proc_ok port holds Q n pl" for n pl
    using that pass_time.hyps(2) by (auto simp: proc_ok_def owns_key_def)
  then have "\<forall>n<length (po_procs Q). \<exists>pl. proc_ok port holds (Q\<lparr>po_now := t\<rparr>) n pl"
    using q unfolding run_pool_ok_def by blast
  then show ?case using q by (simp add: run_pool_ok_def ids_apart_def)
next
  case (begin_run Q sc key keeper render fp)
  then have "run_pool_ok port ok holds Q" by blast
  then show ?case by (rule run_pool_begin) (auto simp: run_scoped_def)
next
  case (step Q n st i s' evs)
  then have q: "run_pool_ok port ok holds Q" by blast
  then obtain pl where at: "proc_ok port holds Q n pl" using step.hyps(2) by (auto simp: run_pool_ok_def)
  have "run_at port (po_procs Q ! n) pl" "ok (po_store Q)" using at q by (simp_all add: proc_ok_def run_pool_ok_def)
  from step_place[OF step.hyps(3) this] obtain pl' where
    pl': "run_at port ((po_procs Q ! n)\<lparr>rp_id := i, rp_state := st\<rparr>) pl'" "moves ok holds Q n pl pl' i s' evs"
    by blast
  let ?Q = "Q\<lparr>po_store := s', po_log := po_log Q @ evs,
      po_procs := (po_procs Q)[n := (po_procs Q ! n)\<lparr>rp_id := i, rp_state := st\<rparr>]\<rparr>"
  have apart: "ids_apart Q" using q by (simp add: run_pool_ok_def)
  have "\<exists>pl. proc_ok port holds ?Q k pl" if k: "k < length (po_procs Q)" for k
  proof (cases "k = n")
    case True
    then show ?thesis using stepped_itself[OF at pl'(2) step.hyps(2) pl'(1)] by blast
  next
    case False
    obtain plk where "proc_ok port holds Q k plk" using q k by (auto simp: run_pool_ok_def)
    from stepped_other[OF this pl'(2) apart step.hyps(2) k False] show ?thesis by blast
  qed
  moreover have "m < length (po_procs Q)" if "Ran m \<in> set (po_log Q @ evs) \<or> Unsent m \<in> set (po_log Q @ evs)" for m
    using that q pl'(2) step.hyps(2) by (auto simp: run_pool_ok_def moves_def)
  moreover have "ok s'" using pl'(2) by (simp add: moves_def)
  ultimately show ?case using stepped_apart[OF apart pl'(2) step.hyps(2)] unfolding run_pool_ok_def by simp
next
  case (others Q s')
  then have q: "run_pool_ok port ok holds Q" by blast
  have keeps: "ok s'" "\<And>K j x. holds (po_store Q) K j x \<Longrightarrow> po_now Q < x \<Longrightarrow> holds s' K j x"
    using keep[OF others.hyps(2)] q by (auto simp: run_pool_ok_def)
  have "proc_ok port holds (Q\<lparr>po_store := s'\<rparr>) n pl" if "proc_ok port holds Q n pl" for n pl
    using that keeps(2) by (auto simp: proc_ok_def owns_key_def)
  then have "\<forall>n<length (po_procs Q). \<exists>pl. proc_ok port holds (Q\<lparr>po_store := s'\<rparr>) n pl"
    using q unfolding run_pool_ok_def by blast
  then show ?case using q keeps(1) by (simp add: run_pool_ok_def ids_apart_def)
qed

text \<open>Requests whose operation ran under one key, its record alive, and that did not prove nothing was sent.\<close>

lemma one_runner:
  assumes p: "run_pool_ok port ok holds P" and n: "Ran n \<in> set (po_log P)" "Unsent n \<notin> set (po_log P)"
    and m: "Ran m \<in> set (po_log P)" "Unsent m \<notin> set (po_log P)"
    and K: "rp_scope (po_procs P ! n) = rp_scope (po_procs P ! m)" "rp_key (po_procs P ! n) = rp_key (po_procs P ! m)"
    and now: "po_now P < deadline (po_procs P ! n)" "po_now P < deadline (po_procs P ! m)"
  shows "n = m"
proof -
  have len: "n < length (po_procs P)" "m < length (po_procs P)" using p n m by (auto simp: run_pool_ok_def)
  have "\<exists>i. rp_id (po_procs P ! k) = Some i
      \<and> holds (po_store P) (rp_scope (po_procs P ! k), rp_key (po_procs P ! k)) i (deadline (po_procs P ! k))"
    if k: "k < length (po_procs P)" and "Ran k \<in> set (po_log P)" "Unsent k \<notin> set (po_log P)"
      "po_now P < deadline (po_procs P ! k)" for k
  proof -
    obtain pl where "proc_ok port holds P k pl" using p k by (auto simp: run_pool_ok_def)
    then show ?thesis using that by (auto simp: proc_ok_def owns_key_def)
  qed
  from this[OF len(1) n now(1)] this[OF len(2) m now(2)] obtain i j where
    ids: "rp_id (po_procs P ! n) = Some i" "rp_id (po_procs P ! m) = Some j" and
    "holds (po_store P) (rp_scope (po_procs P ! n), rp_key (po_procs P ! n)) i (deadline (po_procs P ! n))"
    "holds (po_store P) (rp_scope (po_procs P ! m), rp_key (po_procs P ! m)) j (deadline (po_procs P ! m))"
    by blast
  then have "i = j" using one_holder K by metis
  then show ?thesis using p len ids by (auto simp: run_pool_ok_def ids_apart_def)
qed

end

end
