(* ===== verification/Idempotency_Safety.thy ===== *)
theory Idempotency_Safety
  imports Idempotency_Runs
begin

text \<open>
  The theorems on idempotency keys: over any interleaving an operation runs once per key, and what a
  repeat is answered.
\<close>

section \<open>Beside the requests\<close>

text \<open>Housekeeping may purge, and the other records change. (Deleting a tenant forgets its keys.)\<close>

definition beside :: "time \<Rightarrow> srv_state \<Rightarrow> srv_state \<Rightarrow> bool" where
  "beside t s s' \<longleftrightarrow> s' = snd (purge_idempotency_keys t s) \<or> ss_idempotency s' = ss_idempotency s"

lemma beside_keeps:
  assumes "beside t s s'" and ok: "idem_ok s"
  shows "idem_ok s' \<and> (\<forall>K j x. claim_held s K j x \<longrightarrow> t < x \<longrightarrow> claim_held s' K j x)"
  using assms(1) unfolding beside_def
proof
  assume s': "s' = snd (purge_idempotency_keys t s)"
  then have "claim_held s' K j x" if "claim_held s K j x" "t < x" for K j x
    using that ok map_of_filter_values[OF ok, of "\<lambda>_ e. t < ie_expires_at e" K]
    by (auto simp: claim_held_def purge_idempotency_keys_def Let_def)
  moreover have "idem_ok s'" using ok by (simp add: s' purge_idempotency_keys_def Let_def)
  ultimately show ?thesis by blast
next
  assume "ss_idempotency s' = ss_idempotency s"
  then show ?thesis using ok by (simp add: claim_held_def)
qed

section \<open>Requests that run alone\<close>

text \<open>What a key keeps of an operation that answered \<open>y\<close>.\<close>

definition kept_answer :: "(service_error \<Rightarrow> string) \<Rightarrow> run_reply \<Rightarrow> (nat \<times> string) option" where
  "kept_answer render y =
     (if rr_cut y then Some (se_status cut_answer, render cut_answer)
      else
        (case rr_operation y of
           Inr a \<Rightarrow> Some (an_status a, case an_kept a of Some kept \<Rightarrow> kept | None \<Rightarrow> an_body a)
         | Inl e \<Rightarrow> if se_may_have_been_sent e then Some (se_status e, render e) else None))"

definition record_of :: "time \<Rightarrow> idem_entry \<Rightarrow> idem_record" where
  "record_of t e =
     \<lparr>ir_fingerprint = ie_fingerprint e,
      ir_state = (case ie_completed e of
         Some (status, body) \<Rightarrow> Completed status body | None \<Rightarrow> InProgress (ie_lease_until e \<le> t))\<rparr>"

definition repeat_answer :: "repeat \<Rightarrow> service_error + answer" where
  "repeat_answer r =
     (case into_answer r of
        Inl e \<Rightarrow> Inl e
      | Inr (status, body) \<Rightarrow> Inr \<lparr>an_status = status, an_body = body, an_kept = None, an_replayed = True\<rparr>)"

lemma meets_record:
  assumes "map_of (ss_idempotency s) (sc, key) = Some e" and "t < ie_expires_at e"
    and "rr_claim_id (env AskClaimId) = Some i"
  shows "jexec (run_scoped memory_idem keeper render sc (Some key) fp) t env s
    = (Some (repeat_answer (repeat_of (record_of t e) fp)), s,
       [AskClaimId, AskObserver (repeat_outcome (repeat_of (record_of t e) fp))])"
  using assms
  by (simp add: run_scoped_def claim_for_def id_given_def claim_as_def memory_idem_def claim_idempotency_key_def Let_def
      idempotency_id_def admitted_def repeated_def record_of_def repeat_answer_def)

lemma runs_free:
  assumes ok: "idem_ok s" and free: "\<And>e. map_of (ss_idempotency s) (sc, key) = Some e \<Longrightarrow> ie_expires_at e \<le> t"
    and i: "rr_claim_id (env AskClaimId) = Some i" and "\<not> rr_cut (env AskCut)"
  shows "\<exists>s' asked. jexec (run_scoped memory_idem keeper render sc (Some key) fp) t env s
      = (if rr_cut (env AskOperation) then None
         else Some (map_sum id (\<lambda>a. a\<lparr>an_kept := None, an_replayed := False\<rparr>) (rr_operation (env AskOperation))), s', asked)
    \<and> AskOperation \<in> set asked
    \<and> (case kept_answer render (env AskOperation) of
         None \<Rightarrow> map_of (ss_idempotency s') (sc, key) = None
       | Some kept \<Rightarrow> \<exists>e. map_of (ss_idempotency s') (sc, key) = Some e \<and> ie_completed e = Some kept
           \<and> ie_fingerprint e = fp_digest fp \<and> ie_expires_at e = after t (kp_ttl keeper))"
proof -
  have claim: "claim_idempotency_key t sc key f i l ttl s = (IdemClaimed,
      s\<lparr>ss_idempotency := omap_insert (sc, key) \<lparr>ie_fingerprint = f, ie_claim = i, ie_completed = None,
        ie_lease_until = after t l, ie_expires_at = after t ttl\<rparr> (ss_idempotency s)\<rparr>)" for f l ttl
    using free by (auto simp: claim_idempotency_key_def Let_def idempotency_id_def split: option.split)
  show ?thesis
    using assms
    by (cases "rr_operation (env AskOperation)")
      (simp_all add: run_scoped_def claim_for_def id_given_def claim_as_def memory_idem_def claim
        admitted_def operated_def settle_key_def complete_then_def release_then_def settled_def unless_cut_def
        drop_claim_def complete_idempotency_key_def release_idempotency_key_def idempotency_id_def kept_answer_def)
qed

section \<open>An example\<close>

definition reply_example :: run_reply where
  "reply_example = \<lparr>rr_claim_id = Some ''c'', rr_operation = Inr (answer_new 200 ''{}''), rr_cut = False\<rparr>"

definition pool_example :: "srv_state run_pool" where
  "pool_example = \<lparr>po_store = srv_empty, po_now = 0, po_procs = [], po_log = []\<rparr>"

definition fp_example :: fingerprint where
  "fp_example = \<lparr>fp_digest = ''d'', fp_legacy = None\<rparr>"

definition keeper_example :: keeper where
  "keeper_example = \<lparr>kp_lease = 10, kp_ttl = 100\<rparr>"

definition request_example :: "srv_state run_state \<Rightarrow> string option \<Rightarrow> srv_state run_proc" where
  "request_example st i = \<lparr>rp_scope = ''a'', rp_key = ''k'', rp_begun = 0, rp_ttl = 100, rp_id = i, rp_state = st\<rparr>"

lemma memory_idem_sel: "ip_claim memory_idem = claim_idempotency_key"
  by (simp add: memory_idem_def)

lemma claim_steps:
  assumes "rp_state (po_procs P ! n) = RunNext (claim_as port sc key fp lease ttl i k)"
    and "ip_claim port (po_now P) sc key (fp_digest fp) i lease ttl (po_store P) = (IdemClaimed, s')"
  shows "run_step P n (RunNext (k (AdmissionClaimed \<lparr>hc_scope = sc, hc_key = key, hc_id = i\<rparr>)))
    (rp_id (po_procs P ! n)) s' []"
  by (rule run_step.op[OF assms(1)[unfolded claim_as_def jop_def]]) (simp add: assms(2))

text \<open>One request, up to its operation running.\<close>

lemma example_runs:
  "\<exists>Q. runs memory_idem beside pool_example Q \<and> Ran 0 \<in> set (po_log Q) \<and> Unsent 0 \<notin> set (po_log Q)
     \<and> rp_scope (po_procs Q ! 0) = ''a'' \<and> rp_key (po_procs Q ! 0) = ''k'' \<and> po_now Q < deadline (po_procs Q ! 0)"
proof -
  let ?render = "\<lambda>_. ''''"
  let ?s = "snd (claim_idempotency_key 0 ''a'' ''k'' ''d'' ''c'' 10 100 srv_empty)"
  let ?c = "\<lparr>hc_scope = ''a'', hc_key = ''k'', hc_id = ''c''\<rparr>"
  let ?P = "\<lambda>st i s log. \<lparr>po_store = s, po_now = 0, po_procs = [request_example st i], po_log = log\<rparr> :: srv_state run_pool"
  have p1: "runs memory_idem beside pool_example
      (?P (RunNext (run_scoped memory_idem keeper_example ?render ''a'' (Some ''k'') fp_example)) None srv_empty [])"
    using runs.begin_run[OF runs.start, of memory_idem beside pool_example "''a''" "''k''" keeper_example ?render fp_example]
    by (simp add: pool_example_def request_example_def keeper_example_def)
  let ?f = "id_given memory_idem ''a'' ''k'' fp_example 10 100 (admitted memory_idem ?render)"
  have p2: "runs memory_idem beside pool_example (?P (RunWaiting AskClaimId ?f) None srv_empty [])"
    using runs.step[OF p1, of 0] run_step.ask[of "?P (RunNext (run_scoped memory_idem keeper_example ?render ''a'' (Some ''k'') fp_example)) None srv_empty []" 0 AskClaimId ?f]
    by (simp add: request_example_def run_scoped_def claim_for_def keeper_example_def)
  let ?g = "claim_as memory_idem ''a'' ''k'' fp_example 10 100 ''c'' (admitted memory_idem ?render)"
  have p3: "runs memory_idem beside pool_example (?P (RunNext ?g) (Some ''c'') srv_empty [])"
    using runs.step[OF p2, of 0] run_step.answer_id[of "?P (RunWaiting AskClaimId ?f) None srv_empty []" 0 ?f reply_example]
    by (simp add: request_example_def id_given_def reply_example_def ids_given_def)
  have claim: "claim_idempotency_key 0 ''a'' ''k'' ''d'' ''c'' 10 100 srv_empty = (IdemClaimed, ?s)"
    by (simp add: claim_idempotency_key_def Let_def srv_empty_def idempotency_id_def)
  have p4: "runs memory_idem beside pool_example
      (?P (RunNext (JAsk AskOperation (operated memory_idem ?render ?c))) (Some ''c'') ?s [])"
    using runs.step[OF p3, of 0] claim
      claim_steps[of "?P (RunNext ?g) (Some ''c'') srv_empty []" 0 memory_idem "''a''" "''k''" fp_example 10 100 "''c''"
        "admitted memory_idem ?render" ?s]
    by (simp add: request_example_def memory_idem_sel fp_example_def admitted_def)
  have "runs memory_idem beside pool_example
      (?P (RunWaiting AskOperation (operated memory_idem ?render ?c)) (Some ''c'') ?s [Ran 0])"
    using runs.step[OF p4, of 0] run_step.ask[of "?P (RunNext (JAsk AskOperation (operated memory_idem ?render ?c))) (Some ''c'') ?s []" 0]
    by (simp add: request_example_def)
  then show ?thesis
    by (intro exI conjI, assumption)
      (simp_all add: request_example_def deadline_def after_def signed_duration_def datetime_max_def)
qed

section \<open>The theorems\<close>

text \<open>
  C39. An operation runs once per key: over any interleaving of requests, cut or stopped anywhere, with
  store calls that fail before or after they took effect, purges and time passing, of the operations
  run under one key by requests begun less than their time to live ago, all but one ended with an error
  that proves nothing was sent.
\<close>

theorem key_runs_once:
  "runs memory_idem beside P Q \<Longrightarrow> po_procs P = [] \<Longrightarrow> po_log P = [] \<Longrightarrow> idem_ok (po_store P) \<Longrightarrow>
    card {n. Ran n \<in> set (po_log Q) \<and> Unsent n \<notin> set (po_log Q) \<and> rp_scope (po_procs Q ! n) = sc
      \<and> rp_key (po_procs Q ! n) = key \<and> po_now Q < deadline (po_procs Q ! n)} \<le> 1"
proof -
  assume run: "runs memory_idem beside P Q" and P: "po_procs P = []" "po_log P = []" "idem_ok (po_store P)"
  have "run_pool_ok memory_idem idem_ok claim_held P" using P by (simp add: run_pool_ok_def ids_apart_def)
  from memory_claims.run_pool_runs[OF beside_keeps run this]
  have q: "run_pool_ok memory_idem idem_ok claim_held Q" .
  have "finite {n. Ran n \<in> set (po_log Q)}"
    using q by (auto simp: run_pool_ok_def intro!: finite_subset[of _ "{..<length (po_procs Q)}"])
  then show ?thesis
    using memory_claims.one_runner[OF q] by (auto simp: card_le_Suc0_iff_eq)
qed

lemma key_runs_once_witness:
  "\<exists>Q. runs memory_idem beside pool_example Q \<and> Ran 0 \<in> set (po_log Q)
     \<and> card {n. Ran n \<in> set (po_log Q) \<and> Unsent n \<notin> set (po_log Q) \<and> rp_scope (po_procs Q ! n) = ''a''
         \<and> rp_key (po_procs Q ! n) = ''k'' \<and> po_now Q < deadline (po_procs Q ! n)} \<le> 1"
proof -
  obtain Q where q: "runs memory_idem beside pool_example Q" "Ran 0 \<in> set (po_log Q)" using example_runs by blast
  have "po_procs pool_example = []" "po_log pool_example = []" "idem_ok (po_store pool_example)"
    by (simp_all add: pool_example_def srv_empty_def)
  from key_runs_once[OF q(1) this] q show ?thesis by blast
qed

text \<open>
  C40. A repeat is answered from the record, without running the operation: with the kept answer, byte
  for byte and marked as replayed, when the request is the same, and refused as a reuse of the key when
  it is another; of a request cut while it ran, what is kept is a timeout that may have been sent. An
  operation that proved nothing was sent leaves its key free.
\<close>

theorem repeats_get_the_answer:
  assumes "idem_ok s" and "\<And>e. map_of (ss_idempotency s) (sc, key) = Some e \<Longrightarrow> ie_expires_at e \<le> t"
    and "rr_claim_id (env AskClaimId) = Some i" and "\<not> rr_cut (env AskCut)"
    and "t' < after t (kp_ttl keeper)" and "rr_claim_id (env' AskClaimId) = Some i'"
  shows "let (r, s', asked) = jexec (run_scoped memory_idem keeper render sc (Some key) fp) t env s;
      (r', s'', asked') = jexec (run_scoped memory_idem keeper' render sc (Some key) fp') t' env' s'
    in AskOperation \<in> set asked
     \<and> (case kept_answer render (env AskOperation) of
          None \<Rightarrow> map_of (ss_idempotency s') (sc, key) = None
        | Some (status, body) \<Rightarrow>
            AskOperation \<notin> set asked' \<and> s'' = s'
            \<and> r' = Some (if fp_matches fp' (fp_digest fp)
                then Inr \<lparr>an_status = status, an_body = body, an_kept = None, an_replayed = True\<rparr>
                else Inl (service_error_new ''idempotency_key_reused'')))"
proof -
  obtain r s' asked where first: "jexec (run_scoped memory_idem keeper render sc (Some key) fp) t env s = (r, s', asked)"
      "AskOperation \<in> set asked"
      "case kept_answer render (env AskOperation) of None \<Rightarrow> map_of (ss_idempotency s') (sc, key) = None
       | Some kept \<Rightarrow> \<exists>e. map_of (ss_idempotency s') (sc, key) = Some e \<and> ie_completed e = Some kept
           \<and> ie_fingerprint e = fp_digest fp \<and> ie_expires_at e = after t (kp_ttl keeper)"
    using runs_free[OF assms(1-4), where keeper = keeper and render = render and fp = fp] by blast
  show ?thesis
  proof (cases "kept_answer render (env AskOperation)")
    case None
    then show ?thesis using first by (simp add: case_prod_unfold Let_def)
  next
    case (Some kept)
    then obtain e where e: "map_of (ss_idempotency s') (sc, key) = Some e" "ie_completed e = Some kept"
        "ie_fingerprint e = fp_digest fp" "ie_expires_at e = after t (kp_ttl keeper)"
      using first(3) by auto
    then have "t' < ie_expires_at e" using assms(5) by simp
    from meets_record[where env = env', OF e(1) this assms(6), where keeper = keeper' and render = render and fp = fp']
    show ?thesis using Some e first(1,2)
      by (cases kept) (simp add: record_of_def repeat_of_def repeat_answer_def into_answer_def)
  qed
qed

lemma repeats_get_the_answer_witness:
  "fst (jexec (run_scoped memory_idem keeper_example (\<lambda>_. '''') ''a'' (Some ''k'') fp_example) 50 (\<lambda>_. reply_example)
     (fst (snd (jexec (run_scoped memory_idem keeper_example (\<lambda>_. '''') ''a'' (Some ''k'') fp_example) 0
        (\<lambda>_. reply_example) srv_empty))))
   = Some (Inr \<lparr>an_status = 200, an_body = ''{}'', an_kept = None, an_replayed = True\<rparr>)"
proof -
  have "idem_ok srv_empty" "\<And>e. map_of (ss_idempotency srv_empty) (''a'', ''k'') = Some e \<Longrightarrow> ie_expires_at e \<le> 0"
    "rr_claim_id reply_example = Some ''c''" "\<not> rr_cut reply_example" "50 < after 0 (kp_ttl keeper_example)"
    by (simp_all add: srv_empty_def reply_example_def keeper_example_def after_def signed_duration_def datetime_max_def)
  from repeats_get_the_answer[where env = "\<lambda>_. reply_example" and env' = "\<lambda>_. reply_example" and keeper = keeper_example
      and keeper' = keeper_example and render = "\<lambda>_. ''''" and fp = fp_example and fp' = fp_example, OF this this(3)]
  show ?thesis
    by (simp add: Let_def case_prod_unfold kept_answer_def reply_example_def answer_new_def fp_matches_def)
qed

text \<open>The keys of tenants and of admin keys are apart: no tenant can be named as an admin key's scope is.\<close>

lemma scopes_apart: "tenant_id_parse t = Some tenant \<Longrightarrow> tenant \<noteq> admin_scope key_id"
  using admin_scope_no_tenant tenant_id_parse_same by fastforce

end
