(* ===== verification/Outbox.thy ===== *)
theory Outbox
  imports Server_Model
begin

text \<open>
  The data of the event outbox (\<open>meta-whatsapp-server-core/src/outbox.rs\<close>): an event to append, the
  guard its routing is checked by again at the insert, what an event records as received media and
  whom it names. \<open>parse\<close> stands for \<open>serde_json\<close> reading a text: the document with its members as
  written, \<open>None\<close> for a text that is no JSON.
\<close>

section \<open>Guards\<close>

datatype guarded_binding = GuardNumber string string | GuardWaba string

definition guarded_waba_id :: "guarded_binding \<Rightarrow> string" where
  "guarded_waba_id g = (case g of GuardNumber _ w \<Rightarrow> w | GuardWaba w \<Rightarrow> w)"

record after_move =
  am_skew_margin :: duration
  am_undated_moved_by :: "time option"

definition U64_MAX :: nat where "U64_MAX = 2 ^ 64 - 1"

definition margin_seconds :: "after_move \<Rightarrow> int" where
  "margin_seconds a =
     (let whole = min U64_MAX
        (am_skew_margin a div 1000000000 + (if am_skew_margin a mod 1000000000 > 0 then 1 else 0))
      in if int whole \<le> I64_MAX then int whole else I64_MAX)"

record route_guard =
  rg_binding :: guarded_binding
  rg_not_after :: "time option"
  rg_after_move :: after_move

record dated_bounds =
  db_first_onboarding :: int
  db_after_move :: int

definition unix_timestamp :: "time \<Rightarrow> int" where
  "unix_timestamp t = t div 1000000000"

definition dated_bounds_of :: "route_guard \<Rightarrow> dated_bounds option" where
  "dated_bounds_of g =
     map_option
       (\<lambda>at. let second = unix_timestamp at in
          \<lparr>db_first_onboarding = min I64_MAX (second + 1),
           db_after_move =
             max (i64_saturating_sub second (margin_seconds (rg_after_move g)))
               (unix_timestamp UNRECORDED_MOVE)\<rparr>)
       (rg_not_after g)"

definition admits :: "route_guard \<Rightarrow> time \<Rightarrow> time option \<Rightarrow> bool" where
  "admits g attached_at previous =
     (case (dated_bounds_of g, previous) of
        (Some bounds, None) \<Rightarrow> unix_timestamp attached_at < db_first_onboarding bounds
      | (Some bounds, Some _) \<Rightarrow> unix_timestamp attached_at < db_after_move bounds
      | (None, Some left) \<Rightarrow>
          (case am_undated_moved_by (rg_after_move g) of None \<Rightarrow> True | Some moved_by \<Rightarrow> left \<le> moved_by)
      | (None, None) \<Rightarrow> True)"

section \<open>Events\<close>

record dedup_window =
  dw_now :: time
  dw_until :: time

record new_event =
  ne_id :: string
  ne_dedup_key :: "string option"
  ne_dedup_window :: "dedup_window option"
  ne_tenant :: "string option"
  ne_route_guard :: "route_guard option"
  ne_phone_number_id :: "string option"
  ne_waba_id :: "string option"
  ne_event_type :: string
  ne_data :: string

record stored_event =
  ev_sequence :: int
  ev_id :: string
  ev_tenant :: "string option"
  ev_phone_number_id :: "string option"
  ev_waba_id :: "string option"
  ev_event_type :: string
  ev_data :: string
  ev_created_at :: time

record event_query =
  eq_tenant :: string
  eq_after :: "int option"
  eq_types :: "string list option"
  eq_phone_number_id :: "string option"
  eq_limit :: nat
  eq_max_bytes :: nat

record event_page =
  pg_events :: "stored_event list"
  pg_more :: bool
  pg_purged_through :: int
  pg_high_water :: int

record header_query =
  hq_tenant :: string
  hq_after :: "int option"
  hq_types :: "string list option"
  hq_limit :: nat

definition as_event_query :: "nat \<Rightarrow> header_query \<Rightarrow> event_query" where
  "as_event_query max_bytes q =
     \<lparr>eq_tenant = hq_tenant q, eq_after = hq_after q, eq_types = hq_types q, eq_phone_number_id = None,
      eq_limit = hq_limit q, eq_max_bytes = max_bytes\<rparr>"

record event_header =
  eh_sequence :: int
  eh_id :: string
  eh_tenant :: "string option"
  eh_event_type :: string

record header_page =
  hp_headers :: "event_header list"
  hp_more :: bool
  hp_purged_through :: int
  hp_high_water :: int

definition header_of :: "stored_event \<Rightarrow> event_header" where
  "header_of e =
     \<lparr>eh_sequence = ev_sequence e, eh_id = ev_id e, eh_tenant = ev_tenant e,
      eh_event_type = ev_event_type e\<rparr>"

definition header_page_from :: "event_page \<Rightarrow> header_page" where
  "header_page_from p =
     \<lparr>hp_headers = map header_of (pg_events p), hp_more = pg_more p,
      hp_purged_through = pg_purged_through p, hp_high_water = pg_high_water p\<rparr>"

record received_media_row =
  rm_tenant :: "string option"
  rm_phone_number_id :: "string option"
  rm_received_at :: time

definition RECEIVED_MEDIA_ROWS :: nat where "RECEIVED_MEDIA_ROWS = 16"

section \<open>What a row records as received\<close>

text \<open>
  The fields of a struct of optional fields as \<open>serde\<close> reads them, \<open>JNull\<close> for an absent one: of an
  object, where a field named twice is an error; of an array, of its length.
\<close>

definition struct_fields :: "string list \<Rightarrow> json \<Rightarrow> json list option" where
  "struct_fields names v =
     (case v of
        JObject members \<Rightarrow>
          if list_all (\<lambda>n. length (filter (\<lambda>(k, _). k = n) members) \<le> 1) names
          then Some (map (\<lambda>n. case map_of members n of None \<Rightarrow> JNull | Some x \<Rightarrow> x) names)
          else None
      | JArray items \<Rightarrow> if length items = length names then Some items else None
      | _ \<Rightarrow> None)"

definition field_of :: "string list \<Rightarrow> string \<Rightarrow> json \<Rightarrow> json" where
  "field_of names n v =
     (case struct_fields names v of
        None \<Rightarrow> JNull
      | Some xs \<Rightarrow> (case map_of (zip names xs) n of None \<Rightarrow> JNull | Some x \<Rightarrow> x))"

definition RECEIVED_MEDIA_TYPES :: "string list" where
  "RECEIVED_MEDIA_TYPES = [''image'', ''video'', ''audio'', ''document'', ''sticker'']"

definition MESSAGE_FIELDS :: "string list" where
  "MESSAGE_FIELDS = ''type'' # RECEIVED_MEDIA_TYPES @ [''edit'']"

definition reads_text :: "json \<Rightarrow> bool" where
  "reads_text v \<longleftrightarrow> v = JNull \<or> json_as_str v \<noteq> None"

definition reads_object :: "json \<Rightarrow> bool" where
  "reads_object v \<longleftrightarrow>
     v = JNull \<or> struct_fields [''id''] v \<noteq> None \<and> reads_text (field_of [''id''] ''id'' v)"

lemma field_smaller:
  assumes "field_of names n v \<noteq> JNull"
  shows "size (field_of names n v) < size v"
proof (cases v)
  case (JArray items)
  then obtain x where "struct_fields names v = Some items" "map_of (zip names items) n = Some x"
      "field_of names n v = x"
    using assms by (auto simp: field_of_def struct_fields_def split: option.splits if_splits)
  moreover from this have "x \<in> set items" by (metis map_of_SomeD set_zip_rightD)
  ultimately show ?thesis using item_smaller JArray by simp
next
  case (JObject members)
  then obtain x where x: "map_of (zip names (map (\<lambda>n. case map_of members n of None \<Rightarrow> JNull | Some x \<Rightarrow> x) names)) n = Some x"
      "field_of names n v = x"
    using assms by (auto simp: field_of_def struct_fields_def split: option.splits if_splits)
  then obtain k where "x = (case map_of members k of None \<Rightarrow> JNull | Some x \<Rightarrow> x)"
    by (auto dest!: map_of_SomeD set_zip_rightD)
  then have "(k, x) \<in> set members" using assms x(2) by (auto split: option.splits dest: map_of_SomeD)
  then show ?thesis using member_smaller JObject x(2) by simp
qed (use assms in \<open>simp_all add: field_of_def struct_fields_def\<close>)

text \<open>Whether a message reads, with the edits in it.\<close>

function reads_message :: "json \<Rightarrow> bool" where
  "reads_message v \<longleftrightarrow>
     struct_fields MESSAGE_FIELDS v \<noteq> None
     \<and> reads_text (field_of MESSAGE_FIELDS ''type'' v)
     \<and> list_all (\<lambda>n. reads_object (field_of MESSAGE_FIELDS n v)) RECEIVED_MEDIA_TYPES
     \<and> (let edit = field_of MESSAGE_FIELDS ''edit'' v
        in if edit = JNull then True
           else struct_fields [''message''] edit \<noteq> None
             \<and> (let m = field_of [''message''] ''message'' edit
                in if m = JNull then True else reads_message m))"
  by pat_completeness auto

termination
proof (relation "measure size")
  fix v edit m
  assume "edit = field_of MESSAGE_FIELDS ''edit'' v" "edit \<noteq> JNull"
    "m = field_of [''message''] ''message'' edit" "m \<noteq> JNull"
  then show "(m, v) \<in> measure size"
    using field_smaller[of MESSAGE_FIELDS "''edit''" v] field_smaller[of "[''message'']" "''message''" edit]
    by simp
qed simp

declare reads_message.simps [simp del]

text \<open>The media id of a message, or of the message an edit of one carries.\<close>

definition media_object :: "json \<Rightarrow> string option" where
  "media_object m =
     (case json_as_str (field_of MESSAGE_FIELDS ''type'' m) of
        None \<Rightarrow> None
      | Some kind \<Rightarrow>
          if kind \<in> set RECEIVED_MEDIA_TYPES
          then json_as_str (field_of [''id''] ''id'' (field_of MESSAGE_FIELDS kind m))
          else None)"

definition media_of :: "json \<Rightarrow> string option" where
  "media_of m =
     (if json_as_str (field_of MESSAGE_FIELDS ''type'' m) = Some ''edit''
      then media_object (field_of [''message''] ''message'' (field_of MESSAGE_FIELDS ''edit'' m))
      else media_object m)"

definition graph_id :: "string \<Rightarrow> bool" where
  "graph_id i \<longleftrightarrow> is_numeric_id i \<and> take 1 i \<noteq> ''0''"

definition received_media_id :: "(string \<Rightarrow> json option) \<Rightarrow> string \<Rightarrow> string \<Rightarrow> string option" where
  "received_media_id parse event_type body =
     (if event_type \<noteq> ''message_received'' then None
      else
        (case parse body of
           None \<Rightarrow> None
         | Some v \<Rightarrow>
             (let m = field_of [''message''] ''message'' v
              in if struct_fields [''message''] v = None \<or> m = JNull \<or> \<not> reads_message m then None
                 else
                   (case media_of m of
                      None \<Rightarrow> None
                    | Some i \<Rightarrow> if graph_id i then numeric_id i else None))))"

section \<open>Whom an event names\<close>

definition CONTACT_KEYS :: "string list" where
  "CONTACT_KEYS = [''wa_id'', ''from'', ''to'', ''input'', ''phone_number'', ''recipient_id'', ''group_id'']"

definition ends_with :: "string \<Rightarrow> string \<Rightarrow> bool" where
  "ends_with s suffix \<longleftrightarrow> length suffix \<le> length s \<and> drop (length s - length suffix) s = suffix"

definition names_a_contact :: "string \<Rightarrow> bool" where
  "names_a_contact key \<longleftrightarrow>
     key \<in> set CONTACT_KEYS \<or> ends_with key ''user_id'' \<or> ends_with key ''_recipient_id''
     \<or> ends_with key ''participant_id''"

text \<open>A \<open>serde_json::Value\<close> of the document: of a member named twice, the last.\<close>

function as_value :: "json \<Rightarrow> json" where
  "as_value JNull = JNull"
| "as_value (JBool b) = JBool b"
| "as_value (JNumber n) = JNumber n"
| "as_value (JString s) = JString s"
| "as_value (JArray items) = JArray (map as_value items)"
| "as_value (JObject members) =
     JObject (AList.clearjunk (rev (map (\<lambda>(k, v). (k, as_value v)) members)))"
  by pat_completeness auto

termination
  by (relation "measure size") (auto dest: member_smaller item_smaller)

function take_texts :: "json \<Rightarrow> string list" where
  "take_texts (JString s) = [s]"
| "take_texts (JArray items) = concat (map take_texts items)"
| "take_texts (JObject members) = concat (map (\<lambda>(_, v). take_texts v) members)"
| "take_texts JNull = []"
| "take_texts (JBool b) = []"
| "take_texts (JNumber n) = []"
  by pat_completeness auto

termination
  by (relation "measure size") (auto dest: member_smaller item_smaller)

definition thread_ids :: "string \<Rightarrow> json \<Rightarrow> string list" where
  "thread_ids key item =
     (case item of
        JArray threads \<Rightarrow>
          if key = ''threads''
          then List.map_filter (\<lambda>thread. Option.bind (json_get thread ''id'') json_as_str) threads
          else []
      | _ \<Rightarrow> [])"

function walk_contacts :: "json \<Rightarrow> string list" where
  "walk_contacts (JObject members) =
     concat (map (\<lambda>(key, item).
       if names_a_contact key then take_texts item else thread_ids key item @ walk_contacts item) members)"
| "walk_contacts (JArray items) = concat (map walk_contacts items)"
| "walk_contacts JNull = []"
| "walk_contacts (JBool b) = []"
| "walk_contacts (JNumber n) = []"
| "walk_contacts (JString s) = []"
  by pat_completeness auto

termination
  by (relation "measure size") (auto dest: member_smaller item_smaller)

function business_numbers :: "json \<Rightarrow> string list" where
  "business_numbers (JObject members) =
     concat (map (\<lambda>(key, item).
       (case json_as_str item of Some n \<Rightarrow> if key = ''display_phone_number'' then [n] else [] | None \<Rightarrow> [])
       @ business_numbers item) members)"
| "business_numbers (JArray items) = concat (map business_numbers items)"
| "business_numbers JNull = []"
| "business_numbers (JBool b) = []"
| "business_numbers (JNumber n) = []"
| "business_numbers (JString s) = []"
  by pat_completeness auto

termination
  by (relation "measure size") (auto dest: member_smaller item_smaller)

definition MAX_CONTACT_BYTES :: nat where "MAX_CONTACT_BYTES = 256"

text \<open>Some character is a control one: U+0000 to U+001F and U+007F to U+009F, in UTF-8.\<close>

fun has_control :: "string \<Rightarrow> bool" where
  "has_control [] \<longleftrightarrow> False"
| "has_control (c # cs) \<longleftrightarrow>
     (of_char c :: nat) < 32 \<or> (of_char c :: nat) = 127
     \<or> (of_char c :: nat) = 194 \<and> cs \<noteq> [] \<and> 128 \<le> (of_char (hd cs) :: nat) \<and> (of_char (hd cs) :: nat) < 160
     \<or> has_control cs"

definition event_contacts :: "(string \<Rightarrow> json option) \<Rightarrow> string \<Rightarrow> string list" where
  "event_contacts parse body =
     (case parse body of
        None \<Rightarrow> []
      | Some v \<Rightarrow>
          let event = as_value v;
              business = business_numbers event
          in filter (\<lambda>contact. contact \<noteq> [] \<and> length contact \<le> MAX_CONTACT_BYTES
                \<and> \<not> has_control contact \<and> contact \<notin> set business)
              (oset_of (walk_contacts event)))"

end
