(* ===== verification/Memory_Outbox.thy ===== *)
theory Memory_Outbox
  imports Outbox Server_Records
begin

text \<open>
  The event outbox in memory (\<open>meta-whatsapp-server-store-memory/src/events.rs\<close>): a stream of
  sequences per tenant, one for the operator, and which row holds each dedup key. An insert reads the
  bindings of the records store under its lock, so it takes their state as an argument. \<open>parse\<close> is
  \<open>serde_json\<close>'s reading of an event's data.
\<close>

section \<open>State\<close>

record memory_row =
  mr_dedup_key :: "string option"
  mr_dedup_until :: "time option"
  mr_media_id :: "string option"
  mr_contacts :: "string list"
  mr_event :: stored_event

record event_stream =
  sm_rows :: "(int, memory_row) btreemap"
  sm_last :: int
  sm_purged_through :: int

record outbox_state =
  ob_streams :: "(string, event_stream) hashmap"
  ob_dedup :: "(string, string \<times> int) hashmap"

definition stream_empty :: event_stream where
  "stream_empty = \<lparr>sm_rows = [], sm_last = 0, sm_purged_through = 0\<rparr>"

definition outbox_empty :: outbox_state where
  "outbox_empty = \<lparr>ob_streams = [], ob_dedup = []\<rparr>"

definition stream_of :: "string option \<Rightarrow> string" where
  "stream_of tenant = (case tenant of None \<Rightarrow> '''' | Some t \<Rightarrow> t)"

section \<open>Insert\<close>

text \<open>Whether the guard holds for the tenant, on the bindings.\<close>

definition guard_holds :: "srv_state \<Rightarrow> string \<Rightarrow> route_guard \<Rightarrow> bool" where
  "guard_holds records tenant g \<longleftrightarrow>
     (case rg_binding g of
        GuardNumber pn w \<Rightarrow>
          (case map_of (ss_numbers records) pn of
             None \<Rightarrow> False | Some n \<Rightarrow> nb_tenant_id n = tenant \<and> nb_waba_id n = w)
      | GuardWaba _ \<Rightarrow> True)
     \<and> (case map_of (ss_wabas records) (guarded_waba_id (rg_binding g)) of
          None \<Rightarrow> False
        | Some w \<Rightarrow>
            wb_tenant_id w = tenant
            \<and> admits g (wb_attached_at w) (wb_previous_tenant_unbound_at w))"

definition row_at :: "string \<Rightarrow> int \<Rightarrow> outbox_state \<Rightarrow> memory_row option" where
  "row_at name n ob = Option.bind (map_of (ob_streams ob) name) (\<lambda>stream. map_of (sm_rows stream) n)"

definition put_stream :: "string \<Rightarrow> event_stream \<Rightarrow> outbox_state \<Rightarrow> outbox_state" where
  "put_stream name stream ob = ob\<lparr>ob_streams := AList.update name stream (ob_streams ob)\<rparr>"

text \<open>The row at a place in a stream gives its dedup key up.\<close>

definition give_up_key :: "string \<Rightarrow> string \<Rightarrow> int \<Rightarrow> outbox_state \<Rightarrow> outbox_state" where
  "give_up_key key name n ob =
     (case map_of (ob_streams ob) name of
        None \<Rightarrow> ob
      | Some stream \<Rightarrow>
          (case map_of (sm_rows stream) n of
             None \<Rightarrow> ob
           | Some row \<Rightarrow>
               (put_stream name
                  (stream\<lparr>sm_rows := omap_insert n (row\<lparr>mr_dedup_key := None\<rparr>) (sm_rows stream)\<rparr>) ob)
                 \<lparr>ob_dedup := AList.delete key (ob_dedup ob)\<rparr>))"

text \<open>\<open>None\<close>: a redelivery of a stored event. Otherwise the outbox, the key free.\<close>

definition free_key :: "new_event \<Rightarrow> outbox_state \<Rightarrow> outbox_state option" where
  "free_key e ob =
     (case Option.bind (ne_dedup_key e) (\<lambda>key. map_option (Pair key) (map_of (ob_dedup ob) key)) of
        None \<Rightarrow> Some ob
      | Some (key, held_by, held_at) \<Rightarrow>
          (case (row_at held_by held_at ob, ne_dedup_window e) of
             (Some row, Some window) \<Rightarrow>
               (case mr_dedup_until row of
                  Some until \<Rightarrow>
                    if until \<le> dw_now window then Some (give_up_key key held_by held_at ob) else None
                | None \<Rightarrow> None)
           | _ \<Rightarrow> None))"

definition routed_tenant :: "srv_state \<Rightarrow> new_event \<Rightarrow> string option" where
  "routed_tenant records e =
     (case (ne_tenant e, ne_route_guard e) of
        (Some tenant, Some g) \<Rightarrow> if guard_holds records tenant g then Some tenant else None
      | _ \<Rightarrow> None)"

definition insert_event ::
  "(string \<Rightarrow> json option) \<Rightarrow> srv_state \<Rightarrow> time \<Rightarrow> new_event \<Rightarrow> outbox_state \<Rightarrow> int option \<times> outbox_state" where
  "insert_event parse records now e ob =
     (case free_key e ob of
        None \<Rightarrow> (None, ob)
      | Some ob \<Rightarrow>
          let tenant = routed_tenant records e;
              name = stream_of tenant;
              stream = (case map_of (ob_streams ob) name of None \<Rightarrow> stream_empty | Some s \<Rightarrow> s);
              n = sm_last stream + 1;
              row = \<lparr>mr_dedup_key = ne_dedup_key e,
                     mr_dedup_until = map_option dw_until (ne_dedup_window e),
                     mr_media_id = received_media_id parse (ne_event_type e) (ne_data e),
                     mr_contacts = event_contacts parse (ne_data e),
                     mr_event = \<lparr>ev_sequence = n, ev_id = ne_id e, ev_tenant = tenant,
                       ev_phone_number_id = ne_phone_number_id e, ev_waba_id = ne_waba_id e,
                       ev_event_type = ne_event_type e, ev_data = ne_data e, ev_created_at = now\<rparr>\<rparr>;
              ob = put_stream name
                (stream\<lparr>sm_last := n, sm_rows := omap_insert n row (sm_rows stream)\<rparr>) ob
          in (Some n,
              (case ne_dedup_key e of
                 None \<Rightarrow> ob
               | Some key \<Rightarrow> ob\<lparr>ob_dedup := AList.update key (name, n) (ob_dedup ob)\<rparr>)))"

section \<open>Reading\<close>

definition type_wanted :: "string list option \<Rightarrow> stored_event \<Rightarrow> bool" where
  "type_wanted types e = (case types of None \<Rightarrow> True | Some ts \<Rightarrow> ev_event_type e \<in> set ts)"

definition number_wanted :: "string option \<Rightarrow> stored_event \<Rightarrow> bool" where
  "number_wanted pn e = (case pn of None \<Rightarrow> True | Some n \<Rightarrow> ev_phone_number_id e = Some n)"

definition events_after :: "int option \<Rightarrow> event_stream \<Rightarrow> stored_event list" where
  "events_after cursor stream =
     (let start = (case cursor of None \<Rightarrow> sm_purged_through stream | Some a \<Rightarrow> a)
      in map (\<lambda>(_, row). mr_event row)
           (filter (\<lambda>(n, _). min I64_MAX (start + 1) \<le> n) (sm_rows stream)))"

text \<open>Events up to the limit and the bytes, the first one always; whether more follow.\<close>

fun take_page ::
  "nat \<Rightarrow> nat \<Rightarrow> nat \<Rightarrow> stored_event list \<Rightarrow> stored_event list \<Rightarrow> stored_event list \<times> bool" where
  "take_page limit max_bytes bytes events [] = (events, False)"
| "take_page limit max_bytes bytes events (row # rows) =
     (let bytes = min U64_MAX (bytes + length (ev_data row))
      in if length events = limit \<or> events \<noteq> [] \<and> max_bytes < bytes then (events, True)
         else take_page limit max_bytes bytes (events @ [row]) rows)"

definition page_events :: "event_query \<Rightarrow> outbox_state \<Rightarrow> event_page" where
  "page_events q ob =
     (case map_of (ob_streams ob) (eq_tenant q) of
        None \<Rightarrow> \<lparr>pg_events = [], pg_more = False, pg_purged_through = 0, pg_high_water = 0\<rparr>
      | Some stream \<Rightarrow>
          let matching = filter (number_wanted (eq_phone_number_id q))
                (filter (type_wanted (eq_types q)) (events_after (eq_after q) stream));
              (events, more) = take_page (eq_limit q) (eq_max_bytes q) 0 [] matching
          in \<lparr>pg_events = events, pg_more = more, pg_purged_through = sm_purged_through stream,
              pg_high_water = sm_last stream\<rparr>)"

definition headers_after :: "header_query \<Rightarrow> outbox_state \<Rightarrow> header_page" where
  "headers_after q ob =
     (case map_of (ob_streams ob) (hq_tenant q) of
        None \<Rightarrow> \<lparr>hp_headers = [], hp_more = False, hp_purged_through = 0, hp_high_water = 0\<rparr>
      | Some stream \<Rightarrow>
          let matching = filter (type_wanted (hq_types q)) (events_after (hq_after q) stream)
          in \<lparr>hp_headers = map header_of (take (hq_limit q) matching),
              hp_more = hq_limit q < length matching,
              hp_purged_through = sm_purged_through stream, hp_high_water = sm_last stream\<rparr>)"

definition get_event :: "string \<Rightarrow> string \<Rightarrow> outbox_state \<Rightarrow> stored_event option" where
  "get_event tenant i ob =
     Option.bind (map_of (ob_streams ob) tenant)
       (\<lambda>stream. find (\<lambda>e. ev_id e = i) (map (\<lambda>(_, row). mr_event row) (sm_rows stream)))"

definition received_rows :: "string \<Rightarrow> outbox_state \<Rightarrow> received_media_row list" where
  "received_rows media_id ob =
     take RECEIVED_MEDIA_ROWS
       (sort_key (\<lambda>r. - rm_received_at r)
         (map (\<lambda>row. \<lparr>rm_tenant = ev_tenant (mr_event row),
                rm_phone_number_id = ev_phone_number_id (mr_event row),
                rm_received_at = ev_created_at (mr_event row)\<rparr>)
           (filter (\<lambda>row. mr_media_id row = Some media_id)
             (concat (map (\<lambda>(_, stream). map snd (sm_rows stream)) (ob_streams ob))))))"

section \<open>Removing\<close>

definition forget_keys :: "string list \<Rightarrow> outbox_state \<Rightarrow> outbox_state" where
  "forget_keys gone ob = ob\<lparr>ob_dedup := fold AList.delete gone (ob_dedup ob)\<rparr>"

definition dedup_keys_of :: "(int \<times> memory_row) list \<Rightarrow> string list" where
  "dedup_keys_of rows = List.map_filter (\<lambda>(_, row). mr_dedup_key row) rows"

definition purge_stream :: "time \<Rightarrow> event_stream \<Rightarrow> (int \<times> memory_row) list \<times> event_stream" where
  "purge_stream cutoff stream =
     (case filter (\<lambda>(_, row). ev_created_at (mr_event row) < cutoff) (sm_rows stream) of
        [] \<Rightarrow> ([], stream)
      | old \<Rightarrow>
          let through = Max (set (map (\<lambda>(_, row). ev_sequence (mr_event row)) old))
          in (filter (\<lambda>(n, _). n < through + 1) (sm_rows stream),
              stream\<lparr>sm_rows := filter (\<lambda>(n, _). through + 1 \<le> n) (sm_rows stream),
                     sm_purged_through := max (sm_purged_through stream) through\<rparr>))"

definition purge_events :: "time \<Rightarrow> duration \<Rightarrow> outbox_state \<Rightarrow> nat \<times> outbox_state" where
  "purge_events now older_than ob =
     (let cutoff = now - int older_than;
          removed = concat (map (\<lambda>(_, stream). fst (purge_stream cutoff stream)) (ob_streams ob))
      in (length removed,
          forget_keys (dedup_keys_of removed)
            (ob\<lparr>ob_streams := map (\<lambda>(name, stream). (name, snd (purge_stream cutoff stream))) (ob_streams ob)\<rparr>)))"

definition names :: "string \<Rightarrow> string list \<Rightarrow> memory_row \<Rightarrow> bool" where
  "names pn contacts row \<longleftrightarrow>
     ev_phone_number_id (mr_event row) = Some pn \<and> (\<exists>contact\<in>set (mr_contacts row). contact \<in> set contacts)"

definition erase_contacts ::
  "string \<Rightarrow> string \<Rightarrow> string list \<Rightarrow> outbox_state \<Rightarrow> nat \<times> outbox_state" where
  "erase_contacts tenant pn contacts ob =
     (case map_of (ob_streams ob) tenant of
        None \<Rightarrow> (0, ob)
      | Some stream \<Rightarrow>
          let named = filter (\<lambda>(_, row). names pn contacts row) (sm_rows stream)
          in (length named,
              forget_keys (dedup_keys_of named)
                (put_stream tenant
                  (stream\<lparr>sm_rows := filter (\<lambda>(_, row). \<not> names pn contacts row) (sm_rows stream)\<rparr>) ob)))"

definition forget_tenant :: "string \<Rightarrow> outbox_state \<Rightarrow> outbox_state" where
  "forget_tenant tenant ob =
     (case map_of (ob_streams ob) tenant of
        None \<Rightarrow> ob
      | Some stream \<Rightarrow>
          (put_stream tenant (stream\<lparr>sm_rows := [], sm_purged_through := sm_last stream\<rparr>) ob)
            \<lparr>ob_dedup := filter (\<lambda>(_, (s, _)). s \<noteq> tenant) (ob_dedup ob)\<rparr>)"

end
