(* ===== verification/Outbox_Invariant.thy ===== *)
theory Outbox_Invariant
  imports Memory_Outbox
begin

text \<open>
  What the outbox keeps: a stream's rows lie between what was purged and its last sequence, under
  their own sequence and in their tenant's stream, and the dedup index names exactly the rows that
  hold a key. An operation is followed through \<open>row_at\<close>, \<open>last_of\<close> and the dedup index.
\<close>

section \<open>Readers\<close>

definition last_of :: "string \<Rightarrow> outbox_state \<Rightarrow> int" where
  "last_of name ob = (case map_of (ob_streams ob) name of None \<Rightarrow> 0 | Some s \<Rightarrow> sm_last s)"

definition purged_of :: "string \<Rightarrow> outbox_state \<Rightarrow> int" where
  "purged_of name ob = (case map_of (ob_streams ob) name of None \<Rightarrow> 0 | Some s \<Rightarrow> sm_purged_through s)"

definition stream_ok :: "string \<Rightarrow> event_stream \<Rightarrow> bool" where
  "stream_ok name s \<longleftrightarrow>
     omap_ok (sm_rows s) \<and> 0 \<le> sm_purged_through s \<and> sm_purged_through s \<le> sm_last s
     \<and> (\<forall>n row. map_of (sm_rows s) n = Some row \<longrightarrow>
          sm_purged_through s < n \<and> n \<le> sm_last s \<and> ev_sequence (mr_event row) = n
          \<and> stream_of (ev_tenant (mr_event row)) = name)"

definition streams_ok :: "outbox_state \<Rightarrow> bool" where
  "streams_ok ob \<longleftrightarrow>
     keys_distinct (ob_streams ob)
     \<and> (\<forall>name s. map_of (ob_streams ob) name = Some s \<longrightarrow> stream_ok name s)"

text \<open>The dedup index names the row that holds the key.\<close>

definition dedup_ok :: "outbox_state \<Rightarrow> bool" where
  "dedup_ok ob \<longleftrightarrow>
     (\<forall>key name n. map_of (ob_dedup ob) key = Some (name, n)
        \<longleftrightarrow> (\<exists>row. row_at name n ob = Some row \<and> mr_dedup_key row = Some key))"

lemma dedup_at: "dedup_ok ob \<Longrightarrow> row_at name n ob = Some row \<Longrightarrow> mr_dedup_key row = Some key
    \<Longrightarrow> map_of (ob_dedup ob) key = Some (name, n)"
  unfolding dedup_ok_def by blast

definition outbox_ok :: "outbox_state \<Rightarrow> bool" where
  "outbox_ok ob \<longleftrightarrow> streams_ok ob \<and> keys_distinct (ob_dedup ob) \<and> dedup_ok ob"

lemma outbox_ok_empty [simp]: "outbox_ok outbox_empty"
  by (simp add: outbox_ok_def streams_ok_def dedup_ok_def outbox_empty_def row_at_def)

lemma put_stream_simps [simp]:
  "row_at name n (put_stream nm s ob) = (if name = nm then map_of (sm_rows s) n else row_at name n ob)"
  "last_of name (put_stream nm s ob) = (if name = nm then sm_last s else last_of name ob)"
  "purged_of name (put_stream nm s ob) = (if name = nm then sm_purged_through s else purged_of name ob)"
  "ob_dedup (put_stream nm s ob) = ob_dedup ob"
  by (auto simp: put_stream_def row_at_def last_of_def purged_of_def)

lemma dedup_update_simps [simp]:
  "row_at name n (ob\<lparr>ob_dedup := d\<rparr>) = row_at name n ob"
  "last_of name (ob\<lparr>ob_dedup := d\<rparr>) = last_of name ob"
  "purged_of name (ob\<lparr>ob_dedup := d\<rparr>) = purged_of name ob"
  by (auto simp: row_at_def last_of_def purged_of_def)

lemma streams_ok_put: "streams_ok ob \<Longrightarrow> stream_ok nm s \<Longrightarrow> streams_ok (put_stream nm s ob)"
  by (auto simp: streams_ok_def put_stream_def)

lemma streams_ok_dedup [simp]: "streams_ok (ob\<lparr>ob_dedup := d\<rparr>) \<longleftrightarrow> streams_ok ob"
  by (simp add: streams_ok_def)

lemma stream_ok_empty [simp]: "stream_ok name stream_empty"
  by (simp add: stream_ok_def stream_empty_def)

lemma row_bounds:
  assumes "streams_ok ob" "row_at name n ob = Some row"
  shows "purged_of name ob < n \<and> n \<le> last_of name ob \<and> ev_sequence (mr_event row) = n
    \<and> stream_of (ev_tenant (mr_event row)) = name \<and> 0 \<le> purged_of name ob"
proof -
  obtain s where "map_of (ob_streams ob) name = Some s" "map_of (sm_rows s) n = Some row"
    using assms(2) by (auto simp: row_at_def bind_eq_Some_conv)
  then show ?thesis using assms(1) by (auto simp: streams_ok_def stream_ok_def last_of_def purged_of_def)
qed

lemma last_of_nonneg: "streams_ok ob \<Longrightarrow> 0 \<le> last_of name ob"
  by (fastforce simp: streams_ok_def stream_ok_def last_of_def split: option.split)

text \<open>A stream and what its readers say.\<close>

lemma stream_at:
  assumes "streams_ok ob" and "map_of (ob_streams ob) name = Some s"
  shows "stream_ok name s" "omap_ok (sm_rows s)" "last_of name ob = sm_last s"
    "purged_of name ob = sm_purged_through s" "\<And>n. row_at name n ob = map_of (sm_rows s) n"
  using assms by (auto simp: streams_ok_def stream_ok_def last_of_def purged_of_def row_at_def)

lemma row_stream:
  assumes "row_at name n ob = Some row"
  obtains s where "map_of (ob_streams ob) name = Some s" "map_of (sm_rows s) n = Some row"
  using assms by (auto simp: row_at_def bind_eq_Some_conv)

section \<open>Insert\<close>

lemma give_up_key:
  assumes "row_at name n ob = Some row" and ok: "streams_ok ob"
  shows "row_at x m (give_up_key key name n ob)
      = (if x = name \<and> m = n then Some (row\<lparr>mr_dedup_key := None\<rparr>) else row_at x m ob)"
    and "last_of x (give_up_key key name n ob) = last_of x ob"
    and "purged_of x (give_up_key key name n ob) = purged_of x ob"
    and "ob_dedup (give_up_key key name n ob) = AList.delete key (ob_dedup ob)"
    and "streams_ok (give_up_key key name n ob)"
proof -
  obtain s where s: "map_of (ob_streams ob) name = Some s" "map_of (sm_rows s) n = Some row"
    using assms(1) by (rule row_stream)
  note at = stream_at[OF ok s(1)]
  let ?s = "s\<lparr>sm_rows := omap_insert n (row\<lparr>mr_dedup_key := None\<rparr>) (sm_rows s)\<rparr>"
  have e: "give_up_key key name n ob = (put_stream name ?s ob)\<lparr>ob_dedup := AList.delete key (ob_dedup ob)\<rparr>"
    using s by (simp add: give_up_key_def)
  show "ob_dedup (give_up_key key name n ob) = AList.delete key (ob_dedup ob)" by (simp add: e)
  show "last_of x (give_up_key key name n ob) = last_of x ob" "purged_of x (give_up_key key name n ob) = purged_of x ob"
    using at by (simp_all add: e)
  have "stream_ok name ?s" using at(1,2) s(2) by (auto simp: stream_ok_def)
  then show "streams_ok (give_up_key key name n ob)" using streams_ok_put[OF ok] by (simp add: e)
  show "row_at x m (give_up_key key name n ob)
      = (if x = name \<and> m = n then Some (row\<lparr>mr_dedup_key := None\<rparr>) else row_at x m ob)"
    using at s(2) by (simp add: e)
qed

text \<open>An event whose key is free: the rows are those before, but for the key one may have given up.\<close>

definition same_rows :: "outbox_state \<Rightarrow> outbox_state \<Rightarrow> bool" where
  "same_rows ob ob' \<longleftrightarrow>
     (\<forall>name n. map_option mr_event (row_at name n ob') = map_option mr_event (row_at name n ob)
        \<and> map_option mr_contacts (row_at name n ob') = map_option mr_contacts (row_at name n ob)
        \<and> last_of name ob' = last_of name ob \<and> purged_of name ob' = purged_of name ob)"

lemma same_rows_refl [simp]: "same_rows ob ob"
  by (simp add: same_rows_def)

lemma free_key:
  assumes ok: "outbox_ok ob" and free: "free_key e ob = Some ob'"
  shows "outbox_ok ob'" "same_rows ob ob'"
    and "\<And>key. ne_dedup_key e = Some key \<Longrightarrow> map_of (ob_dedup ob') key = None"
    and "\<And>key name n row. ne_dedup_key e = Some key \<Longrightarrow> row_at name n ob = Some row \<Longrightarrow> mr_dedup_key row = Some key
      \<Longrightarrow> \<exists>until window. mr_dedup_until row = Some until \<and> ne_dedup_window e = Some window \<and> until \<le> dw_now window"
proof -
  have so: "streams_ok ob" and d: "dedup_ok ob" and kd: "keys_distinct (ob_dedup ob)"
    using ok by (simp_all add: outbox_ok_def)
  have "outbox_ok ob' \<and> same_rows ob ob'
    \<and> (\<forall>key. ne_dedup_key e = Some key \<longrightarrow> map_of (ob_dedup ob') key = None)
    \<and> (\<forall>key name n row. ne_dedup_key e = Some key \<longrightarrow> row_at name n ob = Some row \<longrightarrow> mr_dedup_key row = Some key
      \<longrightarrow> (\<exists>until window. mr_dedup_until row = Some until \<and> ne_dedup_window e = Some window \<and> until \<le> dw_now window))"
  proof (cases "Option.bind (ne_dedup_key e) (\<lambda>key. map_option (Pair key) (map_of (ob_dedup ob) key))")
    case None
    have ob': "ob' = ob" using None free by (simp add: free_key_def)
    have none: "map_of (ob_dedup ob) key = None" if "ne_dedup_key e = Some key" for key
      using None that by simp
    have "mr_dedup_key row \<noteq> Some key" if "ne_dedup_key e = Some key" "row_at name n ob = Some row" for key name n row
      using dedup_at[OF d that(2)] none[OF that(1)] by auto
    then show ?thesis using none ok by (simp add: ob')
  next
    case (Some h)
    obtain key name n where h: "h = (key, name, n)" by (cases h)
    have key: "ne_dedup_key e = Some key" "map_of (ob_dedup ob) key = Some (name, n)"
      using Some h by (auto simp: bind_eq_Some_conv)
    then obtain row where row: "row_at name n ob = Some row" "mr_dedup_key row = Some key"
      using d by (auto simp: dedup_ok_def)
    obtain window until where w: "ne_dedup_window e = Some window" "mr_dedup_until row = Some until"
        "until \<le> dw_now window" and ob': "ob' = give_up_key key name n ob"
      using free Some h row(1) by (auto simp: free_key_def split: option.splits if_splits)
    note g = give_up_key[OF row(1) so, where key = key, folded ob']
    have unique: "name' = name \<and> n' = n" if "row_at name' n' ob = Some row'" "mr_dedup_key row' = Some key" for name' n' row'
      using dedup_at[OF d that] key(2) by simp
    have "dedup_ok ob'" unfolding dedup_ok_def
    proof (intro allI)
      fix k x m
      have "map_of (ob_dedup ob') k = Some (x, m) \<longleftrightarrow> k \<noteq> key \<and> (\<exists>r. row_at x m ob = Some r \<and> mr_dedup_key r = Some k)"
        using d by (auto simp: g(4) dedup_ok_def)
      also have "\<dots> \<longleftrightarrow> (\<exists>r. row_at x m ob' = Some r \<and> mr_dedup_key r = Some k)"
        by (cases "x = name \<and> m = n") (auto simp: g(1) row dest: unique)
      finally show "map_of (ob_dedup ob') k = Some (x, m)
          \<longleftrightarrow> (\<exists>r. row_at x m ob' = Some r \<and> mr_dedup_key r = Some k)" .
    qed
    moreover have "same_rows ob ob'" using row by (auto simp: same_rows_def g)
    moreover have "map_of (ob_dedup ob') key = None" by (simp add: g(4))
    moreover have "\<exists>until window. mr_dedup_until row' = Some until \<and> ne_dedup_window e = Some window
        \<and> until \<le> dw_now window" if "row_at name' n' ob = Some row'" "mr_dedup_key row' = Some key" for name' n' row'
      using unique[OF that] that(1) row(1) w by simp
    moreover have "keys_distinct (ob_dedup ob')" using kd by (simp add: g(4))
    ultimately show ?thesis using g(5) by (simp add: outbox_ok_def key(1))
  qed
  then show "outbox_ok ob'" "same_rows ob ob'"
    "\<And>key. ne_dedup_key e = Some key \<Longrightarrow> map_of (ob_dedup ob') key = None"
    "\<And>key name n row. ne_dedup_key e = Some key \<Longrightarrow> row_at name n ob = Some row \<Longrightarrow> mr_dedup_key row = Some key
      \<Longrightarrow> \<exists>until window. mr_dedup_until row = Some until \<and> ne_dedup_window e = Some window \<and> until \<le> dw_now window"
    by blast+
qed

text \<open>The row an insert appends.\<close>

definition new_row :: "(string \<Rightarrow> json option) \<Rightarrow> srv_state \<Rightarrow> time \<Rightarrow> int \<Rightarrow> new_event \<Rightarrow> memory_row" where
  "new_row parse records now n e =
     \<lparr>mr_dedup_key = ne_dedup_key e, mr_dedup_until = map_option dw_until (ne_dedup_window e),
      mr_media_id = received_media_id parse (ne_event_type e) (ne_data e),
      mr_contacts = event_contacts parse (ne_data e),
      mr_event = \<lparr>ev_sequence = n, ev_id = ne_id e, ev_tenant = routed_tenant records e,
        ev_phone_number_id = ne_phone_number_id e, ev_waba_id = ne_waba_id e,
        ev_event_type = ne_event_type e, ev_data = ne_data e, ev_created_at = now\<rparr>\<rparr>"

lemma insert_event:
  fixes records :: srv_state
  assumes ok: "outbox_ok ob" and free: "free_key e ob = Some ob1"
  defines "name \<equiv> stream_of (routed_tenant records e)"
  defines "n \<equiv> last_of name ob + 1"
  shows "fst (insert_event parse records now e ob) = Some n"
    and "outbox_ok (snd (insert_event parse records now e ob))"
    and "row_at x m (snd (insert_event parse records now e ob))
      = (if x = name \<and> m = n then Some (new_row parse records now n e) else row_at x m ob1)"
    and "last_of x (snd (insert_event parse records now e ob)) = (if x = name then n else last_of x ob)"
    and "purged_of x (snd (insert_event parse records now e ob)) = purged_of x ob"
proof -
  note f = free_key[OF ok free]
  have so: "streams_ok ob1" and d: "dedup_ok ob1" and kd: "keys_distinct (ob_dedup ob1)" using f(1) by (simp_all add: outbox_ok_def)
  have same: "last_of x ob1 = last_of x ob" "purged_of x ob1 = purged_of x ob" for x
    using f(2) by (simp_all add: same_rows_def)
  define s where "s = (case map_of (ob_streams ob1) name of None \<Rightarrow> stream_empty | Some s \<Rightarrow> s)"
  have s1: "stream_ok name s \<and> sm_last s = last_of name ob1 \<and> sm_purged_through s = purged_of name ob1
      \<and> (\<forall>m. map_of (sm_rows s) m = row_at name m ob1)"
  proof (cases "map_of (ob_streams ob1) name")
    case None
    then show ?thesis by (simp add: s_def) (simp add: stream_empty_def last_of_def purged_of_def row_at_def)
  next
    case (Some s0)
    then show ?thesis using stream_at[OF so Some] by (simp add: s_def)
  qed
  have s: "stream_ok name s" "sm_last s = last_of name ob" "sm_purged_through s = purged_of name ob"
      "\<And>m. map_of (sm_rows s) m = row_at name m ob1"
    using s1 by (simp_all add: same)
  define s' where "s' = s\<lparr>sm_last := n, sm_rows := omap_insert n (new_row parse records now n e) (sm_rows s)\<rparr>"
  define ob2 where "ob2 = put_stream name s' ob1"
  have e: "insert_event parse records now e ob = (Some n,
      (case ne_dedup_key e of None \<Rightarrow> ob2 | Some key \<Rightarrow> ob2\<lparr>ob_dedup := AList.update key (name, n) (ob_dedup ob2)\<rparr>))"
    using free s(2)
    by (cases "ne_dedup_key e") (simp_all add: insert_event_def Let_def ob2_def s'_def s_def new_row_def name_def n_def)
  have rows: "map_of (sm_rows s') m = (if m = n then Some (new_row parse records now n e) else row_at name m ob1)" for m
    using s(1,4) by (simp add: s'_def stream_ok_def)
  have "stream_ok name s'"
    using s(1,2) by (fastforce simp: s'_def stream_ok_def n_def new_row_def name_def)
  then have so2: "streams_ok ob2" unfolding ob2_def by (rule streams_ok_put[OF so])
  show "fst (insert_event parse records now e ob) = Some n" by (simp add: e)
  have row2: "row_at x m ob2 = (if x = name \<and> m = n then Some (new_row parse records now n e) else row_at x m ob1)" for x m
    using rows by (simp add: ob2_def)
  show "row_at x m (snd (insert_event parse records now e ob))
      = (if x = name \<and> m = n then Some (new_row parse records now n e) else row_at x m ob1)"
    using row2 by (simp add: e split: option.split)
  show "last_of x (snd (insert_event parse records now e ob)) = (if x = name then n else last_of x ob)"
    "purged_of x (snd (insert_event parse records now e ob)) = purged_of x ob"
    using s(3) by (auto simp: e ob2_def s'_def same split: option.split)
  have dedup2: "ob_dedup ob2 = ob_dedup ob1" by (simp add: ob2_def)
  have fresh: "row_at name n ob1 = None"
    using row_bounds[OF so, of name n] same(1)[of name] by (cases "row_at name n ob1") (auto simp: n_def)
  have "dedup_ok (snd (insert_event parse records now e ob))"
  proof (cases "ne_dedup_key e")
    case None
    then show ?thesis using d fresh by (auto simp: e dedup_ok_def row2 new_row_def dedup2)
  next
    case (Some key)
    have "mr_dedup_key r \<noteq> Some key" if "row_at x m ob1 = Some r" for x m r
      using dedup_at[OF d that] f(3)[OF Some] by auto
    then show ?thesis using Some d fresh
      by (auto simp: e dedup_ok_def row2 new_row_def dedup2)
  qed
  then show "outbox_ok (snd (insert_event parse records now e ob))"
    using so2 kd by (auto simp: outbox_ok_def e dedup2 split: option.split)
qed

section \<open>Removing\<close>

lemma map_of_fold_delete [simp]:
  "map_of (fold AList.delete gone d) k = (if k \<in> set gone then None else map_of d k)"
  by (induction gone arbitrary: d) auto

lemma keys_distinct_fold_delete [simp]: "keys_distinct d \<Longrightarrow> keys_distinct (fold AList.delete gone d)"
  by (induction gone arbitrary: d) auto

lemma forget_keys_simps [simp]:
  "row_at name n (forget_keys gone ob) = row_at name n ob"
  "last_of name (forget_keys gone ob) = last_of name ob"
  "purged_of name (forget_keys gone ob) = purged_of name ob"
  "streams_ok (forget_keys gone ob) \<longleftrightarrow> streams_ok ob"
  "ob_dedup (forget_keys gone ob) = fold AList.delete gone (ob_dedup ob)"
  by (simp_all add: forget_keys_def)

lemma in_dedup_keys_of: "k \<in> set (dedup_keys_of rows) \<longleftrightarrow> (\<exists>n row. (n, row) \<in> set rows \<and> mr_dedup_key row = Some k)"
  by (force simp: dedup_keys_of_def List.map_filter_def)

text \<open>Rows taken out with their keys leave the index right.\<close>

lemma dedup_removed:
  assumes d: "dedup_ok ob"
    and rows: "\<And>x m. row_at x m ob' =
      (case row_at x m ob of None \<Rightarrow> None | Some row \<Rightarrow> if gone x m row then None else Some row)"
    and keys: "\<And>k. map_of (ob_dedup ob') k =
      (if \<exists>x m row. row_at x m ob = Some row \<and> gone x m row \<and> mr_dedup_key row = Some k then None
       else map_of (ob_dedup ob) k)"
  shows "dedup_ok ob'"
  unfolding dedup_ok_def
proof (intro allI iffI)
  fix k x m
  assume a: "map_of (ob_dedup ob') k = Some (x, m)"
  then have kept: "\<not> (\<exists>x m row. row_at x m ob = Some row \<and> gone x m row \<and> mr_dedup_key row = Some k)"
      and "map_of (ob_dedup ob) k = Some (x, m)"
    using keys[of k] by (simp_all split: if_splits)
  then obtain row where row: "row_at x m ob = Some row" "mr_dedup_key row = Some k"
    using d unfolding dedup_ok_def by blast
  with kept have "\<not> gone x m row" by blast
  with row show "\<exists>row. row_at x m ob' = Some row \<and> mr_dedup_key row = Some k" by (simp add: rows)
next
  fix k x m
  assume "\<exists>row. row_at x m ob' = Some row \<and> mr_dedup_key row = Some k"
  then obtain row where row: "row_at x m ob = Some row" "mr_dedup_key row = Some k" "\<not> gone x m row"
    by (auto simp: rows split: option.splits if_splits)
  have at: "map_of (ob_dedup ob) k = Some (x, m)" by (rule dedup_at[OF d row(1,2)])
  have "\<not> gone x' m' row'" if "row_at x' m' ob = Some row'" "mr_dedup_key row' = Some k" for x' m' row'
    using dedup_at[OF d that] at row that(1) by simp
  then show "map_of (ob_dedup ob') k = Some (x, m)" using at keys[of k] by auto
qed

lemma erase_contacts:
  fixes tenant pn :: string and contacts :: "string list"
  assumes ok: "outbox_ok ob"
  defines "ob' \<equiv> snd (erase_contacts tenant pn contacts ob)"
  shows "outbox_ok ob'"
    and "row_at x m ob' = (case row_at x m ob of None \<Rightarrow> None
      | Some row \<Rightarrow> if x = tenant \<and> names pn contacts row then None else Some row)"
    and "last_of x ob' = last_of x ob" "purged_of x ob' = purged_of x ob"
proof -
  have so: "streams_ok ob" and d: "dedup_ok ob" and kd: "keys_distinct (ob_dedup ob)"
    using ok by (simp_all add: outbox_ok_def)
  have "outbox_ok ob' \<and> (\<forall>x m. row_at x m ob' = (case row_at x m ob of None \<Rightarrow> None
      | Some row \<Rightarrow> if x = tenant \<and> names pn contacts row then None else Some row))
    \<and> (\<forall>x. last_of x ob' = last_of x ob \<and> purged_of x ob' = purged_of x ob)"
  proof (cases "map_of (ob_streams ob) tenant")
    case None
    then have "row_at tenant m ob = None" for m by (simp add: row_at_def)
    then show ?thesis using None ok by (auto simp: ob'_def erase_contacts_def split: option.split)
  next
    case (Some s)
    note at = stream_at[OF so Some]
    let ?s = "s\<lparr>sm_rows := filter (\<lambda>(_, row). \<not> names pn contacts row) (sm_rows s)\<rparr>"
    let ?named = "filter (\<lambda>(_, row). names pn contacts row) (sm_rows s)"
    have e: "ob' = forget_keys (dedup_keys_of ?named) (put_stream tenant ?s ob)"
      by (simp add: ob'_def erase_contacts_def Some Let_def)
    have rows: "map_of (sm_rows ?s) m = (case map_of (sm_rows s) m of None \<Rightarrow> None
        | Some row \<Rightarrow> if names pn contacts row then None else Some row)" for m
      using at(2) by (simp add: map_of_filter_values split: option.split)
    have "stream_ok tenant ?s"
      using at(1,2) rows by (auto simp: stream_ok_def split: option.splits if_splits simp del: map_of_filter_values)
    then have so': "streams_ok ob'" using streams_ok_put[OF so] by (simp add: e)
    have r: "row_at x m ob' = (case row_at x m ob of None \<Rightarrow> None
        | Some row \<Rightarrow> if x = tenant \<and> names pn contacts row then None else Some row)" for x m
      using rows at(5) by (simp add: e split: option.split)
    have "dedup_ok ob'"
    proof (rule dedup_removed[OF d, where gone = "\<lambda>x m row. x = tenant \<and> names pn contacts row"])
      show "map_of (ob_dedup ob') k = (if \<exists>x m row. row_at x m ob = Some row \<and> (x = tenant \<and> names pn contacts row)
          \<and> mr_dedup_key row = Some k then None else map_of (ob_dedup ob) k)" for k
        using at(2,5) by (auto simp: e in_dedup_keys_of omap_mem)
    qed (rule r)
    then show ?thesis using so' kd r at by (simp add: outbox_ok_def) (simp add: e)
  qed
  then show "outbox_ok ob'" "row_at x m ob' = (case row_at x m ob of None \<Rightarrow> None
      | Some row \<Rightarrow> if x = tenant \<and> names pn contacts row then None else Some row)"
    "last_of x ob' = last_of x ob" "purged_of x ob' = purged_of x ob" by blast+
qed

lemma forget_tenant:
  assumes ok: "outbox_ok ob"
  shows "outbox_ok (forget_tenant tenant ob)"
    and "row_at x m (forget_tenant tenant ob) = (if x = tenant then None else row_at x m ob)"
    and "last_of x (forget_tenant tenant ob) = last_of x ob"
    and "purged_of x (forget_tenant tenant ob) = (if x = tenant then last_of x ob else purged_of x ob)"
proof -
  have so: "streams_ok ob" and d: "dedup_ok ob" and kd: "keys_distinct (ob_dedup ob)"
    using ok by (simp_all add: outbox_ok_def)
  have "outbox_ok (forget_tenant tenant ob)
    \<and> (\<forall>x m. row_at x m (forget_tenant tenant ob) = (if x = tenant then None else row_at x m ob))
    \<and> (\<forall>x. last_of x (forget_tenant tenant ob) = last_of x ob
        \<and> purged_of x (forget_tenant tenant ob) = (if x = tenant then last_of x ob else purged_of x ob))"
  proof (cases "map_of (ob_streams ob) tenant")
    case None
    then show ?thesis using ok by (auto simp: forget_tenant_def row_at_def last_of_def purged_of_def)
  next
    case (Some s)
    note at = stream_at[OF so Some]
    let ?s = "s\<lparr>sm_rows := [], sm_purged_through := sm_last s\<rparr>"
    have e: "forget_tenant tenant ob = (put_stream tenant ?s ob)\<lparr>ob_dedup := filter (\<lambda>(_, (x, _)). x \<noteq> tenant) (ob_dedup ob)\<rparr>"
      by (simp add: forget_tenant_def Some)
    have "stream_ok tenant ?s" using at(1) by (auto simp: stream_ok_def)
    then have so': "streams_ok (forget_tenant tenant ob)" using streams_ok_put[OF so] by (simp add: e)
    have r: "row_at x m (forget_tenant tenant ob) = (if x = tenant then None else row_at x m ob)" for x m
      by (simp add: e)
    have "dedup_ok (forget_tenant tenant ob)"
    proof (rule dedup_removed[OF d, where gone = "\<lambda>x m row. x = tenant"])
      show "map_of (ob_dedup (forget_tenant tenant ob)) k = (if \<exists>x m row. row_at x m ob = Some row \<and> x = tenant
          \<and> mr_dedup_key row = Some k then None else map_of (ob_dedup ob) k)" for k
      proof (cases "map_of (ob_dedup ob) k")
        case None
        then have "map_of (filter (\<lambda>(_, (x, _)). x \<noteq> tenant) (ob_dedup ob)) k = None"
          by (auto simp: map_of_eq_None_iff)
        then show ?thesis using None by (simp add: e)
      next
        case (Some h)
        obtain x m where h: "h = (x, m)" by (cases h)
        have "(\<exists>x' m' row. row_at x' m' ob = Some row \<and> x' = tenant \<and> mr_dedup_key row = Some k) \<longleftrightarrow> x = tenant"
          using Some h d dedup_at[OF d] by (fastforce simp: dedup_ok_def)
        moreover have "map_of (filter (\<lambda>(_, (x, _)). x \<noteq> tenant) (ob_dedup ob)) k = (if x = tenant then None else Some (x, m))"
          using Some h kd map_of_al_filter[of "ob_dedup ob" "\<lambda>(_, (x, _)). x \<noteq> tenant" k] by simp
        ultimately show ?thesis using Some h by (simp add: e)
      qed
      show "row_at x m (forget_tenant tenant ob) = (case row_at x m ob of None \<Rightarrow> None
          | Some row \<Rightarrow> if x = tenant then None else Some row)" for x m
        by (simp add: r split: option.split)
    qed
    then show ?thesis using so' kd r at by (simp add: outbox_ok_def) (simp add: e)
  qed
  then show "outbox_ok (forget_tenant tenant ob)"
    "row_at x m (forget_tenant tenant ob) = (if x = tenant then None else row_at x m ob)"
    "last_of x (forget_tenant tenant ob) = last_of x ob"
    "purged_of x (forget_tenant tenant ob) = (if x = tenant then last_of x ob else purged_of x ob)" by blast+
qed

text \<open>A purge takes the rows up to the last of those past the cutoff.\<close>

definition past :: "time \<Rightarrow> memory_row \<Rightarrow> bool" where
  "past cutoff row \<longleftrightarrow> ev_created_at (mr_event row) < cutoff"

lemma purge_stream:
  fixes cutoff :: time
  assumes ok: "stream_ok name s"
  defines "s' \<equiv> snd (purge_stream cutoff s)"
  shows "stream_ok name s'" "sm_last s' = sm_last s" "sm_purged_through s \<le> sm_purged_through s'"
    and "map_of (sm_rows s') m = (if m \<le> sm_purged_through s' then None else map_of (sm_rows s) m)"
    and "(m, row) \<in> set (fst (purge_stream cutoff s))
      \<longleftrightarrow> m \<le> sm_purged_through s' \<and> map_of (sm_rows s) m = Some row"
    and "map_of (sm_rows s) m = Some row \<Longrightarrow> past cutoff row \<Longrightarrow> m \<le> sm_purged_through s'"
    and "map_of (sm_rows s) m = Some row \<Longrightarrow> m \<le> sm_purged_through s' \<Longrightarrow>
      \<exists>n old. map_of (sm_rows s) n = Some old \<and> past cutoff old \<and> m \<le> n"
proof -
  have om: "omap_ok (sm_rows s)" using ok by (simp add: stream_ok_def)
  note rows = ok[unfolded stream_ok_def, THEN conjunct2, THEN conjunct2, THEN conjunct2, rule_format]
  define old where "old = filter (\<lambda>(_, row). past cutoff row) (sm_rows s)"
  have old: "(n, r) \<in> set old \<longleftrightarrow> map_of (sm_rows s) n = Some r \<and> past cutoff r" for n r
    using om by (auto simp: old_def omap_mem)
  have all: "stream_ok name s' \<and> sm_last s' = sm_last s \<and> sm_purged_through s \<le> sm_purged_through s'
    \<and> (\<forall>m. map_of (sm_rows s') m = (if m \<le> sm_purged_through s' then None else map_of (sm_rows s) m))
    \<and> (\<forall>m row. (m, row) \<in> set (fst (purge_stream cutoff s))
        \<longleftrightarrow> m \<le> sm_purged_through s' \<and> map_of (sm_rows s) m = Some row)
    \<and> (\<forall>m row. map_of (sm_rows s) m = Some row \<longrightarrow> past cutoff row \<longrightarrow> m \<le> sm_purged_through s')
    \<and> (\<forall>m row. map_of (sm_rows s) m = Some row \<longrightarrow> m \<le> sm_purged_through s' \<longrightarrow>
        (\<exists>n old. map_of (sm_rows s) n = Some old \<and> past cutoff old \<and> m \<le> n))"
  proof (cases "old = []")
    case True
    then have e: "purge_stream cutoff s = ([], s)" by (simp add: purge_stream_def old_def past_def[abs_def])
    have "\<not> (map_of (sm_rows s) n = Some r \<and> past cutoff r)" for n r using old[of n r] True by simp
    moreover have "\<not> m \<le> sm_purged_through s" if "map_of (sm_rows s) m = Some r" for m r using rows[OF that] by simp
    moreover from this have "map_of (sm_rows s) m = None" if "m \<le> sm_purged_through s" for m
      using that by (cases "map_of (sm_rows s) m") auto
    ultimately show ?thesis using ok by (auto simp: s'_def e)
  next
    case False
    define t where "t = Max (set (map (\<lambda>(_, row). ev_sequence (mr_event row)) old))"
    have e: "purge_stream cutoff s = (filter (\<lambda>(n, _). n < t + 1) (sm_rows s),
        s\<lparr>sm_rows := filter (\<lambda>(n, _). t + 1 \<le> n) (sm_rows s), sm_purged_through := max (sm_purged_through s) t\<rparr>)"
      using False unfolding purge_stream_def past_def[symmetric] old_def[symmetric]
      by (cases old) (blast, simp only: list.case Let_def t_def)
    have seq: "set (map (\<lambda>(_, row). ev_sequence (mr_event row)) old) = fst ` set old"
      using rows old by (force simp: image_iff)
    have "t \<in> fst ` set old" unfolding t_def seq using False by (intro Max_in) auto
    then obtain r where r: "map_of (sm_rows s) t = Some r" "past cutoff r" using old by fastforce
    have upto: "n \<le> t" if "map_of (sm_rows s) n = Some q" "past cutoff q" for n q
      unfolding t_def seq using that old[of n q] by (intro Max_ge) (force simp: image_iff)+
    note t = rows[OF r(1)]
    have s': "sm_purged_through s' = t" "sm_last s' = sm_last s" "sm_rows s' = filter (\<lambda>(n, _). t + 1 \<le> n) (sm_rows s)"
      using t by (simp_all add: s'_def e)
    have map: "map_of (sm_rows s') m = (if m \<le> t then None else map_of (sm_rows s) m)" for m
      using om by (auto simp: s'(3) map_of_al_filter[OF omap_keys_distinct] split: option.split)
    have "stream_ok name s'"
      using om rows t ok map unfolding stream_ok_def s'(1,2) by (auto simp: s'(3) split: if_splits)
    then show ?thesis using map upto r t om by (auto simp: s'(1,2) e omap_mem)
  qed
  show "stream_ok name s'" "sm_last s' = sm_last s" "sm_purged_through s \<le> sm_purged_through s'"
    "map_of (sm_rows s') m = (if m \<le> sm_purged_through s' then None else map_of (sm_rows s) m)"
    "(m, row) \<in> set (fst (purge_stream cutoff s))
      \<longleftrightarrow> m \<le> sm_purged_through s' \<and> map_of (sm_rows s) m = Some row"
    using all by blast+
  show "map_of (sm_rows s) m = Some row \<Longrightarrow> past cutoff row \<Longrightarrow> m \<le> sm_purged_through s'"
    "map_of (sm_rows s) m = Some row \<Longrightarrow> m \<le> sm_purged_through s' \<Longrightarrow>
      \<exists>n old. map_of (sm_rows s) n = Some old \<and> past cutoff old \<and> m \<le> n"
    using all by blast+
qed

lemma purge_events:
  fixes now :: time and older_than :: duration
  assumes ok: "outbox_ok ob"
  defines "ob' \<equiv> snd (purge_events now older_than ob)"
  shows "outbox_ok ob'" "last_of x ob' = last_of x ob" "purged_of x ob \<le> purged_of x ob'"
    and "row_at x m ob' = (if m \<le> purged_of x ob' then None else row_at x m ob)"
    and "row_at x m ob = Some row \<Longrightarrow> past (now - int older_than) row \<Longrightarrow> m \<le> purged_of x ob'"
    and "row_at x m ob = Some row \<Longrightarrow> m \<le> purged_of x ob' \<Longrightarrow>
      \<exists>n old. row_at x n ob = Some old \<and> past (now - int older_than) old \<and> m \<le> n"
proof -
  have so: "streams_ok ob" and d: "dedup_ok ob" and kd: "keys_distinct (ob_dedup ob)"
    using ok by (simp_all add: outbox_ok_def)
  define cut where "cut = now - int older_than"
  let ?purge = "\<lambda>s. snd (purge_stream cut s)"
  define removed where "removed = concat (map (\<lambda>(_, stream). fst (purge_stream cut stream)) (ob_streams ob))"
  have e: "ob' = forget_keys (dedup_keys_of removed) (ob\<lparr>ob_streams := map_values ?purge (ob_streams ob)\<rparr>)"
    by (simp add: ob'_def purge_events_def Let_def removed_def cut_def map_values_def)
  have streams: "map_of (ob_streams ob') x = map_option ?purge (map_of (ob_streams ob) x)" for x
    by (simp add: e forget_keys_def)
  have none: "row_at x m ob' = None \<and> row_at x m ob = None \<and> last_of x ob' = 0 \<and> last_of x ob = 0
      \<and> purged_of x ob' = 0 \<and> purged_of x ob = 0" if "map_of (ob_streams ob) x = None" for x m
    using that streams[of x] by (simp add: row_at_def last_of_def purged_of_def)
  have stream: "stream_ok x s" if "map_of (ob_streams ob) x = Some s" for x s
    using so that by (simp add: streams_ok_def)
  have some: "row_at x m ob' = map_of (sm_rows (?purge s)) m \<and> row_at x m ob = map_of (sm_rows s) m
      \<and> last_of x ob' = sm_last (?purge s) \<and> last_of x ob = sm_last s
      \<and> purged_of x ob' = sm_purged_through (?purge s) \<and> purged_of x ob = sm_purged_through s"
    if "map_of (ob_streams ob) x = Some s" for x m s
    using that streams[of x] by (simp add: row_at_def last_of_def purged_of_def)
  have rows: "row_at x m ob' = (if m \<le> purged_of x ob' then None else row_at x m ob)" for x m
  proof (cases "map_of (ob_streams ob) x")
    case None
    then show ?thesis using none[of x m] by simp
  next
    case (Some s)
    then show ?thesis using some[OF Some] purge_stream(4)[OF stream[OF Some]] by simp
  qed
  show "row_at x m ob' = (if m \<le> purged_of x ob' then None else row_at x m ob)" by (rule rows)
  show "last_of x ob' = last_of x ob" "purged_of x ob \<le> purged_of x ob'"
    using none[of x] some[of x] purge_stream(2,3)[OF stream, of x]
    by (cases "map_of (ob_streams ob) x"; simp)+
  show "row_at x m ob = Some row \<Longrightarrow> past (now - int older_than) row \<Longrightarrow> m \<le> purged_of x ob'"
    using none[of x m] some[of x _ m] purge_stream(6)[OF stream, of x _ m row cut]
    by (cases "map_of (ob_streams ob) x") (simp_all add: cut_def)
  show "row_at x m ob = Some row \<Longrightarrow> m \<le> purged_of x ob' \<Longrightarrow>
      \<exists>n old. row_at x n ob = Some old \<and> past (now - int older_than) old \<and> m \<le> n"
    using none[of x m] some[of x] purge_stream(7)[OF stream, of x _ m row cut]
    by (cases "map_of (ob_streams ob) x") (simp_all add: cut_def)
  have "keys_distinct (ob_streams ob')" using so
    by (simp add: e forget_keys_def streams_ok_def keys_distinct_def) (simp add: map_values_def comp_def case_prod_unfold)
  then have so': "streams_ok ob'"
    using purge_stream(1)[OF stream] by (auto simp: streams_ok_def streams)
  have gone: "(\<exists>n. (n, row) \<in> set removed \<and> mr_dedup_key row = Some k)
      \<longleftrightarrow> (\<exists>x m. row_at x m ob = Some row \<and> m \<le> purged_of x ob' \<and> mr_dedup_key row = Some k)" for k row
  proof -
    have "(n, row) \<in> set removed \<longleftrightarrow> (\<exists>x s. map_of (ob_streams ob) x = Some s \<and> (n, row) \<in> set (fst (purge_stream cut s)))" for n
      using so by (force simp: removed_def streams_ok_def keys_distinct_def map_of_eq_Some_iff)
    also have "\<dots> n \<longleftrightarrow> (\<exists>x. row_at x n ob = Some row \<and> n \<le> purged_of x ob')" for n
    proof -
      have "(n, row) \<in> set (fst (purge_stream cut s)) \<longleftrightarrow> row_at x n ob = Some row \<and> n \<le> purged_of x ob'"
        if "map_of (ob_streams ob) x = Some s" for x s
        using some[OF that] purge_stream(5)[OF stream[OF that]] by auto
      moreover have "\<exists>s. map_of (ob_streams ob) x = Some s" if "row_at x n ob = Some row" for x
        using row_stream[OF that] by blast
      ultimately show ?thesis by blast
    qed
    finally show ?thesis by blast
  qed
  have "dedup_ok ob'"
  proof (rule dedup_removed[OF d, where gone = "\<lambda>x m row. m \<le> purged_of x ob'"])
    show "row_at x m ob' = (case row_at x m ob of None \<Rightarrow> None
        | Some row \<Rightarrow> if m \<le> purged_of x ob' then None else Some row)" for x m
      by (simp add: rows split: option.split)
    show "map_of (ob_dedup ob') k = (if \<exists>x m row. row_at x m ob = Some row \<and> m \<le> purged_of x ob'
        \<and> mr_dedup_key row = Some k then None else map_of (ob_dedup ob) k)" for k
    proof -
      have "k \<in> set (dedup_keys_of removed) \<longleftrightarrow>
          (\<exists>x m row. row_at x m ob = Some row \<and> m \<le> purged_of x ob' \<and> mr_dedup_key row = Some k)"
        unfolding in_dedup_keys_of using gone by blast
      then show ?thesis by (simp add: e)
    qed
  qed
  then show "outbox_ok ob'" using so' kd by (simp add: outbox_ok_def) (simp add: e)
qed

end
