(* ===== verification/Outbox_Safety.thy ===== *)
theory Outbox_Safety
  imports Outbox_Invariant
begin

text \<open>
  The theorems on the event outbox: what any sequence of calls keeps, what an insert records and when
  it refuses, to whom an event is routed, and what a reader that follows the pages sees.
\<close>

section \<open>Runs of calls\<close>

datatype outbox_call =
  InsertEvent srv_state time new_event
  | PurgeEvents time duration
  | EraseContacts string string "string list"
  | ForgetTenant string

definition outbox_step :: "(string \<Rightarrow> json option) \<Rightarrow> outbox_call \<Rightarrow> outbox_state \<Rightarrow> outbox_state" where
  "outbox_step parse c ob =
     (case c of
        InsertEvent records now e \<Rightarrow> snd (insert_event parse records now e ob)
      | PurgeEvents now older_than \<Rightarrow> snd (purge_events now older_than ob)
      | EraseContacts tenant pn contacts \<Rightarrow> snd (erase_contacts tenant pn contacts ob)
      | ForgetTenant tenant \<Rightarrow> forget_tenant tenant ob)"

definition outbox_run :: "(string \<Rightarrow> json option) \<Rightarrow> outbox_call list \<Rightarrow> outbox_state \<Rightarrow> outbox_state" where
  "outbox_run parse calls ob = fold (outbox_step parse) calls ob"

lemma outbox_run_simps [simp]:
  "outbox_run parse [] ob = ob"
  "outbox_run parse (c # calls) ob = outbox_run parse calls (outbox_step parse c ob)"
  "outbox_run parse (calls @ calls') ob = outbox_run parse calls' (outbox_run parse calls ob)"
  by (simp_all add: outbox_run_def)

definition content_at :: "string \<Rightarrow> int \<Rightarrow> outbox_state \<Rightarrow> (stored_event \<times> string list) option" where
  "content_at x n ob = map_option (\<lambda>row. (mr_event row, mr_contacts row)) (row_at x n ob)"

lemma content_at_row: "row_at x n ob = Some row \<Longrightarrow> content_at x n ob = Some (mr_event row, mr_contacts row)"
  by (simp add: content_at_def)

text \<open>What a call may change: a row lets its key go or leaves, and new rows come after the last.\<close>

definition outbox_kept :: "outbox_state \<Rightarrow> outbox_state \<Rightarrow> bool" where
  "outbox_kept ob ob' \<longleftrightarrow>
     outbox_ok ob'
     \<and> (\<forall>x. last_of x ob \<le> last_of x ob' \<and> purged_of x ob \<le> purged_of x ob')
     \<and> (\<forall>x n. n \<le> last_of x ob \<longrightarrow> content_at x n ob' = None \<or> content_at x n ob' = content_at x n ob)"

lemma outbox_kept_refl: "outbox_ok ob \<Longrightarrow> outbox_kept ob ob"
  by (simp add: outbox_kept_def)

lemma outbox_kept_trans: "outbox_kept ob ob1 \<Longrightarrow> outbox_kept ob1 ob2 \<Longrightarrow> outbox_kept ob ob2"
  unfolding outbox_kept_def by (metis order_trans)

lemma kept_at: "outbox_kept ob ob' \<Longrightarrow> n \<le> last_of x ob \<Longrightarrow> content_at x n ob' = Some r \<Longrightarrow> content_at x n ob = Some r"
  unfolding outbox_kept_def by (metis option.distinct(1))

text \<open>A row holds the event's key and its window has not ended.\<close>

definition key_held :: "new_event \<Rightarrow> outbox_state \<Rightarrow> bool" where
  "key_held e ob \<longleftrightarrow>
     (\<exists>key x n row. ne_dedup_key e = Some key \<and> row_at x n ob = Some row \<and> mr_dedup_key row = Some key
       \<and> \<not> (\<exists>until window. mr_dedup_until row = Some until \<and> ne_dedup_window e = Some window \<and> until \<le> dw_now window))"

lemma free_key_None:
  assumes ok: "outbox_ok ob"
  shows "free_key e ob = None \<longleftrightarrow> key_held e ob"
proof
  let ?held = "\<lambda>key x n row. ne_dedup_key e = Some key \<and> row_at x n ob = Some row \<and> mr_dedup_key row = Some key
    \<and> \<not> (\<exists>until window. mr_dedup_until row = Some until \<and> ne_dedup_window e = Some window \<and> until \<le> dw_now window)"
  assume none: "free_key e ob = None"
  have d: "dedup_ok ob" using ok by (simp add: outbox_ok_def)
  from none obtain key x n where key: "ne_dedup_key e = Some key" "map_of (ob_dedup ob) key = Some (x, n)"
    by (auto simp: free_key_def bind_eq_Some_conv split: option.splits)
  then obtain row where row: "row_at x n ob = Some row" "mr_dedup_key row = Some key"
    using d unfolding dedup_ok_def by blast
  have "?held key x n row" using none key row by (auto simp: free_key_def split: option.splits if_splits)
  then show "key_held e ob" unfolding key_held_def by blast
next
  assume "key_held e ob"
  then obtain key x n row where h: "ne_dedup_key e = Some key" "row_at x n ob = Some row" "mr_dedup_key row = Some key"
      "\<not> (\<exists>until window. mr_dedup_until row = Some until \<and> ne_dedup_window e = Some window \<and> until \<le> dw_now window)"
    unfolding key_held_def by blast
  show "free_key e ob = None"
  proof (rule ccontr)
    assume "free_key e ob \<noteq> None"
    then obtain ob' where "free_key e ob = Some ob'" by blast
    from free_key(4)[OF ok this, where key = key and name = x and n = n and row = row] h show False by blast
  qed
qed

lemma insert_refused: "free_key e ob = None \<Longrightarrow> insert_event parse records now e ob = (None, ob)"
  by (simp add: insert_event_def)

lemma inserted_content:
  assumes ok: "outbox_ok ob" and free: "free_key e ob = Some ob1"
    and other: "(x, n) \<noteq> (stream_of (routed_tenant records e), last_of (stream_of (routed_tenant records e)) ob + 1)"
  shows "content_at x n (snd (insert_event parse records now e ob)) = content_at x n ob"
proof -
  have "content_at x n ob1 = content_at x n ob"
    using free_key(2)[OF ok free, unfolded same_rows_def, THEN spec[of _ x], THEN spec[of _ n]]
    by (cases "row_at x n ob"; cases "row_at x n ob1") (auto simp: content_at_def)
  moreover have "row_at x n (snd (insert_event parse records now e ob)) = row_at x n ob1"
    using other by (auto simp: insert_event(3)[OF ok free])
  ultimately show ?thesis by (simp add: content_at_def)
qed

lemma insert_kept:
  assumes ok: "outbox_ok ob"
  shows "outbox_kept ob (snd (insert_event parse records now e ob))"
proof (cases "free_key e ob")
  case None
  then show ?thesis using ok by (simp add: insert_refused outbox_kept_refl)
next
  case (Some ob1)
  note i = insert_event[OF ok Some, where parse = parse and records = records and now = now]
  have "content_at x n (snd (insert_event parse records now e ob)) = content_at x n ob"
    if "n \<le> last_of x ob" for x n
    by (rule inserted_content[OF ok Some]) (use that in auto)
  then show ?thesis using i(2,4,5) by (simp add: outbox_kept_def)
qed

lemma step_kept:
  assumes ok: "outbox_ok ob"
  shows "outbox_kept ob (outbox_step parse c ob)"
proof (cases c)
  case (InsertEvent records now e)
  then show ?thesis using insert_kept[OF ok] by (simp add: outbox_step_def)
next
  case (PurgeEvents now older_than)
  then show ?thesis using purge_events[OF ok, where now = now and older_than = older_than]
    by (auto simp: outbox_step_def outbox_kept_def content_at_def split: if_splits)
next
  case (EraseContacts tenant pn contacts)
  then show ?thesis using erase_contacts[OF ok, where tenant = tenant and pn = pn and contacts = contacts]
    by (auto simp: outbox_step_def outbox_kept_def content_at_def split: option.splits if_splits)
next
  case (ForgetTenant tenant)
  have "purged_of x ob \<le> last_of x ob" for x
    using ok by (auto simp: outbox_ok_def streams_ok_def stream_ok_def last_of_def purged_of_def split: option.split)
  with ForgetTenant show ?thesis using forget_tenant[OF ok, where tenant = tenant]
    by (auto simp: outbox_step_def outbox_kept_def content_at_def split: if_splits)
qed

lemma run_kept: "outbox_ok ob \<Longrightarrow> outbox_kept ob (outbox_run parse calls ob)"
proof (induction calls arbitrary: ob)
  case (Cons c calls)
  have k: "outbox_kept ob (outbox_step parse c ob)" by (rule step_kept[OF Cons.prems])
  then have "outbox_ok (outbox_step parse c ob)" by (simp add: outbox_kept_def)
  from outbox_kept_trans[OF k Cons.IH[OF this]] show ?case by simp
qed (simp add: outbox_kept_refl)

lemma run_ok [simp]: "outbox_ok (outbox_run parse calls outbox_empty)"
  using run_kept[OF outbox_ok_empty] by (simp add: outbox_kept_def)

section \<open>Where a row comes from\<close>

lemma step_row:
  assumes ok: "outbox_ok ob" and at: "content_at x n (outbox_step parse c ob) = Some r"
  shows "content_at x n ob = Some r
    \<or> (\<exists>records now e. c = InsertEvent records now e \<and> x = stream_of (routed_tenant records e)
        \<and> r = (mr_event (new_row parse records now n e), event_contacts parse (ne_data e)))"
proof (cases "n \<le> last_of x ob")
  case True
  then show ?thesis using kept_at[OF step_kept[OF ok] True at] by simp
next
  case False
  have none: "row_at x n ob = None"
    using row_bounds[of ob x n] ok False by (cases "row_at x n ob") (auto simp: outbox_ok_def)
  show ?thesis
  proof (cases c)
    case (InsertEvent records now e)
    show ?thesis
    proof (cases "free_key e ob")
      case None
      then show ?thesis using at by (simp add: InsertEvent outbox_step_def insert_refused)
    next
      case (Some ob1)
      have "row_at x n ob1 = None"
        using free_key(2)[OF ok Some, unfolded same_rows_def, THEN spec[of _ x], THEN spec[of _ n]] none by simp
      then show ?thesis using at insert_event(3)[OF ok Some, where parse = parse and records = records and now = now]
        by (auto simp: InsertEvent outbox_step_def content_at_def new_row_def split: if_splits)
    qed
  next
    case (PurgeEvents now older_than)
    then show ?thesis using at none purge_events(4)[OF ok, where now = now and older_than = older_than]
      by (simp add: outbox_step_def content_at_def split: if_splits)
  next
    case (EraseContacts tenant pn contacts)
    then show ?thesis using at none erase_contacts(2)[OF ok, where tenant = tenant and pn = pn and contacts = contacts]
      by (simp add: outbox_step_def content_at_def)
  next
    case (ForgetTenant tenant)
    then show ?thesis using at none forget_tenant(2)[OF ok, where tenant = tenant]
      by (simp add: outbox_step_def content_at_def split: if_splits)
  qed
qed

lemma run_row:
  assumes "content_at x n (outbox_run parse calls outbox_empty) = Some r"
  shows "\<exists>records now e. InsertEvent records now e \<in> set calls \<and> x = stream_of (routed_tenant records e)
    \<and> r = (mr_event (new_row parse records now n e), event_contacts parse (ne_data e))"
  using assms
proof (induction calls rule: rev_induct)
  case Nil
  then show ?case by (simp add: content_at_def row_at_def outbox_empty_def)
next
  case (snoc c calls)
  from step_row[OF run_ok snoc.prems[unfolded outbox_run_simps]] snoc.IH show ?case by fastforce
qed

section \<open>An example\<close>

definition routed_event :: "string \<Rightarrow> new_event" where
  "routed_event i =
     \<lparr>ne_id = i, ne_dedup_key = Some i, ne_dedup_window = None, ne_tenant = Some ''a'',
      ne_route_guard = Some \<lparr>rg_binding = GuardWaba ''1'', rg_not_after = Some (9 * 1000000000),
        rg_after_move = \<lparr>am_skew_margin = 1000000000, am_undated_moved_by = None\<rparr>\<rparr>,
      ne_phone_number_id = Some ''5'', ne_waba_id = Some ''1'', ne_event_type = ''flow'', ne_data = ''{}''\<rparr>"

definition holding_example :: srv_state where
  "holding_example = srv_empty\<lparr>ss_wabas := [(''1'', \<lparr>wb_waba_id = ''1'', wb_tenant_id = ''a'',
     wb_credit_allocation_id = None, wb_attached_at = 7 * 1000000000, wb_generation = 1,
     wb_previous_tenant_unbound_at = Some 0\<rparr>)]\<rparr>"

definition first_call :: outbox_call where
  "first_call = InsertEvent holding_example 20 (routed_event ''x'')"

definition second_call :: outbox_call where
  "second_call = InsertEvent holding_example 21 (routed_event ''y'')"

definition example_calls :: "outbox_call list" where
  "example_calls = [first_call, second_call]"

definition no_json :: "string \<Rightarrow> json option" where
  "no_json s = None"

lemma example_routed: "routed_tenant holding_example (routed_event i) = Some ''a''"
  by (simp add: routed_tenant_def routed_event_def guard_holds_def holding_example_def guarded_waba_id_def admits_def
      dated_bounds_of_def Let_def unix_timestamp_def I64_MAX_def i64_saturating_sub_def I64_MIN_def margin_seconds_def
      U64_MAX_def UNRECORDED_MOVE_def)

lemma routed_event_fields:
  "ne_dedup_key (routed_event i) = Some i" "ne_dedup_window (routed_event i) = None"
  "ne_id (routed_event i) = i" "ne_data (routed_event i) = ''{}''" "ne_event_type (routed_event i) = ''flow''"
  "ne_phone_number_id (routed_event i) = Some ''5''"
  by (simp_all add: routed_event_def)

text \<open>Two events for the holder of a WABA that another tenant had before.\<close>

lemma example_rows:
  "row_at ''a'' 1 (outbox_run no_json example_calls outbox_empty) = Some (new_row no_json holding_example 20 1 (routed_event ''x''))"
  "row_at ''a'' 2 (outbox_run no_json example_calls outbox_empty) = Some (new_row no_json holding_example 21 2 (routed_event ''y''))"
  "last_of ''a'' (outbox_run no_json example_calls outbox_empty) = 2"
  "last_of ''a'' (outbox_run no_json [first_call] outbox_empty) = 1"
  by (simp_all add: example_calls_def first_call_def second_call_def outbox_step_def insert_event_def free_key_def example_routed routed_event_fields
      stream_of_def Let_def put_stream_def row_at_def last_of_def outbox_empty_def stream_empty_def new_row_def)

section \<open>Rows\<close>

text \<open>
  C36. A row never changes and its number is never given again: after any later calls it is the same
  event or gone, and no stream goes back. A stream's rows lie above what it says was purged and up to
  its last number, under their own number, and in the stream of their tenant.
\<close>

theorem numbers_never_reused:
  fixes calls later :: "outbox_call list"
  shows "n \<le> last_of x (outbox_run parse calls outbox_empty) \<Longrightarrow>
      row_at x n (outbox_run parse (calls @ later) outbox_empty) = Some row \<Longrightarrow>
      (\<exists>row'. row_at x n (outbox_run parse calls outbox_empty) = Some row' \<and> mr_event row = mr_event row'
        \<and> mr_contacts row = mr_contacts row')
      \<and> last_of x (outbox_run parse calls outbox_empty) \<le> last_of x (outbox_run parse (calls @ later) outbox_empty)
      \<and> purged_of x (outbox_run parse calls outbox_empty) \<le> purged_of x (outbox_run parse (calls @ later) outbox_empty)
      \<and> purged_of x (outbox_run parse (calls @ later) outbox_empty) < n \<and> ev_sequence (mr_event row) = n
      \<and> stream_of (ev_tenant (mr_event row)) = x"
proof -
  let ?ob = "outbox_run parse calls outbox_empty"
  let ?ob' = "outbox_run parse (calls @ later) outbox_empty"
  assume n: "n \<le> last_of x ?ob" and row: "row_at x n ?ob' = Some row"
  have k: "outbox_kept ?ob ?ob'" by (simp add: run_kept)
  then have so: "streams_ok ?ob'" by (simp add: outbox_kept_def outbox_ok_def)
  from kept_at[OF k n content_at_row[OF row]]
  have "\<exists>row'. row_at x n ?ob = Some row' \<and> mr_event row = mr_event row' \<and> mr_contacts row = mr_contacts row'"
    by (auto simp: content_at_def)
  then show ?thesis using k row_bounds[OF so row] by (simp add: outbox_kept_def)
qed

lemma numbers_never_reused_witness:
  "last_of ''a'' (outbox_run no_json [first_call] outbox_empty) \<le> last_of ''a'' (outbox_run no_json example_calls outbox_empty)
   \<and> ev_sequence (mr_event (new_row no_json holding_example 20 1 (routed_event ''x''))) = 1"
  using numbers_never_reused[of 1 "''a''" no_json "[first_call]" "[second_call]"
      "new_row no_json holding_example 20 1 (routed_event ''x'')"] example_rows(1,4)
  by (simp add: example_calls_def)

text \<open>
  C34. An event is recorded once: an insert is refused, and changes nothing, exactly when a row holds the
  event's key and its window has not ended; otherwise it takes the next number of its tenant's stream
  and leaves every other event as it was. No two rows hold one key.
\<close>

theorem event_recorded_once:
  fixes calls :: "outbox_call list" and records :: srv_state
  shows "let ob = outbox_run parse calls outbox_empty; ob' = snd (insert_event parse records now e ob);
      name = stream_of (routed_tenant records e); n = last_of name ob + 1
    in (if key_held e ob then insert_event parse records now e ob = (None, ob)
        else fst (insert_event parse records now e ob) = Some n
          \<and> row_at name n ob' = Some (new_row parse records now n e)
          \<and> (\<forall>x m. (x, m) \<noteq> (name, n) \<longrightarrow> content_at x m ob' = content_at x m ob))
     \<and> (\<forall>key x n row y m row'. row_at x n ob = Some row \<and> mr_dedup_key row = Some key
          \<and> row_at y m ob = Some row' \<and> mr_dedup_key row' = Some key \<longrightarrow> (x, n) = (y, m))"
proof -
  let ?ob = "outbox_run parse calls outbox_empty"
  have ok: "outbox_ok ?ob" by simp
  have "(x, n) = (y, m)" if "row_at x n ?ob = Some row" "mr_dedup_key row = Some key"
      "row_at y m ?ob = Some row'" "mr_dedup_key row' = Some key" for key x n row y m row'
    using dedup_at[of ?ob, OF _ that(1,2)] dedup_at[of ?ob, OF _ that(3,4)] ok by (simp add: outbox_ok_def)
  moreover have "if key_held e ?ob then insert_event parse records now e ?ob = (None, ?ob)
      else fst (insert_event parse records now e ?ob) = Some (last_of name ?ob + 1)
        \<and> row_at name (last_of name ?ob + 1) (snd (insert_event parse records now e ?ob))
            = Some (new_row parse records now (last_of name ?ob + 1) e)
        \<and> (\<forall>x m. (x, m) \<noteq> (name, last_of name ?ob + 1) \<longrightarrow>
             content_at x m (snd (insert_event parse records now e ?ob)) = content_at x m ?ob)"
    if name: "name = stream_of (routed_tenant records e)" for name
  proof (cases "free_key e ?ob")
    case None
    then show ?thesis using free_key_None[OF ok, of e] by (simp add: insert_refused)
  next
    case (Some ob1)
    then have "\<not> key_held e ?ob" using free_key_None[OF ok, of e] by simp
    then show ?thesis using inserted_content[OF ok Some]
      insert_event(1,3)[OF ok Some, where parse = parse and records = records and now = now] by (simp add: name)
  qed
  ultimately show ?thesis unfolding Let_def by blast
qed

lemma event_recorded_once_witness:
  "insert_event no_json holding_example 22 (routed_event ''x'') (outbox_run no_json example_calls outbox_empty)
     = (None, outbox_run no_json example_calls outbox_empty)"
proof -
  have "key_held (routed_event ''x'') (outbox_run no_json example_calls outbox_empty)"
    unfolding key_held_def
    by (intro exI[of _ "''x''"] exI[of _ "''a''"] exI[of _ 1] exI[of _ "new_row no_json holding_example 20 1 (routed_event ''x'')"])
      (simp add: example_rows routed_event_fields, simp add: new_row_def routed_event_fields)
  then show ?thesis
    using event_recorded_once[where parse = no_json and calls = example_calls and now = 22 and e = "routed_event ''x''" and records = holding_example] by (simp add: Let_def)
qed

section \<open>Routing\<close>

lemma admits_dated:
  assumes "admits g attached previous" and "rg_not_after g = Some at" and "0 \<le> attached"
  shows "unix_timestamp attached + (if previous = None then 0 else margin_seconds (rg_after_move g) + 1) \<le> unix_timestamp at"
proof -
  have "0 \<le> unix_timestamp attached" using assms(3) by (simp add: unix_timestamp_def)
  then show ?thesis using assms
    by (cases previous)
      (auto simp: admits_def dated_bounds_of_def Let_def i64_saturating_sub_def UNRECORDED_MOVE_def
        unix_timestamp_def[of 0] I64_MIN_def min_def max_def split: if_splits)
qed

lemma admits_undated:
  "admits g attached (Some left) \<Longrightarrow> rg_not_after g = None \<Longrightarrow> am_undated_moved_by (rg_after_move g) = Some moved
    \<Longrightarrow> left \<le> moved"
  by (simp add: admits_def dated_bounds_of_def)

text \<open>
  C35. An event is in a tenant's stream only if its router named that tenant and, on the bindings at the
  insert, the event's WABA (and number) was the tenant's, bound no later than the second of the event;
  when another tenant had held the WABA, earlier than that by more than the margin, and an undated
  event arrived with that tenant's release already past.
\<close>

theorem event_routed_to_holder:
  "row_at x n (outbox_run parse calls outbox_empty) = Some row \<Longrightarrow> ev_tenant (mr_event row) = Some tenant \<Longrightarrow>
    \<exists>records now e g w. InsertEvent records now e \<in> set calls \<and> mr_event row = mr_event (new_row parse records now n e)
      \<and> ne_tenant e = Some tenant \<and> ne_route_guard e = Some g
      \<and> map_of (ss_wabas records) (guarded_waba_id (rg_binding g)) = Some w \<and> wb_tenant_id w = tenant
      \<and> (\<forall>pn waba. rg_binding g = GuardNumber pn waba \<longrightarrow>
           (\<exists>b. map_of (ss_numbers records) pn = Some b \<and> nb_tenant_id b = tenant \<and> nb_waba_id b = waba))
      \<and> (\<forall>at. rg_not_after g = Some at \<longrightarrow> 0 \<le> wb_attached_at w \<longrightarrow>
           unix_timestamp (wb_attached_at w)
             + (if wb_previous_tenant_unbound_at w = None then 0 else margin_seconds (rg_after_move g) + 1)
           \<le> unix_timestamp at)
      \<and> (\<forall>left moved. rg_not_after g = None \<longrightarrow> wb_previous_tenant_unbound_at w = Some left \<longrightarrow>
           am_undated_moved_by (rg_after_move g) = Some moved \<longrightarrow> left \<le> moved)"
proof -
  assume row: "row_at x n (outbox_run parse calls outbox_empty) = Some row" and t: "ev_tenant (mr_event row) = Some tenant"
  from run_row[OF content_at_row[OF row]] obtain records now e where e: "InsertEvent records now e \<in> set calls"
      "mr_event row = mr_event (new_row parse records now n e)"
    by auto
  then have "routed_tenant records e = Some tenant" using t by (simp add: new_row_def)
  then obtain g where g: "ne_tenant e = Some tenant" "ne_route_guard e = Some g" "guard_holds records tenant g"
    by (auto simp: routed_tenant_def split: option.splits if_splits)
  then obtain w where w: "map_of (ss_wabas records) (guarded_waba_id (rg_binding g)) = Some w" "wb_tenant_id w = tenant"
      "admits g (wb_attached_at w) (wb_previous_tenant_unbound_at w)"
    by (auto simp: guard_holds_def split: option.splits)
  have number: "\<exists>b. map_of (ss_numbers records) pn = Some b \<and> nb_tenant_id b = tenant \<and> nb_waba_id b = waba"
    if "rg_binding g = GuardNumber pn waba" for pn waba
    using g(3) that by (simp add: guard_holds_def split: option.splits)
  show ?thesis
    by (rule exI[of _ records], rule exI[of _ now], rule exI[of _ e], rule exI[of _ g], rule exI[of _ w])
      (use e g w number admits_dated[OF w(3)] admits_undated[of g "wb_attached_at w"] in auto)
qed

lemma event_routed_to_holder_witness:
  "\<exists>records now e (g :: route_guard) w. InsertEvent records now e \<in> set example_calls \<and> ne_tenant e = Some ''a''
     \<and> map_of (ss_wabas records) (guarded_waba_id (rg_binding g)) = Some w \<and> wb_tenant_id w = ''a''"
proof -
  have "ev_tenant (mr_event (new_row no_json holding_example 20 1 (routed_event ''x''))) = Some ''a''"
    by (simp add: new_row_def example_routed)
  from event_routed_to_holder[OF example_rows(1) this] show ?thesis by blast
qed

section \<open>Erased contacts\<close>

text \<open>
  After a tenant erases contacts on a number, no event of its stream on that number names one of
  them; every other row is as it was.
\<close>

theorem erased_contacts_unnamed:
  fixes calls :: "outbox_call list"
  shows "row_at x n (snd (erase_contacts tenant pn contacts (outbox_run parse calls outbox_empty))) = Some row \<longleftrightarrow>
    row_at x n (outbox_run parse calls outbox_empty) = Some row
    \<and> \<not> (x = tenant \<and> ev_phone_number_id (mr_event row) = Some pn
        \<and> set (event_contacts parse (ev_data (mr_event row))) \<inter> set contacts \<noteq> {})"
proof -
  let ?ob = "outbox_run parse calls outbox_empty"
  have "mr_contacts r = event_contacts parse (ev_data (mr_event r))" if "row_at x n ?ob = Some r" for r
    using run_row[OF content_at_row[OF that]] by (auto simp: new_row_def)
  then have "names pn contacts r \<longleftrightarrow> ev_phone_number_id (mr_event r) = Some pn
      \<and> set (event_contacts parse (ev_data (mr_event r))) \<inter> set contacts \<noteq> {}" if "row_at x n ?ob = Some r" for r
    using that by (auto simp: names_def)
  then show ?thesis
    using erase_contacts(2)[OF run_ok, where x = x and m = n and tenant = tenant and pn = pn and contacts = contacts
      and parse1 = parse and calls1 = calls]
    by (auto split: option.splits if_splits)
qed

section \<open>Reading page by page\<close>

lemma take_page_prefix:
  "\<exists>k\<le>length rows. take_page limit max_bytes bytes events rows = (events @ take k rows, k < length rows)
     \<and> (events = [] \<longrightarrow> 0 < limit \<longrightarrow> rows \<noteq> [] \<longrightarrow> 0 < k)
     \<and> (length events \<le> limit \<longrightarrow> length events + k \<le> limit)"
proof (induction rows arbitrary: bytes events)
  case (Cons row rows)
  let ?b = "min U64_MAX (bytes + length (ev_data row))"
  show ?case
  proof (cases "length events = limit \<or> events \<noteq> [] \<and> max_bytes < ?b")
    case True
    then show ?thesis by (intro exI[of _ 0]) (auto simp: Let_def)
  next
    case False
    obtain k where k: "k \<le> length rows"
        "take_page limit max_bytes ?b (events @ [row]) rows = ((events @ [row]) @ take k rows, k < length rows)"
        "length (events @ [row]) \<le> limit \<longrightarrow> length (events @ [row]) + k \<le> limit"
      using Cons.IH[of ?b "events @ [row]"] by blast
    then show ?thesis using False
      by (intro exI[of _ "Suc k"]) (simp add: Let_def)
  qed
qed simp

text \<open>The events a query asks for, over a stream that may be absent.\<close>

definition wanted :: "event_query \<Rightarrow> stored_event \<Rightarrow> bool" where
  "wanted q e \<longleftrightarrow> type_wanted (eq_types q) e \<and> number_wanted (eq_phone_number_id q) e"

definition cursor_of :: "event_query \<Rightarrow> outbox_state \<Rightarrow> int" where
  "cursor_of q ob = (case eq_after q of None \<Rightarrow> purged_of (eq_tenant q) ob | Some a \<Rightarrow> a)"

definition events_wanted :: "event_query \<Rightarrow> outbox_state \<Rightarrow> stored_event list" where
  "events_wanted q ob =
     filter (\<lambda>e. wanted q e \<and> cursor_of q ob < ev_sequence e)
       (case map_of (ob_streams ob) (eq_tenant q) of None \<Rightarrow> [] | Some s \<Rightarrow> map (\<lambda>(_, row). mr_event row) (sm_rows s))"

lemma events_wanted_sorted:
  assumes "outbox_ok ob"
  shows "sorted_wrt (\<lambda>a b. ev_sequence a < ev_sequence b) (events_wanted q ob)"
proof (cases "map_of (ob_streams ob) (eq_tenant q)")
  case None
  then show ?thesis by (simp add: events_wanted_def)
next
  case (Some s)
  then have ok: "stream_ok (eq_tenant q) s" using assms by (simp add: outbox_ok_def streams_ok_def)
  then have "sorted_wrt (\<lambda>a b. fst a < fst b) (sm_rows s)" "\<And>e. e \<in> set (sm_rows s) \<Longrightarrow> ev_sequence (mr_event (snd e)) = fst e"
    by (auto simp: stream_ok_def omap_ok_def[symmetric] omap_mem[symmetric])
  then have "sorted_wrt (\<lambda>a b. ev_sequence (mr_event (snd a)) < ev_sequence (mr_event (snd b))) (sm_rows s)"
    using sorted_wrt_mono_rel[of "sm_rows s"] by auto
  then show ?thesis
    by (simp add: events_wanted_def Some sorted_wrt_filter sorted_wrt_map case_prod_unfold)
qed

lemma page_of_wanted:
  assumes ok: "outbox_ok ob" and last: "last_of (eq_tenant q) ob < I64_MAX"
  shows "\<exists>k\<le>length (events_wanted q ob). pg_events (page_events q ob) = take k (events_wanted q ob)
    \<and> (pg_more (page_events q ob) \<longleftrightarrow> k < length (events_wanted q ob))
    \<and> (0 < eq_limit q \<longrightarrow> events_wanted q ob \<noteq> [] \<longrightarrow> 0 < k) \<and> k \<le> eq_limit q"
proof (cases "map_of (ob_streams ob) (eq_tenant q)")
  case None
  then show ?thesis by (simp add: events_wanted_def page_events_def)
next
  case (Some s)
  have so: "streams_ok ob" using ok by (simp add: outbox_ok_def)
  note at = stream_at[OF so Some]
  have bounds: "n \<le> sm_last s \<and> ev_sequence (mr_event row) = n" if "(n, row) \<in> set (sm_rows s)" for n row
    using that at(1,2) by (auto simp: omap_mem stream_ok_def)
  have "min I64_MAX (cursor_of q ob + 1) \<le> n \<longleftrightarrow> cursor_of q ob < ev_sequence (mr_event row)"
    if "(n, row) \<in> set (sm_rows s)" for n row
    using bounds[OF that] last at(3) by (auto simp: min_def)
  then have "filter (\<lambda>(n, _). min I64_MAX (cursor_of q ob + 1) \<le> n) (sm_rows s)
      = filter (\<lambda>(_, row). cursor_of q ob < ev_sequence (mr_event row)) (sm_rows s)"
    by (intro filter_cong) auto
  then have "filter (number_wanted (eq_phone_number_id q)) (filter (type_wanted (eq_types q)) (events_after (eq_after q) s))
      = events_wanted q ob"
    using at(4) by (simp add: events_after_def events_wanted_def Some wanted_def cursor_of_def Let_def filter_map comp_def
        case_prod_unfold conj_ac cong: option.case_cong)
  then show ?thesis
    using take_page_prefix[of "events_wanted q ob" "eq_limit q" "eq_max_bytes q" 0 "[]"]
    by (auto simp: page_events_def Some Let_def)
qed

lemma events_wanted_iff:
  assumes ok: "outbox_ok ob"
  shows "e \<in> set (events_wanted q ob) \<longleftrightarrow> wanted q e \<and> cursor_of q ob < ev_sequence e
    \<and> (\<exists>row. row_at (eq_tenant q) (ev_sequence e) ob = Some row \<and> mr_event row = e)"
proof (cases "map_of (ob_streams ob) (eq_tenant q)")
  case None
  then show ?thesis by (simp add: events_wanted_def row_at_def)
next
  case (Some s)
  have so: "streams_ok ob" using ok by (simp add: outbox_ok_def)
  note at = stream_at[OF so Some]
  have seq: "ev_sequence (mr_event row) = n" if "map_of (sm_rows s) n = Some row" for n row
    using at(1) that by (simp add: stream_ok_def)
  have "e \<in> (\<lambda>(_, row). mr_event row) ` set (sm_rows s)
      \<longleftrightarrow> (\<exists>n row. map_of (sm_rows s) n = Some row \<and> mr_event row = e)"
    using omap_mem[OF at(2)] by (force simp: image_iff)
  also have "\<dots> \<longleftrightarrow> (\<exists>row. map_of (sm_rows s) (ev_sequence e) = Some row \<and> mr_event row = e)"
    using seq by blast
  finally show ?thesis by (auto simp: events_wanted_def Some at(5))
qed

text \<open>A reader that follows the pages by its last event.\<close>

fun read_events :: "nat \<Rightarrow> event_query \<Rightarrow> outbox_state \<Rightarrow> stored_event list" where
  "read_events 0 q ob = []"
| "read_events (Suc fuel) q ob =
     (let p = page_events q ob
      in pg_events p
         @ (if pg_more p then read_events fuel (q\<lparr>eq_after := Some (ev_sequence (last (pg_events p)))\<rparr>) ob else []))"

lemma events_wanted_cursor:
  assumes "cursor_of q ob < n"
  shows "events_wanted (q\<lparr>eq_after := Some n\<rparr>) ob = filter (\<lambda>e. n < ev_sequence e) (events_wanted q ob)"
proof -
  have "wanted (q\<lparr>eq_after := Some n\<rparr>) e \<and> cursor_of (q\<lparr>eq_after := Some n\<rparr>) ob < ev_sequence e
      \<longleftrightarrow> n < ev_sequence e \<and> wanted q e \<and> cursor_of q ob < ev_sequence e" for e
    using assms by (auto simp: wanted_def cursor_of_def)
  then show ?thesis by (simp add: events_wanted_def conj_ac)
qed

lemma events_wanted_after:
  assumes ok: "outbox_ok ob" and k: "0 < k" "k \<le> length (events_wanted q ob)"
  shows "events_wanted (q\<lparr>eq_after := Some (ev_sequence (last (take k (events_wanted q ob))))\<rparr>) ob
    = drop k (events_wanted q ob)"
proof -
  let ?es = "events_wanted q ob"
  let ?n = "ev_sequence (last (take k ?es))"
  have sorted: "sorted_wrt (\<lambda>a b. ev_sequence a < ev_sequence b) (take k ?es @ drop k ?es)"
    using events_wanted_sorted[OF ok] by simp
  then have parts: "\<forall>a\<in>set (take k ?es). \<forall>b\<in>set (drop k ?es). ev_sequence a < ev_sequence b"
    unfolding sorted_wrt_append by blast
  have ne: "take k ?es \<noteq> []" using k by auto
  have "\<forall>b\<in>set (drop k ?es). ?n < ev_sequence b" using parts last_in_set[OF ne] by blast
  moreover have "\<forall>a\<in>set (take k ?es). ev_sequence a \<le> ?n"
  proof
    fix a assume "a \<in> set (take k ?es)"
    then have "a \<in> set (butlast (take k ?es) @ [last (take k ?es)])" using append_butlast_last_id[OF ne] by simp
    moreover have "sorted_wrt (\<lambda>a b. ev_sequence a < ev_sequence b) (butlast (take k ?es) @ [last (take k ?es)])"
      using sorted append_butlast_last_id[OF ne] by (simp add: sorted_wrt_append)
    ultimately show "ev_sequence a \<le> ?n" by (auto simp: sorted_wrt_append)
  qed
  ultimately have "filter (\<lambda>e. ?n < ev_sequence e) (take k ?es @ drop k ?es) = drop k ?es"
    by (auto simp: filter_empty_conv filter_id_conv not_less simp del: append_take_drop_id)
  moreover have "cursor_of q ob < ?n"
    using last_in_set[OF ne] by (auto dest!: in_set_takeD simp: events_wanted_def)
  then have "events_wanted (q\<lparr>eq_after := Some ?n\<rparr>) ob = filter (\<lambda>e. ?n < ev_sequence e) ?es"
    by (rule events_wanted_cursor)
  ultimately show ?thesis by simp
qed

lemma read_events_wanted:
  assumes ok: "outbox_ok ob" and last: "last_of (eq_tenant q) ob < I64_MAX" and limit: "0 < eq_limit q"
  shows "length (events_wanted q ob) < fuel \<Longrightarrow> read_events fuel q ob = events_wanted q ob"
  using last limit
proof (induction fuel arbitrary: q)
  case (Suc fuel)
  obtain k where k: "k \<le> length (events_wanted q ob)" "pg_events (page_events q ob) = take k (events_wanted q ob)"
      "pg_more (page_events q ob) \<longleftrightarrow> k < length (events_wanted q ob)" "events_wanted q ob \<noteq> [] \<longrightarrow> 0 < k"
    using page_of_wanted[OF ok Suc.prems(2)] Suc.prems(3) by blast
  show ?case
  proof (cases "k < length (events_wanted q ob)")
    case True
    then have k0: "0 < k" using k(4) by auto
    let ?q = "q\<lparr>eq_after := Some (ev_sequence (last (take k (events_wanted q ob))))\<rparr>"
    have rest: "events_wanted ?q ob = drop k (events_wanted q ob)" by (rule events_wanted_after[OF ok k0 k(1)])
    have "read_events fuel ?q ob = drop k (events_wanted q ob)"
      using Suc.IH[of ?q] Suc.prems k0 k(1) True by (simp add: rest)
    then show ?thesis using True k by (simp add: Let_def)
  next
    case False
    then show ?thesis using k by (simp add: Let_def)
  qed
qed simp

text \<open>
  A reader that asks for page after page, each after the last event it has, reads every event of its
  tenant's stream after its cursor that it asks for, once and in order, whatever limit and bytes its
  pages have; each page keeps the limit and says the last number given and what was purged.
\<close>

theorem pages_read_completely:
  fixes calls :: "outbox_call list"
  shows "0 < eq_limit q \<Longrightarrow> last_of (eq_tenant q) (outbox_run parse calls outbox_empty) < I64_MAX \<Longrightarrow>
    let ob = outbox_run parse calls outbox_empty; es = read_events (Suc (length (events_wanted q ob))) q ob
    in sorted_wrt (\<lambda>a b. ev_sequence a < ev_sequence b) es
     \<and> (\<forall>e. e \<in> set es \<longleftrightarrow> wanted q e \<and> cursor_of q ob < ev_sequence e
           \<and> (\<exists>row. row_at (eq_tenant q) (ev_sequence e) ob = Some row \<and> mr_event row = e))
     \<and> length (pg_events (page_events q ob)) \<le> eq_limit q
     \<and> pg_high_water (page_events q ob) = last_of (eq_tenant q) ob
     \<and> pg_purged_through (page_events q ob) = purged_of (eq_tenant q) ob"
proof -
  let ?ob = "outbox_run parse calls outbox_empty"
  assume limit: "0 < eq_limit q" and last: "last_of (eq_tenant q) ?ob < I64_MAX"
  have ok: "outbox_ok ?ob" by simp
  have es: "read_events (Suc (length (events_wanted q ?ob))) q ?ob = events_wanted q ?ob"
    by (rule read_events_wanted[OF ok last limit]) simp
  note rows = events_wanted_iff[OF ok]
  have "length (pg_events (page_events q ?ob)) \<le> eq_limit q"
    using page_of_wanted[OF ok last] by auto
  moreover have "pg_high_water (page_events q ?ob) = last_of (eq_tenant q) ?ob
      \<and> pg_purged_through (page_events q ?ob) = purged_of (eq_tenant q) ?ob"
    by (simp add: page_events_def last_of_def purged_of_def case_prod_unfold Let_def split: option.split)
  ultimately show ?thesis unfolding Let_def es using rows events_wanted_sorted[OF ok] by blast
qed

lemma pages_read_completely_witness:
  "\<exists>q. eq_limit q = 1
     \<and> mr_event (new_row no_json holding_example 21 2 (routed_event ''y''))
       \<in> set (read_events (Suc (length (events_wanted q (outbox_run no_json example_calls outbox_empty)))) q
              (outbox_run no_json example_calls outbox_empty))"
proof -
  let ?q = "\<lparr>eq_tenant = ''a'', eq_after = Some 1, eq_types = None, eq_phone_number_id = Some ''5'', eq_limit = 1,
    eq_max_bytes = 0\<rparr>"
  have "last_of (eq_tenant ?q) (outbox_run no_json example_calls outbox_empty) < I64_MAX"
    by (simp add: example_rows I64_MAX_def)
  from pages_read_completely[OF _ this] show ?thesis
    by (intro exI[of _ ?q])
      (simp add: Let_def example_rows wanted_def cursor_of_def type_wanted_def number_wanted_def new_row_def routed_event_fields)
qed

end
