(* ===== verification/Event_Routing.thy ===== *)
theory Event_Routing
  imports Programs Outbox_Safety Service_Error Fingerprints
begin

text \<open>
  Meta's events as the service records and serves them (\<open>meta-whatsapp-server-core/src/events.rs\<close>): whose
  an event is, the outbox row it becomes, its key and its id, and polling. A webhook event is what these
  functions read of it; its date is the library's and \<open>serde\<close>'s reading, so a field of it here. HMAC and
  SHA-256 are parameters.
\<close>

section \<open>Rules after a move\<close>

definition KEYLESS_DEDUP_WINDOW :: duration where "KEYLESS_DEDUP_WINDOW = hours 1"
definition DEFAULT_OUTBOX_RETENTION :: duration where "DEFAULT_OUTBOX_RETENTION = hours (7 * 24)"
definition DEFAULT_UNDATED_AFTER_MOVE_WINDOW :: duration where
  "DEFAULT_UNDATED_AFTER_MOVE_WINDOW = hours (7 * 24 + 1)"
definition DEFAULT_MOVE_SKEW_MARGIN :: duration where "DEFAULT_MOVE_SKEW_MARGIN = 0"

datatype undated_after_move = OperatorOnly duration | CurrentHolder

definition undated_after_move_default :: undated_after_move where
  "undated_after_move_default = OperatorOnly DEFAULT_UNDATED_AFTER_MOVE_WINDOW"

record move_rules =
  mv_undated_after_move :: undated_after_move
  mv_skew_margin :: duration

definition move_rules_default :: move_rules where
  "move_rules_default =
     \<lparr>mv_undated_after_move = undated_after_move_default, mv_skew_margin = DEFAULT_MOVE_SKEW_MARGIN\<rparr>"

text \<open>\<open>saturating_sub\<close> of a window, a longer one being \<open>time::Duration::MAX\<close>.\<close>

definition before :: "time \<Rightarrow> duration \<Rightarrow> time" where
  "before now window =
     (case signed_duration window of None \<Rightarrow> datetime_min | Some d \<Rightarrow> max datetime_min (now - d))"

definition rules_after_move :: "move_rules \<Rightarrow> time \<Rightarrow> after_move" where
  "rules_after_move rules now =
     \<lparr>am_skew_margin = mv_skew_margin rules,
      am_undated_moved_by =
        (case mv_undated_after_move rules of
           OperatorOnly window \<Rightarrow> Some (max (before now window) UNRECORDED_MOVE)
         | CurrentHolder \<Rightarrow> None)\<rparr>"

record routing =
  rt_now :: time
  rt_not_before :: time
  rt_moves :: move_rules

section \<open>Types\<close>

definition TENANT_EVENT_TYPES :: "string list" where
  "TENANT_EVENT_TYPES =
    [''message_received'', ''status_updated'', ''error_reported'', ''message_echoed'', ''history_synced'',
     ''app_state_synced'', ''call_updated'', ''call_status_updated'', ''user_preference_changed'',
     ''user_id_changed'', ''automatic_event_detected'', ''group_updated'', ''flow_updated'', ''account_alert'',
     ''account_review_updated'', ''account_updated'', ''account_settings_updated'',
     ''business_capability_updated'', ''business_username_updated'', ''payment_configuration_updated'',
     ''phone_number_name_updated'', ''phone_number_quality_updated'', ''security_updated'',
     ''template_components_updated'', ''template_quality_updated'', ''template_status_updated'',
     ''template_category_updated'', ''template_category_misuse_detected'', ''standby_observed'',
     ''thread_control_changed'', ''user_action_reported'', ''number_connected'', ''number_disconnected'',
     ''number_reconnect_required'', ''token_expiring'']"

definition OPERATOR_EVENT_TYPES :: "string list" where
  "OPERATOR_EVENT_TYPES = [''unknown'', ''unparsed'', ''partner_solution_updated'']"

definition tenant_visible :: "string \<Rightarrow> bool" where
  "tenant_visible kind \<longleftrightarrow> kind \<in> set TENANT_EVENT_TYPES"

section \<open>Routing\<close>

text \<open>\<open>we_unknown_raw\<close> is the value of a change the library did not type.\<close>

record meta_event =
  we_kind :: string
  we_waba_id :: "string option"
  we_phone_number_id :: "string option"
  we_meta_time :: "time option"
  we_unknown_raw :: "json option"
  we_data :: "string option"

record route =
  ro_owner :: "string option"
  ro_tenant :: "string option"
  ro_operator_only :: "string option"
  ro_guard :: "route_guard option"

record event_holder =
  ho_tenant :: string
  ho_guard :: route_guard

definition event_number :: "meta_event \<Rightarrow> string option" where
  "event_number e =
     (case we_phone_number_id e of
        Some pn \<Rightarrow> Some pn
      | None \<Rightarrow>
          Option.bind (we_unknown_raw e) (\<lambda>raw.
            Option.bind (json_get raw ''metadata'') (\<lambda>metadata.
              Option.bind (json_get metadata ''phone_number_id'') (\<lambda>v.
                Option.bind (json_as_str v) (\<lambda>pn. if pn = [] then None else Some pn)))))"

type_synonym ('x, 'y, 'a) records_prog = "(srv_state, 'x, 'y, error + 'a) jprog"

definition nobody :: "string \<Rightarrow> ('x, 'y, string + event_holder) records_prog" where
  "nobody reason = JRet (Inr (Inl reason))"

definition holder_by ::
  "routing \<Rightarrow> time option \<Rightarrow> guarded_binding \<Rightarrow> ('x, 'y, string + event_holder) records_prog" where
  "holder_by at dated guarded =
     jread (\<lambda>_. waba_get (guarded_waba_id guarded))
       (\<lambda>r. case r of
          Inl e \<Rightarrow> JRet (Inl e)
        | Inr None \<Rightarrow> nobody ''unowned''
        | Inr (Some binding) \<Rightarrow>
            let guard = \<lparr>rg_binding = guarded, rg_not_after = dated, rg_after_move = rules_after_move (rt_moves at) (rt_now at)\<rparr>
            in if \<not> admits guard (wb_attached_at binding) (wb_previous_tenant_unbound_at binding)
               then nobody (if dated \<noteq> None then ''before_binding'' else ''after_move'')
               else JRet (Inr (Inr \<lparr>ho_tenant = wb_tenant_id binding, ho_guard = guard\<rparr>)))"

definition owner :: "meta_event \<Rightarrow> routing \<Rightarrow> ('x, 'y, string + event_holder) records_prog" where
  "owner e at =
     (let dated = we_meta_time e
      in if (case dated of None \<Rightarrow> False | Some d \<Rightarrow> d < rt_not_before at) then nobody ''stale''
         else
           (case event_number e of
              Some pn \<Rightarrow>
                jread (\<lambda>_. number_get pn)
                  (\<lambda>r. case r of
                     Inl err \<Rightarrow> JRet (Inl err)
                   | Inr None \<Rightarrow> nobody ''unowned''
                   | Inr (Some number) \<Rightarrow>
                       if (case we_waba_id e of None \<Rightarrow> False | Some w \<Rightarrow> w \<noteq> nb_waba_id number)
                       then nobody ''unowned''
                       else holder_by at dated (GuardNumber pn (nb_waba_id number)))
            | None \<Rightarrow>
                (case we_waba_id e of
                   Some w \<Rightarrow> holder_by at dated (GuardWaba w)
                 | None \<Rightarrow> nobody ''unowned'')))"

definition route_of :: "meta_event \<Rightarrow> string + event_holder \<Rightarrow> route" where
  "route_of e h =
     (case h of
        Inr h \<Rightarrow>
          if tenant_visible (we_kind e)
          then \<lparr>ro_owner = Some (ho_tenant h), ro_tenant = Some (ho_tenant h), ro_operator_only = None,
                ro_guard = Some (ho_guard h)\<rparr>
          else \<lparr>ro_owner = Some (ho_tenant h), ro_tenant = None, ro_operator_only = Some ''type'',
                ro_guard = Some (ho_guard h)\<rparr>
      | Inl reason \<Rightarrow>
          \<lparr>ro_owner = None, ro_tenant = None, ro_operator_only = Some reason, ro_guard = None\<rparr>)"

definition route_event :: "meta_event \<Rightarrow> routing \<Rightarrow> ('x, 'y, route) records_prog" where
  "route_event e at = jbind (owner e at) (\<lambda>h. JRet (Inr (route_of e h)))"

section \<open>The row\<close>

datatype event_key = LibraryKey string | DeliveryKey string nat

text \<open>What is hashed for the key; \<open>body_sha256\<close> and the digest of the data are of 32 bytes.\<close>

definition key_preimage :: "(string \<Rightarrow> string) \<Rightarrow> event_key \<Rightarrow> string option \<Rightarrow> string \<Rightarrow> string" where
  "key_preimage sha key pn data =
     ''meta-whatsapp-server/outbox-key/v1'' @ [CHR 0x00]
     @ (case pn of Some n \<Rightarrow> n | None \<Rightarrow> []) @ [CHR 0x00]
     @ (case key of
          LibraryKey k \<Rightarrow> ''library'' @ [CHR 0x00] @ k
        | DeliveryKey body_sha256 position \<Rightarrow>
            ''delivery'' @ [CHR 0x00] @ body_sha256 @ u64_be (min U64_MAX position) @ sha data)"

definition outbox_key :: "(string \<Rightarrow> string) \<Rightarrow> event_key \<Rightarrow> string option \<Rightarrow> string \<Rightarrow> string" where
  "outbox_key sha key pn data = hex_encode (sha (key_preimage sha key pn data))"

definition from_app_secret :: "(string \<Rightarrow> string \<Rightarrow> string) \<Rightarrow> string \<Rightarrow> string" where
  "from_app_secret hmac app_secret = hmac app_secret ''meta-whatsapp-server/event-id/v1''"

definition event_id :: "(string \<Rightarrow> string \<Rightarrow> string) \<Rightarrow> string \<Rightarrow> string \<Rightarrow> string" where
  "event_id hmac ids key = ''evt_'' @ hex_encode (take 16 (hmac ids key))"

definition show_int :: "int \<Rightarrow> string" where
  "show_int i = (if i < 0 then ''-'' @ show_nat (nat (- i)) else show_nat (nat i))"

text \<open>\<open>None\<close>: the event does not serialize.\<close>

definition outbox_row ::
  "(string \<Rightarrow> string) \<Rightarrow> (string \<Rightarrow> string \<Rightarrow> string) \<Rightarrow> meta_event \<Rightarrow> event_key \<Rightarrow> route \<Rightarrow> time \<Rightarrow> string
     \<Rightarrow> new_event option" where
  "outbox_row sha hmac e key route now ids =
     (case we_data e of
        None \<Rightarrow> None
      | Some data \<Rightarrow>
          let dedup_key = outbox_key sha key (we_phone_number_id e) data;
              (id_of, window) =
                (case key of
                   LibraryKey _ \<Rightarrow> (dedup_key, None)
                 | DeliveryKey _ _ \<Rightarrow>
                     (dedup_key @ ''@'' @ show_int now,
                      Some \<lparr>dw_now = now, dw_until = now + int KEYLESS_DEDUP_WINDOW\<rparr>))
          in Some \<lparr>ne_id = event_id hmac ids id_of, ne_dedup_key = Some dedup_key, ne_dedup_window = window,
               ne_tenant = ro_tenant route,
               ne_route_guard = (case ro_tenant route of None \<Rightarrow> None | Some _ \<Rightarrow> ro_guard route),
               ne_phone_number_id = we_phone_number_id e, ne_waba_id = we_waba_id e,
               ne_event_type = we_kind e, ne_data = data\<rparr>)"

section \<open>Polling\<close>

record polled =
  pd_events :: "stored_event list"
  pd_next_after :: int

definition poll :: "event_query \<Rightarrow> outbox_state \<Rightarrow> service_error + polled" where
  "poll q ob =
     (let page = page_events q ob;
          next_from = (\<lambda>start. case pg_events page of
              [] \<Rightarrow> max (pg_high_water page) start
            | es \<Rightarrow> if pg_more page then ev_sequence (last es) else max (pg_high_water page) start)
      in case eq_after q of
           Some a \<Rightarrow>
             if a < pg_purged_through page then Inl (service_error_new ''cursor_expired'')
             else if pg_high_water page < a then Inl (invalid_request ''after'')
             else Inr \<lparr>pd_events = pg_events page, pd_next_after = next_from a\<rparr>
         | None \<Rightarrow> Inr \<lparr>pd_events = pg_events page, pd_next_after = next_from (pg_purged_through page)\<rparr>)"

definition is_event_id :: "string \<Rightarrow> bool" where
  "is_event_id i \<longleftrightarrow>
     (case strip_prefix ''evt_'' i of
        None \<Rightarrow> False
      | Some hex \<Rightarrow> length hex = 32 \<and> list_all (\<lambda>c. c \<in> set hex_digits) hex)"

definition event_by_id :: "string \<Rightarrow> string \<Rightarrow> outbox_state \<Rightarrow> service_error + stored_event" where
  "event_by_id tenant i ob =
     (if \<not> is_event_id i then Inl (service_error_new ''not_found'')
      else
        (case get_event tenant i ob of
           None \<Rightarrow> Inl (service_error_new ''not_found'')
         | Some e \<Rightarrow> if ev_tenant e = Some tenant then Inr e else Inl (service_error_new ''not_found'')))"

definition purge_outbox :: "time \<Rightarrow> duration \<Rightarrow> outbox_state \<Rightarrow> nat \<times> outbox_state" where
  "purge_outbox now retention ob = purge_events now retention ob"

end
