(* ===== verification/Event_Safety.thy ===== *)
theory Event_Safety
  imports Event_Routing Server_Safety
begin

text \<open>
  The theorems on the events: what routing decides the outbox keeps, a tenant that polls misses nothing,
  and an event has one key and one id.
\<close>

section \<open>Routing and the insert\<close>

lemma jexec_holder_by:
  "fst (jexec (holder_by at dated guarded) t env st) = Inr h \<Longrightarrow>
    (\<exists>reason. h = Inl reason)
    \<or> (\<exists>w. map_of (ss_wabas st) (guarded_waba_id guarded) = Some w
        \<and> (let g = \<lparr>rg_binding = guarded, rg_not_after = dated, rg_after_move = rules_after_move (rt_moves at) (rt_now at)\<rparr>
           in admits g (wb_attached_at w) (wb_previous_tenant_unbound_at w)
             \<and> h = Inr \<lparr>ho_tenant = wb_tenant_id w, ho_guard = g\<rparr>))"
  by (auto simp: holder_by_def jread_def nobody_def waba_get_def Let_def split: option.splits if_splits)

lemma jexec_owner:
  assumes ok: "srv_ok st" and h: "fst (jexec (owner e at) t env st) = Inr (Inr h)"
  shows "guard_holds st (ho_tenant h) (ho_guard h)"
proof -
  have holds: "guard_holds st (ho_tenant h) (ho_guard h)"
    if "fst (jexec (holder_by at dated guarded) t env st) = Inr (Inr h)"
      and number: "\<And>pn w. guarded = GuardNumber pn w \<Longrightarrow>
        \<exists>n. map_of (ss_numbers st) pn = Some n \<and> nb_waba_id n = w"
    for dated guarded
  proof -
    from jexec_holder_by[OF that(1)] obtain w where
      w: "map_of (ss_wabas st) (guarded_waba_id guarded) = Some w" "rg_binding (ho_guard h) = guarded"
        "admits (ho_guard h) (wb_attached_at w) (wb_previous_tenant_unbound_at w)" "ho_tenant h = wb_tenant_id w"
      by (auto simp: Let_def)
    show ?thesis
    proof (cases guarded)
      case (GuardNumber pn waba)
      then obtain n where n: "map_of (ss_numbers st) pn = Some n" "nb_waba_id n = waba" using number by blast
      from number_waba[OF ok n(1)] w GuardNumber n have "nb_tenant_id n = wb_tenant_id w"
        by (auto simp: guarded_waba_id_def)
      then show ?thesis using w n GuardNumber by (simp add: guard_holds_def)
    next
      case (GuardWaba waba)
      then show ?thesis using w by (simp add: guard_holds_def)
    qed
  qed
  show ?thesis
  proof (cases "event_number e")
    case None
    then show ?thesis using h holds
      by (auto simp: owner_def Let_def nobody_def split: if_splits option.splits)
  next
    case (Some pn)
    then obtain n where n: "map_of (ss_numbers st) pn = Some n"
        "fst (jexec (holder_by at (we_meta_time e) (GuardNumber pn (nb_waba_id n))) t env st) = Inr (Inr h)"
      using h by (auto simp: owner_def Let_def nobody_def jread_def number_get_def split: if_splits option.splits)
    show ?thesis by (rule holds[OF n(2)]) (use n(1) in auto)
  qed
qed

lemma jexec_jbind_ret:
  "fst (jexec (jbind p (\<lambda>a. JRet (Inr (f a)))) t env s) = (case fst (jexec p t env s) of Inl e \<Rightarrow> Inl e | Inr a \<Rightarrow> Inr (f a))"
proof (induction p arbitrary: s)
  case (JOp g h)
  obtain p s' where g: "g t s = (p, s')" by fastforce
  from JOp.IH(1)[OF rangeI rangeI, of p t s s'] g show ?case by (simp add: Let_def case_prod_unfold fsts.simps)
qed (auto simp: case_prod_unfold Let_def split: sum.splits)

text \<open>
  C37. What routing decides, the insert keeps: an event routed on bindings that are consistent becomes a
  row of the tenant its route names, when the bindings are the same at the insert; and a route names a
  tenant only as the owner, for a type that tenants receive, under a guard that the bindings satisfy.
\<close>

theorem insert_keeps_route:
  "srv_ok st \<Longrightarrow> fst (jexec (route_event e at) t env st) = Inr r \<Longrightarrow> outbox_row sha hmac e key r now ids = Some row \<Longrightarrow>
    routed_tenant st row = ro_tenant r
    \<and> (ro_tenant r \<noteq> None \<longrightarrow> ro_tenant r = ro_owner r \<and> tenant_visible (we_kind e))
    \<and> (\<forall>tenant. ro_owner r = Some tenant \<longrightarrow> (\<exists>g. ro_guard r = Some g \<and> guard_holds st tenant g))"
proof -
  assume ok: "srv_ok st" and r: "fst (jexec (route_event e at) t env st) = Inr r"
    and row: "outbox_row sha hmac e key r now ids = Some row"
  from r obtain h where h: "fst (jexec (owner e at) t env st) = Inr h" "r = route_of e h"
    by (auto simp: route_event_def jexec_jbind_ret split: sum.splits)
  have tenant: "ne_tenant row = ro_tenant r"
    "ne_route_guard row = (case ro_tenant r of None \<Rightarrow> None | Some _ \<Rightarrow> ro_guard r)"
    using row by (auto simp: outbox_row_def Let_def case_prod_unfold split: option.splits)
  show ?thesis
  proof (cases h)
    case (Inl reason)
    then show ?thesis using h tenant by (simp add: route_of_def routed_tenant_def)
  next
    case (Inr ho)
    then have "guard_holds st (ho_tenant ho) (ho_guard ho)" using jexec_owner[OF ok] h(1) by blast
    then show ?thesis using Inr h(2) tenant by (simp add: route_of_def routed_tenant_def)
  qed
qed

text \<open>A message of the WABA's tenant, dated an hour after the binding began.\<close>

definition message_example :: meta_event where
  "message_example =
     \<lparr>we_kind = ''message_received'', we_waba_id = Some ''1'', we_phone_number_id = Some ''5'',
      we_meta_time = Some 3600000000000, we_unknown_raw = None, we_data = Some ''{}''\<rparr>"

definition routing_example :: routing where
  "routing_example = \<lparr>rt_now = 3700000000000, rt_not_before = 0, rt_moves = move_rules_default\<rparr>"

definition zeros :: "string \<Rightarrow> string" where "zeros data = replicate 32 (CHR 0x00)"

lemma message_owner:
  "\<exists>g. fst (jexec (owner message_example routing_example) t env (srv_run calls_example srv_empty))
     = Inr (Inr \<lparr>ho_tenant = ''a'', ho_guard = g\<rparr>)"
proof -
  have "unix_timestamp 3 < 3600" "unix_timestamp 3600000000000 = 3600" by (simp_all add: unix_timestamp_def)
  then show ?thesis
    by (simp add: owner_def message_example_def routing_example_def event_number_def jread_def number_get_def
        holder_by_def waba_get_def calls_example number_example_def binding_example_def guarded_waba_id_def admits_def
        dated_bounds_of_def Let_def I64_MAX_def)
qed

lemma message_routed:
  "\<exists>r. fst (jexec (route_event message_example routing_example) t env (srv_run calls_example srv_empty)) = Inr r
      \<and> ro_tenant r = Some ''a''"
proof -
  have "tenant_visible (we_kind message_example)"
    by (simp add: tenant_visible_def TENANT_EVENT_TYPES_def message_example_def)
  then show ?thesis using message_owner[of t env] by (auto simp: jexec_jbind_ret route_event_def route_of_def)
qed

lemma insert_keeps_route_witness:
  "\<exists>row. ne_event_type row = ''message_received'' \<and> routed_tenant (srv_run calls_example srv_empty) row = Some ''a''"
proof -
  let ?st = "srv_run calls_example srv_empty"
  from message_routed[of 0 undefined] obtain r where
    r: "fst (jexec (route_event message_example routing_example :: (unit, unit, route) records_prog) 0 undefined ?st) = Inr r"
      "ro_tenant r = Some ''a''" by blast
  obtain row where row: "outbox_row zeros (\<lambda>_. zeros) message_example (LibraryKey ''k'') r 3700000000000 ''key'' = Some row"
    "ne_event_type row = ''message_received''"
    by (simp add: outbox_row_def message_example_def Let_def)
  from insert_keeps_route[OF srv_ok_run[OF srv_ok_empty] r(1) row(1)] r(2) row(2) show ?thesis by auto
qed

section \<open>Polling\<close>

lemma events_wanted_bounds:
  assumes "outbox_ok ob" and "e \<in> set (events_wanted q ob)"
  shows "cursor_of q ob < ev_sequence e \<and> ev_sequence e \<le> last_of (eq_tenant q) ob \<and> wanted q e"
proof -
  have so: "streams_ok ob" using assms(1) by (simp add: outbox_ok_def)
  from assms(2) obtain row where row: "row_at (eq_tenant q) (ev_sequence e) ob = Some row" "wanted q e" "cursor_of q ob < ev_sequence e"
    unfolding events_wanted_iff[OF assms(1)] by blast
  from row_bounds[OF so row(1)] row(2,3) show ?thesis by simp
qed

lemma take_upto:
  assumes "sorted_wrt (\<lambda>a b. ev_sequence a < ev_sequence b) es" and "0 < k" "k \<le> length es"
  shows "filter (\<lambda>e. ev_sequence e \<le> ev_sequence (last (take k es))) es = take k es"
proof -
  have ne: "take k es \<noteq> []" using assms(2,3) by auto
  have "sorted_wrt (\<lambda>a b. ev_sequence a < ev_sequence b) (take k es @ drop k es)" using assms(1) by simp
  then have parts: "sorted_wrt (\<lambda>a b. ev_sequence a < ev_sequence b) (take k es)"
    "\<forall>a\<in>set (take k es). \<forall>b\<in>set (drop k es). ev_sequence a < ev_sequence b"
    unfolding sorted_wrt_append by blast+
  have "\<forall>a\<in>set (take k es). ev_sequence a \<le> ev_sequence (last (take k es))"
  proof
    fix a assume "a \<in> set (take k es)"
    then have "a \<in> set (butlast (take k es) @ [last (take k es)])" using append_butlast_last_id[OF ne] by simp
    moreover have "sorted_wrt (\<lambda>a b. ev_sequence a < ev_sequence b) (butlast (take k es) @ [last (take k es)])"
      using parts(1) append_butlast_last_id[OF ne] by simp
    ultimately show "ev_sequence a \<le> ev_sequence (last (take k es))" by (auto simp: sorted_wrt_append)
  qed
  moreover have "\<forall>b\<in>set (drop k es). \<not> ev_sequence b \<le> ev_sequence (last (take k es))"
    using parts(2) last_in_set[OF ne] by (meson not_le)
  ultimately have "filter (\<lambda>e. ev_sequence e \<le> ev_sequence (last (take k es))) (take k es @ drop k es) = take k es"
    by (auto simp: filter_id_conv filter_empty_conv simp del: append_take_drop_id)
  then show ?thesis by simp
qed

lemma poll_step:
  assumes ok: "outbox_ok ob" and last: "last_of (eq_tenant q) ob < I64_MAX" and q: "eq_after q = Some c" "0 < eq_limit q"
    and p: "poll q ob = Inr p"
  shows "c \<le> pd_next_after p \<and> pd_next_after p \<le> last_of (eq_tenant q) ob \<and> purged_of (eq_tenant q) ob \<le> c
    \<and> pd_events p = filter (\<lambda>e. ev_sequence e \<le> pd_next_after p) (events_wanted q ob)
    \<and> (events_wanted q ob \<noteq> [] \<longrightarrow> pd_events p \<noteq> [])"
proof -
  let ?es = "events_wanted q ob"
  let ?page = "page_events q ob"
  obtain k where k: "k \<le> length ?es" "pg_events ?page = take k ?es" "pg_more ?page \<longleftrightarrow> k < length ?es" "?es \<noteq> [] \<longrightarrow> 0 < k"
    using page_of_wanted[OF ok last] q(2) by blast
  have marks: "pg_high_water ?page = last_of (eq_tenant q) ob" "pg_purged_through ?page = purged_of (eq_tenant q) ob"
    by (simp_all add: page_events_def last_of_def purged_of_def case_prod_unfold Let_def split: option.split)
  have c: "purged_of (eq_tenant q) ob \<le> c" "c \<le> last_of (eq_tenant q) ob"
    using p q(1) by (auto simp: poll_def Let_def marks split: if_splits)
  show ?thesis
  proof (cases "k < length ?es")
    case True
    then have k0: "0 < k" using k(4) by auto
    then have ne: "take k ?es \<noteq> []" using True by auto
    have next': "pd_next_after p = ev_sequence (last (take k ?es))" "pd_events p = take k ?es"
      using p q(1) c True k(2,3) ne by (auto simp: poll_def Let_def marks split: list.splits)
    have "last (take k ?es) \<in> set ?es" using last_in_set[OF ne] by (rule in_set_takeD)
    from events_wanted_bounds[OF ok this] show ?thesis
      using next' c take_upto[OF events_wanted_sorted[OF ok] k0 k(1)] ne q(1) by (simp add: cursor_of_def)
  next
    case False
    then have next': "pd_next_after p = last_of (eq_tenant q) ob" "pd_events p = ?es"
      using p q(1) c k by (auto simp: poll_def Let_def marks max_def split: list.splits)
    have "filter (\<lambda>e. ev_sequence e \<le> last_of (eq_tenant q) ob) ?es = ?es"
      using events_wanted_bounds[OF ok] by (auto simp: filter_id_conv)
    then show ?thesis using next' c by simp
  qed
qed

text \<open>Rounds of other calls, each followed by a poll from where the one before ended.\<close>

fun polls ::
  "(string \<Rightarrow> json option) \<Rightarrow> event_query \<Rightarrow> outbox_call list list \<Rightarrow> outbox_state
     \<Rightarrow> service_error + stored_event list \<times> int option \<times> outbox_state" where
  "polls parse q [] ob = Inr ([], eq_after q, ob)"
| "polls parse q (calls # rounds) ob =
     (let ob = outbox_run parse calls ob
      in case poll q ob of
           Inl e \<Rightarrow> Inl e
         | Inr p \<Rightarrow>
             (case polls parse (q\<lparr>eq_after := Some (pd_next_after p)\<rparr>) rounds ob of
                Inl e \<Rightarrow> Inl e
              | Inr (es, c, ob) \<Rightarrow> Inr (pd_events p @ es, c, ob)))"

lemma wanted_after [simp]: "wanted (q\<lparr>eq_after := a\<rparr>) = wanted q"
  by (simp add: wanted_def fun_eq_iff)

lemma polls_read:
  assumes "polls parse q rounds ob = Inr (es, after', ob')" and "outbox_ok ob" "eq_after q = Some c" "0 < eq_limit q"
    and "last_of (eq_tenant q) ob' < I64_MAX"
  shows "outbox_kept ob ob' \<and> (\<exists>c'. after' = Some c' \<and> c \<le> c' \<and> (c \<le> last_of (eq_tenant q) ob \<longrightarrow> c' \<le> last_of (eq_tenant q) ob')
    \<and> sorted_wrt (\<lambda>a b. ev_sequence a < ev_sequence b) es
    \<and> (\<forall>e\<in>set es. wanted q e \<and> c < ev_sequence e \<and> ev_sequence e \<le> c')
    \<and> (\<forall>n row. row_at (eq_tenant q) n ob' = Some row \<longrightarrow> wanted q (mr_event row) \<longrightarrow> c < n \<longrightarrow> n \<le> c' \<longrightarrow> mr_event row \<in> set es))"
  using assms
proof (induction rounds arbitrary: q ob es c)
  case Nil
  then show ?case by (intro conjI exI[of _ c]) (auto simp: outbox_kept_refl)
next
  case (Cons calls rounds)
  let ?ob = "outbox_run parse calls ob"
  let ?t = "eq_tenant q"
  obtain p es' where p: "poll q ?ob = Inr p" and rest: "polls parse (q\<lparr>eq_after := Some (pd_next_after p)\<rparr>) rounds ?ob = Inr (es', after', ob')"
      and es: "es = pd_events p @ es'"
    using Cons.prems(1) by (auto simp: Let_def split: sum.splits prod.splits)
  let ?c = "pd_next_after p"
  have k: "outbox_kept ob ?ob" by (rule run_kept[OF Cons.prems(2)])
  then have ok: "outbox_ok ?ob" by (simp add: outbox_kept_def)
  from Cons.IH[OF rest ok] Cons.prems(4,5) obtain c' where
    k': "outbox_kept ?ob ob'" and c': "after' = Some c'" "?c \<le> c'" "?c \<le> last_of ?t ?ob \<longrightarrow> c' \<le> last_of ?t ob'"
    and sorted: "sorted_wrt (\<lambda>a b. ev_sequence a < ev_sequence b) es'"
    and range: "\<forall>e\<in>set es'. wanted q e \<and> ?c < ev_sequence e \<and> ev_sequence e \<le> c'"
    and complete: "\<forall>n row. row_at ?t n ob' = Some row \<longrightarrow> wanted q (mr_event row) \<longrightarrow> ?c < n \<longrightarrow> n \<le> c' \<longrightarrow> mr_event row \<in> set es'"
    by auto
  have "last_of ?t ?ob \<le> last_of ?t ob'" using k' by (simp add: outbox_kept_def)
  then have last: "last_of ?t ?ob < I64_MAX" using Cons.prems(5) by simp
  note step = poll_step[OF ok last Cons.prems(3,4) p]
  have cur: "cursor_of q ?ob = c" using Cons.prems(3) by (simp add: cursor_of_def)
  have first: "\<forall>e\<in>set (pd_events p). wanted q e \<and> c < ev_sequence e \<and> ev_sequence e \<le> ?c"
    using step events_wanted_bounds[OF ok, where q = q] cur by auto
  have "sorted_wrt (\<lambda>a b. ev_sequence a < ev_sequence b) (pd_events p)"
    using step events_wanted_sorted[OF ok] by (auto intro: sorted_wrt_filter)
  then have "sorted_wrt (\<lambda>a b. ev_sequence a < ev_sequence b) es"
    unfolding es sorted_wrt_append using sorted first range by fastforce
  moreover have "\<forall>e\<in>set es. wanted q e \<and> c < ev_sequence e \<and> ev_sequence e \<le> c'"
    using first range step c'(2) by (fastforce simp: es)
  moreover have "mr_event row \<in> set es"
    if row: "row_at ?t n ob' = Some row" and w: "wanted q (mr_event row)" and n: "c < n" "n \<le> c'" for n row
  proof (cases "?c < n")
    case True
    then show ?thesis using complete row w n by (auto simp: es)
  next
    case False
    then have "n \<le> last_of ?t ?ob" using step by simp
    from kept_at[OF k' this content_at_row[OF row]] obtain row' where
      row': "row_at ?t n ?ob = Some row'" "mr_event row' = mr_event row" by (auto simp: content_at_def)
    then have seq: "ev_sequence (mr_event row) = n" using row_bounds[of ?ob ?t n row'] ok by (simp add: outbox_ok_def)
    then have "mr_event row \<in> set (events_wanted q ?ob)"
      using row' w n(1) Cons.prems(3) by (auto simp: events_wanted_iff[OF ok] cursor_of_def)
    then show ?thesis using step False seq by (auto simp: es)
  qed
  moreover have "outbox_kept ob ob'" by (rule outbox_kept_trans[OF k k'])
  ultimately show ?case using c' step by auto
qed

text \<open>
  C38. A tenant that polls misses nothing. Whatever other calls run between its polls, each poll starting
  where the one before ended: every event it gets is one it asked for, each comes once and in order, and
  none that is in its stream between where it began and where it is now was left out. An event that was
  purged before it was read is never passed over in silence: the poll after it answers
  \<open>cursor_expired\<close>. A poll with something left to read returns an event.
\<close>

theorem polling_misses_nothing:
  "eq_after q = Some c \<Longrightarrow> 0 < eq_limit q \<Longrightarrow> c \<le> last_of (eq_tenant q) (outbox_run parse calls outbox_empty) \<Longrightarrow>
    polls parse q rounds (outbox_run parse calls outbox_empty) = Inr (es, after', ob) \<Longrightarrow>
    last_of (eq_tenant q) ob < I64_MAX \<Longrightarrow>
    \<exists>c'. after' = Some c' \<and> c \<le> c' \<and> c' \<le> last_of (eq_tenant q) ob
      \<and> sorted_wrt (\<lambda>a b. ev_sequence a < ev_sequence b) es
      \<and> (\<forall>e\<in>set es. wanted q e \<and> c < ev_sequence e \<and> ev_sequence e \<le> c')
      \<and> (\<forall>n row. row_at (eq_tenant q) n ob = Some row \<longrightarrow> wanted q (mr_event row) \<longrightarrow> c < n \<longrightarrow> n \<le> c' \<longrightarrow>
           mr_event row \<in> set es)
      \<and> (c' < purged_of (eq_tenant q) ob \<longrightarrow> poll (q\<lparr>eq_after := Some c'\<rparr>) ob = Inl (service_error_new ''cursor_expired''))
      \<and> (\<forall>p n row. poll (q\<lparr>eq_after := Some c'\<rparr>) ob = Inr p \<longrightarrow> row_at (eq_tenant q) n ob = Some row \<longrightarrow>
           wanted q (mr_event row) \<longrightarrow> c' < n \<longrightarrow> pd_events p \<noteq> [])"
proof -
  assume q: "eq_after q = Some c" "0 < eq_limit q" and c: "c \<le> last_of (eq_tenant q) (outbox_run parse calls outbox_empty)"
    and polls: "polls parse q rounds (outbox_run parse calls outbox_empty) = Inr (es, after', ob)"
    and last: "last_of (eq_tenant q) ob < I64_MAX"
  from polls_read[OF polls run_ok q last] c obtain c' where ok: "outbox_ok ob" and c': "after' = Some c'" "c \<le> c'"
      "c' \<le> last_of (eq_tenant q) ob" "sorted_wrt (\<lambda>a b. ev_sequence a < ev_sequence b) es"
      "\<forall>e\<in>set es. wanted q e \<and> c < ev_sequence e \<and> ev_sequence e \<le> c'"
      "\<forall>n row. row_at (eq_tenant q) n ob = Some row \<longrightarrow> wanted q (mr_event row) \<longrightarrow> c < n \<longrightarrow> n \<le> c' \<longrightarrow> mr_event row \<in> set es"
    unfolding outbox_kept_def by blast
  let ?q = "q\<lparr>eq_after := Some c'\<rparr>"
  have "pg_purged_through (page_events ?q ob) = purged_of (eq_tenant q) ob"
    by (simp add: page_events_def purged_of_def case_prod_unfold Let_def split: option.split)
  then have "c' < purged_of (eq_tenant q) ob \<longrightarrow> poll ?q ob = Inl (service_error_new ''cursor_expired'')"
    by (simp add: poll_def Let_def)
  moreover have "pd_events p \<noteq> []"
    if "poll ?q ob = Inr p" "row_at (eq_tenant q) n ob = Some row" "wanted q (mr_event row)" "c' < n" for p n row
  proof -
    have so: "streams_ok ob" using ok by (simp add: outbox_ok_def)
    have "ev_sequence (mr_event row) = n" using row_bounds[OF so that(2)] by simp
    then have "mr_event row \<in> set (events_wanted ?q ob)"
      using that by (auto simp: events_wanted_iff[OF ok] cursor_of_def)
    then show ?thesis using poll_step[OF ok, of ?q c' p] last q(2) that(1) by auto
  qed
  ultimately show ?thesis using c' by blast
qed

text \<open>Two polls of one event each, the second event recorded between them.\<close>

lemma polling_misses_nothing_witness:
  "\<exists>q es after' ob. eq_limit q = 1 \<and> eq_after q = Some 0
     \<and> polls no_json q [[], [second_call]] (outbox_run no_json [first_call] outbox_empty) = Inr (es, after', ob)
     \<and> (\<exists>c'. after' = Some c' \<and> c' \<le> 2 \<and> (\<forall>e\<in>set es. wanted q e \<and> 0 < ev_sequence e \<and> ev_sequence e \<le> c'))"
proof -
  let ?q = "\<lparr>eq_tenant = ''a'', eq_after = Some 0, eq_types = None, eq_phone_number_id = Some ''5'', eq_limit = 1,
    eq_max_bytes = 0\<rparr>"
  obtain es after' ob where polls: "polls no_json ?q [[], [second_call]] (outbox_run no_json [first_call] outbox_empty) = Inr (es, after', ob)"
    and last: "last_of ''a'' ob = 2"
    by (simp add: poll_def page_events_def events_after_def type_wanted_def number_wanted_def first_call_def second_call_def
        outbox_step_def insert_event_def free_key_def example_routed routed_event_fields
      stream_of_def Let_def put_stream_def row_at_def last_of_def outbox_empty_def stream_empty_def new_row_def I64_MAX_def)
  have "\<exists>c'. after' = Some c' \<and> c' \<le> 2 \<and> (\<forall>e\<in>set es. wanted ?q e \<and> 0 < ev_sequence e \<and> ev_sequence e \<le> c')"
    using polling_misses_nothing[where parse = no_json and calls = "[first_call]", OF _ _ _ polls, of 0] last
    by (auto simp: example_rows I64_MAX_def simp del: outbox_run_simps)
  with polls show ?thesis
    by (intro exI[of _ ?q] exI[of _ es] exI[of _ after'] exI[of _ ob] conjI) simp_all
qed

section \<open>Keys\<close>

text \<open>
  What a key hashes says what it is of: the number and the library's key, or the number, the body, the
  position and the data. (A number is digits, a digest 32 bytes.)
\<close>

lemma split_nul: "CHR 0x00 \<notin> set a \<Longrightarrow> CHR 0x00 \<notin> set b \<Longrightarrow> a @ CHR 0x00 # r = b @ CHR 0x00 # s \<Longrightarrow> a = b \<and> r = s"
  by (induction a arbitrary: b) (auto simp: Cons_eq_append_conv append_eq_Cons_conv)

definition key_ok :: "(string \<Rightarrow> string) \<Rightarrow> event_key \<Rightarrow> string option \<Rightarrow> string \<Rightarrow> bool" where
  "key_ok sha key pn data \<longleftrightarrow>
     (\<forall>n. pn = Some n \<longrightarrow> n \<noteq> [] \<and> CHR 0x00 \<notin> set n)
     \<and> (\<forall>body position. key = DeliveryKey body position \<longrightarrow>
          length body = 32 \<and> position \<le> U64_MAX \<and> length (sha data) = 32)"

lemma key_preimage_inj:
  assumes "key_preimage sha key pn data = key_preimage sha key' pn' data'"
    and "key_ok sha key pn data" "key_ok sha key' pn' data'"
  shows "pn = pn' \<and> key = key' \<and> (\<forall>body position. key = DeliveryKey body position \<longrightarrow> sha data = sha data')"
proof -
  let ?n = "case pn of Some n \<Rightarrow> n | None \<Rightarrow> []" and ?n' = "case pn' of Some n \<Rightarrow> n | None \<Rightarrow> []"
  let ?rest = "\<lambda>key data. case key of LibraryKey k \<Rightarrow> ''library'' @ [CHR 0x00] @ k
    | DeliveryKey body position \<Rightarrow> ''delivery'' @ [CHR 0x00] @ body @ u64_be (min U64_MAX position) @ sha data"
  have "?n @ CHR 0x00 # ?rest key data = ?n' @ CHR 0x00 # ?rest key' data'"
    using assms(1) by (simp add: key_preimage_def)
  moreover have "CHR 0x00 \<notin> set ?n" "CHR 0x00 \<notin> set ?n'"
    using assms(2,3) by (auto simp: key_ok_def split: option.splits)
  ultimately have n: "?n = ?n'" and rest: "?rest key data = ?rest key' data'" using split_nul by blast+
  have "pn = pn'" using n assms(2,3) by (auto simp: key_ok_def split: option.splits)
  moreover have "key = key' \<and> (\<forall>body position. key = DeliveryKey body position \<longrightarrow> sha data = sha data')"
  proof (cases key)
    case (LibraryKey k)
    then show ?thesis using rest by (cases key') auto
  next
    case (DeliveryKey body position)
    then obtain body' position' where key': "key' = DeliveryKey body' position'"
      using rest by (cases key') auto
    have "body @ u64_be position @ sha data = body' @ u64_be position' @ sha data'"
      using rest DeliveryKey key' assms(2,3) by (simp add: key_ok_def min_absorb2)
    then have "body = body'" "u64_be position @ sha data = u64_be position' @ sha data'"
      using assms(2,3) DeliveryKey key' by (simp_all add: key_ok_def)
    then show ?thesis using u64_be_apart[of position "sha data" position' "sha data'"] assms(2,3) DeliveryKey key'
      by (auto simp: key_ok_def U64_MAX_def)
  qed
  ultimately show ?thesis by blast
qed

end
