(* ===== verification/Spec2Isabelle.thy ===== *)
theory Spec2Isabelle
  imports Webhook_Handler Otp_Race Otp_Limit Conversation_Store Job_Safety Service_Error Fingerprints
    Server_Safety Idempotency_Safety Event_Safety
begin

text \<open>
  A model of the core of meta-whatsapp-rs, a Rust workspace for the WhatsApp Cloud API, and the
  theorems that make it correct. All paths are under \<open>src/crates\<close>.

  The program. \<open>meta-whatsapp-core\<close> has the error tree every crate answers with, the ports (the
  key/value store, the conversation store) and the plain data. \<open>meta-whatsapp-adapters\<close> implements
  the ports, in process and on databases. \<open>meta-whatsapp-webhooks\<close> receives Meta's deliveries: it
  checks their signature, claims each event once in the key/value store and hands it to the
  application's sink. \<open>meta-whatsapp-client\<close> calls the Graph API; its passcode service keeps
  challenges in the same store. The conversation store records what the sink and the client saw.
  \<open>meta-whatsapp-bot\<close> answers events with handlers and sends scheduled jobs, each recipient under a
  marker in its job store. \<open>meta-whatsapp-server-core\<close> is a service for many tenants over all of it:
  it keeps tenants, API keys and the bindings of WABAs and numbers to tenants, routes every received
  event to the outbox of the tenant it belongs to, and runs an operation once per idempotency key;
  \<open>meta-whatsapp-server-store-memory\<close> is its store in process.

  The theories, in the order the program builds on them.

  \<open>Prelude\<close>: instants as integers of nanoseconds within the range of \<open>OffsetDateTime\<close>, durations,
  JSON values, hash maps as association lists, ordered sets as sorted lists.

  \<open>Error_Tree\<close> (\<open>core/src/error/*.rs\<close>): every error type as a datatype, the classification of Graph
  error codes, and the questions \<open>kind\<close>, \<open>is_retryable\<close>, \<open>may_have_been_sent\<close> and \<open>may_resend\<close>.
  The lemmas say which codes are retryable, that wrapping in steps changes no answer, and exactly
  which errors may be resent without asking.

  \<open>Kv_Store\<close>, \<open>Memory_Kv\<close>, \<open>Kv_Prog\<close> (\<open>core/src/store/mod.rs\<close>, \<open>adapters/src/store/memory_kv.rs\<close>): the
  port as a record of methods with its contract as the locale \<open>kv_store\<close>, the in-process adapter
  with the interpretation that it keeps the contract, and programs over the port: trees whose
  nodes are single store calls, run alone (\<open>exec\<close>) or interleaved with failures (\<open>pool_step\<close>). The
  lemmas: versions never repeat, a swap succeeds once, a lifetime is exact, and a purge changes no
  answer of any run of calls after it.

  \<open>Signature\<close>, \<open>Dedup\<close>, \<open>Webhook_Handler\<close> (\<open>webhooks/src/signature.rs\<close>, \<open>verify.rs\<close>, \<open>dedup.rs\<close>,
  \<open>handler.rs\<close>, \<open>server.rs\<close>): the signature check, the handshake, the claims, and the whole delivery
  from the HTTP request to the answer. The lemmas compute each step on any store that keeps the
  contract; the theorems say what every header is answered, and follow sequences of requests and
  interleaved claims: no event with a key is accepted twice, none, with a key or without, is
  acknowledged before it is accepted, a redelivery gets through.

  \<open>Otp\<close>, \<open>Otp_Verify\<close>, \<open>Otp_Race\<close>, \<open>Otp_Limit\<close> (\<open>client/src/authentication/otp.rs\<close>): the passcode
  service. What a verification that runs alone does in each case and leaves in the store; that
  interleaved guesses are compared at most as often as attempts are left; that interleaved requests
  are granted at most the limit in a rolling window, less the longest time a request takes
  (\<open>late_write_forgets\<close> shows that margin is needed).

  \<open>Conversation\<close>, \<open>Ordered_Index\<close>, \<open>Memory_Conversation\<close>, \<open>Memory_Erasure\<close>
  (\<open>core/src/store/conversation.rs\<close>, \<open>adapters/src/store/memory_conversation.rs\<close>): the conversation
  store's data and all its operations, the record \<open>conv_state\<close> having the fields of \<open>State\<close>.
  \<open>Conversation_Invariant\<close> states what its indexes keep to, \<open>Conversation_Spec\<close> the specification by
  finite maps, and \<open>Conversation_Refinement\<close>, \<open>_Bulk\<close>, \<open>_Trim\<close>, \<open>_Erase\<close> and \<open>_Erase_All\<close> that each
  operation keeps the one and refines the other. \<open>Conversation_Paging\<close> reads listings page by page:
  the locale \<open>paged\<close>, interpreted on the four listings. \<open>Conversation_Runs\<close>, \<open>_Effects\<close> and \<open>_Readers\<close>
  say what runs of calls leave and what readers find, and \<open>Conversation_Store\<close> has the properties.

  \<open>Programs\<close>: code that awaits, as trees of store calls, clock readings and outside calls.

  \<open>Recipients\<close>, \<open>Jobs\<close>, \<open>Memory_Jobs\<close>, \<open>Job_Runner\<close> (\<open>bot/src/jobs/mod.rs\<close>, \<open>port.rs\<close>, \<open>memory.rs\<close>,
  \<open>runner.rs\<close>, the identities of \<open>broadcast.rs\<close>): scheduled sends. The port is a record of methods, the
  part of its contract the runner rests on the locale \<open>job_store\<close>, interpreted on the in-process
  store; a pass, a send with its marker and a tick are programs whose nodes are store calls, readings
  of the clock and requests. \<open>Job_Sends\<close> interleaves any number of sends with crashes and lost calls,
  inside the locale; \<open>Job_Claims\<close> follows sequences of calls on the store; \<open>Job_Safety\<close> has the
  properties: at most one request that may have done something, leases and cancels that hold, jobs
  that come back, a summary that counts everyone.

  \<open>Service_Error\<close>, \<open>Fingerprints\<close> (\<open>server-core/src/error.rs\<close>, \<open>idempotency.rs\<close>): the server's answer
  to every error of the library, and the bytes an idempotency key is bound to: they determine the
  operation and its input.

  \<open>Server_Model\<close>, \<open>Server_Records\<close>, \<open>Server_Invariant\<close>, \<open>Server_Bindings\<close>, \<open>Server_Safety\<close>
  (\<open>server-core/src/model.rs\<close>, \<open>store.rs\<close>, \<open>server-store-memory/src/memory.rs\<close>): the server's records,
  \<open>srv_state\<close> having the maps of \<open>State\<close> and \<open>srv_step\<close> being any call. The invariant says the records
  refer to what exists; the history of releases is an abstract state read off the holders before and
  after each call, and the locale \<open>tombstones\<close>, interpreted on both kinds of tombstone, shows that
  they record it. The theorems: no takeover, an epoch that ended is refused, the last move is known.

  \<open>Outbox\<close>, \<open>Memory_Outbox\<close>, \<open>Outbox_Invariant\<close>, \<open>Outbox_Safety\<close> (\<open>server-core/src/outbox.rs\<close>,
  \<open>server-store-memory/src/events.rs\<close>): the event outbox, a stream of sequences per tenant, whose
  inserts check the routing on the records. The invariant bounds a stream's rows and ties the dedup
  index to them, with one lemma per operation saying what it leaves at each number. The theorems: an
  event is recorded once, only for the holder of its WABA and number; a row never changes and a number
  is never used twice; a reader of pages misses nothing.

  \<open>Event_Routing\<close>, \<open>Event_Safety\<close> (\<open>server-core/src/events.rs\<close>): whose an event is, the row it becomes,
  its key and id, and polling. The insert keeps what routing decided as long as the bindings stand, a
  tenant that polls misses nothing whatever runs between its polls, and what a key hashes determines it.

  \<open>Idempotency\<close>, \<open>Idempotency_Runs\<close>, \<open>Idempotency_Safety\<close> (\<open>server-core/src/idempotency.rs\<close>): a
  request under an idempotency key as a program over a port of records, whose laws are the locale
  \<open>idempotency_records\<close>, interpreted on the records in memory. A pool interleaves requests that may be
  cut, stop or lose a store call; inside the locale, a request whose operation ran owns its key until
  the key expires. The theorems: an operation runs once per key unless it proved nothing was sent, and
  a repeat gets the kept answer.

  Choices. An operation that holds a lock is one function from state to answer and state; one that
  awaits between store calls is a program, so that others may run in between. The current instant
  is an argument, or a step of the program. Versions (\<open>u64\<close>) and counters (\<open>u32\<close>, \<open>u64\<close>) are naturals
  where no operation can reach their bound, with the saturation or the check written out where one
  can. Identifiers are texts. A panic (a date past the type's range) is the value \<open>None\<close>.

  Bounds and fuel. A claim looks at most twice (\<open>claim_rounds\<close> 2, as the code's loop); a loop of
  compare-and-swaps has the code's budget, \<open>cas_budget\<close>, \<open>max_attempts + 64\<close>; drawing a code runs on
  fuel, and \<open>random_code_returns\<close> shows how many bytes of the generator are enough; a reader of pages
  needs one page more than there are rows. The search for a person's identities has no fuel: it
  ends because each round takes one text off its stack and puts on only new ones.

  Parameters. HMAC-SHA256, SHA-256, serde's codecs, the payload parser and the event's dedup key,
  the HTTP header reading, the Unicode tables, the random generator, the sink, the dead-letter store,
  the Graph API, an operation run under a key, and what a paced broadcast answers for the recipients it was given.

  Not modelled: the database and Redis adapters (SQL and Lua, decided by the servers), network
  transport, serde data definitions, request builders, Axum routing and start-up code, logging and
  \<open>Debug\<close> output, and the server's services over the vault and the Graph client. Left out too: the
  bot's pacer and broadcast, the server's rate limits and webhook deliveries, the embedded-signup
  ledger, template validation, the retry policy of \<open>client/src/request.rs\<close>, dead-letter replay, the
  event's dedup key and date, the inbox.
\<close>

end
